(* ===== verification/Prelude.thy ===== *)
theory Prelude
  imports Main "HOL-Library.AList"
begin

text \<open>
  Shared vocabulary of the development: Python's early exits as values of a sum type
  (\<open>bindE\<close>, \<open>guardE\<close>, \<open>forE\<close>), the truthiness and \<open>or\<close> of optional strings, the string
  methods the sources call (\<open>strip\<close>, \<open>split\<close>, \<open>upper\<close>, \<open>startswith\<close>), insertion-ordered
  dictionaries as association lists, and the clock.  Every other theory imports this one.
\<close>

named_theorems result_simps \<open>unfolding of the error monad over successful results\<close>

section \<open>Errors as values\<close>

text \<open>\<open>Inl e\<close> is a raised exception, \<open>Inr a\<close> a normal return.\<close>

type_synonym ('e, 'a) outcome = "'e + 'a"

primrec bindE :: "('e, 'a) outcome \<Rightarrow> ('a \<Rightarrow> ('e, 'b) outcome) \<Rightarrow> ('e, 'b) outcome" where
  "bindE (Inr a) f = f a"
| "bindE (Inl e) f = Inl e"

text \<open>\<open>guardE ok e\<close> is \<^verbatim>\<open>if not ok: raise e\<close>.\<close>

definition guardE :: "bool \<Rightarrow> 'e \<Rightarrow> 'e + unit" where
  "guardE ok e = (if ok then Inr () else Inl e)"

text \<open>A \<^verbatim>\<open>for\<close> loop whose body only raises or falls through.\<close>

fun forE :: "('a \<Rightarrow> 'e + unit) \<Rightarrow> 'a list \<Rightarrow> 'e + unit" where
  "forE f [] = Inr ()"
| "forE f (x # xs) = bindE (f x) (\<lambda>_. forE f xs)"

text \<open>A loop that collects the lists its body yields.\<close>

fun collectE :: "('a \<Rightarrow> 'e + 'b list) \<Rightarrow> 'a list \<Rightarrow> 'e + 'b list" where
  "collectE f [] = Inr []"
| "collectE f (x # xs) = bindE (f x) (\<lambda>ys. bindE (collectE f xs) (\<lambda>zs. Inr (ys @ zs)))"

lemma bindE_Inr_iff [result_simps]: "bindE m f = Inr b \<longleftrightarrow> (\<exists>a. m = Inr a \<and> f a = Inr b)"
  by (cases m) auto

lemma bindE_Inl_iff: "bindE m f = Inl e \<longleftrightarrow> m = Inl e \<or> (\<exists>a. m = Inr a \<and> f a = Inl e)"
  by (cases m) auto

lemma bindE_cong [fundef_cong]:
  "m = m' \<Longrightarrow> (\<And>a. m' = Inr a \<Longrightarrow> f a = f' a) \<Longrightarrow> bindE m f = bindE m' f'"
  by (cases m) auto

lemma guardE_Inr_iff [simp]: "guardE ok e = Inr u \<longleftrightarrow> ok"
  by (simp add: guardE_def)

lemma guardE_Inl_iff [simp]: "guardE ok e = Inl e' \<longleftrightarrow> \<not> ok \<and> e' = e"
  by (auto simp: guardE_def)

lemma forE_Inr_iff [result_simps]: "forE f xs = Inr u \<longleftrightarrow> (\<forall>x \<in> set xs. f x = Inr ())"
  by (induction xs) (auto simp: bindE_Inr_iff)

lemma forE_Inl: "forE f xs = Inl e \<Longrightarrow> \<exists>x \<in> set xs. f x = Inl e"
  by (induction xs) (auto simp: bindE_Inl_iff)

lemma forE_cong [fundef_cong]:
  "xs = ys \<Longrightarrow> (\<And>x. x \<in> set ys \<Longrightarrow> f x = g x) \<Longrightarrow> forE f xs = forE g ys"
proof (induction xs arbitrary: ys)
  case (Cons x xs)
  then show ?case by (cases ys) (auto intro: bindE_cong)
qed simp

lemma collectE_cong [fundef_cong]:
  "xs = ys \<Longrightarrow> (\<And>x. x \<in> set ys \<Longrightarrow> f x = g x) \<Longrightarrow> collectE f xs = collectE g ys"
proof (induction xs arbitrary: ys)
  case (Cons x xs)
  then show ?case by (cases ys) (auto intro!: bindE_cong)
qed simp

lemma collectE_Inr_Cons:
  "collectE f (x # xs) = Inr zs \<longleftrightarrow>
     (\<exists>ys ys'. f x = Inr ys \<and> collectE f xs = Inr ys' \<and> zs = ys @ ys')"
  by (auto simp: bindE_Inr_iff)

lemma collectE_Inr_memD:
  "collectE f xs = Inr zs \<Longrightarrow> z \<in> set zs \<Longrightarrow> \<exists>x \<in> set xs. \<exists>ys. f x = Inr ys \<and> z \<in> set ys"
  by (induction xs arbitrary: zs) (fastforce simp: bindE_Inr_iff)+

lemma collectE_Inr_memI:
  "collectE f xs = Inr zs \<Longrightarrow> x \<in> set xs \<Longrightarrow> f x = Inr ys \<Longrightarrow> set ys \<subseteq> set zs"
  by (induction xs arbitrary: zs) (fastforce simp: bindE_Inr_iff)+

section \<open>Optional strings\<close>

text \<open>Python's truthiness of \<^verbatim>\<open>str | None\<close> and the operator \<^verbatim>\<open>or\<close> on it.\<close>

definition truthy :: "string option \<Rightarrow> bool" where
  "truthy s = (case s of None \<Rightarrow> False | Some x \<Rightarrow> x \<noteq> [])"

definition py_or :: "string option \<Rightarrow> string option \<Rightarrow> string option" where
  "py_or a b = (if truthy a then a else b)"

lemma truthy_simps [simp]: "\<not> truthy None" "truthy (Some x) \<longleftrightarrow> x \<noteq> []"
  by (simp_all add: truthy_def)

lemma truthy_not_None: "truthy s \<Longrightarrow> s \<noteq> None"
  by (cases s) auto

lemma truthyE: "truthy s \<Longrightarrow> (\<And>x. s = Some x \<Longrightarrow> x \<noteq> [] \<Longrightarrow> P) \<Longrightarrow> P"
  by (cases s) auto

section \<open>Strings\<close>

text \<open>
  A string is a list of characters with code points below 128; characters outside ASCII
  are not distinguished by any operation modelled here.
\<close>

definition is_space :: "char \<Rightarrow> bool" where
  "is_space c = (c \<in> {CHR '' '', CHR 0x09, CHR 0x0A, CHR 0x0B, CHR 0x0C, CHR 0x0D,
                     CHR 0x1C, CHR 0x1D, CHR 0x1E, CHR 0x1F})"

definition is_digit :: "char \<Rightarrow> bool" where
  "is_digit c = (of_char c \<ge> (48 :: nat) \<and> of_char c \<le> (57 :: nat))"

definition is_lower :: "char \<Rightarrow> bool" where
  "is_lower c = (of_char c \<ge> (97 :: nat) \<and> of_char c \<le> (122 :: nat))"

definition is_upper :: "char \<Rightarrow> bool" where
  "is_upper c = (of_char c \<ge> (65 :: nat) \<and> of_char c \<le> (90 :: nat))"

definition is_word :: "char \<Rightarrow> bool" where
  "is_word c = (is_lower c \<or> is_upper c \<or> is_digit c \<or> c = CHR ''_'')"

definition to_upper :: "char \<Rightarrow> char" where
  "to_upper c = (if is_lower c then char_of (of_char c - 32 :: nat) else c)"

definition to_lower :: "char \<Rightarrow> char" where
  "to_lower c = (if is_upper c then char_of (of_char c + 32 :: nat) else c)"

abbreviation py_upper :: "string \<Rightarrow> string" where "py_upper \<equiv> map to_upper"
abbreviation py_lower :: "string \<Rightarrow> string" where "py_lower \<equiv> map to_lower"

definition py_strip :: "string \<Rightarrow> string" where
  "py_strip s = rev (dropWhile is_space (rev (dropWhile is_space s)))"

lemma dropWhile_idem: "dropWhile P (dropWhile P xs) = dropWhile P xs"
  by (induction xs) auto

lemma rev_dropWhile_hd:
  assumes "dropWhile P xs = xs"
  shows "dropWhile P (rev (dropWhile P (rev xs))) = rev (dropWhile P (rev xs))"
proof (cases "rev (dropWhile P (rev xs))")
  case (Cons y ys)
  have "\<exists>zs. xs = rev (dropWhile P (rev xs)) @ zs"
    by (metis rev_append rev_rev_ident takeWhile_dropWhile_id)
  then obtain zs where "xs = y # ys @ zs" using Cons by auto
  with assms have "\<not> P y"
    by (metis dropWhile_eq_self_iff list.distinct(1) list.sel(1))
  then show ?thesis using Cons by simp
next
  case Nil
  then show ?thesis by (metis dropWhile.simps(1))
qed

lemma py_strip_idem [simp]: "py_strip (py_strip s) = py_strip s"
proof -
  let ?t = "dropWhile is_space s"
  have "dropWhile is_space (py_strip s) = py_strip s"
    unfolding py_strip_def by (rule rev_dropWhile_hd) (rule dropWhile_idem)
  then show ?thesis
    unfolding py_strip_def by (simp add: dropWhile_idem)
qed

text \<open>\<^verbatim>\<open>s.split()\<close>: maximal runs of non-space characters.\<close>

function py_split :: "string \<Rightarrow> string list" where
  "py_split s =
     (let t = dropWhile is_space s
      in if t = [] then []
         else takeWhile (\<lambda>c. \<not> is_space c) t # py_split (dropWhile (\<lambda>c. \<not> is_space c) t))"
  by pat_completeness auto
termination
proof (relation "measure length")
  fix s t :: string
  assume t: "t = dropWhile is_space s" and ne: "t \<noteq> []"
  from ne obtain c r where "t = c # r" by (meson neq_Nil_conv)
  moreover from this t have "\<not> is_space c"
    by (metis hd_dropWhile list.sel(1) ne)
  moreover have "length (dropWhile (\<lambda>c. \<not> is_space c) r) \<le> length r"
    by (rule length_dropWhile_le)
  moreover have "length t \<le> length s" using t by (simp add: length_dropWhile_le)
  ultimately show "(dropWhile (\<lambda>c. \<not> is_space c) t, s) \<in> measure length" by simp
qed simp

declare py_split.simps [simp del]

definition starts_with :: "string \<Rightarrow> string \<Rightarrow> bool" where
  "starts_with p s = (take (length p) s = p)"

definition ends_with :: "string \<Rightarrow> string \<Rightarrow> bool" where
  "ends_with p s = (length p \<le> length s \<and> drop (length s - length p) s = p)"

lemma starts_with_append [simp]: "starts_with p (p @ s)"
  by (simp add: starts_with_def)

lemma starts_with_iff: "starts_with p s \<longleftrightarrow> (\<exists>r. s = p @ r)"
proof
  assume "starts_with p s"
  then have "s = p @ drop (length p) s"
    unfolding starts_with_def by (metis append_take_drop_id)
  then show "\<exists>r. s = p @ r" by blast
qed auto

lemma dropWhile_neq_append: "x \<notin> set c \<Longrightarrow> dropWhile (\<lambda>d. d \<noteq> x) (c @ x # s) = x # s"
  by (induction c) auto

text \<open>Decimal notation of a number, as \<^verbatim>\<open>str(n)\<close> prints it.\<close>

fun nat_digits :: "nat \<Rightarrow> string" where
  "nat_digits n =
     (if n < 10 then [char_of (48 + n)] else nat_digits (n div 10) @ [char_of (48 + n mod 10)])"

declare nat_digits.simps [simp del]

definition int_digits :: "int \<Rightarrow> string" where
  "int_digits i = (if i < 0 then CHR ''-'' # nat_digits (nat (- i)) else nat_digits (nat i))"

section \<open>Dictionaries\<close>

text \<open>
  A Python \<^verbatim>\<open>dict\<close> keeps insertion order: an association list with \<open>AList.update\<close>
  (overwrite in place or append) and \<open>AList.delete\<close>.
\<close>

type_synonym 'v dict = "(string \<times> 'v) list"

abbreviation dict_keys :: "'v dict \<Rightarrow> string set" where "dict_keys d \<equiv> fst ` set d"

definition dict_ok :: "'v dict \<Rightarrow> bool" where
  "dict_ok d = distinct (map fst d)"

lemma dict_ok_Nil [simp]: "dict_ok []"
  by (simp add: dict_ok_def)

lemma dict_ok_update [simp]: "dict_ok d \<Longrightarrow> dict_ok (AList.update k v d)"
  by (simp add: dict_ok_def distinct_update)

lemma dict_ok_delete [simp]: "dict_ok d \<Longrightarrow> dict_ok (AList.delete k d)"
  by (simp add: dict_ok_def distinct_delete)

lemma dict_get_update [simp]:
  "map_of (AList.update k v d) k' = (if k' = k then Some v else map_of d k')"
  by (simp add: update_conv')

lemma dict_get_delete [simp]:
  "map_of (AList.delete k d) k' = (if k' = k then None else map_of d k')"
  by (simp add: delete_conv')

lemma dict_values_update:
  "dict_ok d \<Longrightarrow> set (AList.update k v d) = insert (k, v) {(k', v') \<in> set d. k' \<noteq> k}"
  by (induction d) (auto simp: dict_ok_def image_iff)

lemma dict_ok_mem_iff: "dict_ok d \<Longrightarrow> (k, v) \<in> set d \<longleftrightarrow> map_of d k = Some v"
  by (simp add: dict_ok_def)

lemma dict_values_iff:
  assumes "dict_ok d" and "\<And>k v. map_of d k = Some v \<Longrightarrow> f v = k"
  shows "v \<in> snd ` set d \<longleftrightarrow> map_of d (f v) = Some v"
proof
  assume "v \<in> snd ` set d"
  then obtain k where "(k, v) \<in> set d" by auto
  with assms have "map_of d k = Some v" by (simp add: dict_ok_def)
  with assms(2) show "map_of d (f v) = Some v" by metis
next
  assume "map_of d (f v) = Some v"
  then show "v \<in> snd ` set d" by (force dest: map_of_SomeD)
qed

lemma dict_ok_map_values [simp]: "dict_ok (map (\<lambda>(k, v). (k, f k v)) d) = dict_ok d"
  by (simp add: dict_ok_def case_prod_beta' comp_def)

lemma map_of_map_values:
  "map_of (map (\<lambda>(k, v). (k, f k v)) d) k = map_option (f k) (map_of d k)"
  by (induction d) auto

section \<open>Time\<close>

text \<open>
  Instants and durations are whole microseconds, the resolution of
  \<^verbatim>\<open>datetime\<close>; the monotonic clock is read at the same resolution.
\<close>

type_synonym time = int

definition seconds :: "int \<Rightarrow> time" where "seconds n = n * 1000000"
definition minutes :: "int \<Rightarrow> time" where "minutes n = seconds (60 * n)"
definition days :: "int \<Rightarrow> time" where "days n = seconds (86400 * n)"

end
