(* ===== verification/Json.thy ===== *)
theory Json
  imports Prelude
begin

text \<open>
  The dynamic values the sources pass around as \<^verbatim>\<open>Any\<close>: token claims, step
  dictionaries, cell literals.  A value is what \<^verbatim>\<open>json.loads\<close> returns.  A float is
  identified by its \<^verbatim>\<open>repr\<close>, which determines it; no operation modelled on these
  values does arithmetic on it.  An object is a dictionary in insertion order with distinct
  keys.
\<close>

datatype json =
    JNull
  | JBool bool
  | JInt int
  | JFloat string
  | JStr string
  | JList "json list"
  | JObj "(string \<times> json) list"

type_synonym jobj = "(string \<times> json) list"

text \<open>\<^verbatim>\<open>bool(v)\<close>.\<close>

fun jtrue :: "json \<Rightarrow> bool" where
  "jtrue JNull = False"
| "jtrue (JBool b) = b"
| "jtrue (JInt i) = (i \<noteq> 0)"
| "jtrue (JFloat r) = (r \<noteq> ''0.0'' \<and> r \<noteq> ''-0.0'')"
| "jtrue (JStr s) = (s \<noteq> [])"
| "jtrue (JList xs) = (xs \<noteq> [])"
| "jtrue (JObj kvs) = (kvs \<noteq> [])"

text \<open>\<^verbatim>\<open>d.get(k)\<close> of a dictionary: \<open>JNull\<close> (\<^verbatim>\<open>None\<close>) when the key is missing.\<close>

definition jget :: "jobj \<Rightarrow> string \<Rightarrow> json" where
  "jget d k = (case map_of d k of None \<Rightarrow> JNull | Some v \<Rightarrow> v)"

definition jor :: "json \<Rightarrow> json \<Rightarrow> json" where
  "jor a b = (if jtrue a then a else b)"

text \<open>\<^verbatim>\<open>for x in v\<close>: the elements iterated over, or a \<^verbatim>\<open>TypeError\<close> (\<open>None\<close>).\<close>

fun jiter :: "json \<Rightarrow> json list option" where
  "jiter (JList xs) = Some xs"
| "jiter (JStr s) = Some (map (\<lambda>c. JStr [c]) s)"
| "jiter (JObj kvs) = Some (map (\<lambda>(k, _). JStr k) kvs)"
| "jiter _ = None"

definition is_obj :: "json \<Rightarrow> bool" where
  "is_obj v = (case v of JObj _ \<Rightarrow> True | _ \<Rightarrow> False)"

section \<open>str and repr\<close>

definition hex_digit :: "nat \<Rightarrow> char" where
  "hex_digit n = (if n < 10 then char_of (48 + n) else char_of (87 + n))"

definition escape_char :: "char \<Rightarrow> char \<Rightarrow> string" where
  "escape_char q c =
     (let n = of_char c :: nat
      in if c = q \<or> n = 92 then [char_of (92 :: nat), c]
         else if n = 10 then [char_of (92 :: nat), CHR ''n'']
         else if n = 13 then [char_of (92 :: nat), CHR ''r'']
         else if n = 9 then [char_of (92 :: nat), CHR ''t'']
         else if n < 32 \<or> n = 127
              then [char_of (92 :: nat), CHR ''x'', hex_digit (n div 16), hex_digit (n mod 16)]
         else [c])"

text \<open>A string literal: single quotes, unless it holds a single and no double quote.\<close>

definition repr_str :: "string \<Rightarrow> string" where
  "repr_str s =
     (let q = (if CHR 0x27 \<in> set s \<and> CHR 0x22 \<notin> set s then CHR 0x22 else CHR 0x27)
      in [q] @ List.maps (escape_char q) s @ [q])"

fun join :: "string \<Rightarrow> string list \<Rightarrow> string" where
  "join sep [] = []"
| "join sep [x] = x"
| "join sep (x # y # ys) = x @ sep @ join sep (y # ys)"

fun py_repr :: "json \<Rightarrow> string" where
  "py_repr JNull = ''None''"
| "py_repr (JBool b) = (if b then ''True'' else ''False'')"
| "py_repr (JInt i) = int_digits i"
| "py_repr (JFloat r) = r"
| "py_repr (JStr s) = repr_str s"
| "py_repr (JList xs) = ''['' @ join '', '' (map py_repr xs) @ '']''"
| "py_repr (JObj kvs) =
     ''{'' @ join '', '' (map (\<lambda>(k, v). repr_str k @ '': '' @ py_repr v) kvs) @ ''}''"

definition py_str :: "json \<Rightarrow> string" where
  "py_str v = (case v of JStr s \<Rightarrow> s | _ \<Rightarrow> py_repr v)"

lemma py_str_JStr [simp]: "py_str (JStr s) = s"
  by (simp add: py_str_def)

section \<open>Lookup\<close>

lemma jget_size: "map_of d k = Some v \<Longrightarrow> size v < Suc (size_list (size_prod (\<lambda>_. 0) size) d)"
  by (induction d) (auto split: if_splits)

lemma jget_Nil [simp]: "jget [] k = JNull"
  by (simp add: jget_def)

lemma jget_Cons [simp]: "jget ((k', v) # d) k = (if k = k' then v else jget d k)"
  by (simp add: jget_def)

lemma jget_update [simp]:
  "jget (AList.update k v d) k' = (if k' = k then v else jget d k')"
  by (simp add: jget_def)

lemma jtrue_jget_mem: "jtrue (jget d k) \<Longrightarrow> (k, jget d k) \<in> set d"
  by (auto simp: jget_def split: option.splits dest: map_of_SomeD)

end
