(* ===== verification/Authorization.thy ===== *)
theory Authorization
  imports Json
begin

text \<open>
  Role-based authorization (\<^verbatim>\<open>app/infrastructure/auth/authorization.py\<close>) and the part of the
  login step that chooses the roles it is evaluated on (\<^verbatim>\<open>effective_roles\<close>,
  \<^verbatim>\<open>with_profile\<close> of \<^verbatim>\<open>app/application/login.py\<close>).  The two context variables
  are explicit arguments: a permission set or \<open>None\<close> (nothing bound), a subject or \<open>None\<close>.
\<close>

section \<open>Permissions and roles\<close>

datatype permission = ACCESS | READ | WRITE | DELETE | ADMIN | SUPER_ADMIN

lemma UNIV_permission: "(UNIV :: permission set) = {ACCESS, READ, WRITE, DELETE, ADMIN, SUPER_ADMIN}"
  using permission.exhaust by auto

definition all_permissions :: "permission set" where
  "all_permissions = {ACCESS, READ, WRITE, DELETE, ADMIN, SUPER_ADMIN}"

lemma all_permissions_iff [simp]: "p \<in> all_permissions"
  by (cases p) (auto simp: all_permissions_def)

text \<open>\<^verbatim>\<open>_KEY_FORBIDDEN_PERMISSIONS\<close>.\<close>

definition key_forbidden :: "permission set" where
  "key_forbidden = {ADMIN, SUPER_ADMIN}"

text \<open>The inner \<^verbatim>\<open>_names\<close>: a dictionary's keys, a list's items, a string's words.\<close>

fun role_names :: "json \<Rightarrow> string set" where
  "role_names (JObj kvs) = set (map fst kvs)"
| "role_names (JList vs) = set (map py_str vs)"
| "role_names (JStr s) = {part. part \<in> set (py_split s) \<and> part \<noteq> []}"
| "role_names _ = {}"

definition project_roles_claim :: "string \<Rightarrow> string" where
  "project_roles_claim pid = ''urn:zitadel:iam:org:project:'' @ pid @ '':roles''"

definition is_project_roles_key :: "string \<Rightarrow> bool" where
  "is_project_roles_key k =
     (starts_with ''urn:zitadel:iam:org:project'' k \<and> ends_with '':roles'' k)"

definition extract_roles :: "jobj \<Rightarrow> string option \<Rightarrow> string set" where
  "extract_roles claims project_id =
     (let roles = role_names (jget claims ''roles'');
          project = (if truthy project_id
                     then role_names (jget claims (project_roles_claim (the project_id)))
                     else {})
      in if roles \<noteq> {} then roles
         else if project \<noteq> {} then project
         else \<Union> (set (map (\<lambda>(k, v). if is_project_roles_key k then role_names v else {}) claims)))"

section \<open>The policy\<close>

record policy =
  enforce :: bool
  project_id :: "string option"
  access_roles :: "string set"
  read_roles :: "string set"
  write_roles :: "string set"
  delete_roles :: "string set"
  admin_roles :: "string set"
  super_admin_roles :: "string set"
  deny_roles :: "string set"

definition effective_super_admin_roles :: "policy \<Rightarrow> string set" where
  "effective_super_admin_roles p =
     (if super_admin_roles p \<noteq> {} then super_admin_roles p else admin_roles p)"

text \<open>
  \<^verbatim>\<open>_norm\<close>: configured names, stripped, blanks dropped.  The settings object is a record
  of the attributes \<^verbatim>\<open>from_settings\<close> reads, \<open>None\<close> for one it does not have.
\<close>

definition norm_roles :: "string list option \<Rightarrow> string set" where
  "norm_roles roles =
     set (map py_strip (filter (\<lambda>r. r \<noteq> [] \<and> py_strip r \<noteq> [])
       (case roles of None \<Rightarrow> [] | Some rs \<Rightarrow> rs)))"

record auth_settings =
  auth_enforce_permissions :: "bool option"
  auth_project_id :: "string option"
  auth_access_roles :: "string list option"
  auth_read_roles :: "string list option"
  auth_write_roles :: "string list option"
  auth_delete_roles :: "string list option"
  auth_admin_roles :: "string list option"
  auth_super_admin_roles :: "string list option"
  auth_deny_roles :: "string list option"

definition from_settings :: "auth_settings \<Rightarrow> policy" where
  "from_settings s = \<lparr>
     enforce = (auth_enforce_permissions s = Some True),
     project_id = auth_project_id s,
     access_roles = norm_roles (auth_access_roles s),
     read_roles = norm_roles (auth_read_roles s),
     write_roles = norm_roles (auth_write_roles s),
     delete_roles = norm_roles (auth_delete_roles s),
     admin_roles = norm_roles (auth_admin_roles s),
     super_admin_roles = norm_roles (auth_super_admin_roles s),
     deny_roles = norm_roles (auth_deny_roles s)\<rparr>"

definition denied_roles :: "policy \<Rightarrow> string set \<Rightarrow> string set" where
  "denied_roles p roles = roles \<inter> deny_roles p"

text \<open>The loop over the five graded permissions, as written.\<close>

definition grant_table :: "policy \<Rightarrow> (permission \<times> string set) list" where
  "grant_table p =
     [(READ, read_roles p), (WRITE, write_roles p), (DELETE, delete_roles p),
      (ADMIN, admin_roles p), (SUPER_ADMIN, effective_super_admin_roles p)]"

definition permissions_for_roles_strict :: "policy \<Rightarrow> string set \<Rightarrow> permission set" where
  "permissions_for_roles_strict p roles =
     (if roles \<inter> deny_roles p \<noteq> {} \<or> roles \<inter> access_roles p = {} then {}
      else fold (\<lambda>(perm, allowed) granted.
                   if roles \<inter> allowed \<noteq> {} then insert perm granted else granted)
             (grant_table p) {ACCESS})"

definition permissions_for_roles :: "policy \<Rightarrow> string set \<Rightarrow> permission set" where
  "permissions_for_roles p roles =
     (if \<not> enforce p then all_permissions else permissions_for_roles_strict p roles)"

definition roles_of :: "policy \<Rightarrow> jobj \<Rightarrow> string set" where
  "roles_of p claims = extract_roles claims (project_id p)"

definition permissions_for_claims :: "policy \<Rightarrow> jobj \<Rightarrow> permission set" where
  "permissions_for_claims p claims = permissions_for_roles p (extract_roles claims (project_id p))"

definition evaluate_shadow :: "policy \<Rightarrow> jobj \<Rightarrow> permission set" where
  "evaluate_shadow p claims = permissions_for_roles_strict p (roles_of p claims)"

definition permissions_for_api_key :: "policy \<Rightarrow> permission set" where
  "permissions_for_api_key p =
     (if \<not> enforce p then all_permissions - key_forbidden
      else {ACCESS, READ, WRITE, DELETE} - key_forbidden)"

text \<open>\<^verbatim>\<open>_METHOD_PERMISSIONS\<close> and its lookup.\<close>

definition method_permissions :: "(string \<times> permission) list" where
  "method_permissions =
     [(''GET'', READ), (''HEAD'', READ), (''OPTIONS'', READ), (''POST'', WRITE),
      (''PUT'', WRITE), (''PATCH'', WRITE), (''DELETE'', DELETE)]"

definition permission_for_method :: "string \<Rightarrow> permission" where
  "permission_for_method m =
     (case map_of method_permissions (py_upper m) of None \<Rightarrow> WRITE | Some p \<Rightarrow> p)"

section \<open>The ambient principal and subject\<close>

type_synonym principal = "permission set option"

definition get_current_permissions :: "principal \<Rightarrow> permission set" where
  "get_current_permissions pr = (case pr of None \<Rightarrow> {} | Some ps \<Rightarrow> ps)"

definition missing_permission :: "principal \<Rightarrow> permission \<Rightarrow> permission option" where
  "missing_permission pr required =
     (case pr of None \<Rightarrow> None
      | Some ps \<Rightarrow> if required \<in> ps then None else Some required)"

record subject =
  sid :: "string option"
  sname :: "string option"
  semail :: "string option"
  is_super_admin :: bool
  steam :: "string option"
  srole :: "string option"
  sroles :: "string set option"

definition claim_str :: "json \<Rightarrow> string option" where
  "claim_str v = (if jtrue v then Some (py_str v) else None)"

definition subject_from_claims :: "jobj \<Rightarrow> bool \<Rightarrow> subject" where
  "subject_from_claims claims super =
     (let name = jor (jor (jget claims ''name'') (jget claims ''preferred_username''))
                     (jget claims ''email'')
      in \<lparr>sid = claim_str (jget claims ''sub''), sname = claim_str name,
          semail = claim_str (jget claims ''email''), is_super_admin = super,
          steam = None, srole = None, sroles = None\<rparr>)"

section \<open>What the login script may change\<close>

text \<open>The script's decision, as far as the request's identity depends on it.\<close>

record login_decision =
  ld_roles :: "string list option"
  ld_name :: "string option"
  ld_email :: "string option"

definition effective_roles :: "policy \<Rightarrow> jobj \<Rightarrow> login_decision option \<Rightarrow> string set" where
  "effective_roles p claims dec =
     (case dec of
        Some d \<Rightarrow>
          (case ld_roles d of
             Some rs \<Rightarrow> set rs \<union> denied_roles p (roles_of p claims)
           | None \<Rightarrow> roles_of p claims)
      | None \<Rightarrow> roles_of p claims)"

definition with_profile :: "subject \<Rightarrow> login_decision option \<Rightarrow> subject" where
  "with_profile s dec =
     (case dec of None \<Rightarrow> s
      | Some d \<Rightarrow> s\<lparr>sname := py_or (ld_name d) (sname s),
                    semail := py_or (ld_email d) (semail s)\<rparr>)"

section \<open>What the mapping grants\<close>

text \<open>The roles configuration attaches to a permission.\<close>

definition roles_for :: "policy \<Rightarrow> permission \<Rightarrow> string set" where
  "roles_for p perm =
     (case perm of ACCESS \<Rightarrow> access_roles p | READ \<Rightarrow> read_roles p | WRITE \<Rightarrow> write_roles p
      | DELETE \<Rightarrow> delete_roles p | ADMIN \<Rightarrow> admin_roles p
      | SUPER_ADMIN \<Rightarrow> effective_super_admin_roles p)"

lemma strict_denied: "roles \<inter> deny_roles p \<noteq> {} \<Longrightarrow> permissions_for_roles_strict p roles = {}"
  by (simp add: permissions_for_roles_strict_def)

lemma strict_outside: "roles \<inter> access_roles p = {} \<Longrightarrow> permissions_for_roles_strict p roles = {}"
  by (simp add: permissions_for_roles_strict_def)

lemma strict_mem_iff:
  "perm \<in> permissions_for_roles_strict p roles \<longleftrightarrow>
     roles \<inter> deny_roles p = {} \<and> roles \<inter> access_roles p \<noteq> {} \<and> roles \<inter> roles_for p perm \<noteq> {}"
  by (cases perm) (auto simp: permissions_for_roles_strict_def grant_table_def roles_for_def)

lemma effective_roles_keep_denied:
  "denied_roles p (roles_of p claims) \<subseteq> effective_roles p claims dec"
  by (auto simp: effective_roles_def denied_roles_def split: option.splits)

lemma norm_roles_mem: "r \<in> norm_roles rs \<Longrightarrow> r \<noteq> []"
  by (auto simp: norm_roles_def)

text \<open>
  A caller holds a permission under enforcement exactly when it holds no denied role, holds
  an access role, and holds a role configured for that permission; the loop over the five
  graded permissions computes nothing else.
\<close>

theorem permission_granted_iff:
  "perm \<in> permissions_for_roles (p\<lparr>enforce := True\<rparr>) roles \<longleftrightarrow>
     roles \<inter> deny_roles p = {} \<and> roles \<inter> access_roles p \<noteq> {} \<and> roles \<inter> roles_for p perm \<noteq> {}"
  by (cases perm) (auto simp: permissions_for_roles_def strict_mem_iff roles_for_def
      effective_super_admin_roles_def)

text \<open>
  A denied role in the token locks the caller out whatever the login script decides: the
  roles the request is authorized with still contain it, so the strict evaluation grants
  nothing.
\<close>

theorem login_script_cannot_lift_deny:
  assumes "roles_of p claims \<inter> deny_roles p \<noteq> {}"
  shows "permissions_for_roles_strict p (effective_roles p claims dec) = {}"
proof (rule strict_denied)
  show "effective_roles p claims dec \<inter> deny_roles p \<noteq> {}"
    using assms effective_roles_keep_denied [of p claims dec] by (auto simp: denied_roles_def)
qed

definition example_policy :: policy where
  "example_policy = from_settings \<lparr>auth_enforce_permissions = Some True, auth_project_id = None,
     auth_access_roles = Some [''staff''], auth_read_roles = Some ['' staff ''],
     auth_write_roles = Some [''dev''], auth_delete_roles = None, auth_admin_roles = Some [''ops''],
     auth_super_admin_roles = None, auth_deny_roles = Some [''CLIENT'']\<rparr>"

theorem login_script_cannot_lift_deny_witness:
  "permissions_for_roles_strict example_policy
     (effective_roles example_policy [(''roles'', JList [JStr ''CLIENT''])]
        (Some \<lparr>ld_roles = Some [''staff''], ld_name = None, ld_email = None\<rparr>)) = {}"
  by (rule login_script_cannot_lift_deny)
     (simp add: example_policy_def roles_of_def extract_roles_def from_settings_def norm_roles_def
        py_strip_def is_space_def)

text \<open>
  The management API key never holds ADMIN or SUPER\_ADMIN, whatever the policy, and every
  other permission is held by it in both modes.
\<close>

theorem api_key_capped:
  "ADMIN \<notin> permissions_for_api_key p \<and> SUPER_ADMIN \<notin> permissions_for_api_key p \<and>
   {ACCESS, READ, WRITE, DELETE} \<subseteq> permissions_for_api_key p"
  by (auto simp: permissions_for_api_key_def key_forbidden_def)

text \<open>
  Configured role names are normalised: stripping them again changes nothing, none is blank,
  and normalising the normalised list gives the same set.
\<close>

theorem norm_roles_normal_form:
  "(r \<in> norm_roles rs \<longrightarrow> py_strip r = r \<and> r \<noteq> []) \<and>
   (set rs' = norm_roles rs \<longrightarrow> norm_roles (Some rs') = norm_roles rs)"
proof (intro conjI impI)
  show "py_strip r = r" "r \<noteq> []" if "r \<in> norm_roles rs"
    using that by (auto simp: norm_roles_def)
  assume *: "set rs' = norm_roles rs"
  have "py_strip x = x" "x \<noteq> []" if "x \<in> set rs'" for x
    using that unfolding * by (auto simp: norm_roles_def)
  then have "norm_roles (Some rs') = set rs'"
    by (force simp: norm_roles_def image_iff)
  with * show "norm_roles (Some rs') = norm_roles rs" by simp
qed

theorem norm_roles_normal_form_witness:
  "py_strip ''staff'' = ''staff'' \<and>
   norm_roles (Some [''staff'']) = norm_roles (Some ['' staff '', [], ''  ''])"
proof -
  have raw: "norm_roles (Some ['' staff '', [], ''  '']) = {''staff''}"
    by (simp add: norm_roles_def py_strip_def is_space_def)
  show ?thesis
    using norm_roles_normal_form [of "''staff''" "Some ['' staff '', [], ''  '']" "[''staff'']"]
    unfolding raw by simp
qed

end
