(* ===== verification/Destructive.thy ===== *)
theory Destructive
  imports Prelude
begin

text \<open>
  Which data-source operations destroy and which write
  (\<^verbatim>\<open>app/infrastructure/datasources/destructive.py\<close>).  The four regular expressions are
  written as the deterministic matchers they denote: none of them backtracks into a
  different match (each repetition stops at a character its continuation cannot start with).
\<close>

record operation =
  op_name :: string
  op_method :: string
  op_destructive :: "bool option"
  op_query :: "string option"

section \<open>GraphQL documents\<close>

text \<open>\<^verbatim>\<open>_COMMENT_RE.sub("", query)\<close>: drop from \<^verbatim>\<open>#\<close> to the end of the line.\<close>

function strip_comments :: "string \<Rightarrow> string" where
  "strip_comments [] = []"
| "strip_comments (c # cs) =
     (if c = CHR ''#'' then strip_comments (dropWhile (\<lambda>d. d \<noteq> CHR 0x0A) cs)
      else c # strip_comments cs)"
  by pat_completeness auto
termination
  by (relation "measure length") (auto simp: less_Suc_eq_le length_dropWhile_le)

text \<open>What follows the first triple quote, the end of a block string.\<close>

fun after_triple :: "string \<Rightarrow> string option" where
  "after_triple [] = None"
| "after_triple (c # cs) =
     (if starts_with [CHR 0x22, CHR 0x22, CHR 0x22] (c # cs) then Some (drop 2 cs)
      else after_triple cs)"

text \<open>What follows the quote that closes a plain string; an escape covers one character.\<close>

fun after_quote :: "string \<Rightarrow> string option" where
  "after_quote [] = None"
| "after_quote (c # cs) =
     (if c = CHR 0x22 then Some cs
      else if c = CHR 0x5C
           then (case cs of [] \<Rightarrow> None | d # ds \<Rightarrow> if d = CHR 0x0A then None else after_quote ds)
      else after_quote cs)"

lemma after_triple_length: "after_triple s = Some r \<Longrightarrow> length r < length s"
  by (induction s rule: after_triple.induct) (auto split: if_splits)

lemma after_quote_length: "after_quote s = Some r \<Longrightarrow> length r < length s"
  by (induction s rule: after_quote.induct) (fastforce split: if_splits list.splits)+

text \<open>
  \<^verbatim>\<open>_STRING_RE.sub('""', s)\<close>: at a quote the block string is tried first, then the
  plain one; a quote that opens neither is kept.
\<close>

definition string_rest :: "string \<Rightarrow> string option" where
  "string_rest cs =
     (case (if take 2 cs = [CHR 0x22, CHR 0x22] then after_triple (drop 2 cs) else None) of
        Some r \<Rightarrow> Some r
      | None \<Rightarrow> after_quote cs)"

lemma string_rest_length: "string_rest cs = Some r \<Longrightarrow> length r < length cs"
  by (auto simp: string_rest_def split: option.splits if_splits
      dest!: after_triple_length after_quote_length)

function strip_strings :: "string \<Rightarrow> string" where
  "strip_strings [] = []"
| "strip_strings (c # cs) =
     (if c = CHR 0x22
      then (case string_rest cs of
              Some r \<Rightarrow> [CHR 0x22, CHR 0x22] @ strip_strings r
            | None \<Rightarrow> c # strip_strings cs)
      else c # strip_strings cs)"
  by pat_completeness auto
termination
  by (relation "measure length") (auto dest: string_rest_length)

definition skip_spaces :: "string \<Rightarrow> string" where
  "skip_spaces = dropWhile is_space"

definition opens_brace :: "string \<Rightarrow> bool" where
  "opens_brace s = (case s of [] \<Rightarrow> False | c # _ \<Rightarrow> c = CHR ''{'')"

text \<open>The optional argument list: from an opening to the next closing parenthesis.\<close>

definition skip_args :: "string \<Rightarrow> string option" where
  "skip_args s =
     (case s of [] \<Rightarrow> Some s
      | c # cs \<Rightarrow>
          if c = CHR ''('' then
            (case dropWhile (\<lambda>d. d \<noteq> CHR '')'') cs of [] \<Rightarrow> None | _ # r \<Rightarrow> Some r)
          else Some s)"

text \<open>The part of \<^verbatim>\<open>_MUTATION_RE\<close> after the keyword.\<close>

definition named_tail :: "string \<Rightarrow> bool" where
  "named_tail r =
     ((case r of [] \<Rightarrow> True | c # _ \<Rightarrow> \<not> is_word c) \<and>
      (let r1 = skip_spaces r
       in case r1 of [] \<Rightarrow> False
          | c # _ \<Rightarrow>
              (is_lower c \<or> is_upper c \<or> c = CHR ''_'') \<and>
              (case skip_args (skip_spaces (dropWhile is_word r1)) of
                 None \<Rightarrow> False
               | Some r2 \<Rightarrow> opens_brace (skip_spaces r2))))"

text \<open>The part of \<^verbatim>\<open>_ANON_MUTATION_RE\<close> after the keyword.\<close>

definition anon_tail :: "string \<Rightarrow> bool" where
  "anon_tail r = opens_brace (skip_spaces r)"

definition mutation_here :: "string \<Rightarrow> bool" where
  "mutation_here s =
     (py_lower (take 8 s) = ''mutation'' \<and> (named_tail (drop 8 s) \<or> anon_tail (drop 8 s)))"

text \<open>
  \<^verbatim>\<open>search\<close>: at the start, or right after white space or a closing brace.  \<open>ok\<close> says
  whether a match may start here.
\<close>

fun search_mutation :: "bool \<Rightarrow> string \<Rightarrow> bool" where
  "search_mutation ok [] = False"
| "search_mutation ok (c # cs) =
     (ok \<and> mutation_here (c # cs) \<or> search_mutation (is_space c \<or> c = CHR ''}'') cs)"

definition graphql_writes :: "string option \<Rightarrow> bool" where
  "graphql_writes query =
     (if \<not> truthy query then False
      else search_mutation True (strip_strings (strip_comments (the query))))"

section \<open>The two verdicts\<close>

definition destructive_methods :: "string set" where
  "destructive_methods = {''DELETE''}"

definition read_methods :: "string set" where
  "read_methods = {''GET'', ''HEAD'', ''OPTIONS''}"

definition verb_of :: "operation \<Rightarrow> string" where
  "verb_of op = py_upper (if op_method op \<noteq> [] then op_method op else ''GET'')"

text \<open>\<open>src\<close> is the kind of the source, \<open>None\<close> when the source is not known.\<close>

definition is_destructive :: "operation \<Rightarrow> string option \<Rightarrow> bool" where
  "is_destructive op src =
     (case op_destructive op of
        Some explicit \<Rightarrow> explicit
      | None \<Rightarrow>
          if src = Some ''bigquery'' then False
          else if src = Some ''graphql'' then graphql_writes (op_query op)
          else verb_of op \<in> destructive_methods)"

definition operation_writes :: "operation \<Rightarrow> string option \<Rightarrow> bool" where
  "operation_writes op src =
     (case op_destructive op of
        Some explicit \<Rightarrow> explicit
      | None \<Rightarrow>
          (let kind = (case src of None \<Rightarrow> ''http'' | Some k \<Rightarrow> k)
           in if kind = ''bigquery'' then False
              else if kind = ''graphql'' then graphql_writes (op_query op)
              else verb_of op \<notin> read_methods))"

section \<open>Properties\<close>

text \<open>The approval line is above the read-only line: what needs an approval case writes.\<close>

lemma destructive_imp_writes: "is_destructive op src \<Longrightarrow> operation_writes op src"
  by (auto simp: is_destructive_def operation_writes_def destructive_methods_def read_methods_def
      split: option.splits)

lemma strip_comments_no_hash: "CHR ''#'' \<notin> set (strip_comments s)"
  by (induction s rule: strip_comments.induct) auto

lemma strip_comments_ident: "CHR ''#'' \<notin> set s \<Longrightarrow> strip_comments s = s"
  by (induction s) auto

lemma strip_comments_line:
  "CHR 0x0A \<notin> set c \<Longrightarrow> strip_comments (CHR ''#'' # c @ CHR 0x0A # s) = CHR 0x0A # strip_comments s"
  by (simp add: dropWhile_neq_append)

text \<open>
  A comment line in front of a GraphQL document never decides the verdict: whatever the
  comment says, the document is a write exactly when it is one without the comment text.
\<close>

theorem comment_line_is_inert:
  assumes "CHR 0x0A \<notin> set c"
  shows "graphql_writes (Some (CHR ''#'' # c @ CHR 0x0A # q)) =
         graphql_writes (Some (CHR 0x0A # q))"
  using strip_comments_line [OF assms, of q]
  by (simp add: graphql_writes_def del: strip_comments.simps(2))
     (simp only: strip_comments.simps(2), simp)

theorem comment_line_is_inert_witness:
  "graphql_writes (Some (CHR ''#'' # '' mutation {'' @ CHR 0x0A # ''{ a }'')) =
   graphql_writes (Some (CHR 0x0A # ''{ a }''))"
  by (rule comment_line_is_inert) simp

lemma graphql_examples:
  "graphql_writes (Some ''mutation Add($x: Int) { add(x: $x) }'')"
  "graphql_writes (Some ''query { a } mutation { b }'')"
  "\<not> graphql_writes (Some ''{ mutationCount }'')"
  "\<not> graphql_writes (Some ''subscription S { changed }'')"
  by code_simp+

end
