(* ===== verification/Ownership.thy ===== *)
theory Ownership
  imports Authorization Destructive
begin

text \<open>
  Owned resources, their grants, and who may see and change them: the models of
  \<^verbatim>\<open>app/domain/models/ownership.py\<close> and the predicates of
  \<^verbatim>\<open>app/application/visibility.py\<close>.  The ambient subject is the argument \<open>su\<close>
  (\<open>None\<close>: nothing bound, every check is a no-op).
\<close>

section \<open>Resources\<close>

datatype kind = Agent | Datasource | Script | Workflow

datatype visibility = Public | Team | Private

datatype access = Read | Read_Write

datatype grantee_type = To_User | To_Workflow

record grant =
  g_id :: string
  g_type :: grantee_type
  g_grantee :: string
  g_name :: "string option"
  g_access :: access
  g_by :: "string option"
  g_by_name :: "string option"
  g_at :: "time option"

text \<open>An agent's addons: only the data-source ones carry a reference.\<close>

datatype addon = Datasource_Addon string "string list" | Other_Addon string

text \<open>
  One record for the four definition models.  \<open>r_kind\<close> is the model's class; \<open>r_steps\<close> is used
  by workflows, \<open>r_addons\<close> by agents, \<open>r_ops\<close> and \<open>r_source_kind\<close> by data sources; \<open>r_body\<close>
  stands for every other stored field except the timestamps.
\<close>

record resource =
  r_kind :: kind
  r_id :: string
  r_name :: string
  r_visibility :: visibility
  r_owner :: "string option"
  r_owner_name :: "string option"
  r_team :: "string option"
  r_grants :: "grant list"
  r_readonly :: bool
  r_steps :: "json list"
  r_addons :: "addon list"
  r_ops :: "operation list"
  r_source_kind :: string
  r_body :: json

text \<open>The class variables of the four models.\<close>

definition team_editable :: "kind \<Rightarrow> bool" where
  "team_editable k = (k = Workflow)"

definition grant_edits :: "kind \<Rightarrow> bool" where
  "grant_edits k = (k = Agent \<or> k = Workflow)"

definition has_grants :: "kind \<Rightarrow> bool" where
  "has_grants k = (k \<noteq> Script)"

section \<open>Fields and ranks\<close>

definition team_of_res :: "resource \<Rightarrow> string option" where
  "team_of_res r = (if r_visibility r = Team then r_team r else None)"

fun rank :: "visibility \<Rightarrow> nat" where
  "rank Private = 0"
| "rank Team = 1"
| "rank Public = 2"

definition in_team :: "subject \<Rightarrow> resource \<Rightarrow> bool" where
  "in_team s r = (team_of_res r \<noteq> None \<and> steam s = team_of_res r)"

section \<open>Grants\<close>

fun access_rank :: "access \<Rightarrow> nat" where
  "access_rank Read = 0"
| "access_rank Read_Write = 1"

definition grants_of :: "resource \<Rightarrow> grant list" where
  "grants_of r = (if has_grants (r_kind r) then r_grants r else [])"

definition grant_for :: "resource \<Rightarrow> grantee_type \<Rightarrow> string option \<Rightarrow> access option" where
  "grant_for r gt gid =
     (if \<not> truthy gid then None
      else map_option g_access
             (find (\<lambda>g. g_type g = gt \<and> Some (g_grantee g) = gid) (grants_of r)))"

definition user_grant :: "resource \<Rightarrow> string option \<Rightarrow> access option" where
  "user_grant r u = grant_for r To_User u"

definition workflow_grant :: "resource \<Rightarrow> string option \<Rightarrow> access option" where
  "workflow_grant r w = grant_for r To_Workflow w"

text \<open>Python's \<^verbatim>\<open>max\<close> keeps the first of several greatest levels.\<close>

fun max_access :: "access \<Rightarrow> access list \<Rightarrow> access" where
  "max_access a [] = a"
| "max_access a (l # ls) = max_access (if access_rank a < access_rank l then l else a) ls"

definition best_access :: "access option list \<Rightarrow> access option" where
  "best_access levels =
     (case List.map_filter id levels of [] \<Rightarrow> None | l # ls \<Rightarrow> Some (max_access l ls))"

definition caller_grant :: "subject option \<Rightarrow> resource \<Rightarrow> access option" where
  "caller_grant su r = (case su of None \<Rightarrow> None | Some s \<Rightarrow> user_grant r (sid s))"

definition grant_access :: "resource \<Rightarrow> kind \<Rightarrow> resource \<Rightarrow> access option" where
  "grant_access user user_kind used =
     (if grants_of used = [] then None
      else best_access
             [if user_kind = Workflow then workflow_grant used (Some (r_id user)) else None,
              if r_visibility user = Private then user_grant used (r_owner user) else None])"

definition workflow_grant_access ::
    "subject option \<Rightarrow> resource \<Rightarrow> resource option \<Rightarrow> access option" where
  "workflow_grant_access su source workflow =
     (case workflow of
        None \<Rightarrow> None
      | Some w \<Rightarrow>
          if grants_of source = [] then None
          else if r_visibility source = Public then None
          else if r_owner source \<noteq> None \<and> r_owner source = r_owner w then None
          else if r_visibility source = Team \<and>
                  (team_of_res w = team_of_res source \<or>
                   r_visibility w = Private \<and>
                   (case su of None \<Rightarrow> False
                    | Some s \<Rightarrow> sid s = r_owner w \<and> steam s = team_of_res source))
               then None
          else grant_access w Workflow source)"

definition get_operation :: "resource \<Rightarrow> string \<Rightarrow> operation option" where
  "get_operation r n = find (\<lambda>op. op_name op = n) (r_ops r)"

text \<open>Whether \<^verbatim>\<open>operation_denied\<close> gives a reason.\<close>

definition operation_denied :: "resource \<Rightarrow> string \<Rightarrow> access option \<Rightarrow> bool" where
  "operation_denied source operation acc =
     (if acc \<noteq> Some Read then False
      else case get_operation source operation of
             None \<Rightarrow> False
           | Some op \<Rightarrow> operation_writes op (Some (r_source_kind source)))"

section \<open>Predicates\<close>

definition can_see :: "subject option \<Rightarrow> resource \<Rightarrow> bool" where
  "can_see su r =
     (case su of
        None \<Rightarrow> True
      | Some s \<Rightarrow>
          if r_visibility r = Public \<or> is_super_admin s then True
          else if sid s \<noteq> None \<and> r_owner r = sid s then True
          else if sid s \<noteq> None \<and> user_grant r (sid s) \<noteq> None then True
          else in_team s r)"

definition can_see_natively :: "subject option \<Rightarrow> resource \<Rightarrow> bool" where
  "can_see_natively su r =
     (case su of
        None \<Rightarrow> can_see su r
      | Some s \<Rightarrow>
          if \<not> truthy (sid s) \<or> user_grant r (sid s) = None then can_see su r
          else if r_visibility r = Public \<or> is_super_admin s then True
          else r_owner r = sid s \<or> in_team s r)"

definition can_manage :: "subject option \<Rightarrow> resource \<Rightarrow> bool" where
  "can_manage su r =
     (case su of
        None \<Rightarrow> True
      | Some s \<Rightarrow>
          if is_super_admin s then True
          else if r_owner r = None then r_visibility r = Public
          else sid s \<noteq> None \<and> r_owner r = sid s)"

definition can_edit :: "subject option \<Rightarrow> resource \<Rightarrow> bool" where
  "can_edit su r =
     (if can_manage su r then True
      else case su of
             None \<Rightarrow> False
           | Some s \<Rightarrow>
               if team_editable (r_kind r) \<and> in_team s r then True
               else grant_edits (r_kind r) \<and> user_grant r (sid s) = Some Read_Write)"

definition can_change_visibility :: "subject option \<Rightarrow> resource \<Rightarrow> bool" where
  "can_change_visibility su r =
     (if can_manage su r then True
      else case su of None \<Rightarrow> False
           | Some s \<Rightarrow> srole s = Some ''admin'' \<and> in_team s r)"

text \<open>\<^verbatim>\<open>_only_scope_changed\<close>: equal once the scope fields are left out.\<close>

definition without_scope :: "resource \<Rightarrow> resource" where
  "without_scope r = r\<lparr>r_visibility := Public, r_team := None, r_owner := None,
                       r_owner_name := None, r_grants := []\<rparr>"

definition only_scope_changed :: "resource \<Rightarrow> resource \<Rightarrow> bool" where
  "only_scope_changed existing r = (without_scope existing = without_scope r)"

definition default_visibility :: "subject option \<Rightarrow> visibility" where
  "default_visibility su =
     (case su of None \<Rightarrow> Public | Some s \<Rightarrow> if truthy (sid s) then Private else Public)"

definition filter_visible :: "subject option \<Rightarrow> resource list \<Rightarrow> resource list" where
  "filter_visible su rs = filter (can_see su) rs"

section \<open>How the predicates relate\<close>

named_theorems access_defs \<open>definitions of the visibility predicates\<close>

lemmas access_predicates [access_defs] =
  can_see_def can_see_natively_def can_manage_def can_edit_def can_change_visibility_def

lemma see_unbound [simp]: "can_see None r"
  by (simp add: can_see_def)

lemma grant_for_None [simp]: "grant_for r gt None = None"
  by (simp add: grant_for_def)

lemma user_grant_None [simp]: "user_grant r None = None"
  by (simp add: user_grant_def)

lemma user_grant_truthy: "user_grant r u = Some a \<Longrightarrow> truthy u"
  by (auto simp: user_grant_def grant_for_def split: if_splits)

lemma user_grant_truthyD: "user_grant r u \<noteq> None \<Longrightarrow> u \<noteq> None"
  by (cases u) auto

lemma manage_sees: "can_manage su r \<Longrightarrow> can_see su r"
  by (auto simp: can_manage_def can_see_def split: option.splits if_splits)

lemma manage_edits: "can_manage su r \<Longrightarrow> can_edit su r"
  by (simp add: can_edit_def)

lemma edit_sees: "can_edit su r \<Longrightarrow> can_see su r"
  by (cases su) (auto simp: can_edit_def can_see_def split: if_splits dest: manage_sees)

lemma change_visibility_sees: "can_change_visibility su r \<Longrightarrow> can_see su r"
  by (auto simp: can_change_visibility_def can_see_def
      split: option.splits if_splits dest: manage_sees)

lemma grants_of_update [simp]:
  "grants_of (r\<lparr>r_id := i\<rparr>) = grants_of r"
  "grants_of (r\<lparr>r_visibility := v\<rparr>) = grants_of r"
  "grants_of (r\<lparr>r_owner := ow\<rparr>) = grants_of r"
  "grants_of (r\<lparr>r_owner_name := own\<rparr>) = grants_of r"
  "grants_of (r\<lparr>r_team := t\<rparr>) = grants_of r"
  by (simp_all add: grants_of_def)

lemma find_filter_irrelevant:
  "(\<And>x. x \<in> set xs \<Longrightarrow> P x \<Longrightarrow> Q x) \<Longrightarrow> find P (filter Q xs) = find P xs"
  by (induction xs) auto

text \<open>The grant lookup sees the grants only; the first one for the grantee counts.\<close>

lemma grant_for_cong:
  "grants_of r = grants_of r' \<Longrightarrow> grant_for r gt gid = grant_for r' gt gid"
  by (simp add: grant_for_def)

lemma grant_for_SomeD:
  "grant_for r gt gid = Some a \<Longrightarrow>
     \<exists>g \<in> set (grants_of r). g_type g = gt \<and> Some (g_grantee g) = gid \<and> g_access g = a"
  by (auto simp: grant_for_def find_Some_iff split: if_splits)

lemma grant_for_None_iff:
  "truthy gid \<Longrightarrow>
     grant_for r gt gid = None \<longleftrightarrow> (\<forall>g \<in> set (grants_of r). g_type g = gt \<longrightarrow> Some (g_grantee g) \<noteq> gid)"
  by (auto simp: grant_for_def find_None_iff)

section \<open>Properties\<close>

text \<open>
  The privileges over a resource are nested for every caller: whoever may manage it may edit
  it and re-scope it, and nobody may edit or re-scope what they cannot see.
\<close>

theorem privileges_nested:
  "(can_manage su r \<longrightarrow> can_edit su r \<and> can_change_visibility su r) \<and>
   (can_edit su r \<or> can_change_visibility su r \<longrightarrow> can_see su r)"
  using manage_edits edit_sees change_visibility_sees
  by (auto simp: can_change_visibility_def [of su r])

definition example_private :: resource where
  "example_private = \<lparr>r_kind = Datasource, r_id = ''crm'', r_name = ''CRM'', r_visibility = Private,
     r_owner = Some ''ann'', r_owner_name = Some ''Ann'', r_team = None,
     r_grants = [\<lparr>g_id = ''g1'', g_type = To_User, g_grantee = ''bob'', g_name = None,
       g_access = Read, g_by = Some ''ann'', g_by_name = None, g_at = None\<rparr>],
     r_readonly = False, r_steps = [], r_addons = [],
     r_ops = [\<lparr>op_name = ''create'', op_method = ''POST'', op_destructive = None, op_query = None\<rparr>],
     r_source_kind = ''http'', r_body = JNull\<rparr>"

definition example_user :: "string \<Rightarrow> string option \<Rightarrow> subject" where
  "example_user i t = \<lparr>sid = Some i, sname = None, semail = None, is_super_admin = False,
     steam = t, srole = map_option (\<lambda>_. ''member'') t, sroles = None\<rparr>"

theorem privileges_nested_witness:
  "can_edit (Some (example_user ''ann'' None)) example_private \<and>
   can_see (Some (example_user ''ann'' None)) example_private"
proof -
  have "can_manage (Some (example_user ''ann'' None)) example_private"
    by (simp add: can_manage_def example_user_def example_private_def)
  then show ?thesis
    using privileges_nested [of "Some (example_user ''ann'' None)" example_private] by blast
qed

text \<open>
  A private resource is visible to a bound caller exactly when the caller is a super admin,
  is its owner, or holds a user grant on it; team membership and workflow grants open nothing.
\<close>

theorem private_visible_iff:
  assumes "r_visibility r = Private"
  shows "can_see (Some s) r \<longleftrightarrow>
           is_super_admin s \<or> (sid s \<noteq> None \<and> r_owner r = sid s) \<or>
           (\<exists>g \<in> set (grants_of r). g_type g = To_User \<and> Some (g_grantee g) = sid s \<and> truthy (sid s))"
proof (cases "truthy (sid s)")
  case True
  with assms grant_for_None_iff [OF True, of r To_User] show ?thesis
    by (auto simp: can_see_def in_team_def team_of_res_def user_grant_def)
next
  case False
  with assms show ?thesis
    by (auto simp: can_see_def in_team_def team_of_res_def user_grant_def grant_for_def)
qed

theorem private_visible_iff_witness:
  "can_see (Some (example_user ''bob'' None)) example_private"
  using private_visible_iff [of example_private "example_user ''bob'' None"]
  by (simp add: example_user_def example_private_def grants_of_def has_grants_def)

text \<open>
  A \<open>read\<close> grant never reaches an operation that destroys: whatever it is not refused is
  neither destructive (for the approval gate) nor, without an explicit override on an HTTP
  source, sent with a verb other than GET, HEAD or OPTIONS.
\<close>

theorem read_grant_is_read_only:
  assumes "get_operation source n = Some op" and "\<not> operation_denied source n (Some Read)"
  shows "\<not> is_destructive op (Some (r_source_kind source)) \<and>
         (r_source_kind source = ''http'' \<and> op_destructive op = None \<longrightarrow> verb_of op \<in> read_methods)"
  using assms destructive_imp_writes [of op "Some (r_source_kind source)"]
  by (auto simp: operation_denied_def operation_writes_def)

theorem read_grant_is_read_only_witness:
  "verb_of \<lparr>op_name = ''list'', op_method = ''get'', op_destructive = None, op_query = None\<rparr>
     \<in> read_methods"
proof -
  let ?op = "\<lparr>op_name = ''list'', op_method = ''get'', op_destructive = None, op_query = None\<rparr>"
  let ?src = "example_private\<lparr>r_ops := [?op]\<rparr>"
  have op: "get_operation ?src ''list'' = Some ?op" by code_simp
  have ok: "\<not> operation_denied ?src ''list'' (Some Read)" by code_simp
  show ?thesis using read_grant_is_read_only [OF op ok] by (simp add: example_private_def)
qed

lemma see_natively_sees: "can_see_natively su r \<Longrightarrow> can_see su r"
  by (auto simp: access_defs split: option.splits if_splits)

lemma see_without_grant:
  "caller_grant su r = None \<Longrightarrow> can_see_natively su r = can_see su r"
  by (auto simp: can_see_natively_def caller_grant_def split: option.splits)

end
