(* ===== verification/TeamDirectory.thy ===== *)
theory TeamDirectory
  imports Ownership "HOL-Library.List_Lexorder" "HOL-Library.Char_ord"
begin

text \<open>
  Carrier's own users and teams: \<^verbatim>\<open>TeamDirectory\<close> and \<^verbatim>\<open>InMemoryTeamDirectory\<close> of
  \<^verbatim>\<open>app/infrastructure/persistence/team_directory.py\<close>.  The directory is a record of its three
  dictionaries; an operation takes it and returns the new one.
\<close>

record user =
  u_sub :: string
  u_name :: "string option"
  u_email :: "string option"
  u_team :: "string option"
  u_role :: "string option"
  u_last_seen :: "time option"
  u_roles :: "string list option"
  u_super :: "bool option"

record team =
  t_id :: string
  t_name :: string
  t_created :: time

type_synonym touch_key = "string list option \<times> bool option"

record directory =
  d_touched :: "(time \<times> touch_key) dict"
  d_users :: "user dict"
  d_teams :: "team dict"

definition empty_directory :: directory where
  "empty_directory = \<lparr>d_touched = [], d_users = [], d_teams = []\<rparr>"

definition touch_interval :: time where
  "touch_interval = seconds 60"

definition new_user :: "string \<Rightarrow> user" where
  "new_user sub = \<lparr>u_sub = sub, u_name = None, u_email = None, u_team = None, u_role = None,
                   u_last_seen = None, u_roles = None, u_super = None\<rparr>"

section \<open>Users\<close>

definition get_user :: "directory \<Rightarrow> string \<Rightarrow> user option" where
  "get_user d sub = map_of (d_users d) sub"

text \<open>\<^verbatim>\<open>setdefault(sub, UserRecord(sub=sub))\<close>, then a change of the record.\<close>

definition user_or_new :: "directory \<Rightarrow> string \<Rightarrow> user" where
  "user_or_new d sub = (case get_user d sub of None \<Rightarrow> new_user sub | Some u \<Rightarrow> u)"

definition put_user :: "directory \<Rightarrow> string \<Rightarrow> user \<Rightarrow> directory" where
  "put_user d sub u = d\<lparr>d_users := AList.update sub u (d_users d)\<rparr>"

definition upsert_seen ::
    "directory \<Rightarrow> string \<Rightarrow> string option \<Rightarrow> string option \<Rightarrow> time \<Rightarrow> string list option \<Rightarrow>
     bool option \<Rightarrow> directory" where
  "upsert_seen d sub name email when roles super =
     (let u = user_or_new d sub;
          u = u\<lparr>u_name := py_or name (u_name u), u_email := py_or email (u_email u),
                u_last_seen := Some when\<rparr>;
          u = (case roles of None \<Rightarrow> u | Some rs \<Rightarrow> u\<lparr>u_roles := Some rs\<rparr>);
          u = (case super of None \<Rightarrow> u | Some b \<Rightarrow> u\<lparr>u_super := Some b\<rparr>)
      in put_user d sub u)"

text \<open>\<open>tick\<close> is the monotonic clock, \<open>now\<close> the wall clock.\<close>

definition touch_user ::
    "directory \<Rightarrow> time \<Rightarrow> time \<Rightarrow> string \<Rightarrow> string option \<Rightarrow> string option \<Rightarrow> string set option \<Rightarrow>
     bool option \<Rightarrow> directory" where
  "touch_user d tick now sub name email roles super =
     (let role_list = map_option sorted_list_of_set roles;
          acc = (role_list, super)
      in if (case map_of (d_touched d) sub of
               None \<Rightarrow> False
             | Some seen \<Rightarrow> tick - fst seen < touch_interval \<and> snd seen = acc)
         then d
         else upsert_seen (d\<lparr>d_touched := AList.update sub (tick, acc) (d_touched d)\<rparr>)
                sub name email now role_list super)"

definition forget_touch :: "directory \<Rightarrow> string \<Rightarrow> directory" where
  "forget_touch d sub = d\<lparr>d_touched := AList.delete sub (d_touched d)\<rparr>"

definition record_profile ::
    "directory \<Rightarrow> time \<Rightarrow> string \<Rightarrow> string option \<Rightarrow> string option \<Rightarrow> directory" where
  "record_profile d now sub name email = upsert_seen (forget_touch d sub) sub name email now None None"

definition delete_user_record :: "directory \<Rightarrow> string \<Rightarrow> bool \<times> directory" where
  "delete_user_record d sub =
     (let d = forget_touch d sub
      in (get_user d sub \<noteq> None, d\<lparr>d_users := AList.delete sub (d_users d)\<rparr>))"

definition list_user_records :: "directory \<Rightarrow> user list" where
  "list_user_records d = map snd (d_users d)"

definition set_membership ::
    "directory \<Rightarrow> string \<Rightarrow> string option \<Rightarrow> string option \<Rightarrow> directory" where
  "set_membership d sub team role =
     put_user d sub ((user_or_new d sub)\<lparr>u_team := team, u_role := role\<rparr>)"

definition clear_team :: "directory \<Rightarrow> string \<Rightarrow> directory" where
  "clear_team d tid =
     d\<lparr>d_users := map (\<lambda>(k, u). (k, if u_team u = Some tid
                                     then u\<lparr>u_team := None, u_role := None\<rparr> else u)) (d_users d)\<rparr>"

section \<open>Teams\<close>

definition list_team_records :: "directory \<Rightarrow> team list" where
  "list_team_records d = sort_key (\<lambda>t. py_lower (t_name t)) (map snd (d_teams d))"

definition get_team :: "directory \<Rightarrow> string \<Rightarrow> team option" where
  "get_team d tid = map_of (d_teams d) tid"

datatype directory_error = Team_Name_Taken string

text \<open>\<open>tid\<close> is the fresh id \<^verbatim>\<open>_new_team_id\<close> draws.\<close>

definition create_team_record ::
    "directory \<Rightarrow> string \<Rightarrow> time \<Rightarrow> string \<Rightarrow> directory_error + (team \<times> directory)" where
  "create_team_record d tid now name =
     (if \<exists>t \<in> set (map snd (d_teams d)). t_name t = name then Inl (Team_Name_Taken name)
      else let t = \<lparr>t_id = tid, t_name = name, t_created = now\<rparr>
           in Inr (t, d\<lparr>d_teams := AList.update tid t (d_teams d)\<rparr>))"

definition rename_team_record ::
    "directory \<Rightarrow> string \<Rightarrow> string \<Rightarrow> directory_error + (team \<times> directory) option" where
  "rename_team_record d tid name =
     (case get_team d tid of
        None \<Rightarrow> Inr None
      | Some t \<Rightarrow>
          if \<exists>t' \<in> set (map snd (d_teams d)). t_name t' = name \<and> t_id t' \<noteq> tid
          then Inl (Team_Name_Taken name)
          else let t = t\<lparr>t_name := name\<rparr>
               in Inr (Some (t, d\<lparr>d_teams := AList.update tid t (d_teams d)\<rparr>)))"

definition delete_team_record :: "directory \<Rightarrow> string \<Rightarrow> directory" where
  "delete_team_record d tid = d\<lparr>d_teams := AList.delete tid (d_teams d)\<rparr>"

definition team_members :: "directory \<Rightarrow> string \<Rightarrow> user list" where
  "team_members d tid = filter (\<lambda>u. u_team u = Some tid) (list_user_records d)"

text \<open>\<^verbatim>\<open>team_of\<close> of \<^verbatim>\<open>app/application/teams.py\<close>: the team a user is in now.\<close>

definition team_of :: "directory option \<Rightarrow> string option \<Rightarrow> string option" where
  "team_of dir sub =
     (case dir of
        None \<Rightarrow> None
      | Some d \<Rightarrow>
          if \<not> truthy sub then None
          else case get_user d (the sub) of None \<Rightarrow> None | Some u \<Rightarrow> u_team u)"

section \<open>The interface the team rules rely on\<close>

text \<open>
  What the callers of a directory may assume of reading a user after a write.  The client facts
  below are proved from these laws alone and used through the interpretation.
\<close>

locale membership_store =
  fixes lookup :: "'d \<Rightarrow> string \<Rightarrow> user option"
    and assign :: "'d \<Rightarrow> string \<Rightarrow> string option \<Rightarrow> string option \<Rightarrow> 'd"
    and clear :: "'d \<Rightarrow> string \<Rightarrow> 'd"
  assumes lookup_assign_other: "s' \<noteq> s \<Longrightarrow> lookup (assign d s t r) s' = lookup d s'"
    and lookup_assign_same: "\<exists>u. lookup (assign d s t r) s = Some u \<and> u_team u = t \<and> u_role u = r"
    and lookup_clear: "lookup (clear d c) s =
          map_option (\<lambda>u. if u_team u = Some c then u\<lparr>u_team := None, u_role := None\<rparr> else u)
            (lookup d s)"
begin

lemma cleared_team_empty: "lookup (clear d t) s = Some u \<Longrightarrow> u_team u \<noteq> Some t"
proof -
  assume "lookup (clear d t) s = Some u"
  then obtain v where "u = (if u_team v = Some t then v\<lparr>u_team := None, u_role := None\<rparr> else v)"
    by (auto simp: lookup_clear)
  then show "u_team u \<noteq> Some t" by (cases "u_team v = Some t") auto
qed

lemma clear_other_team:
  "lookup d s = Some u \<Longrightarrow> u_team u \<noteq> Some t \<Longrightarrow> lookup (clear d t) s = Some u"
  by (simp add: lookup_clear)

lemma assign_moves:
  "lookup (assign d s t r) s' = Some u \<Longrightarrow> u_team u = Some t' \<Longrightarrow>
     (s' = s \<and> t = Some t') \<or> (s' \<noteq> s \<and> lookup d s' = Some u)"
  by (cases "s' = s") (metis lookup_assign_same option.inject, simp add: lookup_assign_other)

end

lemma get_put_user [simp]:
  "get_user (put_user d s u) s' = (if s' = s then Some u else get_user d s')"
  by (simp add: get_user_def put_user_def)

lemma get_user_clear:
  "get_user (clear_team d t) s =
     map_option (\<lambda>u. if u_team u = Some t then u\<lparr>u_team := None, u_role := None\<rparr> else u) (get_user d s)"
  by (simp add: get_user_def clear_team_def map_of_map_values)

interpretation members: membership_store get_user set_membership clear_team
  by unfold_locales (auto simp: set_membership_def get_user_clear)

section \<open>Well-formed directories\<close>

definition unique_names :: "directory \<Rightarrow> bool" where
  "unique_names d =
     (\<forall>i j t t'. get_team d i = Some t \<longrightarrow> get_team d j = Some t' \<longrightarrow> t_name t = t_name t' \<longrightarrow> i = j)"

definition memberships_valid :: "directory \<Rightarrow> bool" where
  "memberships_valid d =
     (\<forall>s u t. get_user d s = Some u \<longrightarrow> u_team u = Some t \<longrightarrow> get_team d t \<noteq> None)"

definition dir_ok :: "directory \<Rightarrow> bool" where
  "dir_ok d =
     (dict_ok (d_users d) \<and> dict_ok (d_teams d) \<and>
      (\<forall>s u. get_user d s = Some u \<longrightarrow> u_sub u = s) \<and>
      (\<forall>i t. get_team d i = Some t \<longrightarrow> t_id t = i) \<and>
      unique_names d \<and> memberships_valid d)"

lemma team_ids_mem: "dir_ok d \<Longrightarrow> t \<in> set (map snd (d_teams d)) \<longleftrightarrow> get_team d (t_id t) = Some t"
  unfolding get_team_def set_map by (rule dict_values_iff) (auto simp: dir_ok_def get_team_def)

lemma user_subs_mem:
  "dir_ok d \<Longrightarrow> u \<in> set (list_user_records d) \<longleftrightarrow> get_user d (u_sub u) = Some u"
  unfolding get_user_def list_user_records_def set_map
  by (rule dict_values_iff) (auto simp: dir_ok_def get_user_def)

lemma user_or_new_sub: "dir_ok d \<Longrightarrow> u_sub (user_or_new d s) = s"
  by (auto simp: user_or_new_def dir_ok_def new_user_def split: option.splits)

lemma d_teams_put_user [simp]: "d_teams (put_user d s u) = d_teams d"
  by (simp add: put_user_def)

lemma get_team_put_user [simp]: "get_team (put_user d s u) = get_team d"
  by (simp add: get_team_def fun_eq_iff)

lemma dir_ok_put_user:
  assumes "dir_ok d" and "u_sub u = s" and "\<And>t. u_team u = Some t \<Longrightarrow> get_team d t \<noteq> None"
  shows "dir_ok (put_user d s u)"
proof -
  have "dict_ok (d_users (put_user d s u))"
    using assms(1) by (simp add: put_user_def dir_ok_def)
  with assms show ?thesis
    by (auto simp: dir_ok_def unique_names_def memberships_valid_def)
qed

lemma dir_ok_empty: "dir_ok empty_directory"
  by (simp add: dir_ok_def empty_directory_def get_user_def get_team_def unique_names_def
      memberships_valid_def)

lemma dir_ok_touched [simp]: "dir_ok (d\<lparr>d_touched := x\<rparr>) = dir_ok d"
  by (simp add: dir_ok_def unique_names_def memberships_valid_def get_user_def get_team_def)

lemma get_touched [simp]:
  "get_user (d\<lparr>d_touched := x\<rparr>) = get_user d" "get_team (d\<lparr>d_touched := x\<rparr>) = get_team d"
  "user_or_new (d\<lparr>d_touched := x\<rparr>) = user_or_new d"
  by (simp_all add: get_user_def get_team_def user_or_new_def fun_eq_iff)

lemma user_or_new_team:
  "dir_ok d \<Longrightarrow> u_team (user_or_new d s) = Some t \<Longrightarrow> get_team d t \<noteq> None"
  by (auto simp: user_or_new_def dir_ok_def memberships_valid_def new_user_def split: option.splits)

lemma dir_ok_upsert_seen: "dir_ok d \<Longrightarrow> dir_ok (upsert_seen d sub name email when roles super)"
  unfolding upsert_seen_def Let_def
  by (rule dir_ok_put_user)
     (auto simp: user_or_new_sub user_or_new_team split: option.splits dest: user_or_new_team)

lemma dir_ok_touch_user: "dir_ok d \<Longrightarrow> dir_ok (touch_user d tick now sub name email roles super)"
  by (simp add: touch_user_def Let_def dir_ok_upsert_seen)

lemma dir_ok_set_membership:
  assumes "dir_ok d" and "\<And>t. team = Some t \<Longrightarrow> get_team d t \<noteq> None"
  shows "dir_ok (set_membership d sub team role)"
  unfolding set_membership_def
  by (rule dir_ok_put_user) (use assms in \<open>auto simp: user_or_new_sub\<close>)

lemma get_team_clear [simp]: "get_team (clear_team d t) = get_team d"
  by (simp add: clear_team_def get_team_def fun_eq_iff)

lemma dict_ok_clear_team: "dict_ok (d_users (clear_team d t)) = dict_ok (d_users d)"
  by (simp add: clear_team_def)

lemma d_teams_clear_team [simp]: "d_teams (clear_team d t) = d_teams d"
  by (simp add: clear_team_def)

lemma dir_ok_clear_team: "dir_ok d \<Longrightarrow> dir_ok (clear_team d tid)"
  by (auto simp: dir_ok_def unique_names_def memberships_valid_def get_user_clear
      dict_ok_clear_team split: if_splits)

lemma dir_ok_forget_touch: "dir_ok d \<Longrightarrow> dir_ok (forget_touch d sub)"
  by (simp add: forget_touch_def)

lemma dir_ok_record_profile: "dir_ok d \<Longrightarrow> dir_ok (record_profile d now sub name email)"
  by (simp add: record_profile_def dir_ok_upsert_seen dir_ok_forget_touch)

lemma dir_ok_delete_user:
  assumes "dir_ok d"
  shows "dir_ok (snd (delete_user_record d sub))"
proof -
  let ?d = "snd (delete_user_record d sub)"
  have "get_user ?d s = (if s = sub then None else get_user d s)" for s
    by (simp add: delete_user_record_def Let_def forget_touch_def get_user_def)
  moreover have "get_team ?d = get_team d" "d_teams ?d = d_teams d"
    by (simp_all add: delete_user_record_def Let_def forget_touch_def get_team_def fun_eq_iff)
  moreover have "dict_ok (d_users ?d)"
    using assms by (simp add: delete_user_record_def Let_def forget_touch_def dir_ok_def)
  ultimately show ?thesis
    using assms by (auto simp: dir_ok_def unique_names_def memberships_valid_def split: if_splits)
qed

lemma dir_ok_put_team:
  assumes ok: "dir_ok d" and t: "t_id t = tid"
    and name: "\<And>t'. get_team d (t_id t') = Some t' \<Longrightarrow> t_id t' \<noteq> tid \<Longrightarrow> t_name t' \<noteq> t_name t"
    and d': "d' = d\<lparr>d_teams := AList.update tid t (d_teams d)\<rparr>"
  shows "dir_ok d'"
proof -
  have get: "get_team d' i = (if i = tid then Some t else get_team d i)" "get_user d' = get_user d" for i
    by (simp_all add: d' get_team_def get_user_def fun_eq_iff)
  have "dict_ok (d_teams d')" "d_users d' = d_users d"
    using ok by (simp_all add: d' dir_ok_def)
  moreover have "t_name t' \<noteq> t_name t \<and> t_name t \<noteq> t_name t'"
    if "get_team d i = Some t'" "i \<noteq> tid" for i t'
    using name [of t'] that ok by (metis dir_ok_def)
  ultimately show ?thesis
    using ok t by (auto simp: dir_ok_def unique_names_def memberships_valid_def get split: if_splits)
qed

lemma dir_ok_create_team:
  assumes "dir_ok d" and "create_team_record d tid now name = Inr (t, d')"
  shows "dir_ok d'"
proof -
  from assms(2) have free: "\<not> (\<exists>t' \<in> set (map snd (d_teams d)). t_name t' = name)"
    and t: "t = \<lparr>t_id = tid, t_name = name, t_created = now\<rparr>"
    and d': "d' = d\<lparr>d_teams := AList.update tid t (d_teams d)\<rparr>"
    by (auto simp: create_team_record_def Let_def split: if_splits)
  show ?thesis
  proof (rule dir_ok_put_team [OF assms(1) _ _ d'])
    show "t_id t = tid" using t by simp
    fix t' assume "get_team d (t_id t') = Some t'"
    with team_ids_mem [OF assms(1), of t'] free t show "t_name t' \<noteq> t_name t" by auto
  qed
qed

lemma dir_ok_rename_team:
  assumes "dir_ok d" and "rename_team_record d tid name = Inr (Some (t, d'))"
  shows "dir_ok d'"
proof -
  from assms(2) obtain t0 where t0: "get_team d tid = Some t0" and t: "t = t0\<lparr>t_name := name\<rparr>"
    and free: "\<not> (\<exists>t' \<in> set (map snd (d_teams d)). t_name t' = name \<and> t_id t' \<noteq> tid)"
    and d': "d' = d\<lparr>d_teams := AList.update tid t (d_teams d)\<rparr>"
    by (auto simp: rename_team_record_def Let_def split: option.splits if_splits)
  show ?thesis
  proof (rule dir_ok_put_team [OF assms(1) _ _ d'])
    show "t_id t = tid" using t t0 assms(1) by (simp add: dir_ok_def)
    fix t' assume "get_team d (t_id t') = Some t'" "t_id t' \<noteq> tid"
    with team_ids_mem [OF assms(1), of t'] free t show "t_name t' \<noteq> t_name t" by auto
  qed
qed

lemma get_user_delete_team [simp]: "get_user (delete_team_record d tid) = get_user d"
  by (simp add: delete_team_record_def get_user_def fun_eq_iff)

lemma get_team_delete_team [simp]:
  "get_team (delete_team_record d tid) i = (if i = tid then None else get_team d i)"
  by (simp add: delete_team_record_def get_team_def)

text \<open>Deleting a team is only safe once its members are cleared.\<close>

lemma dir_ok_delete_team:
  assumes "dir_ok d"
  shows "dir_ok (delete_team_record (clear_team d tid) tid)"
proof -
  have "dict_ok (d_users (delete_team_record (clear_team d tid) tid))"
    and "dict_ok (d_teams (delete_team_record (clear_team d tid) tid))"
    using assms by (simp_all add: delete_team_record_def dir_ok_def dict_ok_clear_team)
  moreover have "memberships_valid (delete_team_record (clear_team d tid) tid)"
    using dir_ok_clear_team [OF assms, of tid] members.cleared_team_empty
    by (auto simp: memberships_valid_def dir_ok_def)
  ultimately show ?thesis
    using dir_ok_clear_team [OF assms, of tid]
    by (auto simp: dir_ok_def unique_names_def split: if_splits)
qed

end
