(* ===== verification/References.thy ===== *)
theory References
  imports TeamDirectory
begin

text \<open>
  What a resource refers to: \<^verbatim>\<open>references\<close> and \<^verbatim>\<open>datasource_operations\<close> of
  \<^verbatim>\<open>app/application/visibility.py\<close>, with \<^verbatim>\<open>iter_parts\<close> of
  \<^verbatim>\<open>app/infrastructure/orchestration/combined_datasource.py\<close>.  Steps are JSON objects, read with
  the truthiness and the \<^verbatim>\<open>str()\<close> conversions of the source; iterating over a number or a
  boolean raises.
\<close>

section \<open>The exceptions of the visibility layer\<close>

text \<open>
  Why \<^verbatim>\<open>_scope_violation\<close> refuses: the text it returns, with the values it interpolates.
\<close>

datatype scope_problem =
    Too_Narrow visibility kind visibility kind string
  | Other_Team kind kind string
  | Owner_Not_In_Team kind kind string
  | Private_To_Another kind kind string

text \<open>
  \<^verbatim>\<open>VisibilityError\<close> and its subclasses, here and in the team and grant modules, with what
  their message reveals; \<open>Type_Error\<close> is Python's own.
\<close>

datatype verror =
    Resource_Not_Found string string
  | Not_Owner
  | Invalid_Reference "kind \<times> string" "scope_problem option"
  | Operation_Refused string string
  | Still_Referenced kind string visibility kind "(visibility \<times> string) option"
  | Id_Taken string
  | Team_Conflict
  | Team_Invalid
  | Grant_Invalid
  | Grant_Conflict
  | Type_Error

fun status_code :: "verror \<Rightarrow> nat" where
  "status_code (Resource_Not_Found _ _) = 404"
| "status_code Not_Owner = 403"
| "status_code (Invalid_Reference _ _) = 422"
| "status_code (Operation_Refused _ _) = 422"
| "status_code (Still_Referenced _ _ _ _ _) = 409"
| "status_code (Id_Taken _) = 409"
| "status_code Team_Conflict = 409"
| "status_code Team_Invalid = 422"
| "status_code Grant_Invalid = 422"
| "status_code Grant_Conflict = 409"
| "status_code Type_Error = 500"

fun label :: "kind \<Rightarrow> string" where
  "label Agent = ''agent''"
| "label Datasource = ''data source''"
| "label Script = ''script''"
| "label Workflow = ''workflow''"

text \<open>\<^verbatim>\<open>label.capitalize()\<close>.\<close>

definition capital_label :: "kind \<Rightarrow> string" where
  "capital_label k = (case label k of [] \<Rightarrow> [] | c # cs \<Rightarrow> to_upper c # cs)"

section \<open>The parts of a combined data source\<close>

lemma jiter_size:
  assumes "jiter v = Some items" and "JObj d \<in> set items"
  shows "size (jget d k) < size v"
proof -
  from assms obtain xs where v: "v = JList xs" "JObj d \<in> set xs"
    by (cases v) auto
  have "size (jget d k) < size (JObj d)"
    using jget_size [of d k] by (auto simp: jget_def split: option.splits)
  also have "size (JObj d) \<le> size_list size xs"
    using v(2) by (rule size_list_estimation') simp
  finally show ?thesis using v(1) by simp
qed

function iter_parts :: "json \<Rightarrow> string \<Rightarrow> verror + (string \<times> jobj) list" where
  "iter_parts parts prefix =
     (if \<not> jtrue parts then Inr []
      else case jiter parts of
             None \<Rightarrow> Inl Type_Error
           | Some items \<Rightarrow>
               collectE
                 (\<lambda>part. case part of
                    JObj d \<Rightarrow>
                      (let path = prefix @ py_str (jget d ''id'')
                       in bindE (if jget d ''type'' = JStr ''combined_datasource''
                                 then iter_parts (jget d ''parts'') (path @ ''.'') else Inr [])
                            (\<lambda>inner. Inr ((path, d) # inner)))
                  | _ \<Rightarrow> Inr [])
                 items)"
  by pat_completeness auto
termination
  by (relation "measure (\<lambda>(parts, prefix). size parts)") (auto intro: jiter_size)

declare iter_parts.simps [simp del]

section \<open>References\<close>

text \<open>One optional reference: the field, when truthy, as a string.\<close>

definition ref_if :: "kind \<Rightarrow> json \<Rightarrow> (kind \<times> string) list" where
  "ref_if k v = (if jtrue v then [(k, py_str v)] else [])"

definition part_refs :: "jobj \<Rightarrow> (kind \<times> string) list" where
  "part_refs part =
     (if jget part ''type'' = JStr ''data_source'' \<and> jtrue (jget part ''source'')
      then ref_if Datasource (jget part ''source'')
      else if jget part ''type'' = JStr ''python'' \<and> jtrue (jget part ''script_id'')
      then ref_if Script (jget part ''script_id'')
      else [])"

definition pool_refs :: "json \<Rightarrow> verror + (kind \<times> string) list" where
  "pool_refs pool =
     (if \<not> jtrue pool then Inr []
      else case jiter pool of
             None \<Rightarrow> Inl Type_Error
           | Some entries \<Rightarrow>
               Inr (concat (map (\<lambda>e. case e of JObj d \<Rightarrow> ref_if Agent (jget d ''agent_id'') | _ \<Rightarrow> [])
                             entries)))"

definition step_refs :: "json \<Rightarrow> verror + (kind \<times> string) list" where
  "step_refs s =
     (case s of
        JObj step \<Rightarrow>
          (let t = jget step ''type''
           in if t = JStr ''langgraph-agent'' \<or> t = JStr ''claude-agent''
                then Inr (ref_if Agent (jget step ''agent_id''))
              else if t = JStr ''data_source'' then Inr (ref_if Datasource (jget step ''source''))
              else if t = JStr ''python'' then Inr (ref_if Script (jget step ''script_id''))
              else if t = JStr ''workflow'' then Inr (ref_if Workflow (jget step ''workflow_id''))
              else if t = JStr ''combined_datasource''
                then bindE (iter_parts (jget step ''parts'') [])
                       (\<lambda>parts. Inr (concat (map (\<lambda>(_, part). part_refs part) parts)))
              else if t = JStr ''dynamic'' then pool_refs (jget step ''agent_pool'')
              else Inr [])
      | _ \<Rightarrow> Inr [])"

definition addon_refs :: "addon \<Rightarrow> (kind \<times> string) list" where
  "addon_refs a =
     (case a of Datasource_Addon source _ \<Rightarrow> if source \<noteq> [] then [(Datasource, source)] else []
      | Other_Addon _ \<Rightarrow> [])"

definition references :: "kind \<Rightarrow> resource \<Rightarrow> verror + (kind \<times> string) list" where
  "references k r =
     (if k = Workflow then collectE step_refs (r_steps r)
      else if k = Agent then Inr (concat (map addon_refs (r_addons r)))
      else Inr [])"

section \<open>Operations called\<close>

text \<open>
  The dictionary of sets is its list of (source, operation) pairs; \<open>operations_on\<close> is the
  sorted set the caller iterates over.
\<close>

definition op_pair :: "json \<Rightarrow> json \<Rightarrow> (string \<times> string) list" where
  "op_pair source operation =
     (if jtrue source \<and> jtrue operation then [(py_str source, py_str operation)] else [])"

definition step_operations :: "json \<Rightarrow> verror + (string \<times> string) list" where
  "step_operations s =
     (case s of
        JObj step \<Rightarrow>
          (let t = jget step ''type''
           in if t = JStr ''data_source''
                then Inr (op_pair (jget step ''source'') (jget step ''operation''))
              else if t = JStr ''combined_datasource''
                then bindE (iter_parts (jget step ''parts'') [])
                       (\<lambda>parts. Inr (concat (map (\<lambda>(_, part).
                          if jget part ''type'' = JStr ''data_source''
                          then op_pair (jget part ''source'') (jget part ''operation'') else []) parts)))
              else Inr [])
      | _ \<Rightarrow> Inr [])"

definition addon_operations :: "addon \<Rightarrow> (string \<times> string) list" where
  "addon_operations a =
     (case a of
        Datasource_Addon source ops \<Rightarrow> concat (map (\<lambda>op. op_pair (JStr source) (JStr op)) ops)
      | Other_Addon _ \<Rightarrow> [])"

definition datasource_operations :: "kind \<Rightarrow> resource \<Rightarrow> verror + (string \<times> string) list" where
  "datasource_operations k r =
     (if k = Workflow then collectE step_operations (r_steps r)
      else if k = Agent then Inr (concat (map addon_operations (r_addons r)))
      else Inr [])"

definition operations_on :: "string \<Rightarrow> (string \<times> string) list \<Rightarrow> string list" where
  "operations_on source pairs = sorted_list_of_set (set (map snd (filter (\<lambda>p. fst p = source) pairs)))"

section \<open>Properties\<close>

lemma references_cong:
  "r_steps r = r_steps r' \<Longrightarrow> r_addons r = r_addons r' \<Longrightarrow> references k r = references k r'"
  by (simp add: references_def)

lemma op_pair_ref: "(src, n) \<in> set (op_pair s o') \<Longrightarrow> (Datasource, src) \<in> set (ref_if Datasource s)"
  by (auto simp: op_pair_def ref_if_def split: if_splits)

lemma addon_operations_ref:
  "(src, n) \<in> set (addon_operations a) \<Longrightarrow> (Datasource, src) \<in> set (addon_refs a)"
  by (auto simp: addon_operations_def addon_refs_def op_pair_def split: addon.splits if_splits)

lemma step_operations_ref:
  assumes "step_operations s = Inr ops" and "(src, n) \<in> set ops"
  shows "\<exists>rs. step_refs s = Inr rs \<and> (Datasource, src) \<in> set rs"
proof (cases s)
  case (JObj step)
  show ?thesis
  proof (cases "jget step ''type'' = JStr ''combined_datasource''")
    case True
    with assms JObj obtain parts where parts: "iter_parts (jget step ''parts'') [] = Inr parts"
      and ops: "ops = concat (map (\<lambda>(_, part). if jget part ''type'' = JStr ''data_source''
                  then op_pair (jget part ''source'') (jget part ''operation'') else []) parts)"
      by (auto simp: step_operations_def bindE_Inr_iff)
    from assms(2) ops obtain path part where p: "(path, part) \<in> set parts"
      and t: "jget part ''type'' = JStr ''data_source''"
      and op: "(src, n) \<in> set (op_pair (jget part ''source'') (jget part ''operation''))"
      by (auto split: if_splits)
    from op_pair_ref [OF op] t have "(Datasource, src) \<in> set (part_refs part)"
      by (auto simp: part_refs_def ref_if_def split: if_splits)
    with True JObj parts p show ?thesis by (force simp: step_refs_def)
  next
    case False
    with assms JObj show ?thesis
      by (auto simp: step_operations_def step_refs_def Let_def dest!: op_pair_ref split: if_splits)
  qed
qed (use assms in \<open>auto simp: step_operations_def\<close>)

text \<open>
  Every operation the reference check can be asked about is an operation of a source the
  resource references: no call escapes the check by being missing from the reference list.
\<close>

theorem called_sources_are_referenced:
  assumes refs: "references k r = Inr rs" and ops: "datasource_operations k r = Inr ops"
    and call: "(src, n) \<in> set ops"
  shows "(Datasource, src) \<in> set rs"
proof (cases "k = Workflow")
  case True
  from ops call True obtain s ys where s: "s \<in> set (r_steps r)" "step_operations s = Inr ys"
    "(src, n) \<in> set ys"
    by (auto simp: datasource_operations_def dest: collectE_Inr_memD)
  from step_operations_ref [OF s(2,3)] obtain zs where
    "step_refs s = Inr zs" "(Datasource, src) \<in> set zs" by blast
  moreover from refs True have "collectE step_refs (r_steps r) = Inr rs"
    by (simp add: references_def)
  ultimately show ?thesis using collectE_Inr_memI [OF _ s(1)] by blast
next
  case False
  with ops call obtain a where "k = Agent" "a \<in> set (r_addons r)"
    "(src, n) \<in> set (addon_operations a)"
    by (auto simp: datasource_operations_def split: if_splits)
  with refs addon_operations_ref [OF this(3)] show ?thesis
    by (auto simp: references_def)
qed

definition example_flow :: resource where
  "example_flow = example_private\<lparr>r_kind := Workflow, r_id := ''flow'', r_grants := [],
     r_steps := [JObj [(''id'', JStr ''s1''), (''type'', JStr ''combined_datasource''),
       (''parts'', JList [JObj [(''id'', JStr ''p''), (''type'', JStr ''data_source''),
          (''source'', JStr ''crm''), (''operation'', JStr ''create'')]])]]\<rparr>"

theorem called_sources_are_referenced_witness:
  "(Datasource, ''crm'') \<in> set [(Datasource, ''crm'')]"
proof -
  have refs: "references Workflow example_flow = Inr [(Datasource, ''crm'')]"
    and ops: "datasource_operations Workflow example_flow = Inr [(''crm'', ''create'')]"
    by (code_simp)+
  show ?thesis by (rule called_sources_are_referenced [OF refs ops, of _ "''create''"]) simp
qed

end
