(* ===== verification/Backend.thy ===== *)
theory Backend
  imports References
begin

text \<open>
  The raw definition backends the visibility layer wraps
  (\<^verbatim>\<open>app/infrastructure/persistence/agent_backend.py\<close> and its three siblings): a collection of
  documents keyed by id, with \<^verbatim>\<open>create\<close> and \<^verbatim>\<open>update\<close> both upserting.  The client
  of a backend relies on the laws of the locale \<open>definition_backend\<close> only.
\<close>

type_synonym store = "resource dict"

definition raw_list :: "store \<Rightarrow> resource list" where
  "raw_list st = map snd st"

definition raw_get :: "store \<Rightarrow> string \<Rightarrow> resource option" where
  "raw_get st i = map_of st i"

definition raw_create :: "resource \<Rightarrow> store \<Rightarrow> store" where
  "raw_create r st = AList.update (r_id r) r st"

text \<open>\<^verbatim>\<open>definition.id = agent_id\<close> first.\<close>

definition raw_update :: "string \<Rightarrow> resource \<Rightarrow> store \<Rightarrow> store" where
  "raw_update i r st = AList.update i (r\<lparr>r_id := i\<rparr>) st"

definition raw_delete :: "string \<Rightarrow> store \<Rightarrow> store" where
  "raw_delete i st = AList.delete i st"

text \<open>Documents are keyed by their own id.\<close>

definition store_ok :: "store \<Rightarrow> bool" where
  "store_ok st = (dict_ok st \<and> (\<forall>(i, r) \<in> set st. r_id r = i))"

locale definition_backend =
  fixes get :: "'s \<Rightarrow> string \<Rightarrow> resource option"
    and listing :: "'s \<Rightarrow> resource list"
    and create :: "resource \<Rightarrow> 's \<Rightarrow> 's"
    and update :: "string \<Rightarrow> resource \<Rightarrow> 's \<Rightarrow> 's"
    and remove :: "string \<Rightarrow> 's \<Rightarrow> 's"
    and ok :: "'s \<Rightarrow> bool"
  assumes listed: "ok s \<Longrightarrow> r \<in> set (listing s) \<longleftrightarrow> get s (r_id r) = Some r"
    and keyed: "ok s \<Longrightarrow> get s i = Some r \<Longrightarrow> r_id r = i"
    and get_create: "get (create r s) i = (if i = r_id r then Some r else get s i)"
    and get_update: "get (update j r s) i = (if i = j then Some (r\<lparr>r_id := j\<rparr>) else get s i)"
    and get_remove: "get (remove j s) i = (if i = j then None else get s i)"
    and ok_create: "ok s \<Longrightarrow> ok (create r s)"
    and ok_update: "ok s \<Longrightarrow> ok (update i r s)"
    and ok_remove: "ok s \<Longrightarrow> ok (remove i s)"
begin

text \<open>What a client derives: the listing after a write, and that writes elsewhere do not show.\<close>

lemma listed_get: "ok s \<Longrightarrow> get s i = Some r \<Longrightarrow> r \<in> set (listing s)"
  using listed keyed by blast

lemma listing_create:
  "ok s \<Longrightarrow> set (listing (create r s)) = insert r {r' \<in> set (listing s). r_id r' \<noteq> r_id r}"
  by (auto simp: listed ok_create get_create split: if_splits)

lemma listing_update:
  "ok s \<Longrightarrow> r_id r = i \<Longrightarrow>
     set (listing (update i r s)) = insert r {r' \<in> set (listing s). r_id r' \<noteq> i}"
  by (auto simp: listed ok_update get_update split: if_splits)

lemma listing_remove:
  "ok s \<Longrightarrow> set (listing (remove i s)) = {r' \<in> set (listing s). r_id r' \<noteq> i}"
  by (auto simp: listed ok_remove get_remove split: if_splits)

lemma update_is_create: "r_id r = i \<Longrightarrow> get (update i r s) = get (create r s)"
  by (auto simp: fun_eq_iff get_update get_create)

end

lemma set_delete_subset: "set (AList.delete k d) \<subseteq> set d"
  by (auto simp: AList.delete_eq)

interpretation backend: definition_backend raw_get raw_list raw_create raw_update raw_delete store_ok
proof
  fix s :: store and r :: resource and i j :: string
  show "r \<in> set (raw_list s) \<longleftrightarrow> raw_get s (r_id r) = Some r" if ok: "store_ok s"
    unfolding raw_list_def raw_get_def set_map
    by (rule dict_values_iff) (use ok in \<open>auto simp: store_ok_def dest: map_of_SomeD\<close>)
  show "r_id r = i" if "store_ok s" "raw_get s i = Some r"
    using that by (auto simp: store_ok_def raw_get_def dest: map_of_SomeD)
  show "store_ok (raw_create r s)" if "store_ok s"
    using that by (auto simp: store_ok_def raw_create_def dict_values_update)
  show "store_ok (raw_update i r s)" if "store_ok s"
    using that by (auto simp: store_ok_def raw_update_def dict_values_update)
  show "store_ok (raw_delete i s)" if "store_ok s"
    using that set_delete_subset [of i s] by (auto simp: store_ok_def raw_delete_def)
qed (auto simp: raw_get_def raw_create_def raw_update_def raw_delete_def)

lemmas backend_laws = backend.get_create backend.get_update backend.get_remove
  backend.listing_create backend.listing_update backend.listing_remove

end
