(* ===== verification/ReferenceGuard.thy ===== *)
theory ReferenceGuard
  imports Backend
begin

text \<open>
  \<^verbatim>\<open>ReferenceGuard\<close> of \<^verbatim>\<open>app/application/visibility.py\<close>: which resource may use which, checked
  across the four raw backends.  The world holds what the guard resolves: a raw backend per kind
  (or none) and the team directory (or none).
\<close>

record world =
  w_stores :: "kind \<Rightarrow> store option"
  w_dir :: "directory option"

definition find_target :: "world \<Rightarrow> kind \<Rightarrow> string \<Rightarrow> resource option" where
  "find_target w k i = Option.bind (w_stores w k) (\<lambda>st. raw_get st i)"

section \<open>Scope rules\<close>

definition scope_violation ::
    "directory option \<Rightarrow> resource \<Rightarrow> kind \<Rightarrow> resource \<Rightarrow> kind \<Rightarrow> scope_problem option" where
  "scope_violation dir user user_kind used used_kind =
     (let uid = r_id used; user_vis = r_visibility user; used_vis = r_visibility used
      in if rank used_vis < rank user_vis
           then Some (Too_Narrow user_vis user_kind used_vis used_kind uid)
         else if used_vis = Team then
           (if user_vis = Team then
              (if team_of_res user \<noteq> team_of_res used
               then Some (Other_Team user_kind used_kind uid) else None)
            else if user_vis = Private then
              (if team_of dir (r_owner user) \<noteq> team_of_res used
               then Some (Owner_Not_In_Team user_kind used_kind uid) else None)
            else None)
         else if used_vis = Private then
           (if r_owner used \<noteq> r_owner user
            then Some (Private_To_Another user_kind used_kind uid) else None)
         else None)"

definition violation ::
    "directory option \<Rightarrow> resource \<Rightarrow> kind \<Rightarrow> resource \<Rightarrow> kind \<Rightarrow> scope_problem option" where
  "violation dir user user_kind used used_kind =
     (let problem = scope_violation dir user user_kind used used_kind
      in if problem \<noteq> None \<and> grant_access user user_kind used \<noteq> None then None else problem)"

definition access_through_grant ::
    "directory option \<Rightarrow> resource \<Rightarrow> kind \<Rightarrow> resource \<Rightarrow> kind \<Rightarrow> access option" where
  "access_through_grant dir user user_kind used used_kind =
     (if scope_violation dir user user_kind used used_kind = None then None
      else grant_access user user_kind used)"

section \<open>Checking references on save\<close>

text \<open>\<^verbatim>\<open>dict.fromkeys\<close>: the first occurrences, in order.\<close>

definition dedupe :: "'a list \<Rightarrow> 'a list" where
  "dedupe xs = rev (remdups (rev xs))"

lemma set_dedupe [simp]: "set (dedupe xs) = set xs"
  by (simp add: dedupe_def)

lemma distinct_dedupe [simp]: "distinct (dedupe xs)"
  by (simp add: dedupe_def)

definition check_operations ::
    "directory option \<Rightarrow> kind \<Rightarrow> resource \<Rightarrow> resource \<Rightarrow> string \<Rightarrow> verror + unit" where
  "check_operations dir k r target ref_id =
     (let acc = access_through_grant dir r k target Datasource
      in bindE (datasource_operations k r)
           (\<lambda>ops. forE (\<lambda>n. guardE (\<not> operation_denied target n acc) (Operation_Refused ref_id n))
                    (operations_on ref_id ops)))"

definition check_reference ::
    "subject option \<Rightarrow> world \<Rightarrow> kind \<Rightarrow> resource \<Rightarrow> (kind \<times> string) list \<Rightarrow> kind \<times> string \<Rightarrow>
     verror + unit" where
  "check_reference su w k r kept ref =
     (if ref = (k, r_id r) then Inr ()
      else case find_target w (fst ref) (snd ref) of
             None \<Rightarrow> Inr ()
           | Some target \<Rightarrow>
               if \<not> can_see su target \<and> grant_access r k target = None \<and> ref \<notin> set kept
               then Inl (Invalid_Reference ref None)
               else case violation (w_dir w) r k target (fst ref) of
                      Some problem \<Rightarrow> Inl (Invalid_Reference ref (Some problem))
                    | None \<Rightarrow>
                        if fst ref = Datasource
                        then check_operations (w_dir w) k r target (snd ref)
                        else Inr ())"

definition check_references ::
    "subject option \<Rightarrow> world \<Rightarrow> kind \<Rightarrow> resource \<Rightarrow> resource option \<Rightarrow> verror + unit" where
  "check_references su w k r existing =
     bindE (case existing of None \<Rightarrow> Inr [] | Some e \<Rightarrow> references k e)
       (\<lambda>kept. bindE (references k r)
          (\<lambda>refs. forE (check_reference su w k r kept) (dedupe refs)))"

section \<open>Checking referrers when a resource narrows\<close>

definition check_referrer ::
    "subject option \<Rightarrow> world \<Rightarrow> kind \<Rightarrow> resource \<Rightarrow> kind \<Rightarrow> resource \<Rightarrow> verror + unit" where
  "check_referrer su w k r referrer_kind referrer =
     (if referrer_kind = k \<and> r_id referrer = r_id r then Inr ()
      else bindE (references referrer_kind referrer)
        (\<lambda>refs.
           if (k, r_id r) \<notin> set refs then Inr ()
           else guardE (violation (w_dir w) referrer referrer_kind r k = None)
             (Still_Referenced k (r_id r) (r_visibility r) referrer_kind
               (if can_see su referrer then Some (r_visibility referrer, r_id referrer) else None))))"

definition check_narrowing ::
    "subject option \<Rightarrow> world \<Rightarrow> kind \<Rightarrow> resource \<Rightarrow> verror + unit" where
  "check_narrowing su w k r =
     forE (\<lambda>referrer_kind.
             case w_stores w referrer_kind of
               None \<Rightarrow> Inr ()
             | Some st \<Rightarrow> forE (check_referrer su w k r referrer_kind) (raw_list st))
       (Workflow # (if k = Datasource then [Agent] else []))"

section \<open>Forgetting the grants of a deleted workflow\<close>

definition is_workflow_grant :: "string \<Rightarrow> grant \<Rightarrow> bool" where
  "is_workflow_grant wid g = (g_type g = To_Workflow \<and> g_grantee g = wid)"

definition drop_in_source :: "string \<Rightarrow> resource \<Rightarrow> store \<Rightarrow> store" where
  "drop_in_source wid source st =
     (let kept = filter (\<lambda>g. \<not> is_workflow_grant wid g) (grants_of source)
      in if length kept \<noteq> length (grants_of source)
         then raw_update (r_id source) (source\<lparr>r_grants := kept\<rparr>) st else st)"

definition drop_in_kind :: "string \<Rightarrow> kind \<Rightarrow> world \<Rightarrow> world" where
  "drop_in_kind wid k w =
     (case w_stores w k of
        None \<Rightarrow> w
      | Some st \<Rightarrow> w\<lparr>w_stores := (w_stores w)(k \<mapsto> fold (drop_in_source wid) (raw_list st) st)\<rparr>)"

definition drop_workflow_grants :: "string \<Rightarrow> world \<Rightarrow> world" where
  "drop_workflow_grants wid w = fold (drop_in_kind wid) [Datasource, Agent, Workflow] w"

section \<open>What the checks establish\<close>

lemma scope_violation_public [simp]:
  "r_visibility used = Public \<Longrightarrow> scope_violation dir user uk used dk = None"
  by (cases "r_visibility user") (simp_all add: scope_violation_def)

lemma violation_public [simp]: "r_visibility used = Public \<Longrightarrow> violation dir user uk used dk = None"
  by (simp add: violation_def)

lemma violation_None_iff:
  "violation dir user uk used dk = None \<longleftrightarrow>
     scope_violation dir user uk used dk = None \<or> grant_access user uk used \<noteq> None"
  by (auto simp: violation_def Let_def)

lemma scope_violation_None_iff:
  "scope_violation dir user uk used dk = None \<longleftrightarrow>
     (case r_visibility used of
        Public \<Rightarrow> True
      | Team \<Rightarrow> (case r_visibility user of
                   Public \<Rightarrow> False
                 | Team \<Rightarrow> team_of_res user = team_of_res used
                 | Private \<Rightarrow> team_of dir (r_owner user) = team_of_res used)
      | Private \<Rightarrow> r_visibility user = Private \<and> r_owner used = r_owner user)"
  by (cases "r_visibility used"; cases "r_visibility user") (auto simp: scope_violation_def)

lemma grant_access_cong:
  "r_id u = r_id u' \<Longrightarrow> r_visibility u = r_visibility u' \<Longrightarrow> r_owner u = r_owner u' \<Longrightarrow>
   grants_of d = grants_of d' \<Longrightarrow> grant_access u uk d = grant_access u' uk d'"
  using grant_for_cong [of d d'] by (simp add: grant_access_def workflow_grant_def user_grant_def)

text \<open>A passed check, reference by reference.\<close>

lemma check_reference_Inr:
  assumes "check_reference su w k r kept (tk, ti) = Inr u" and "(tk, ti) \<noteq> (k, r_id r)"
    and "find_target w tk ti = Some target"
  shows "violation (w_dir w) r k target tk = None \<and>
         (can_see su target \<or> grant_access r k target \<noteq> None \<or> (tk, ti) \<in> set kept)"
  using assms by (auto simp: check_reference_def split: if_splits option.splits)

lemma check_references_Inr:
  assumes "check_references su w k r existing = Inr u"
  obtains kept refs where "(case existing of None \<Rightarrow> Inr [] | Some e \<Rightarrow> references k e) = Inr kept"
    and "references k r = Inr refs"
    and "\<And>ref. ref \<in> set refs \<Longrightarrow> check_reference su w k r kept ref = Inr ()"
proof -
  from assms obtain kept refs where
    "(case existing of None \<Rightarrow> Inr [] | Some e \<Rightarrow> references k e) = Inr kept"
    "references k r = Inr refs" "forE (check_reference su w k r kept) (dedupe refs) = Inr ()"
    unfolding check_references_def bindE_Inr_iff by auto
  then show thesis using that by (auto simp: forE_Inr_iff)
qed

lemma step_refs_agent_only:
  "references Agent r = Inr rs \<Longrightarrow> (tk, ti) \<in> set rs \<Longrightarrow> tk = Datasource"
  by (auto simp: references_def addon_refs_def split: addon.splits if_splits)

lemma references_kinds:
  "references k r = Inr rs \<Longrightarrow> rs \<noteq> [] \<Longrightarrow> k = Workflow \<or> k = Agent"
  by (auto simp: references_def split: if_splits)

text \<open>A passed narrowing check covers every referrer there can be.\<close>

lemma check_narrowing_Inr:
  assumes pass: "check_narrowing su w k r = Inr u" and st: "w_stores w uk = Some st"
    and user: "user \<in> set (raw_list st)" and refs: "references uk user = Inr refs"
    and used: "(k, r_id r) \<in> set refs" and other: "(uk, r_id user) \<noteq> (k, r_id r)"
  shows "violation (w_dir w) user uk r k = None"
proof -
  from used have "refs \<noteq> []" by auto
  from references_kinds [OF refs this] step_refs_agent_only [of user refs k] refs used
  have "uk \<in> set (Workflow # (if k = Datasource then [Agent] else []))" by auto
  with pass st user have "check_referrer su w k r uk user = Inr ()"
    unfolding check_narrowing_def forE_Inr_iff by (fastforce simp: forE_Inr_iff)
  with refs used other show ?thesis
    by (auto simp: check_referrer_def split: if_splits)
qed

section \<open>Dropping grants\<close>

definition without_grants_to :: "string \<Rightarrow> resource \<Rightarrow> resource" where
  "without_grants_to wid r =
     (if \<exists>g \<in> set (grants_of r). is_workflow_grant wid g
      then r\<lparr>r_grants := filter (\<lambda>g. \<not> is_workflow_grant wid g) (grants_of r)\<rparr> else r)"

lemma length_filter_neq: "length (filter P xs) \<noteq> length xs \<longleftrightarrow> (\<exists>x \<in> set xs. \<not> P x)"
  by (induction xs) (auto simp: Suc_length_conv, metis Suc_n_not_le_n length_filter_le)

definition granted_to_flow :: "string \<Rightarrow> resource \<Rightarrow> bool" where
  "granted_to_flow wid r = (\<exists>g \<in> set (grants_of r). is_workflow_grant wid g)"

lemma without_grants_id [simp]: "r_id (without_grants_to wid r) = r_id r"
  by (simp add: without_grants_to_def)

lemma without_grants_unchanged: "\<not> granted_to_flow wid r \<Longrightarrow> without_grants_to wid r = r"
  by (simp add: without_grants_to_def granted_to_flow_def)

lemma drop_in_source_get:
  "raw_get (drop_in_source wid src st) i =
     (if i = r_id src \<and> granted_to_flow wid src then Some (without_grants_to wid src)
      else raw_get st i)"
  by (auto simp: drop_in_source_def Let_def length_filter_neq without_grants_to_def
      backend.get_update granted_to_flow_def)

lemma drop_in_source_ok: "store_ok st \<Longrightarrow> store_ok (drop_in_source wid src st)"
  by (simp add: drop_in_source_def Let_def backend.ok_update)

lemma fold_drop_ok: "store_ok st \<Longrightarrow> store_ok (fold (drop_in_source wid) rs st)"
  by (induction rs arbitrary: st) (auto intro: drop_in_source_ok)

lemma fold_drop_get:
  "distinct (map r_id rs) \<Longrightarrow>
     raw_get (fold (drop_in_source wid) rs st) i =
       (case find (\<lambda>r. r_id r = i) rs of
          None \<Rightarrow> raw_get st i
        | Some r \<Rightarrow> if granted_to_flow wid r then Some (without_grants_to wid r) else raw_get st i)"
proof (induction rs arbitrary: st)
  case (Cons r rs)
  have "r_id r = i \<Longrightarrow> find (\<lambda>r. r_id r = i) rs = None"
    using Cons.prems by (auto simp: find_None_iff) (metis image_eqI)
  then show ?case
    using Cons by (auto simp: drop_in_source_get split: option.splits)
qed simp

lemma find_raw_list: "store_ok st \<Longrightarrow> find (\<lambda>r. r_id r = i) (raw_list st) = raw_get st i"
  by (induction st) (auto simp: raw_list_def raw_get_def store_ok_def dict_ok_def)

lemma distinct_ids: "store_ok st \<Longrightarrow> distinct (map r_id (raw_list st))"
proof -
  assume "store_ok st"
  then have "map r_id (raw_list st) = map fst st" and "distinct (map fst st)"
    by (auto simp: store_ok_def raw_list_def dict_ok_def)
  then show ?thesis by simp
qed

lemma drop_all_get:
  "store_ok st \<Longrightarrow>
     raw_get (fold (drop_in_source wid) (raw_list st) st) i =
       map_option (without_grants_to wid) (raw_get st i)"
  by (auto simp: fold_drop_get distinct_ids find_raw_list without_grants_unchanged split: option.splits)

lemma find_target_drop_in_kind:
  assumes "\<And>st. w_stores w k = Some st \<Longrightarrow> store_ok st"
  shows "find_target (drop_in_kind wid k w) k' i =
           (if k' = k then map_option (without_grants_to wid) (find_target w k' i)
            else find_target w k' i)"
  using assms
  by (cases "w_stores w k") (auto simp: drop_in_kind_def find_target_def drop_all_get)

section \<open>Properties\<close>

lemma check_operations_Inr:
  assumes "check_operations dir k r target i = Inr u"
    and "access_through_grant dir r k target Datasource = Some Read"
    and "datasource_operations k r = Inr ops" and "(i, n) \<in> set ops"
    and "get_operation target n = Some op"
  shows "\<not> operation_writes op (Some (r_source_kind target))"
proof -
  have "n \<in> set (operations_on i ops)"
    using assms(4) by (force simp: operations_on_def)
  with assms(1-3) have "\<not> operation_denied target n (Some Read)"
    by (auto simp: check_operations_def forE_Inr_iff)
  with assms(5) show ?thesis by (simp add: operation_denied_def)
qed

text \<open>
  A resource that passes the save check uses only what it may: every other resource it refers
  to, where one exists, is allowed to it by the scope rules or by a grant, is visible to the
  caller unless granted or used before, and where only a read grant opens a data source, no
  operation called on it writes.
\<close>

theorem checked_references_allowed:
  assumes pass: "check_references su w k r existing = Inr u"
    and refs: "references k r = Inr refs" and ref: "(tk, ti) \<in> set refs" "(tk, ti) \<noteq> (k, r_id r)"
    and target: "find_target w tk ti = Some target"
    and old: "(case existing of None \<Rightarrow> Inr [] | Some e \<Rightarrow> references k e) = Inr kept"
  shows "(scope_violation (w_dir w) r k target tk = None \<or> grant_access r k target \<noteq> None) \<and>
         (can_see su target \<or> grant_access r k target \<noteq> None \<or> (tk, ti) \<in> set kept) \<and>
         (tk = Datasource \<longrightarrow> access_through_grant (w_dir w) r k target Datasource = Some Read \<longrightarrow>
            (\<forall>ops n op. datasource_operations k r = Inr ops \<longrightarrow> (ti, n) \<in> set ops \<longrightarrow>
               get_operation target n = Some op \<longrightarrow>
               \<not> operation_writes op (Some (r_source_kind target))))"
proof -
  from pass obtain kept' refs' where k': "(case existing of None \<Rightarrow> Inr [] | Some e \<Rightarrow> references k e) = Inr kept'"
    and r': "references k r = Inr refs'"
    and all: "\<And>ref. ref \<in> set refs' \<Longrightarrow> check_reference su w k r kept' ref = Inr ()"
    by (rule check_references_Inr) blast
  with refs old have [simp]: "kept' = kept" "refs' = refs" by auto
  have this_ref: "check_reference su w k r kept (tk, ti) = Inr ()"
    using all ref by simp
  note c = check_reference_Inr [OF this_ref ref(2) target]
  have "tk = Datasource \<Longrightarrow> check_operations (w_dir w) k r target ti = Inr ()"
    using this_ref ref(2) target by (auto simp: check_reference_def split: if_splits option.splits)
  then show ?thesis
    using c check_operations_Inr [of "w_dir w" k r target ti "()"] by (auto simp: violation_None_iff)
qed

definition flow_world :: world where
  "flow_world = \<lparr>w_stores = (\<lambda>_. None)(Datasource \<mapsto> [(''crm'', example_private)]), w_dir = None\<rparr>"

theorem checked_references_allowed_witness:
  "\<exists>target. find_target flow_world Datasource ''crm'' = Some target \<and>
     (scope_violation None example_flow Workflow target Datasource = None \<or>
      grant_access example_flow Workflow target \<noteq> None)"
proof -
  have pass: "check_references (Some (example_user ''ann'' None)) flow_world Workflow example_flow None
                = Inr ()" by code_simp
  have refs: "references Workflow example_flow = Inr [(Datasource, ''crm'')]" by code_simp
  have t: "find_target flow_world Datasource ''crm'' = Some example_private"
    by (simp add: flow_world_def find_target_def raw_get_def)
  have d: "w_dir flow_world = None" by (simp add: flow_world_def)
  show ?thesis
    using checked_references_allowed [OF pass refs _ _ t, of "[]"] d t by simp
qed

text \<open>
  The scope rules do what they are for: when they let a resource use another, every bound
  caller who sees the first by its scope also sees the second, provided the directory agrees with
  the caller's team, a team resource names its team and is seen through it (or by a super admin).
\<close>

theorem scope_rules_sound:
  assumes ok: "scope_violation dir r k target tk = None"
    and sees: "can_see_natively (Some s) r"
    and team: "team_of dir (sid s) = steam s"
    and inside: "r_visibility r = Team \<Longrightarrow> is_super_admin s \<or> in_team s r"
    and named: "r_visibility target = Team \<Longrightarrow> r_team target \<noteq> None"
  shows "can_see (Some s) target"
proof (cases "is_super_admin s \<or> r_visibility target = Public")
  case True
  then show ?thesis by (auto simp: can_see_def)
next
  case False
  have own: "r_owner r = sid s \<and> sid s \<noteq> None" if "r_visibility r = Private"
    using sees that False
    by (cases "sid s")
       (auto simp: can_see_natively_def can_see_def in_team_def team_of_res_def split: if_splits
        dest: user_grant_truthy)
  show ?thesis
  proof (cases "r_visibility target")
    case Team
    then show ?thesis
      using ok False team inside own named
      by (cases "r_visibility r")
         (auto simp: scope_violation_None_iff can_see_def in_team_def team_of_res_def split: if_splits)
  next
    case Private
    then show ?thesis
      using ok False own by (auto simp: scope_violation_None_iff can_see_def)
  qed (use False in simp)
qed

theorem scope_rules_sound_witness:
  "can_see (Some (example_user ''ann'' None)) example_private"
  by (rule scope_rules_sound [of None example_flow Workflow example_private Datasource])
     (code_simp, code_simp, simp add: team_of_def example_user_def,
      simp_all add: example_flow_def example_private_def)

text \<open>
  The proviso on team resources is needed: the owner of a team workflow who has left the team
  still sees the workflow, while the team's data source it may use is hidden from them.
\<close>

theorem departed_owner_gap:
  "\<exists>r target s. scope_violation None r Workflow target Datasource = None \<and>
     can_see_natively (Some s) r \<and> team_of None (sid s) = steam s \<and> \<not> can_see (Some s) target"
proof (intro exI conjI)
  let ?r = "example_flow\<lparr>r_visibility := Team, r_team := Some ''t1''\<rparr>"
  let ?t = "example_private\<lparr>r_visibility := Team, r_team := Some ''t1'', r_owner := Some ''bea'',
              r_grants := []\<rparr>"
  let ?s = "example_user ''ann'' None"
  show "scope_violation None ?r Workflow ?t Datasource = None"
    and "can_see_natively (Some ?s) ?r" and "team_of None (sid ?s) = steam ?s"
    and "\<not> can_see (Some ?s) ?t"
    by (code_simp | simp add: team_of_def example_user_def)+
qed

end
