(* ===== verification/ScopedBackend.thy ===== *)
theory ScopedBackend
  imports ReferenceGuard
begin

text \<open>
  \<^verbatim>\<open>VisibilityScopedBackend\<close>, \<^verbatim>\<open>WorkflowSources\<close> and the run-level helpers of
  \<^verbatim>\<open>app/application/visibility.py\<close>.  A write takes the ambient subject, the world, the kind of the
  backend and the resource, with \<open>vset\<close>/\<open>tset\<close> telling whether the request set
  \<^verbatim>\<open>visibility\<close>/\<^verbatim>\<open>team_id\<close> (\<^verbatim>\<open>model_fields_set\<close>); it raises or returns the new world.
\<close>

definition inner_store :: "world \<Rightarrow> kind \<Rightarrow> store" where
  "inner_store w k = (case w_stores w k of None \<Rightarrow> [] | Some st \<Rightarrow> st)"

definition set_store :: "kind \<Rightarrow> store \<Rightarrow> world \<Rightarrow> world" where
  "set_store k st w = w\<lparr>w_stores := (w_stores w)(k \<mapsto> st)\<rparr>"

section \<open>Reads\<close>

definition scoped_list :: "subject option \<Rightarrow> world \<Rightarrow> kind \<Rightarrow> resource list" where
  "scoped_list su w k = filter (can_see su) (raw_list (inner_store w k))"

definition scoped_get :: "subject option \<Rightarrow> world \<Rightarrow> kind \<Rightarrow> string \<Rightarrow> resource option" where
  "scoped_get su w k i =
     (case raw_get (inner_store w k) i of
        None \<Rightarrow> None
      | Some r \<Rightarrow> if can_see su r then Some r else None)"

definition raw_get_by_name :: "store \<Rightarrow> string \<Rightarrow> resource option" where
  "raw_get_by_name st n = find (\<lambda>r. r_name r = n) (raw_list st)"

definition scoped_get_by_name :: "subject option \<Rightarrow> world \<Rightarrow> kind \<Rightarrow> string \<Rightarrow> resource option" where
  "scoped_get_by_name su w k n =
     (case raw_get_by_name (inner_store w k) n of
        None \<Rightarrow> None
      | Some r \<Rightarrow>
          if can_see su r then Some r
          else find (\<lambda>c. r_name c = n \<and> can_see su c) (raw_list (inner_store w k)))"

section \<open>Writes\<close>

definition resolve_team ::
    "subject option \<Rightarrow> directory option \<Rightarrow> bool \<Rightarrow> resource \<Rightarrow> resource option \<Rightarrow>
     verror + string option" where
  "resolve_team su dir tset r existing =
     (let requested = if tset then r_team r else None;
          stored = (case existing of None \<Rightarrow> None | Some e \<Rightarrow> team_of_res e)
      in if truthy requested \<and> requested = stored then Inr stored
         else case su of
                None \<Rightarrow> Inr (py_or requested stored)
              | Some s \<Rightarrow>
                  if is_super_admin s then
                    (let team = py_or (py_or requested stored) (steam s)
                     in if \<not> truthy team then Inl Team_Invalid
                        else case dir of
                               None \<Rightarrow> Inr team
                             | Some d \<Rightarrow> if get_team d (the team) = None then Inl Team_Invalid
                                        else Inr team)
                  else if truthy requested \<and> requested \<noteq> steam s then Inl Not_Owner
                  else if truthy stored \<and> \<not> truthy requested then Inr stored
                  else if \<not> truthy (steam s) then Inl Team_Invalid
                  else Inr (steam s))"

text \<open>The first half of \<^verbatim>\<open>_prepare\<close>: visibility, owner and grants, before the team.\<close>

definition stamp :: "subject option \<Rightarrow> bool \<Rightarrow> resource \<Rightarrow> resource option \<Rightarrow> resource" where
  "stamp su vset r existing =
     (case existing of
        None \<Rightarrow>
          (let r = (if vset then r else r\<lparr>r_visibility := default_visibility su\<rparr>);
               r = (case su of
                      None \<Rightarrow> r\<lparr>r_owner := None, r_owner_name := None\<rparr>
                    | Some s \<Rightarrow> if truthy (sid s)
                               then r\<lparr>r_owner := sid s, r_owner_name := sname s\<rparr>
                               else r\<lparr>r_owner := None, r_owner_name := None\<rparr>)
           in if has_grants (r_kind r) then r\<lparr>r_grants := []\<rparr> else r)
      | Some e \<Rightarrow>
          (let r = (if has_grants (r_kind r) then r\<lparr>r_grants := grants_of e\<rparr> else r);
               r = r\<lparr>r_owner := r_owner e, r_owner_name := r_owner_name e\<rparr>;
               r = (if vset then r else r\<lparr>r_visibility := r_visibility e\<rparr>)
           in case su of
                None \<Rightarrow> r
              | Some s \<Rightarrow> if r_visibility r \<noteq> Public \<and> r_owner r = None \<and> truthy (sid s)
                         then r\<lparr>r_owner := sid s, r_owner_name := sname s\<rparr> else r))"

definition narrowed :: "resource option \<Rightarrow> resource \<Rightarrow> bool" where
  "narrowed existing r =
     (case existing of
        None \<Rightarrow> r_visibility r \<noteq> Public
      | Some e \<Rightarrow> rank (r_visibility r) < rank (r_visibility e) \<or>
                  (r_visibility r = Team \<and> r_team r \<noteq> team_of_res e))"

definition scope_change_ok :: "subject option \<Rightarrow> resource option \<Rightarrow> resource \<Rightarrow> bool" where
  "scope_change_ok su existing r =
     (case existing of
        None \<Rightarrow> True
      | Some e \<Rightarrow> (r_visibility r \<noteq> r_visibility e \<or> r_team r \<noteq> team_of_res e) \<longrightarrow>
                  can_change_visibility su e)"

definition prepare ::
    "subject option \<Rightarrow> world \<Rightarrow> kind \<Rightarrow> bool \<Rightarrow> bool \<Rightarrow> resource \<Rightarrow> resource option \<Rightarrow>
     verror + resource" where
  "prepare su w k vset tset r existing =
     (let r = stamp su vset r existing
      in bindE (if r_visibility r = Team then resolve_team su (w_dir w) tset r existing else Inr None)
           (\<lambda>team.
              let r = r\<lparr>r_team := team\<rparr>
              in bindE (guardE (scope_change_ok su existing r) Not_Owner)
                   (\<lambda>_. if su = None then Inr r
                        else bindE (check_references su w k r existing)
                               (\<lambda>_. bindE (if narrowed existing r then check_narrowing su w k r
                                           else Inr ())
                                      (\<lambda>_. Inr r)))))"

definition check_editable :: "subject option \<Rightarrow> kind \<Rightarrow> resource \<Rightarrow> string \<Rightarrow> verror + unit" where
  "check_editable su k existing i =
     bindE (guardE (can_see su existing) (Resource_Not_Found (capital_label k) i))
       (\<lambda>_. guardE (can_edit su existing) Not_Owner)"

definition scoped_create ::
    "subject option \<Rightarrow> world \<Rightarrow> kind \<Rightarrow> bool \<Rightarrow> bool \<Rightarrow> resource \<Rightarrow> verror + (resource \<times> world)" where
  "scoped_create su w k vset tset r =
     (let existing = raw_get (inner_store w k) (r_id r)
      in bindE (case existing of
                  None \<Rightarrow> Inr ()
                | Some e \<Rightarrow> bindE (guardE (can_see su e) (Id_Taken (r_id r)))
                              (\<lambda>_. check_editable su k e (r_id r)))
           (\<lambda>_. bindE (prepare su w k vset tset r existing)
                  (\<lambda>r. Inr (r, set_store k (raw_create r (inner_store w k)) w))))"

definition scoped_update ::
    "subject option \<Rightarrow> world \<Rightarrow> kind \<Rightarrow> string \<Rightarrow> bool \<Rightarrow> bool \<Rightarrow> resource \<Rightarrow>
     verror + (resource \<times> world)" where
  "scoped_update su w k i vset tset r =
     (let existing = raw_get (inner_store w k) i
      in bindE (case existing of
                  None \<Rightarrow> Inr ()
                | Some e \<Rightarrow>
                    if \<not> (can_see su e \<and> \<not> can_edit su e \<and> can_change_visibility su e \<and>
                          only_scope_changed e r)
                    then check_editable su k e i else Inr ())
           (\<lambda>_. bindE (prepare su w k vset tset r existing)
                  (\<lambda>r. Inr (r\<lparr>r_id := i\<rparr>, set_store k (raw_update i r (inner_store w k)) w))))"

definition scoped_delete :: "subject option \<Rightarrow> world \<Rightarrow> kind \<Rightarrow> string \<Rightarrow> verror + world" where
  "scoped_delete su w k i =
     (let existing = raw_get (inner_store w k) i
      in bindE (case existing of
                  None \<Rightarrow> Inr ()
                | Some e \<Rightarrow> bindE (guardE (can_see su e) (Resource_Not_Found (capital_label k) i))
                              (\<lambda>_. guardE (can_manage su e) Not_Owner))
           (\<lambda>_. let w = set_store k (raw_delete i (inner_store w k)) w
                in Inr (if k = Workflow \<and> existing \<noteq> None then drop_workflow_grants i w else w)))"

section \<open>What one workflow sees\<close>

text \<open>\<^verbatim>\<open>WorkflowSources\<close> over the scoped backend of a kind.\<close>

definition sources_get ::
    "subject option \<Rightarrow> world \<Rightarrow> kind \<Rightarrow> string option \<Rightarrow> string \<Rightarrow> resource option" where
  "sources_get su w k wid i =
     (let source = scoped_get su w k i
      in if source \<noteq> None \<or> \<not> truthy wid then source
         else case raw_get (inner_store w k) i of
                None \<Rightarrow> None
              | Some raw \<Rightarrow> if workflow_grant raw wid \<noteq> None then Some raw else None)"

definition sources_granted :: "subject option \<Rightarrow> world \<Rightarrow> kind \<Rightarrow> string option \<Rightarrow> resource list" where
  "sources_granted su w k wid =
     (if \<not> truthy wid then []
      else filter (\<lambda>r. workflow_grant r wid \<noteq> None \<and> \<not> can_see su r) (raw_list (inner_store w k)))"

section \<open>Runs and approvals\<close>

definition hidden_ids :: "subject option \<Rightarrow> world \<Rightarrow> kind \<Rightarrow> string list" where
  "hidden_ids su w k =
     (case w_stores w k of
        None \<Rightarrow> []
      | Some st \<Rightarrow> if su = None then [] else map r_id (filter (\<lambda>r. \<not> can_see su r) (raw_list st)))"

definition approval_exclusions :: "subject option \<Rightarrow> world \<Rightarrow> string list dict" where
  "approval_exclusions su w =
     (let workflows = hidden_ids su w Workflow; sources = hidden_ids su w Datasource
      in (if workflows \<noteq> [] then [(''exclude_workflow_ids'', workflows)] else []) @
         (if sources \<noteq> [] then [(''exclude_datasource_ids'', sources)] else []))"

definition workflow_visible :: "subject option \<Rightarrow> world \<Rightarrow> string option \<Rightarrow> bool" where
  "workflow_visible su w wid =
     (case w_stores w Workflow of
        None \<Rightarrow> True
      | Some st \<Rightarrow>
          if \<not> truthy wid \<or> su = None then True
          else case raw_get st (the wid) of None \<Rightarrow> True | Some r \<Rightarrow> can_see su r)"

definition approval_case_visible ::
    "subject option \<Rightarrow> world \<Rightarrow> (string option \<times> string option) option \<Rightarrow> bool" where
  "approval_case_visible su w c =
     (case c of
        None \<Rightarrow> True
      | Some (wid, source_id) \<Rightarrow>
          if su = None then True
          else if \<not> workflow_visible su w wid then False
          else case w_stores w Datasource of
                 None \<Rightarrow> True
               | Some st \<Rightarrow>
                   if \<not> truthy source_id then True
                   else case raw_get st (the source_id) of None \<Rightarrow> True | Some r \<Rightarrow> can_see su r)"

definition ensure_run_visible ::
    "subject option \<Rightarrow> world \<Rightarrow> string option option \<Rightarrow> verror + unit" where
  "ensure_run_visible su w run =
     (case run of
        None \<Rightarrow> Inr ()
      | Some graph_id \<Rightarrow> guardE (workflow_visible su w graph_id) (Resource_Not_Found ''Run'' []))"

record ownership_entry =
  oe_visibility :: visibility
  oe_owner :: "string option"
  oe_owner_name :: "string option"
  oe_team :: "string option"
  oe_team_name :: "string option"
  oe_can_edit :: bool
  oe_grants :: "(access option \<times> bool) option"

text \<open>\<open>names\<close> is the team-name cache.\<close>

definition ownership_fields ::
    "subject option \<Rightarrow> (string option \<Rightarrow> string option) \<Rightarrow> resource \<Rightarrow> ownership_entry" where
  "ownership_fields su names r =
     \<lparr>oe_visibility = r_visibility r, oe_owner = r_owner r, oe_owner_name = r_owner_name r,
      oe_team = team_of_res r, oe_team_name = names (team_of_res r), oe_can_edit = can_edit su r,
      oe_grants = (if has_grants (r_kind r)
                   then Some (caller_grant su r, can_change_visibility su r) else None)\<rparr>"

section \<open>Reads against writes\<close>

lemma inner_set_store [simp]:
  "inner_store (set_store k st w) k' = (if k' = k then st else inner_store w k')"
  by (simp add: inner_store_def set_store_def)

lemma find_target_inner: "find_target w k i = raw_get (inner_store w k) i"
  by (simp add: find_target_def inner_store_def raw_get_def split: option.splits)

lemma w_dir_set_store [simp]: "w_dir (set_store k st w) = w_dir w"
  by (simp add: set_store_def)

lemma scoped_get_Some_iff:
  "scoped_get su w k i = Some r \<longleftrightarrow> raw_get (inner_store w k) i = Some r \<and> can_see su r"
  by (auto simp: scoped_get_def split: option.splits)

text \<open>What a successful \<open>prepare\<close> fixes about the saved resource.\<close>

lemma stamp_keeps [simp]:
  "r_id (stamp su vset r e) = r_id r" "r_kind (stamp su vset r e) = r_kind r"
  "r_steps (stamp su vset r e) = r_steps r" "r_addons (stamp su vset r e) = r_addons r"
  "r_name (stamp su vset r e) = r_name r" "r_ops (stamp su vset r e) = r_ops r"
  by (auto simp: stamp_def Let_def split: option.splits)

lemma prepare_cases:
  assumes "prepare su w k vset tset r0 existing = Inr r"
  obtains team where "r = (stamp su vset r0 existing)\<lparr>r_team := team\<rparr>"
    and "r_visibility r = Team \<Longrightarrow>
           resolve_team su (w_dir w) tset (stamp su vset r0 existing) existing = Inr team"
    and "r_visibility r \<noteq> Team \<Longrightarrow> team = None"
    and "scope_change_ok su existing r"
    and "su \<noteq> None \<Longrightarrow> check_references su w k r existing = Inr ()"
    and "su \<noteq> None \<Longrightarrow> narrowed existing r \<Longrightarrow> check_narrowing su w k r = Inr ()"
proof -
  let ?s = "stamp su vset r0 existing"
  from assms obtain team where
    t: "(if r_visibility ?s = Team then resolve_team su (w_dir w) tset ?s existing else Inr None) = Inr team"
    and rest: "scope_change_ok su existing (?s\<lparr>r_team := team\<rparr>)"
      "(if su = None then Inr (?s\<lparr>r_team := team\<rparr>)
        else bindE (check_references su w k (?s\<lparr>r_team := team\<rparr>) existing)
               (\<lambda>_. bindE (if narrowed existing (?s\<lparr>r_team := team\<rparr>)
                           then check_narrowing su w k (?s\<lparr>r_team := team\<rparr>) else Inr ())
                      (\<lambda>_. Inr (?s\<lparr>r_team := team\<rparr>)))) = Inr r"
    unfolding prepare_def Let_def bindE_Inr_iff guardE_Inr_iff by auto
  from rest(2) have r: "r = ?s\<lparr>r_team := team\<rparr>"
    by (auto simp: bindE_Inr_iff split: if_splits)
  show thesis
  proof (rule that [OF r])
    show "r_visibility r = Team \<Longrightarrow> resolve_team su (w_dir w) tset ?s existing = Inr team"
      and "r_visibility r \<noteq> Team \<Longrightarrow> team = None"
      using t r by (auto split: if_splits)
    show "scope_change_ok su existing r" using rest(1) r by simp
    show "su \<noteq> None \<Longrightarrow> check_references su w k r existing = Inr ()"
      and "su \<noteq> None \<Longrightarrow> narrowed existing r \<Longrightarrow> check_narrowing su w k r = Inr ()"
      using rest(2) r by (auto simp: bindE_Inr_iff split: if_splits)
  qed
qed

lemma resolve_team_Some:
  "resolve_team (Some s) dir tset r existing = Inr t \<Longrightarrow> truthy t"
  by (auto simp: resolve_team_def Let_def split: if_splits option.splits)

lemma stamp_owner:
  "existing = Some e \<Longrightarrow> r_owner e \<noteq> None \<Longrightarrow> r_owner (stamp su vset r existing) = r_owner e"
  "r_visibility (stamp (Some s) vset r existing) \<noteq> Public \<Longrightarrow> truthy (sid s) \<Longrightarrow>
     r_owner (stamp (Some s) vset r existing) \<noteq> None"
  by (auto simp: stamp_def Let_def split: option.splits if_splits elim: truthyE)

lemma stamp_grants:
  "has_grants (r_kind r) \<Longrightarrow>
     r_grants (stamp su vset r existing) = (case existing of None \<Rightarrow> [] | Some e \<Rightarrow> grants_of e)"
  by (auto simp: stamp_def Let_def split: option.splits)

section \<open>The reference invariant\<close>

text \<open>
  Documents are keyed by id and of their backend's kind, and nothing but public resources is
  ownerless.
\<close>

definition world_ok :: "world \<Rightarrow> bool" where
  "world_ok w =
     (\<forall>k. store_ok (inner_store w k) \<and>
          (\<forall>i r. raw_get (inner_store w k) i = Some r \<longrightarrow>
                 r_kind r = k \<and> (r_visibility r \<noteq> Public \<longrightarrow> r_owner r \<noteq> None)))"

text \<open>Every stored reference that resolves is one the rules allow.\<close>

definition refs_sound :: "world \<Rightarrow> bool" where
  "refs_sound w =
     (\<forall>uk ui user refs tk ti target.
        raw_get (inner_store w uk) ui = Some user \<longrightarrow> references uk user = Inr refs \<longrightarrow>
        (tk, ti) \<in> set refs \<longrightarrow> (tk, ti) \<noteq> (uk, ui) \<longrightarrow>
        raw_get (inner_store w tk) ti = Some target \<longrightarrow>
        violation (w_dir w) user uk target tk = None)"

lemma refs_soundD:
  "refs_sound w \<Longrightarrow> raw_get (inner_store w uk) ui = Some user \<Longrightarrow> references uk user = Inr refs \<Longrightarrow>
   (tk, ti) \<in> set refs \<Longrightarrow> (tk, ti) \<noteq> (uk, ui) \<Longrightarrow> raw_get (inner_store w tk) ti = Some target \<Longrightarrow>
   violation (w_dir w) user uk target tk = None"
  unfolding refs_sound_def by blast

lemma world_ok_keyed: "world_ok w \<Longrightarrow> raw_get (inner_store w k) i = Some r \<Longrightarrow> r_id r = i"
  unfolding world_ok_def using backend.keyed by blast

lemma world_ok_kind: "world_ok w \<Longrightarrow> raw_get (inner_store w k) i = Some r \<Longrightarrow> r_kind r = k"
  unfolding world_ok_def by blast

lemma world_ok_owned:
  "world_ok w \<Longrightarrow> raw_get (inner_store w k) i = Some r \<Longrightarrow> r_visibility r \<noteq> Public \<Longrightarrow> r_owner r \<noteq> None"
  unfolding world_ok_def by blast

lemma grants_of_stamped:
  assumes "r_kind r0 = k" and "case existing of None \<Rightarrow> True | Some e \<Rightarrow> r_kind e = k"
  shows "grants_of ((stamp su vset r0 existing)\<lparr>r_team := t\<rparr>) =
           (case existing of None \<Rightarrow> [] | Some e \<Rightarrow> grants_of e)"
  using assms stamp_grants [of r0 su vset existing]
  by (auto simp: grants_of_def split: option.splits)

text \<open>A change that does not narrow keeps every permission to use the resource.\<close>

lemma not_narrowed_violation:
  assumes "\<not> narrowed (Some e) r" and "grants_of r = grants_of e"
    and "r_visibility e \<noteq> Public \<Longrightarrow> r_owner r = r_owner e"
    and "r_visibility r = Team \<Longrightarrow> r_team r \<noteq> None"
    and ok: "violation dir user uk e dk = None"
  shows "violation dir user uk r dk = None"
proof (cases "grant_access user uk e \<noteq> None")
  case True
  with assms(2) grant_access_cong [of user user e r uk] show ?thesis
    by (simp add: violation_None_iff)
next
  case False
  with ok have ok: "scope_violation dir user uk e dk = None"
    by (simp add: violation_None_iff)
  have "scope_violation dir user uk r dk = None"
    using ok assms(1,3,4)
    by (cases "r_visibility r"; cases "r_visibility e"; cases "r_visibility user")
       (auto simp: narrowed_def scope_violation_None_iff team_of_res_def)
  then show ?thesis by (simp add: violation_None_iff)
qed

lemma saved_resource:
  assumes w: "world_ok w" and s: "truthy (sid s)" and k: "r_kind r0 = k"
    and prep: "prepare (Some s) w k vset tset r0 (raw_get (inner_store w k) (r_id r0)) = Inr r"
  shows "r_id r = r_id r0" and "r_kind r = k"
    and "r_visibility r \<noteq> Public \<Longrightarrow> r_owner r \<noteq> None"
    and "raw_get (inner_store w k) (r_id r0) = Some e \<Longrightarrow> grants_of r = grants_of e"
    and "raw_get (inner_store w k) (r_id r0) = Some e \<Longrightarrow> r_owner e \<noteq> None \<Longrightarrow> r_owner r = r_owner e"
    and "r_visibility r = Team \<Longrightarrow> r_team r \<noteq> None"
proof -
  let ?ex = "raw_get (inner_store w k) (r_id r0)"
  from prep obtain team where r: "r = (stamp (Some s) vset r0 ?ex)\<lparr>r_team := team\<rparr>"
    and t: "r_visibility r = Team \<Longrightarrow>
              resolve_team (Some s) (w_dir w) tset (stamp (Some s) vset r0 ?ex) ?ex = Inr team"
    by (rule prepare_cases) blast
  show "r_id r = r_id r0" "r_kind r = k" using r k by simp_all
  show "r_visibility r \<noteq> Public \<Longrightarrow> r_owner r \<noteq> None"
    using r stamp_owner(2) [OF _ s] by simp
  show "?ex = Some e \<Longrightarrow> grants_of r = grants_of e"
    using grants_of_stamped [of r0 k ?ex team "Some s" vset] k world_ok_kind [OF w] r by simp
  show "?ex = Some e \<Longrightarrow> r_owner e \<noteq> None \<Longrightarrow> r_owner r = r_owner e"
    using r stamp_owner(1) by simp
  show "r_visibility r = Team \<Longrightarrow> r_team r \<noteq> None"
    using t r by (auto dest!: resolve_team_Some truthy_not_None)
qed

text \<open>Saving a prepared resource keeps the stored references sound.\<close>

lemma refs_sound_saved:
  assumes w: "world_ok w" and sound: "refs_sound w" and s: "truthy (sid s)" and k: "r_kind r0 = k"
    and prep: "prepare (Some s) w k vset tset r0 (raw_get (inner_store w k) (r_id r0)) = Inr r"
    and get': "\<And>tk ti. raw_get (inner_store w' tk) ti =
                 (if tk = k \<and> ti = r_id r then Some r else raw_get (inner_store w tk) ti)"
    and dir': "w_dir w' = w_dir w"
  shows "refs_sound w'"
proof -
  let ?ex = "raw_get (inner_store w k) (r_id r0)"
  note saved = saved_resource [OF w s k prep]
  have refs: "check_references (Some s) w k r ?ex = Inr ()"
    and narrow: "narrowed ?ex r \<Longrightarrow> check_narrowing (Some s) w k r = Inr ()"
    by (rule prepare_cases [OF prep], simp)+
  have new_user: "violation (w_dir w) r k target tk = None"
    if "references k r = Inr rs" "(tk, ti) \<in> set rs" "(tk, ti) \<noteq> (k, r_id r)"
      "raw_get (inner_store w tk) ti = Some target" for rs tk ti target
    using check_references_Inr [OF refs] that
    by (metis check_reference_Inr find_target_inner sum.inject(2))
  have new_target: "violation (w_dir w) user uk r k = None"
    if user: "raw_get (inner_store w uk) ui = Some user" "references uk user = Inr rs"
      "(k, r_id r) \<in> set rs" "(k, r_id r) \<noteq> (uk, ui)" for uk ui user rs
  proof (cases "narrowed ?ex r")
    case True
    from user(1) obtain st where st: "w_stores w uk = Some st" "raw_get st ui = Some user"
      by (auto simp: inner_store_def raw_get_def split: option.splits)
    have "user \<in> set (raw_list st)"
      using st world_ok_def [of w] w backend.listed_get
      by (metis inner_store_def option.simps(5))
    with check_narrowing_Inr [OF narrow [OF True] st(1) _ user(2,3)] user(4)
      world_ok_keyed [OF w user(1)]
    show ?thesis by auto
  next
    case False
    show ?thesis
    proof (cases ?ex)
      case None
      with False have "r_visibility r = Public" by (simp add: narrowed_def)
      then show ?thesis by simp
    next
      case (Some e)
      have "violation (w_dir w) user uk e k = None"
        using refs_soundD [OF sound user] saved(1) Some by simp
      then show ?thesis
        using not_narrowed_violation [of e r] False Some saved(4-6) world_ok_owned [OF w Some]
        by simp
    qed
  qed
  show ?thesis
    unfolding refs_sound_def get' dir'
    using new_user new_target refs_soundD [OF sound] by (auto split: if_splits)
qed

text \<open>Removing a resource, and forgetting the grants to a removed workflow.\<close>

lemma find_target_drop:
  assumes "world_ok w"
  shows "raw_get (inner_store (drop_workflow_grants wid w) k) i =
           map_option (without_grants_to wid) (raw_get (inner_store w k) i)"
    and "w_dir (drop_workflow_grants wid w) = w_dir w"
    and "store_ok (inner_store (drop_workflow_grants wid w) k)"
proof -
  have drop: "inner_store (drop_in_kind wid k' v) k'' =
      (if k'' = k' then fold (drop_in_source wid) (raw_list (inner_store v k')) (inner_store v k')
       else inner_store v k'')" for k' k'' v
    by (auto simp: drop_in_kind_def inner_store_def raw_list_def split: option.splits)
  have scripts: "without_grants_to wid r = r" if "raw_get (inner_store w Script) i = Some r" for r
    using world_ok_kind [OF assms that]
    by (simp add: without_grants_to_def grants_of_def has_grants_def)
  have ok: "store_ok (inner_store w k')" for k'
    using assms by (simp add: world_ok_def)
  have all: "inner_store (drop_workflow_grants wid w) k =
      (if k = Script then inner_store w k
       else fold (drop_in_source wid) (raw_list (inner_store w k)) (inner_store w k))"
    by (cases k) (simp_all add: drop_workflow_grants_def drop)
  show "raw_get (inner_store (drop_workflow_grants wid w) k) i =
          map_option (without_grants_to wid) (raw_get (inner_store w k) i)"
  proof (cases "k = Script")
    case True
    with all have "inner_store (drop_workflow_grants wid w) Script = inner_store w Script" by simp
    with True scripts show ?thesis by (cases "raw_get (inner_store w Script) i") simp_all
  next
    case False
    then show ?thesis by (simp add: all drop_all_get ok)
  qed
  show "store_ok (inner_store (drop_workflow_grants wid w) k)"
    by (simp add: all ok fold_drop_ok)
  show "w_dir (drop_workflow_grants wid w) = w_dir w"
    by (simp add: drop_workflow_grants_def drop_in_kind_def split: option.splits)
qed

lemma without_grants_keeps [simp]:
  "r_kind (without_grants_to wid r) = r_kind r" "r_visibility (without_grants_to wid r) = r_visibility r"
  "r_owner (without_grants_to wid r) = r_owner r" "r_steps (without_grants_to wid r) = r_steps r"
  "r_addons (without_grants_to wid r) = r_addons r" "r_team (without_grants_to wid r) = r_team r"
  by (simp_all add: without_grants_to_def)

lemma grants_of_without:
  "grants_of (without_grants_to wid r) = filter (\<lambda>g. \<not> is_workflow_grant wid g) (grants_of r)"
  by (auto simp: without_grants_to_def grants_of_def filter_id_conv)

lemma references_without [simp]: "references k (without_grants_to wid r) = references k r"
  by (rule references_cong) simp_all

lemma grant_access_best:
  "grant_access u uk d =
     best_access
       [if uk = Workflow then workflow_grant d (Some (r_id u)) else None,
        if r_visibility u = Private then user_grant d (r_owner u) else None]"
  by (auto simp: grant_access_def workflow_grant_def user_grant_def grant_for_def
      best_access_def List.map_filter_def)

lemma grant_access_without:
  assumes "\<not> (uk = Workflow \<and> r_id u = wid)"
  shows "grant_access (without_grants_to wid u) uk (without_grants_to wid d) = grant_access u uk d"
proof -
  have same: "grant_for (without_grants_to wid d) gt gid = grant_for d gt gid"
    if "gt = To_Workflow \<Longrightarrow> gid \<noteq> Some wid" for gt gid
    unfolding grant_for_def grants_of_without
    by (subst find_filter_irrelevant) (use that in \<open>auto simp: is_workflow_grant_def\<close>)
  have "grant_for (without_grants_to wid d) To_User gid = grant_for d To_User gid" for gid
    by (rule same) simp
  with assms show ?thesis
    unfolding grant_access_best workflow_grant_def user_grant_def
    by (auto simp: same intro!: arg_cong [where f = best_access])
qed

lemma violation_without:
  "\<not> (uk = Workflow \<and> r_id u = wid) \<Longrightarrow>
   violation dir (without_grants_to wid u) uk (without_grants_to wid d) dk = None \<longleftrightarrow>
   violation dir u uk d dk = None"
  by (simp add: violation_None_iff grant_access_without scope_violation_None_iff team_of_res_def
      split: visibility.splits)

lemma refs_sound_removed:
  assumes w: "world_ok w" and sound: "refs_sound w" and flow: "dropped \<Longrightarrow> k = Workflow"
    and get': "\<And>tk ti. raw_get (inner_store w' tk) ti =
      (if tk = k \<and> ti = i then None
       else map_option (\<lambda>r. if dropped then without_grants_to i r else r)
              (raw_get (inner_store w tk) ti))"
    and dir': "w_dir w' = w_dir w"
  shows "refs_sound w'"
proof -
  let ?f = "\<lambda>r. if dropped then without_grants_to i r else r"
  have keep: "violation (w_dir w) (?f u) uk (?f target) tk = None"
    if "violation (w_dir w) u uk target tk = None" "\<not> (uk = k \<and> ui = i)"
      "raw_get (inner_store w uk) ui = Some u" for u uk ui target tk
    using that flow world_ok_keyed [OF w that(3)] by (cases dropped) (auto simp: violation_without)
  show ?thesis
    unfolding refs_sound_def dir'
  proof (intro allI impI)
    fix uk ui user refs tk ti target
    assume user: "raw_get (inner_store w' uk) ui = Some user"
      and target: "raw_get (inner_store w' tk) ti = Some target"
      and refs: "references uk user = Inr refs" "(tk, ti) \<in> set refs" "(tk, ti) \<noteq> (uk, ui)"
    from user obtain u where u: "raw_get (inner_store w uk) ui = Some u" "user = ?f u"
      "\<not> (uk = k \<and> ui = i)" unfolding get' by (cases "uk = k \<and> ui = i") auto
    from target obtain t where t: "raw_get (inner_store w tk) ti = Some t" "target = ?f t"
      unfolding get' by (cases "tk = k \<and> ti = i") auto
    have "references uk u = Inr refs" using refs(1) u(2) by (simp split: if_splits)
    from refs_soundD [OF sound u(1) this refs(2,3) t(1)]
    show "violation (w_dir w) user uk target tk = None"
      unfolding u(2) t(2) by (rule keep [OF _ u(3,1)])
  qed
qed

section \<open>Histories\<close>

text \<open>
  One write through a scoped backend by an identified caller: the resource is of the backend's
  kind, and an update carries the id of its path.
\<close>

inductive scoped_step :: "world \<Rightarrow> world \<Rightarrow> bool" where
  create: "truthy (sid s) \<Longrightarrow> r_kind r0 = k \<Longrightarrow>
    scoped_create (Some s) w k vset tset r0 = Inr (r, w') \<Longrightarrow> scoped_step w w'"
| update: "truthy (sid s) \<Longrightarrow> r_kind r0 = k \<Longrightarrow> r_id r0 = i \<Longrightarrow>
    scoped_update (Some s) w k i vset tset r0 = Inr (r, w') \<Longrightarrow> scoped_step w w'"
| delete: "truthy (sid s) \<Longrightarrow> scoped_delete (Some s) w k i = Inr w' \<Longrightarrow> scoped_step w w'"

inductive_cases scoped_stepE: "scoped_step w w'"

lemma scoped_create_Inr:
  assumes "scoped_create su w k vset tset r0 = Inr (r, w')"
  shows "prepare su w k vset tset r0 (raw_get (inner_store w k) (r_id r0)) = Inr r"
    and "w' = set_store k (raw_create r (inner_store w k)) w"
    and "raw_get (inner_store w k) (r_id r0) = Some e \<Longrightarrow> can_see su e \<and> can_edit su e"
  using assms
  by (auto simp: scoped_create_def Let_def bindE_Inr_iff check_editable_def split: option.splits)

lemma scoped_update_Inr:
  assumes "scoped_update su w k i vset tset r0 = Inr (r, w')"
  obtains r1 where "prepare su w k vset tset r0 (raw_get (inner_store w k) i) = Inr r1"
    and "r = r1\<lparr>r_id := i\<rparr>" and "w' = set_store k (raw_update i r1 (inner_store w k)) w"
    and "\<And>e. raw_get (inner_store w k) i = Some e \<Longrightarrow>
           can_see su e \<and> (can_edit su e \<or> can_change_visibility su e \<and> only_scope_changed e r0)"
  using assms
  by (auto simp: scoped_update_def Let_def bindE_Inr_iff check_editable_def split: option.splits if_splits)

lemma scoped_delete_Inr:
  assumes "scoped_delete su w k i = Inr w'"
  shows "w' = (let w1 = set_store k (raw_delete i (inner_store w k)) w
               in if k = Workflow \<and> raw_get (inner_store w k) i \<noteq> None
                  then drop_workflow_grants i w1 else w1)"
    and "raw_get (inner_store w k) i = Some e \<Longrightarrow> can_manage su e"
  using assms
  by (auto simp: scoped_delete_def Let_def bindE_Inr_iff split: option.splits)

lemma prepare_id: "prepare su w k vset tset r0 ex = Inr r \<Longrightarrow> r_id r = r_id r0"
  by (erule prepare_cases) simp

text \<open>What a step does to the stored documents, whichever operation it is.\<close>

lemma scoped_step_form:
  assumes step: "scoped_step w w'" and w: "world_ok w"
  obtains (saved) s k vset tset r0 r where "truthy (sid s)" and "r_kind r0 = k"
    and "prepare (Some s) w k vset tset r0 (raw_get (inner_store w k) (r_id r0)) = Inr r"
    and "\<And>tk ti. raw_get (inner_store w' tk) ti =
           (if tk = k \<and> ti = r_id r then Some r else raw_get (inner_store w tk) ti)"
    and "w_dir w' = w_dir w" and "\<And>tk. store_ok (inner_store w' tk)"
  | (removed) k i dropped where "dropped \<Longrightarrow> k = Workflow"
    and "\<And>tk ti. raw_get (inner_store w' tk) ti =
      (if tk = k \<and> ti = i then None
       else map_option (\<lambda>r. if dropped then without_grants_to i r else r)
              (raw_get (inner_store w tk) ti))"
    and "w_dir w' = w_dir w" and "\<And>tk. store_ok (inner_store w' tk)"
  using step
proof (cases rule: scoped_step.cases)
  case (create s r0 k vset tset r)
  note c = scoped_create_Inr [OF create(3)]
  have "store_ok (inner_store w' tk)" for tk
    using w c(2) by (simp add: world_ok_def backend.ok_create)
  with create(1,2) c(1,2) show thesis
    by (intro saved [of s r0 k vset tset r]) (auto simp: backend.get_create)
next
  case (update s r0 k i vset tset r)
  from update(4) obtain r1 where
    p: "prepare (Some s) w k vset tset r0 (raw_get (inner_store w k) i) = Inr r1"
    and w': "w' = set_store k (raw_update i r1 (inner_store w k)) w"
    by (rule scoped_update_Inr) blast
  have "r_id r1 = i" using prepare_id [OF p] update(3) by simp
  moreover have "store_ok (inner_store w' tk)" for tk
    using w w' by (simp add: world_ok_def backend.ok_update)
  ultimately show thesis
    using update(1-3) p w' by (intro saved [of s r0 k vset tset r1]) (auto simp: backend.get_update)
next
  case (delete s k i)
  let ?w1 = "set_store k (raw_delete i (inner_store w k)) w"
  have ok1: "world_ok ?w1"
    using w by (auto simp: world_ok_def backend.get_remove backend.ok_remove split: if_splits)
  have w': "w' = (if k = Workflow \<and> raw_get (inner_store w k) i \<noteq> None
                  then drop_workflow_grants i ?w1 else ?w1)"
    using scoped_delete_Inr(1) [OF delete(2)] by (simp add: Let_def)
  have get1: "raw_get (inner_store ?w1 tk) ti =
      (if tk = k \<and> ti = i then None else raw_get (inner_store w tk) ti)" for tk ti
    by (simp add: backend.get_remove)
  have ok': "store_ok (inner_store w' tk)" for tk
    using find_target_drop(3) [OF ok1] ok1 w' by (auto simp: world_ok_def)
  show thesis
  proof (cases "k = Workflow \<and> raw_get (inner_store w k) i \<noteq> None")
    case True
    then have "w' = drop_workflow_grants i ?w1" unfolding w' by (rule if_P)
    then show thesis
      using True ok' find_target_drop(1,2) [OF ok1, of i] get1
      by (intro removed [where dropped = True and k = k and i = i]) (auto simp del: inner_set_store)
  next
    case False
    then have "w' = ?w1" using w' by auto
    then show thesis
      using ok' get1
      by (intro removed [where dropped = False and k = k and i = i])
         (auto simp: option.map_ident simp del: inner_set_store)
  qed
qed

lemma scoped_step_world_ok: "scoped_step w w' \<Longrightarrow> world_ok w \<Longrightarrow> world_ok w'"
proof (erule (1) scoped_step_form)
  fix s k vset tset r0 r
  assume w: "world_ok w" and s: "truthy (sid s)" "r_kind r0 = k"
    and p: "prepare (Some s) w k vset tset r0 (raw_get (inner_store w k) (r_id r0)) = Inr r"
    and get: "\<And>tk ti. raw_get (inner_store w' tk) ti =
           (if tk = k \<and> ti = r_id r then Some r else raw_get (inner_store w tk) ti)"
    and ok: "\<And>tk. store_ok (inner_store w' tk)"
  show "world_ok w'"
    using saved_resource(2,3) [OF w s p] w ok by (auto simp: world_ok_def get)
qed (auto simp: world_ok_def split: if_splits)

lemma scoped_step_refs:
  assumes "scoped_step w w'" and w: "world_ok w" and sound: "refs_sound w"
  shows "refs_sound w'"
  using assms(1,2)
proof (cases rule: scoped_step_form)
  case (saved s k vset tset r0 r)
  show ?thesis by (rule refs_sound_saved [OF w sound saved(1-5)])
next
  case (removed k i dropped)
  show ?thesis by (rule refs_sound_removed [OF w sound removed(1-3)])
qed

section \<open>Properties\<close>

text \<open>
  C1: However identified callers create, update and delete resources of the four kinds, in any
  order and any number, documents stay keyed and owned and every stored reference that resolves
  stays one the scope rules or a grant allow: no save of either end ever breaks a reference, and
  deleting a workflow forgets its grants without stranding another referrer.
\<close>

theorem scoped_history_sound:
  assumes "scoped_step\<^sup>*\<^sup>* w w'" and "world_ok w" and "refs_sound w"
  shows "world_ok w' \<and> refs_sound w'"
  using assms by (induction rule: rtranclp_induct) (auto dest: scoped_step_world_ok scoped_step_refs)

definition empty_world :: world where
  "empty_world = \<lparr>w_stores = (\<lambda>_. Some []), w_dir = None\<rparr>"

theorem scoped_history_sound_witness:
  "\<exists>r w'. scoped_create (Some (example_user ''ann'' None)) empty_world Datasource False False
            example_private = Inr (r, w') \<and> world_ok w' \<and> refs_sound w'"
proof -
  let ?c = "scoped_create (Some (example_user ''ann'' None)) empty_world Datasource False False
              example_private"
  have "case ?c of Inl _ \<Rightarrow> False | Inr _ \<Rightarrow> True" by code_simp
  then obtain r w' where c: "?c = Inr (r, w')" by (auto split: sum.splits)
  have "truthy (sid (example_user ''ann'' None))" "r_kind example_private = Datasource"
    by (simp_all add: example_user_def example_private_def)
  from scoped_step.create [OF this c] have "scoped_step\<^sup>*\<^sup>* empty_world w'" by blast
  moreover have "world_ok empty_world" "refs_sound empty_world"
    by (simp_all add: world_ok_def refs_sound_def inner_store_def empty_world_def raw_get_def
        store_ok_def)
  ultimately have "world_ok w' \<and> refs_sound w'" by (rule scoped_history_sound)
  with c show ?thesis by blast
qed

text \<open>
  A caller who cannot see a stored resource can do nothing with it: it is in no list, a read
  finds nothing, an update and a delete answer that it does not exist, and creating over its id is
  refused without saying whose it is.
\<close>

theorem hidden_resource_untouchable:
  assumes "raw_get (inner_store w k) i = Some e" and "\<not> can_see su e"
  shows "e \<notin> set (scoped_list su w k) \<and> scoped_get su w k i = None \<and>
         scoped_update su w k i vset tset r = Inl (Resource_Not_Found (capital_label k) i) \<and>
         scoped_delete su w k i = Inl (Resource_Not_Found (capital_label k) i) \<and>
         (r_id r = i \<longrightarrow> scoped_create su w k vset tset r = Inl (Id_Taken i))"
  using assms
  by (auto simp: scoped_list_def scoped_get_def scoped_update_def scoped_delete_def
      scoped_create_def check_editable_def guardE_def)

definition example_world :: world where
  "example_world =
     \<lparr>w_stores = (\<lambda>_. Some [])(Datasource \<mapsto> [(''crm'', example_private)]), w_dir = None\<rparr>"

theorem hidden_resource_untouchable_witness:
  "scoped_delete (Some (example_user ''eve'' None)) example_world Datasource ''crm'' =
     Inl (Resource_Not_Found ''Data source'' ''crm'')"
proof -
  have s: "raw_get (inner_store example_world Datasource) ''crm'' = Some example_private"
    by (simp add: example_world_def inner_store_def raw_get_def)
  have h: "\<not> can_see (Some (example_user ''eve'' None)) example_private" by code_simp
  have "capital_label Datasource = ''Data source''" by code_simp
  with hidden_resource_untouchable [OF s h] show ?thesis by simp
qed

text \<open>
  Lists and reads agree: a caller lists exactly the stored resources a read by id gives them,
  and all of these are visible to them.
\<close>

theorem list_get_agree:
  assumes "world_ok w"
  shows "r \<in> set (scoped_list su w k) \<longleftrightarrow>
           scoped_get su w k (r_id r) = Some r \<and> can_see su r"
proof -
  have "store_ok (inner_store w k)" using assms by (simp add: world_ok_def)
  from backend.listed [OF this] show ?thesis
    by (auto simp: scoped_list_def scoped_get_Some_iff)
qed

lemma example_world_ok: "world_ok example_world"
  by (auto simp: world_ok_def example_world_def inner_store_def raw_get_def store_ok_def dict_ok_def
      example_private_def)

theorem list_get_agree_witness:
  "example_private \<in> set (scoped_list (Some (example_user ''bob'' None)) example_world Datasource)"
proof -
  have "can_see (Some (example_user ''bob'' None)) example_private" by code_simp
  moreover have "raw_get (inner_store example_world Datasource) (r_id example_private) =
      Some example_private"
    by (simp add: example_world_def inner_store_def raw_get_def example_private_def)
  ultimately show ?thesis
    using list_get_agree [OF example_world_ok, of example_private] by (simp add: scoped_get_Some_iff)
qed

lemma stamp_without_scope [simp]: "without_scope (stamp su vset r ex) = without_scope r"
  by (auto simp: stamp_def without_scope_def Let_def split: option.splits)

lemma without_scope_team [simp]: "without_scope (r\<lparr>r_team := t\<rparr>) = without_scope r"
  by (simp add: without_scope_def)



text \<open>
  A new resource saved without choosing a visibility is private to the person who saved it:
  they own it, nobody else holds a grant on it, and no other caller but a super admin sees it.
\<close>

theorem new_resource_private:
  assumes s: "truthy (sid s)" and new: "raw_get (inner_store w k) (r_id r0) = None"
    and cr: "scoped_create (Some s) w k False tset r0 = Inr (r, w')"
    and other: "sid s' \<noteq> sid s" and plain: "\<not> is_super_admin s'"
  shows "r_visibility r = Private \<and> r_owner r = sid s \<and> grants_of r = [] \<and> \<not> can_see (Some s') r \<and>
         scoped_get (Some s') w' k (r_id r0) = None"
proof -
  note c = scoped_create_Inr [OF cr]
  from c(1) obtain t where r: "r = (stamp (Some s) False r0 None)\<lparr>r_team := t\<rparr>"
    unfolding new by (rule prepare_cases) blast
  then have vis: "r_visibility r = Private" "r_owner r = sid s" "grants_of r = []" "r_id r = r_id r0"
    using s by (auto simp: stamp_def default_visibility_def grants_of_def Let_def)
  then have "\<not> can_see (Some s') r"
    using other plain
    by (auto simp: can_see_def in_team_def team_of_res_def user_grant_def grant_for_def)
  with vis c(2) show ?thesis by (simp add: scoped_get_def backend.get_create)
qed

theorem new_resource_private_witness:
  "\<exists>r w'. scoped_create (Some (example_user ''ann'' None)) empty_world Datasource False False
            example_private = Inr (r, w') \<and> \<not> can_see (Some (example_user ''bob'' None)) r"
proof -
  let ?s = "example_user ''ann'' None" and ?s' = "example_user ''bob'' None"
  let ?c = "scoped_create (Some ?s) empty_world Datasource False False example_private"
  have "case ?c of Inl _ \<Rightarrow> False | Inr _ \<Rightarrow> True" by code_simp
  then obtain r w' where c: "?c = Inr (r, w')" by (auto split: sum.splits)
  have h: "truthy (sid ?s)" "sid ?s' \<noteq> sid ?s" "\<not> is_super_admin ?s'"
    by (simp_all add: example_user_def)
  have n: "raw_get (inner_store empty_world Datasource) (r_id example_private) = None"
    by (simp add: empty_world_def inner_store_def raw_get_def)
  from new_resource_private [OF h(1) n c h(2,3)] c show ?thesis by blast
qed

text \<open>
  Sharing with a team: a caller who is not a super admin leaves a team resource either in the
  team it was in or in the caller's own team, and moves it there only if they may change its
  scope; a super admin only ever names a team the directory has.
\<close>

theorem team_share_confined:
  assumes save: "prepare (Some s) w k vset tset r0 existing = Inr r" and vis: "r_visibility r = Team"
  shows "truthy (r_team r) \<and>
         (r_team r = (case existing of None \<Rightarrow> None | Some e \<Rightarrow> team_of_res e) \<or>
          ((case existing of None \<Rightarrow> True | Some e \<Rightarrow> can_change_visibility (Some s) e) \<and>
           (if is_super_admin s
            then w_dir w = None \<or> get_team (the (w_dir w)) (the (r_team r)) \<noteq> None
            else r_team r = steam s)))"
proof -
  let ?s = "stamp (Some s) vset r0 existing"
  let ?stored = "case existing of None \<Rightarrow> None | Some e \<Rightarrow> team_of_res e"
  from save obtain t where r: "r = ?s\<lparr>r_team := t\<rparr>"
    and t: "resolve_team (Some s) (w_dir w) tset ?s existing = Inr t"
    and sc: "scope_change_ok (Some s) existing r"
    by (rule prepare_cases) (use vis in blast)
  have "truthy t" by (rule resolve_team_Some [OF t])
  moreover have "t = ?stored \<or> (if is_super_admin s
      then w_dir w = None \<or> get_team (the (w_dir w)) (the t) \<noteq> None else t = steam s)"
    using t unfolding resolve_team_def Let_def
    by (simp only: option.case split: if_split_asm option.split_asm) auto
  moreover have "t \<noteq> ?stored \<Longrightarrow>
      (case existing of None \<Rightarrow> True | Some e \<Rightarrow> can_change_visibility (Some s) e)"
    using sc r by (auto simp: scope_change_ok_def split: option.splits)
  ultimately show ?thesis using r by auto
qed

theorem team_share_confined_witness:
  "\<exists>r. prepare (Some (example_user ''ann'' (Some ''t1''))) example_world Datasource True False
         (example_private\<lparr>r_visibility := Team, r_team := Some ''t2''\<rparr>) (Some example_private) = Inr r \<and>
       r_team r = Some ''t1''"
proof -
  let ?s = "example_user ''ann'' (Some ''t1'')"
  let ?p = "prepare (Some ?s) example_world Datasource True False
              (example_private\<lparr>r_visibility := Team, r_team := Some ''t2''\<rparr>) (Some example_private)"
  have "case ?p of Inl _ \<Rightarrow> False | Inr r \<Rightarrow> r_visibility r = Team" by code_simp
  then obtain r where p: "?p = Inr r" and v: "r_visibility r = Team" by (auto split: sum.splits)
  from team_share_confined [OF p v] have "r_team r = Some ''t1''"
    by (auto simp: example_private_def example_user_def team_of_res_def)
  with p show ?thesis by blast
qed

text \<open>
  A workflow reaches, through \<^verbatim>\<open>WorkflowSources\<close>, exactly the stored resources the caller
  sees plus those granted to that workflow, and \<^verbatim>\<open>granted\<close> lists the second kind only.
\<close>

theorem workflow_sources_exact:
  assumes "world_ok w"
  shows "(sources_get su w k wid i = Some r \<longleftrightarrow>
            raw_get (inner_store w k) i = Some r \<and> (can_see su r \<or> workflow_grant r wid \<noteq> None)) \<and>
         (r \<in> set (sources_granted su w k wid) \<longleftrightarrow>
            sources_get su w k wid (r_id r) = Some r \<and> \<not> can_see su r)"
proof -
  have none: "workflow_grant x wid = None" if "\<not> truthy wid" for x
    using that by (simp add: workflow_grant_def grant_for_def)
  have get: "sources_get su w k wid i = Some r \<longleftrightarrow>
           raw_get (inner_store w k) i = Some r \<and> (can_see su r \<or> workflow_grant r wid \<noteq> None)" for i
    using none [of r]
    by (auto simp: sources_get_def scoped_get_def Let_def split: option.splits if_splits)
  have "store_ok (inner_store w k)" using assms by (simp add: world_ok_def)
  note listed = backend.listed [OF this, of r]
  have "r \<in> set (sources_granted su w k wid) \<longleftrightarrow>
           sources_get su w k wid (r_id r) = Some r \<and> \<not> can_see su r"
    using none [of r] listed
    by (cases "truthy wid") (auto simp: sources_granted_def get)
  with get show ?thesis by blast
qed

theorem workflow_sources_exact_witness:
  "sources_get (Some (example_user ''eve'' None)) example_world Datasource (Some ''flow'') ''crm'' \<noteq>
     Some example_private"
proof -
  have "\<not> can_see (Some (example_user ''eve'' None)) example_private"
    and "workflow_grant example_private (Some ''flow'') = None" by code_simp+
  then show ?thesis using workflow_sources_exact [OF example_world_ok] by blast
qed

text \<open>
  The two ways runs are hidden agree: a stored workflow's runs are visible exactly when the
  workflow is not among the ids the list filters exclude, and a deleted workflow's always are.
\<close>

theorem run_filters_agree:
  assumes "world_ok w" and "wid \<noteq> []" and "w_stores w Workflow \<noteq> None"
  shows "ensure_run_visible su w (Some (Some wid)) = Inr () \<longleftrightarrow> wid \<notin> set (hidden_ids su w Workflow)"
proof -
  from assms(3) obtain st where st: "w_stores w Workflow = Some st" by blast
  with assms(1) have ok: "store_ok st"
    by (auto simp: world_ok_def inner_store_def split: option.splits dest: spec [of _ Workflow])
  have "wid \<in> r_id ` {r \<in> set (raw_list st). \<not> can_see su r} \<longleftrightarrow>
      (\<exists>r. raw_get st wid = Some r \<and> \<not> can_see su r)"
    using backend.listed [OF ok] backend.keyed [OF ok] by (auto simp: image_iff)
  then have "wid \<in> set (hidden_ids su w Workflow) \<longleftrightarrow>
      su \<noteq> None \<and> (\<exists>r. raw_get st wid = Some r \<and> \<not> can_see su r)"
    using st by (auto simp: hidden_ids_def)
  moreover have "workflow_visible su w (Some wid) \<longleftrightarrow>
      su = None \<or> (\<forall>r. raw_get st wid = Some r \<longrightarrow> can_see su r)"
    using st assms(2) by (auto simp: workflow_visible_def split: option.splits)
  ultimately show ?thesis by (auto simp: ensure_run_visible_def)
qed

theorem run_filters_agree_witness:
  "ensure_run_visible (Some (example_user ''eve'' None))
     (example_world\<lparr>w_stores := (w_stores example_world)(Workflow \<mapsto> [(''flow'', example_flow)])\<rparr>)
     (Some (Some ''flow'')) \<noteq> Inr ()"
proof -
  let ?w = "example_world\<lparr>w_stores := (w_stores example_world)(Workflow \<mapsto> [(''flow'', example_flow)])\<rparr>"
  have ok: "world_ok ?w"
    using example_world_ok
    by (auto simp: world_ok_def inner_store_def raw_get_def store_ok_def dict_ok_def
        example_flow_def example_private_def split: if_splits)
  have "''flow'' \<in> set (hidden_ids (Some (example_user ''eve'' None)) ?w Workflow)" by code_simp
  moreover have "w_stores ?w Workflow \<noteq> None" by simp
  ultimately show ?thesis using run_filters_agree [OF ok, of "''flow''"] by blast
qed

end
