(* ===== verification/Grants.thy ===== *)
theory Grants
  imports ScopedBackend
begin

text \<open>
  Granting a resource beyond its visibility: \<^verbatim>\<open>app/application/grants.py\<close>.  The holder is the
  world of the scoped backends, whose reference guard is always present (the container wraps every
  definition backend it is given); rebuilding a workflow's runner after a save changes no stored
  state and is left out.  The fresh grant id and the time are arguments.
\<close>

definition grantable :: "kind \<Rightarrow> bool" where
  "grantable k = (k \<in> {Datasource, Agent, Workflow})"

definition parse_access :: "string \<Rightarrow> access option" where
  "parse_access a =
     (if a = ''read'' then Some Read else if a = ''read_write'' then Some Read_Write else None)"

section \<open>Who may share what\<close>

definition grant_backend :: "world \<Rightarrow> kind \<Rightarrow> verror + store" where
  "grant_backend w k =
     (if \<not> grantable k then Inl Grant_Invalid
      else case w_stores w k of None \<Rightarrow> Inl (Resource_Not_Found (capital_label k) [])
           | Some st \<Rightarrow> Inr st)"

definition resource_to_share :: "subject option \<Rightarrow> world \<Rightarrow> kind \<Rightarrow> string \<Rightarrow> verror + resource" where
  "resource_to_share su w k i =
     bindE (grant_backend w k)
       (\<lambda>st. case raw_get st i of
               None \<Rightarrow> Inl (Resource_Not_Found (capital_label k) i)
             | Some r \<Rightarrow>
                 if \<not> can_see su r then Inl (Resource_Not_Found (capital_label k) i)
                 else if \<not> can_change_visibility su r then Inl Not_Owner
                 else if r_readonly r then Inl Grant_Invalid
                 else Inr r)"

definition list_grants :: "subject option \<Rightarrow> world \<Rightarrow> kind \<Rightarrow> string \<Rightarrow> verror + grant list" where
  "list_grants su w k i = bindE (resource_to_share su w k i) (\<lambda>r. Inr (grants_of r))"

section \<open>Who may be granted\<close>

definition check_user_grantee :: "world \<Rightarrow> resource \<Rightarrow> string \<Rightarrow> verror + string option" where
  "check_user_grantee w r uid =
     (if r_owner r = Some uid then Inl Grant_Conflict
      else case w_dir w of
             None \<Rightarrow> Inr None
           | Some d \<Rightarrow>
               (case get_user d uid of
                  None \<Rightarrow> Inl Grant_Invalid
                | Some u \<Rightarrow>
                    if team_of_res r \<noteq> None \<and> u_team u = team_of_res r then Inl Grant_Conflict
                    else Inr (py_or (u_name u) (u_email u))))"

definition check_workflow_grantee ::
    "subject option \<Rightarrow> world \<Rightarrow> kind \<Rightarrow> resource \<Rightarrow> string \<Rightarrow> verror + string option" where
  "check_workflow_grantee su w k r wid =
     (if k = Workflow \<and> wid = r_id r then Inl Grant_Conflict
      else case find_target w Workflow wid of
             None \<Rightarrow> Inl Grant_Invalid
           | Some flow \<Rightarrow>
               if scope_violation (w_dir w) flow Workflow r k = None then Inl Grant_Conflict
               else Inr (if can_see su flow
                         then Some (if r_name flow \<noteq> [] then r_name flow else wid) else None))"

section \<open>Granting and revoking\<close>

definition save_shared :: "world \<Rightarrow> kind \<Rightarrow> resource \<Rightarrow> world" where
  "save_shared w k r = set_store k (raw_update (r_id r) r (inner_store w k)) w"

definition same_grantee :: "grantee_type \<Rightarrow> string \<Rightarrow> grant \<Rightarrow> bool" where
  "same_grantee gt gid g = (g_type g = gt \<and> g_grantee g = gid)"

definition grant_record ::
    "subject option \<Rightarrow> resource \<Rightarrow> string \<Rightarrow> time \<Rightarrow> grantee_type \<Rightarrow> string \<Rightarrow> string option \<Rightarrow>
     access \<Rightarrow> grant" where
  "grant_record su r fresh now gt gid name acc =
     \<lparr>g_id = (case find (same_grantee gt gid) (grants_of r) of None \<Rightarrow> fresh | Some g \<Rightarrow> g_id g),
      g_type = gt, g_grantee = gid, g_name = name, g_access = acc,
      g_by = (case su of None \<Rightarrow> None | Some s \<Rightarrow> sid s),
      g_by_name = (case su of None \<Rightarrow> None | Some s \<Rightarrow> sname s), g_at = Some now\<rparr>"

definition check_grantee ::
    "subject option \<Rightarrow> world \<Rightarrow> kind \<Rightarrow> resource \<Rightarrow> string \<Rightarrow> string \<Rightarrow> access \<Rightarrow>
     verror + (grantee_type \<times> string option)" where
  "check_grantee su w k r grantee_type gid acc =
     (if grantee_type = ''user'' then
        bindE (check_user_grantee w r gid) (\<lambda>name. Inr (To_User, name))
      else if grantee_type = ''workflow'' then
        (if k \<noteq> Datasource \<and> acc \<noteq> Read then Inl Grant_Invalid
         else bindE (check_workflow_grantee su w k r gid) (\<lambda>name. Inr (To_Workflow, name)))
      else Inl Grant_Invalid)"

definition grant_to ::
    "subject option \<Rightarrow> world \<Rightarrow> string \<Rightarrow> time \<Rightarrow> kind \<Rightarrow> string \<Rightarrow> string \<Rightarrow> string \<Rightarrow> string \<Rightarrow>
     verror + (grant \<times> world)" where
  "grant_to su w fresh now k i grantee_type grantee_id access_level =
     bindE (resource_to_share su w k i)
       (\<lambda>r. let gid = py_strip grantee_id
            in if gid = [] then Inl Grant_Invalid
               else case parse_access access_level of
                      None \<Rightarrow> Inl Grant_Invalid
                    | Some acc \<Rightarrow>
                        if r_visibility r = Public then Inl Grant_Conflict
                        else bindE (check_grantee su w k r grantee_type gid acc)
                          (\<lambda>(gt, name).
                             let record = grant_record su r fresh now gt gid name acc;
                                 grants = filter (\<lambda>g. \<not> same_grantee gt gid g) (grants_of r) @ [record]
                             in Inr (record, save_shared w k (r\<lparr>r_grants := grants\<rparr>))))"

definition revoke ::
    "subject option \<Rightarrow> world \<Rightarrow> kind \<Rightarrow> string \<Rightarrow> string \<Rightarrow> verror + (grant \<times> world)" where
  "revoke su w k i grant_id =
     bindE (resource_to_share su w k i)
       (\<lambda>r. case find (\<lambda>g. g_id g = grant_id) (grants_of r) of
              None \<Rightarrow> Inl (Resource_Not_Found ''Grant'' grant_id)
            | Some g \<Rightarrow>
                Inr (g, save_shared w k
                          (r\<lparr>r_grants := filter (\<lambda>g. g_id g \<noteq> grant_id) (grants_of r)\<rparr>)))"

definition find_grant ::
    "subject option \<Rightarrow> world \<Rightarrow> kind \<Rightarrow> string \<Rightarrow> grantee_type \<Rightarrow> string \<Rightarrow> verror + grant option" where
  "find_grant su w k i gt gid =
     bindE (list_grants su w k i) (\<lambda>gs. Inr (find (same_grantee gt gid) gs))"

section \<open>Candidates for a picker\<close>

definition text_or :: "string option \<Rightarrow> string \<Rightarrow> string" where
  "text_or a b = (if truthy a then the a else b)"

definition candidate_users :: "world \<Rightarrow> resource \<Rightarrow> user list" where
  "candidate_users w r =
     (case w_dir w of
        None \<Rightarrow> []
      | Some d \<Rightarrow>
          sort_key (\<lambda>u. py_lower (text_or (py_or (u_name u) (u_email u)) (u_sub u)))
            (filter (\<lambda>u. \<not> (r_owner r = Some (u_sub u) \<or>
                            team_of_res r \<noteq> None \<and> u_team u = team_of_res r))
               (list_user_records d)))"

definition candidate_workflows :: "subject option \<Rightarrow> world \<Rightarrow> kind \<Rightarrow> resource \<Rightarrow> resource list" where
  "candidate_workflows su w k r =
     sort_key (\<lambda>f. py_lower (if r_name f \<noteq> [] then r_name f else r_id f))
       (filter (\<lambda>f. \<not> r_readonly f \<and> \<not> (k = Workflow \<and> r_id f = r_id r) \<and>
                    scope_violation (w_dir w) f Workflow r k \<noteq> None)
          (scoped_list su w Workflow))"

definition candidates ::
    "subject option \<Rightarrow> world \<Rightarrow> kind \<Rightarrow> string \<Rightarrow> verror + (user list \<times> resource list)" where
  "candidates su w k i =
     bindE (resource_to_share su w k i)
       (\<lambda>r. Inr (candidate_users w r, candidate_workflows su w k r))"

section \<open>What granting does\<close>

lemma resource_to_share_Inr:
  "resource_to_share su w k i = Inr r \<longleftrightarrow>
     grantable k \<and> raw_get (inner_store w k) i = Some r \<and> can_change_visibility su r \<and> \<not> r_readonly r"
  by (auto simp: resource_to_share_def grant_backend_def bindE_Inr_iff inner_store_def raw_get_def
      change_visibility_sees split: option.splits if_splits)

lemma grant_to_Inr:
  assumes "grant_to su w fresh now k i gty gid0 lvl = Inr (g, w')"
  obtains r gt name acc where "resource_to_share su w k i = Inr r"
    and "parse_access lvl = Some acc" and "r_visibility r \<noteq> Public" and "py_strip gid0 \<noteq> []"
    and "check_grantee su w k r gty (py_strip gid0) acc = Inr (gt, name)"
    and "g = grant_record su r fresh now gt (py_strip gid0) name acc"
    and "w' = save_shared w k
           (r\<lparr>r_grants := filter (\<lambda>g. \<not> same_grantee gt (py_strip gid0) g) (grants_of r) @ [g]\<rparr>)"
proof -
  from assms obtain r where r: "resource_to_share su w k i = Inr r"
    and rest: "(let gid = py_strip gid0
            in if gid = [] then Inl Grant_Invalid
               else case parse_access lvl of
                      None \<Rightarrow> Inl Grant_Invalid
                    | Some acc \<Rightarrow>
                        if r_visibility r = Public then Inl Grant_Conflict
                        else bindE (check_grantee su w k r gty gid acc)
                          (\<lambda>(gt, name).
                             let record = grant_record su r fresh now gt gid name acc;
                                 grants = filter (\<lambda>g. \<not> same_grantee gt gid g) (grants_of r) @ [record]
                             in Inr (record, save_shared w k (r\<lparr>r_grants := grants\<rparr>)))) = Inr (g, w')"
    unfolding grant_to_def bindE_Inr_iff by blast
  from rest show thesis
    by (auto simp: Let_def bindE_Inr_iff split: if_splits option.splits intro!: that [OF r])
qed

lemma save_shared_get:
  "raw_get (inner_store (save_shared w k r) k') j =
     (if k' = k \<and> j = r_id r then Some r else raw_get (inner_store w k') j)"
  by (auto simp: save_shared_def backend.get_update)

lemma save_shared_ok: "world_ok w \<Longrightarrow> r_kind r = k \<Longrightarrow> r_visibility r = Public \<or> r_owner r \<noteq> None \<Longrightarrow>
  world_ok (save_shared w k r)"
  unfolding world_ok_def save_shared_get
  by (auto simp: save_shared_def backend.ok_update split: if_splits)

lemma grants_of_set: "has_grants (r_kind r) \<Longrightarrow> grants_of (r\<lparr>r_grants := gs\<rparr>) = gs"
  by (simp add: grants_of_def)

lemma grantable_has_grants: "grantable k = has_grants k"
  by (cases k) (simp_all add: grantable_def has_grants_def)

section \<open>Well-formed grants\<close>

text \<open>
  One grant per grantee, each to somebody; on agents and workflows a workflow may only be given
  use.
\<close>

definition grants_ok :: "resource \<Rightarrow> bool" where
  "grants_ok r =
     (distinct (map (\<lambda>g. (g_type g, g_grantee g)) (grants_of r)) \<and>
      (\<forall>g \<in> set (grants_of r). g_grantee g \<noteq> [] \<and>
         (g_type g = To_Workflow \<longrightarrow> r_kind r \<noteq> Datasource \<longrightarrow> g_access g = Read)))"

lemma grants_ok_filter:
  assumes "grants_ok r" and "r_kind r' = r_kind r" and "grants_of r' = filter P (grants_of r)"
  shows "grants_ok r'"
proof -
  have "distinct (map (\<lambda>g. (g_type g, g_grantee g)) (filter P (grants_of r)))"
    using assms(1) by (simp add: grants_ok_def distinct_map_filter)
  with assms show ?thesis by (auto simp: grants_ok_def)
qed

lemma grants_ok_add:
  assumes ok: "grants_ok r" and r': "r_kind r' = r_kind r"
    "grants_of r' = filter (\<lambda>g. \<not> same_grantee gt gid g) (grants_of r) @ [new]"
    and new: "g_type new = gt" "g_grantee new = gid" "gid \<noteq> []"
    and acc: "gt = To_Workflow \<Longrightarrow> r_kind r \<noteq> Datasource \<Longrightarrow> g_access new = Read"
  shows "grants_ok r'"
proof -
  have "distinct (map (\<lambda>g. (g_type g, g_grantee g)) (filter (\<lambda>g. \<not> same_grantee gt gid g) (grants_of r)))"
    using ok by (simp add: grants_ok_def distinct_map_filter)
  with ok r' new acc show ?thesis
    by (auto simp: grants_ok_def same_grantee_def)
qed

definition all_grants_ok :: "world \<Rightarrow> bool" where
  "all_grants_ok w = (\<forall>k i r. raw_get (inner_store w k) i = Some r \<longrightarrow> grants_ok r)"

text \<open>A grant, a revocation, or a save through a scoped backend.\<close>

inductive sharing_step :: "world \<Rightarrow> world \<Rightarrow> bool" where
  saving: "scoped_step w w' \<Longrightarrow> sharing_step w w'"
| granting: "grant_to su w fresh now k i gty gid lvl = Inr (g, w') \<Longrightarrow> sharing_step w w'"
| revoking: "revoke su w k i gid = Inr (g, w') \<Longrightarrow> sharing_step w w'"

lemma check_grantee_Inr:
  "check_grantee su w k r gty gid acc = Inr (gt, name) \<Longrightarrow>
     (gt = To_User \<and> r_owner r \<noteq> Some gid \<or>
      gt = To_Workflow \<and> (k \<noteq> Datasource \<longrightarrow> acc = Read))"
  by (auto simp: check_grantee_def check_user_grantee_def bindE_Inr_iff split: if_splits)

lemma grant_step_frame:
  assumes w: "world_ok w" and g: "grant_to su w fresh now k i gty gid0 lvl = Inr (g, w')"
  obtains r r' where "raw_get (inner_store w k) i = Some r" and "can_change_visibility su r"
    and "r_visibility r \<noteq> Public" and "r_kind r = k" and "r' = r\<lparr>r_grants := grants_of r'\<rparr>"
    and "grants_of r' = filter (\<lambda>x. \<not> same_grantee (g_type g) (g_grantee g) x) (grants_of r) @ [g]"
    and "w' = save_shared w k r'" and "g_grantee g = py_strip gid0" and "g_grantee g \<noteq> []"
    and "parse_access lvl = Some (g_access g)"
    and "g_type g = To_User \<and> r_owner r \<noteq> Some (g_grantee g) \<or>
         g_type g = To_Workflow \<and> (k \<noteq> Datasource \<longrightarrow> g_access g = Read)"
    and "r_id r = i"
proof -
  from g obtain r gt name acc where r: "resource_to_share su w k i = Inr r"
    and acc: "parse_access lvl = Some acc" and vis: "r_visibility r \<noteq> Public" and ne: "py_strip gid0 \<noteq> []"
    and chk: "check_grantee su w k r gty (py_strip gid0) acc = Inr (gt, name)"
    and g': "g = grant_record su r fresh now gt (py_strip gid0) name acc"
    and w': "w' = save_shared w k
           (r\<lparr>r_grants := filter (\<lambda>g. \<not> same_grantee gt (py_strip gid0) g) (grants_of r) @ [g]\<rparr>)"
    by (rule grant_to_Inr)
  from r have share: "grantable k" "raw_get (inner_store w k) i = Some r" "can_change_visibility su r"
    by (simp_all add: resource_to_share_Inr)
  have kind: "r_kind r = k" by (rule world_ok_kind [OF w share(2)])
  let ?r' = "r\<lparr>r_grants := filter (\<lambda>g. \<not> same_grantee gt (py_strip gid0) g) (grants_of r) @ [g]\<rparr>"
  have gs: "grants_of ?r' = filter (\<lambda>g. \<not> same_grantee gt (py_strip gid0) g) (grants_of r) @ [g]"
    using share(1) kind by (simp add: grants_of_set grantable_has_grants)
  have ids: "g_type g = gt" "g_grantee g = py_strip gid0"
    by (simp_all add: g' grant_record_def)
  show thesis
  proof (rule that [OF share(2,3) vis kind _ _ w'])
    show "?r' = r\<lparr>r_grants := grants_of ?r'\<rparr>" by (simp only: gs)
    show "grants_of ?r' = filter (\<lambda>x. \<not> same_grantee (g_type g) (g_grantee g) x) (grants_of r) @ [g]"
      by (simp only: gs ids)
    show "g_grantee g = py_strip gid0" "g_grantee g \<noteq> []" "parse_access lvl = Some (g_access g)"
      using ne acc by (simp_all add: g' grant_record_def)
    show "g_type g = To_User \<and> r_owner r \<noteq> Some (g_grantee g) \<or>
         g_type g = To_Workflow \<and> (k \<noteq> Datasource \<longrightarrow> g_access g = Read)"
      using check_grantee_Inr [OF chk] by (simp add: g' grant_record_def)
    show "r_id r = i" by (rule world_ok_keyed [OF w share(2)])
  qed
qed

lemma revoke_frame:
  assumes w: "world_ok w" and g: "revoke su w k i grant_id = Inr (g, w')"
  obtains r r' where "raw_get (inner_store w k) i = Some r" and "can_change_visibility su r"
    and "r_kind r = k" and "r' = r\<lparr>r_grants := grants_of r'\<rparr>"
    and "grants_of r' = filter (\<lambda>x. g_id x \<noteq> grant_id) (grants_of r)"
    and "w' = save_shared w k r'" and "g \<in> set (grants_of r)" and "g_id g = grant_id" and "r_id r = i"
proof -
  from g obtain r where r: "resource_to_share su w k i = Inr r"
    and f: "find (\<lambda>g. g_id g = grant_id) (grants_of r) = Some g"
    and w': "w' = save_shared w k (r\<lparr>r_grants := filter (\<lambda>g. g_id g \<noteq> grant_id) (grants_of r)\<rparr>)"
    by (auto simp: revoke_def bindE_Inr_iff split: option.splits)
  from r have share: "grantable k" "raw_get (inner_store w k) i = Some r" "can_change_visibility su r"
    by (simp_all add: resource_to_share_Inr)
  have kind: "r_kind r = k" by (rule world_ok_kind [OF w share(2)])
  let ?r' = "r\<lparr>r_grants := filter (\<lambda>g. g_id g \<noteq> grant_id) (grants_of r)\<rparr>"
  have gs: "grants_of ?r' = filter (\<lambda>g. g_id g \<noteq> grant_id) (grants_of r)"
    using share(1) kind by (simp add: grants_of_set grantable_has_grants)
  from f have "g \<in> set (grants_of r)" "g_id g = grant_id" by (auto simp: find_Some_iff)
  then show thesis
    by (intro that [OF share(2,3) kind _ gs w']) (simp_all only: gs world_ok_keyed [OF w share(2)])
qed

lemma record_kept:
  assumes "r' = r\<lparr>r_grants := gs\<rparr>"
  shows "r_id r' = r_id r" "r_kind r' = r_kind r" "r_visibility r' = r_visibility r"
    "r_owner r' = r_owner r" "team_of_res r' = team_of_res r" "r_readonly r' = r_readonly r"
  using assms by (simp_all add: team_of_res_def)

lemma grants_change_rights:
  assumes "r' = r\<lparr>r_grants := gs\<rparr>"
  shows "can_manage su r' = can_manage su r" "can_change_visibility su r' = can_change_visibility su r"
  using record_kept [OF assms]
  by (cases su; simp add: can_manage_def can_change_visibility_def in_team_def)+

lemma find_snoc_hit: "find P ys = None \<Longrightarrow> P g \<Longrightarrow> find P (ys @ [g]) = Some g"
  by (induction ys) (auto split: if_splits)

lemma find_snoc_miss: "\<not> P g \<Longrightarrow> find P (ys @ [g]) = find P ys"
  by (induction ys) auto

lemma shared_world_ok:
  assumes w: "world_ok w" and get: "raw_get (inner_store w k) i = Some r"
    and r': "r' = r\<lparr>r_grants := gs\<rparr>"
  shows "world_ok (save_shared w k r')"
  using world_ok_kind [OF w get] world_ok_owned [OF w get] record_kept [OF r']
  by (intro save_shared_ok [OF w]) auto

lemma sharing_step_keeps:
  assumes "sharing_step w w'" and w: "world_ok w" and ok: "all_grants_ok w"
  shows "world_ok w' \<and> all_grants_ok w'"
  using assms(1)
proof (cases rule: sharing_step.cases)
  case saving
  then have w': "world_ok w'" using w by (rule scoped_step_world_ok)
  from saving w have "all_grants_ok w'"
  proof (cases rule: scoped_step_form)
    case (saved s k vset tset r0 r)
    note kept = saved_resource [OF w saved(1-3)]
    have "grants_ok r"
    proof (cases "raw_get (inner_store w k) (r_id r0)")
      case None
      obtain t where "r = (stamp (Some s) vset r0 None)\<lparr>r_team := t\<rparr>"
        using saved(3) unfolding None by (rule prepare_cases) blast
      with grants_of_stamped [of r0 k None t "Some s" vset] saved(2) have "grants_of r = []" by simp
      then show ?thesis by (simp add: grants_ok_def)
    next
      case (Some e)
      have "grants_ok e" using ok Some by (simp add: all_grants_ok_def)
      then show ?thesis
        using kept(2) kept(4) [OF Some] world_ok_kind [OF w Some] by (simp add: grants_ok_def)
    qed
    with ok saved(4) show ?thesis by (auto simp: all_grants_ok_def)
  next
    case (removed k i dropped)
    have "grants_ok (without_grants_to i r)" if "grants_ok r" for r
      by (rule grants_ok_filter [OF that _ grants_of_without]) simp
    with ok removed(2) show ?thesis by (auto simp: all_grants_ok_def split: if_splits)
  qed
  with w' show ?thesis by blast
next
  case (granting su fresh now k i gty gid lvl g)
  from w granting obtain r r' where r: "raw_get (inner_store w k) i = Some r" "r_kind r = k"
    and r': "r' = r\<lparr>r_grants := grants_of r'\<rparr>"
    and gs: "grants_of r' = filter (\<lambda>x. \<not> same_grantee (g_type g) (g_grantee g) x) (grants_of r) @ [g]"
    and w': "w' = save_shared w k r'" and ne: "g_grantee g \<noteq> []"
    and acc: "g_type g = To_User \<and> r_owner r \<noteq> Some (g_grantee g) \<or>
         g_type g = To_Workflow \<and> (k \<noteq> Datasource \<longrightarrow> g_access g = Read)"
    by (rule grant_step_frame)
  have "grants_ok r'"
    by (rule grants_ok_add [OF _ record_kept(2) [OF r'] gs refl refl ne])
       (use ok r acc in \<open>auto simp: all_grants_ok_def\<close>)
  with ok have "all_grants_ok w'" by (auto simp: all_grants_ok_def w' save_shared_get split: if_splits)
  moreover have "world_ok w'" unfolding w' by (rule shared_world_ok [OF w r(1) r'])
  ultimately show ?thesis by blast
next
  case (revoking su k i gid g)
  from w revoking obtain r r' where r: "raw_get (inner_store w k) i = Some r" "r_kind r = k"
    and r': "r' = r\<lparr>r_grants := grants_of r'\<rparr>"
    and gs: "grants_of r' = filter (\<lambda>x. g_id x \<noteq> gid) (grants_of r)" and w': "w' = save_shared w k r'"
    by (rule revoke_frame)
  have "grants_ok r'"
    by (rule grants_ok_filter [OF _ record_kept(2) [OF r'] gs])
       (use ok r in \<open>auto simp: all_grants_ok_def\<close>)
  with ok have "all_grants_ok w'" by (auto simp: all_grants_ok_def w' save_shared_get split: if_splits)
  moreover have "world_ok w'" unfolding w' by (rule shared_world_ok [OF w r(1) r'])
  ultimately show ?thesis by blast
qed

section \<open>Properties\<close>



text \<open>
  What a grant does and does not do.  Only somebody who may change the resource's visibility
  makes one, never on a public resource and never to its owner; it changes nothing but this
  grantee's entry of this resource; a granted user sees the resource from then on, with the access
  named, but may not delete, re-scope or grant it further on that account.
\<close>

theorem grant_effect:
  assumes w: "world_ok w" and g: "grant_to su w fresh now k i gty gid lvl = Inr (g, w')"
    and old: "raw_get (inner_store w k) i = Some r" and ok: "grants_ok r"
  shows "\<exists>r'. raw_get (inner_store w' k) i = Some r' \<and> r' = r\<lparr>r_grants := grants_of r'\<rparr> \<and>
           can_change_visibility su r \<and> r_visibility r \<noteq> Public \<and>
           (g_type g = To_User \<longrightarrow> r_owner r \<noteq> Some (g_grantee g)) \<and>
           (\<forall>gt x. (gt, x) \<noteq> (g_type g, Some (g_grantee g)) \<longrightarrow> grant_for r' gt x = grant_for r gt x) \<and>
           grant_for r' (g_type g) (Some (g_grantee g)) = parse_access lvl \<and>
           (\<forall>s. can_manage s r' = can_manage s r \<and>
                can_change_visibility s r' = can_change_visibility s r) \<and>
           (\<forall>s. g_type g = To_User \<longrightarrow> sid s = Some (g_grantee g) \<longrightarrow> can_see (Some s) r') \<and>
           (\<forall>k' j. (k', j) \<noteq> (k, i) \<longrightarrow> raw_get (inner_store w' k') j = raw_get (inner_store w k') j)"
proof -
  from w g obtain r1 r' where r1: "raw_get (inner_store w k) i = Some r1" "can_change_visibility su r1"
    "r_visibility r1 \<noteq> Public"
    and r': "r' = r1\<lparr>r_grants := grants_of r'\<rparr>"
    and gs: "grants_of r' = filter (\<lambda>x. \<not> same_grantee (g_type g) (g_grantee g) x) (grants_of r1) @ [g]"
    and w': "w' = save_shared w k r'" and ne: "g_grantee g \<noteq> []"
    and acc: "parse_access lvl = Some (g_access g)"
    and own: "g_type g = To_User \<and> r_owner r1 \<noteq> Some (g_grantee g) \<or>
         g_type g = To_Workflow \<and> (k \<noteq> Datasource \<longrightarrow> g_access g = Read)"
    and id: "r_id r1 = i"
    by (rule grant_step_frame)
  have eq [simp]: "r1 = r" using r1(1) old by simp
  note kept = record_kept [OF r']
  have mine: "grant_for r' (g_type g) (Some (g_grantee g)) = Some (g_access g)"
  proof -
    have "find (\<lambda>x. g_type x = g_type g \<and> Some (g_grantee x) = Some (g_grantee g)) (grants_of r') = Some g"
      unfolding gs by (rule find_snoc_hit) (auto simp: find_None_iff same_grantee_def)
    with ne show ?thesis by (simp add: grant_for_def)
  qed
  have others: "grant_for r' gt x = grant_for r gt x" if "(gt, x) \<noteq> (g_type g, Some (g_grantee g))" for gt x
  proof -
    let ?P = "\<lambda>y. g_type y = gt \<and> Some (g_grantee y) = x"
    have "find ?P (grants_of r') = find ?P (filter (\<lambda>y. \<not> same_grantee (g_type g) (g_grantee g) y) (grants_of r))"
      unfolding gs eq by (rule find_snoc_miss) (use that in auto)
    also have "\<dots> = find ?P (grants_of r)"
      by (rule find_filter_irrelevant) (use that in \<open>auto simp: same_grantee_def\<close>)
    finally show ?thesis by (simp add: grant_for_def)
  qed
  have sees: "can_see (Some s) r'" if "g_type g = To_User" "sid s = Some (g_grantee g)" for s
    using mine that by (auto simp: can_see_def user_grant_def)
  note same = grants_change_rights [OF r', simplified]
  have stored: "raw_get (inner_store w' k) i = Some r'"
    using kept(1) id by (simp add: w' save_shared_get)
  have frame: "raw_get (inner_store w' k') j = raw_get (inner_store w k') j" if "(k', j) \<noteq> (k, i)" for k' j
    using that kept(1) id by (auto simp: w' save_shared_get)
  have only: "r' = r\<lparr>r_grants := grants_of r'\<rparr>" using r' unfolding eq .
  have share: "can_change_visibility su r" "r_visibility r \<noteq> Public" using r1(2,3) unfolding eq by blast+
  have not_owner: "r_owner r \<noteq> Some (g_grantee g)" if "g_type g = To_User"
    using own that unfolding eq by auto
  have level: "grant_for r' (g_type g) (Some (g_grantee g)) = parse_access lvl"
    unfolding mine acc ..
  show ?thesis
    by (intro exI [of _ r'] conjI allI impI;
        (rule stored only share not_owner others level same sees frame; assumption?))
qed

lemma example_world_crm: "raw_get (inner_store example_world Datasource) ''crm'' = Some example_private"
  by (simp add: example_world_def inner_store_def raw_get_def)

lemma example_grants_ok: "grants_ok example_private"
  by (simp add: grants_ok_def example_private_def grants_of_def)

theorem grant_effect_witness:
  "\<exists>g w' r'. grant_to (Some (example_user ''ann'' None)) example_world ''g2'' 0 Datasource ''crm''
       ''user'' ''cy'' ''read'' = Inr (g, w') \<and>
     raw_get (inner_store w' Datasource) ''crm'' = Some r' \<and>
     can_see (Some (example_user ''cy'' None)) r' \<and> \<not> can_manage (Some (example_user ''cy'' None)) r'"
proof -
  let ?g = "grant_to (Some (example_user ''ann'' None)) example_world ''g2'' 0 Datasource ''crm''
            ''user'' ''cy'' ''read''"
  have "case ?g of Inl _ \<Rightarrow> False | Inr (g, _) \<Rightarrow> g_type g = To_User \<and> g_grantee g = ''cy''" by code_simp
  then obtain g w' where g: "?g = Inr (g, w')" "g_type g = To_User" "g_grantee g = ''cy''"
    by (auto split: sum.splits)
  have "sid (example_user ''cy'' None) = Some ''cy''" by (simp add: example_user_def)
  moreover have "\<not> can_manage (Some (example_user ''cy'' None)) example_private" by code_simp
  ultimately show ?thesis
    using grant_effect [OF example_world_ok g(1) example_world_crm example_grants_ok] g by auto
qed

text \<open>
  Granting and revoking round trip: the granter can at once revoke the grant just made, and
  with a fresh grant id the resource is left with exactly the grants it held for everybody else.
\<close>

theorem grant_revoke_roundtrip:
  assumes w: "world_ok w" and g: "grant_to su w fresh now k i gty gid lvl = Inr (g, w')"
    and old: "raw_get (inner_store w k) i = Some r"
    and fresh: "\<And>x. x \<in> set (grants_of r) \<Longrightarrow> g_id x = g_id g \<Longrightarrow>
                 g_type x = g_type g \<and> g_grantee x = g_grantee g"
  shows "\<exists>w'' r'. revoke su w' k i (g_id g) = Inr (g, w'') \<and>
           raw_get (inner_store w'' k) i = Some r' \<and>
           grants_of r' = filter (\<lambda>x. \<not> same_grantee (g_type g) (g_grantee g) x \<and> g_id x \<noteq> g_id g)
                            (grants_of r) \<and>
           grants_of r' = filter (\<lambda>x. \<not> same_grantee (g_type g) (g_grantee g) x) (grants_of r)"
proof -
  from w g obtain r0 r1 where r0: "raw_get (inner_store w k) i = Some r0" "can_change_visibility su r0"
    "r_kind r0 = k"
    and r1: "r1 = r0\<lparr>r_grants := grants_of r1\<rparr>"
    and gs: "grants_of r1 = filter (\<lambda>x. \<not> same_grantee (g_type g) (g_grantee g) x) (grants_of r0) @ [g]"
    and w': "w' = save_shared w k r1" and id: "r_id r0 = i"
    by (rule grant_step_frame)
  have [simp]: "r0 = r" using r0(1) old by simp
  note kept = record_kept [OF r1]
  have w'_ok: "world_ok w'" unfolding w' by (rule shared_world_ok [OF w r0(1) r1])
  have get': "raw_get (inner_store w' k) i = Some r1" using kept(1) id by (simp add: w' save_shared_get)
  have k: "grantable k" and "\<not> r_readonly r0"
    using g r0(1) by (auto elim!: grant_to_Inr simp: resource_to_share_Inr)
  then have share: "resource_to_share su w' k i = Inr r1"
    using get' r0(2) kept(6) by (simp add: resource_to_share_Inr grants_change_rights [OF r1])
  have none: "find (\<lambda>x. g_id x = g_id g) (filter (\<lambda>x. \<not> same_grantee (g_type g) (g_grantee g) x) (grants_of r)) = None"
    using fresh by (auto simp: find_None_iff same_grantee_def)
  have find: "find (\<lambda>x. g_id x = g_id g) (grants_of r1) = Some g"
    by (simp add: gs find_snoc_hit [OF none])
  let ?gs = "filter (\<lambda>x. g_id x \<noteq> g_id g) (grants_of r1)"
  have "revoke su w' k i (g_id g) = Inr (g, save_shared w' k (r1\<lparr>r_grants := ?gs\<rparr>))"
    by (simp add: revoke_def share find)
  moreover have "raw_get (inner_store (save_shared w' k (r1\<lparr>r_grants := ?gs\<rparr>)) k) i =
      Some (r1\<lparr>r_grants := ?gs\<rparr>)"
    using kept(1) id by (simp add: save_shared_get)
  moreover have "grants_of (r1\<lparr>r_grants := ?gs\<rparr>) = ?gs"
    using k r0(3) kept(2) by (simp add: grants_of_set grantable_has_grants)
  moreover have "?gs = filter (\<lambda>x. \<not> same_grantee (g_type g) (g_grantee g) x \<and> g_id x \<noteq> g_id g) (grants_of r)"
    by (simp add: gs)
  moreover have "\<dots> = filter (\<lambda>x. \<not> same_grantee (g_type g) (g_grantee g) x) (grants_of r)"
    using fresh by (intro filter_cong) (auto simp: same_grantee_def)
  ultimately show ?thesis by metis
qed

theorem grant_revoke_roundtrip_witness:
  "\<exists>g w' w''. grant_to (Some (example_user ''ann'' None)) example_world ''g2'' 0 Datasource ''crm''
       ''user'' ''cy'' ''read'' = Inr (g, w') \<and>
     revoke (Some (example_user ''ann'' None)) w' Datasource ''crm'' (g_id g) = Inr (g, w'')"
proof -
  let ?g = "grant_to (Some (example_user ''ann'' None)) example_world ''g2'' 0 Datasource ''crm''
            ''user'' ''cy'' ''read''"
  have "case ?g of Inl _ \<Rightarrow> False | Inr (g, _) \<Rightarrow> g_id g = ''g2''" by code_simp
  then obtain g w' where g: "?g = Inr (g, w')" "g_id g = ''g2''"
    by (auto split: sum.splits)
  have fresh: "g_type x = g_type g \<and> g_grantee x = g_grantee g"
    if "x \<in> set (grants_of example_private)" "g_id x = g_id g" for x
    using that g(2) by (simp add: example_private_def grants_of_def has_grants_def)
  from grant_revoke_roundtrip [OF example_world_ok g(1) example_world_crm fresh] g(1)
  show ?thesis by blast
qed

end
