(* ===== verification/Teams.thy ===== *)
theory Teams
  imports Backend
begin

text \<open>
  Who is in which team and who may change that: \<^verbatim>\<open>app/application/teams.py\<close>.  A handler takes the
  ambient subject, the directory, the process's cache of team names and the clock, and raises or
  returns its answer with the new directory and cache.
\<close>

section \<open>Team names\<close>

record names =
  nm_entries :: "string dict"
  nm_loaded :: time

definition names_ttl :: time where
  "names_ttl = seconds 30"

definition team_name :: "names \<Rightarrow> string option \<Rightarrow> string option" where
  "team_name nm tid = (if truthy tid then map_of (nm_entries nm) (the tid) else None)"

definition remember_teams :: "names \<Rightarrow> time \<Rightarrow> team list \<Rightarrow> bool \<Rightarrow> names" where
  "remember_teams nm tick teams complete =
     (let nm = (if complete then \<lparr>nm_entries = [], nm_loaded = tick\<rparr> else nm)
      in nm\<lparr>nm_entries := fold (\<lambda>t d. AList.update (t_id t) (t_name t) d) teams (nm_entries nm)\<rparr>)"

definition forget_team :: "names \<Rightarrow> string \<Rightarrow> names" where
  "forget_team nm tid = nm\<lparr>nm_entries := AList.delete tid (nm_entries nm)\<rparr>"

definition refresh_names :: "directory \<Rightarrow> names \<Rightarrow> time \<Rightarrow> names" where
  "refresh_names d nm tick =
     (if tick - nm_loaded nm < names_ttl then nm
      else remember_teams nm tick (list_team_records d) True)"

section \<open>The caller\<close>

text \<open>
  The three reads of \<^verbatim>\<open>resolve_subject\<close>, any of which may raise: \<open>fault\<close> says which does (if
  any).  A failing touch has already noted the time it was made.
\<close>

datatype fault = Touch_Fails | Read_Fails | Names_Fail

definition resolve_subject ::
    "fault option \<Rightarrow> directory option \<Rightarrow> names \<Rightarrow> time \<Rightarrow> time \<Rightarrow> subject \<Rightarrow>
     subject \<times> directory option \<times> names" where
  "resolve_subject fault dir nm tick now s =
     (case dir of
        None \<Rightarrow> (s, dir, nm)
      | Some d \<Rightarrow>
          if \<not> truthy (sid s) then (s, dir, nm)
          else
            let sub = the (sid s);
                d1 = touch_user d tick now sub (sname s) (semail s) (sroles s) (Some (is_super_admin s))
            in if fault = Some Touch_Fails then (s, Some (d\<lparr>d_touched := d_touched d1\<rparr>), nm)
               else if fault = Some Read_Fails then (s, Some d1, nm)
               else if fault = Some Names_Fail then (s, Some d1, nm)
               else
                 let nm1 = refresh_names d1 nm tick
                 in case get_user d1 sub of
                      None \<Rightarrow> (s, Some d1, nm1)
                    | Some u \<Rightarrow>
                        if \<not> truthy (u_team u) then (s, Some d1, nm1)
                        else (s\<lparr>steam := u_team u, srole := py_or (u_role u) (Some ''member'')\<rparr>,
                              Some d1, nm1))"

definition super_admin :: "subject option \<Rightarrow> bool" where
  "super_admin su = (case su of None \<Rightarrow> True | Some s \<Rightarrow> is_super_admin s)"

definition team_admin :: "string \<Rightarrow> subject option \<Rightarrow> bool" where
  "team_admin tid su =
     (case su of None \<Rightarrow> False | Some s \<Rightarrow> steam s = Some tid \<and> srole s = Some ''admin'')"

definition require_super_admin :: "subject option \<Rightarrow> verror + unit" where
  "require_super_admin su = guardE (super_admin su) Not_Owner"

definition require_team_manager :: "string \<Rightarrow> subject option \<Rightarrow> verror + unit" where
  "require_team_manager tid su = guardE (super_admin su \<or> team_admin tid su) Not_Owner"

section \<open>What is shown\<close>

record user_view =
  uv_sub :: string
  uv_name :: "string option"
  uv_email :: "string option"
  uv_team :: "(string \<times> string option \<times> string) option"
  uv_super :: bool
  uv_roles :: "string list"
  uv_seen :: "time option"
  uv_team_id :: "string option"
  uv_team_name :: "string option"
  uv_team_role :: "string option"

definition role_or_member :: "string option \<Rightarrow> string" where
  "role_or_member r = (if truthy r then the r else ''member'')"

definition user_dict :: "names \<Rightarrow> user \<Rightarrow> user_view" where
  "user_dict nm u =
     \<lparr>uv_sub = u_sub u, uv_name = u_name u, uv_email = u_email u,
      uv_team = (if truthy (u_team u)
                 then Some (the (u_team u), team_name nm (u_team u), role_or_member (u_role u)) else None),
      uv_super = (u_super u = Some True),
      uv_roles = sort (case u_roles u of None \<Rightarrow> [] | Some rs \<Rightarrow> rs), uv_seen = u_last_seen u,
      uv_team_id = u_team u, uv_team_name = team_name nm (u_team u), uv_team_role = u_role u\<rparr>"

record team_view =
  tv_id :: string
  tv_name :: string
  tv_created :: time
  tv_members :: "(string \<times> string option \<times> string option \<times> string) list"

definition name_or_sub :: "user \<Rightarrow> string" where
  "name_or_sub u = (if truthy (u_name u) then the (u_name u) else u_sub u)"

definition team_dict :: "directory \<Rightarrow> team \<Rightarrow> team_view" where
  "team_dict d t =
     \<lparr>tv_id = t_id t, tv_name = t_name t, tv_created = t_created t,
      tv_members = map (\<lambda>m. (u_sub m, u_name m, u_email m, role_or_member (u_role m)))
                     (sort_key (\<lambda>m. py_lower (name_or_sub m)) (team_members d (t_id t)))\<rparr>"

definition list_teams :: "subject option \<Rightarrow> directory \<Rightarrow> names \<Rightarrow> time \<Rightarrow> team_view list \<times> names" where
  "list_teams su d nm tick =
     (let teams = list_team_records d;
          nm = remember_teams nm tick teams True;
          teams = (if super_admin su then teams
                   else let own = (case su of None \<Rightarrow> None | Some s \<Rightarrow> steam s)
                        in filter (\<lambda>t. Some (t_id t) = own) teams)
      in (map (team_dict d) teams, nm))"

section \<open>Managing teams\<close>

definition team_or_404 :: "directory \<Rightarrow> string \<Rightarrow> verror + team" where
  "team_or_404 d tid =
     (case get_team d tid of None \<Rightarrow> Inl (Resource_Not_Found ''Team'' tid) | Some t \<Rightarrow> Inr t)"

definition clean_name :: "string \<Rightarrow> verror + string" where
  "clean_name name = (let n = py_strip name in if n = [] then Inl Team_Invalid else Inr n)"

text \<open>\<open>tid\<close> and \<open>now\<close> are the fresh id and the creation time.\<close>

definition create_team ::
    "subject option \<Rightarrow> directory \<Rightarrow> names \<Rightarrow> time \<Rightarrow> string \<Rightarrow> time \<Rightarrow> string \<Rightarrow>
     verror + (team_view \<times> directory \<times> names)" where
  "create_team su d nm tick tid now name =
     bindE (require_super_admin su)
       (\<lambda>_. bindE (clean_name name)
          (\<lambda>name. case create_team_record d tid now name of
                    Inl _ \<Rightarrow> Inl Team_Conflict
                  | Inr (t, d') \<Rightarrow> Inr (team_dict d' t, d', remember_teams nm tick [t] False)))"

definition rename_team ::
    "subject option \<Rightarrow> directory \<Rightarrow> names \<Rightarrow> time \<Rightarrow> string \<Rightarrow> string \<Rightarrow>
     verror + (team_view \<times> directory \<times> names)" where
  "rename_team su d nm tick tid name =
     bindE (require_super_admin su)
       (\<lambda>_. bindE (clean_name name)
          (\<lambda>name. case rename_team_record d tid name of
                    Inl _ \<Rightarrow> Inl Team_Conflict
                  | Inr None \<Rightarrow> Inl (Resource_Not_Found ''Team'' tid)
                  | Inr (Some (t, d')) \<Rightarrow>
                      Inr (team_dict d' t, d', remember_teams nm tick [t] False)))"

definition resources_of_team :: "store option list \<Rightarrow> string \<Rightarrow> nat" where
  "resources_of_team backends tid =
     sum_list (map (\<lambda>b. case b of None \<Rightarrow> 0
                      | Some st \<Rightarrow> length (filter (\<lambda>r. r_team r = Some tid) (raw_list st))) backends)"

definition delete_team ::
    "subject option \<Rightarrow> directory \<Rightarrow> names \<Rightarrow> string \<Rightarrow> store option list \<Rightarrow>
     verror + (directory \<times> names)" where
  "delete_team su d nm tid backends =
     bindE (require_super_admin su)
       (\<lambda>_. bindE (team_or_404 d tid)
          (\<lambda>_. if resources_of_team backends tid \<noteq> 0 then Inl Team_Conflict
               else Inr (delete_team_record (clear_team d tid) tid, forget_team nm tid)))"

definition roles_list :: "string list" where
  "roles_list = [''member'', ''admin'']"

definition set_member ::
    "subject option \<Rightarrow> directory \<Rightarrow> string \<Rightarrow> string \<Rightarrow> string option \<Rightarrow>
     verror + (team_view \<times> directory)" where
  "set_member su d tid sub role0 =
     bindE (require_team_manager tid su)
       (\<lambda>_. bindE (team_or_404 d tid)
          (\<lambda>t. let role = role_or_member role0;
                   usr = get_user d sub;
                   current = (case usr of None \<Rightarrow> None | Some u \<Rightarrow> u_team u)
               in if role \<notin> set roles_list then Inl Team_Invalid
                  else if truthy current \<and> current \<noteq> Some tid \<and> \<not> super_admin su
                    then Inl Team_Conflict
                  else if \<not> super_admin su \<and> role = ''admin'' then Inl Not_Owner
                  else if \<not> super_admin su \<and> current = Some tid \<and>
                          (case usr of None \<Rightarrow> False | Some u \<Rightarrow> u_role u = Some ''admin'')
                    then Inl Not_Owner
                  else let d' = set_membership d sub (Some tid) (Some role)
                       in Inr (team_dict d' t, d')))"

definition remove_member ::
    "subject option \<Rightarrow> directory \<Rightarrow> string \<Rightarrow> string \<Rightarrow> verror + (team_view \<times> directory)" where
  "remove_member su d tid sub =
     bindE (require_team_manager tid su)
       (\<lambda>_. bindE (team_or_404 d tid)
          (\<lambda>t. case get_user d sub of
                 None \<Rightarrow> Inl (Resource_Not_Found ''User'' sub)
               | Some u \<Rightarrow>
                   if u_team u \<noteq> Some tid then Inl (Resource_Not_Found ''User'' sub)
                   else if u_role u = Some ''admin'' \<and> \<not> super_admin su then Inl Not_Owner
                   else let d' = set_membership d sub None None
                        in Inr (team_dict d' t, d')))"

section \<open>Managing users\<close>

text \<open>The cache is refreshed before the permission is checked.\<close>

definition list_users ::
    "subject option \<Rightarrow> directory \<Rightarrow> names \<Rightarrow> time \<Rightarrow> (verror + user_view list) \<times> names" where
  "list_users su d nm tick =
     (let users = list_user_records d;
          nm = refresh_names d nm tick;
          view = (\<lambda>us. map (user_dict nm)
                   (sort_key (\<lambda>u. py_lower (if truthy (py_or (u_name u) (u_email u))
                                            then the (py_or (u_name u) (u_email u)) else u_sub u)) us))
      in (if super_admin su then Inr (view users)
          else case su of
                 None \<Rightarrow> Inl Not_Owner
               | Some s \<Rightarrow>
                   if srole s \<noteq> Some ''admin'' \<or> \<not> truthy (steam s) then Inl Not_Owner
                   else Inr (view (filter (\<lambda>u. \<not> truthy (u_team u) \<or> u_team u = steam s) users)),
          nm))"

definition user_or_404 :: "directory \<Rightarrow> string \<Rightarrow> verror + user" where
  "user_or_404 d sub =
     (case get_user d sub of None \<Rightarrow> Inl (Resource_Not_Found ''User'' sub) | Some u \<Rightarrow> Inr u)"

definition set_user_team ::
    "subject option \<Rightarrow> directory \<Rightarrow> names \<Rightarrow> time \<Rightarrow> string \<Rightarrow> string option \<Rightarrow> string option \<Rightarrow>
     verror + (user_view \<times> directory \<times> names)" where
  "set_user_team su d nm tick sub tid role0 =
     bindE (require_super_admin su)
       (\<lambda>_. bindE (user_or_404 d sub)
          (\<lambda>_. bindE
             (if truthy tid then
                bindE (team_or_404 d (the tid))
                  (\<lambda>_. if role_or_member role0 \<notin> set roles_list then Inl Team_Invalid
                       else Inr (set_membership d sub tid (Some (role_or_member role0))))
              else Inr (set_membership d sub None None))
             (\<lambda>d'. let nm = refresh_names d' nm tick
                   in Inr (user_dict nm (user_or_new d' sub), d', nm))))"

definition delete_user :: "subject option \<Rightarrow> directory \<Rightarrow> string \<Rightarrow> verror + directory" where
  "delete_user su d sub =
     bindE (require_super_admin su)
       (\<lambda>_. let (existed, d') = delete_user_record d sub
            in if existed then Inr d' else Inl (Resource_Not_Found ''User'' sub))"

section \<open>Histories\<close>

text \<open>One call by a caller: their request being noted, or a team or user operation.\<close>

inductive team_step :: "subject option \<Rightarrow> directory \<Rightarrow> directory \<Rightarrow> bool" for su where
  request: "resolve_subject fault (Some d) nm tick now s = (s', Some d', nm') \<Longrightarrow> team_step su d d'"
| create: "create_team su d nm tick tid now name = Inr (v, d', nm') \<Longrightarrow> team_step su d d'"
| rename: "rename_team su d nm tick tid name = Inr (v, d', nm') \<Longrightarrow> team_step su d d'"
| delete: "delete_team su d nm tid backends = Inr (d', nm') \<Longrightarrow> team_step su d d'"
| set_member: "set_member su d tid sub role = Inr (v, d') \<Longrightarrow> team_step su d d'"
| remove_member: "remove_member su d tid sub = Inr (v, d') \<Longrightarrow> team_step su d d'"
| set_user_team: "set_user_team su d nm tick sub to role = Inr (v, d', nm') \<Longrightarrow> team_step su d d'"
| delete_user: "delete_user su d sub = Inr d' \<Longrightarrow> team_step su d d'"

definition membership :: "directory \<Rightarrow> string \<Rightarrow> (string option \<times> string option) option" where
  "membership d sub = map_option (\<lambda>u. (u_team u, u_role u)) (get_user d sub)"

lemma membership_None: "membership d s = None \<longleftrightarrow> get_user d s = None"
  by (simp add: membership_def)

lemma upsert_membership:
  "membership (upsert_seen d sub n e w r sp) s =
     (if s = sub \<and> get_user d sub = None then Some (None, None) else membership d s)"
  by (auto simp: upsert_seen_def Let_def membership_def user_or_new_def new_user_def split: option.splits)

lemma membership_touched [simp]: "membership (d\<lparr>d_touched := x\<rparr>) = membership d"
  by (simp add: membership_def fun_eq_iff)

lemma touch_membership:
  "membership (touch_user d tick now sub n e r sp) s = membership d s \<or>
   membership d s = None \<and> membership (touch_user d tick now sub n e r sp) s = Some (None, None)"
  by (auto simp: touch_user_def Let_def upsert_membership membership_None)

lemma upsert_teams [simp]: "d_teams (upsert_seen d sub n e w r sp) = d_teams d"
  by (simp add: upsert_seen_def Let_def)

lemma touch_teams [simp]: "d_teams (touch_user d tick now sub n e r sp) = d_teams d"
  by (simp add: touch_user_def Let_def)

lemma resolve_directory:
  assumes "resolve_subject fault (Some d) nm tick now s = (s', Some d', nm')"
  shows "d' = d \<or> d' = d\<lparr>d_touched := d_touched d'\<rparr> \<or>
         d' = touch_user d tick now (the (sid s)) (sname s) (semail s) (sroles s) (Some (is_super_admin s))"
  using assms by (auto simp: resolve_subject_def Let_def split: if_splits option.splits)

lemma set_membership_get:
  "membership (set_membership d sub t r) s = (if s = sub then Some (t, r) else membership d s)"
  by (simp add: set_membership_def membership_def)

lemma set_membership_teams [simp]: "d_teams (set_membership d sub t r) = d_teams d"
  by (simp add: set_membership_def)

text \<open>What a member handler does when it succeeds.\<close>

lemma set_member_Inr:
  assumes "set_member su d tid sub role = Inr (v, d')"
  shows "super_admin su \<or> team_admin tid su" and "get_team d tid \<noteq> None"
    and "d' = set_membership d sub (Some tid) (Some (role_or_member role))"
    and "role_or_member role \<in> set roles_list"
    and "\<not> super_admin su \<Longrightarrow> role_or_member role = ''member'' \<and>
           (\<forall>u. get_user d sub = Some u \<longrightarrow>
                (\<not> truthy (u_team u) \<or> u_team u = Some tid) \<and>
                (u_team u = Some tid \<longrightarrow> u_role u \<noteq> Some ''admin''))"
  using assms
  by (auto simp: set_member_def require_team_manager_def team_or_404_def bindE_Inr_iff Let_def
      roles_list_def split: option.splits if_splits)

lemma remove_member_Inr:
  assumes "remove_member su d tid sub = Inr (v, d')"
  shows "super_admin su \<or> team_admin tid su" and "get_team d tid \<noteq> None"
    and "d' = set_membership d sub None None"
    and "\<exists>u. get_user d sub = Some u \<and> u_team u = Some tid \<and>
             (\<not> super_admin su \<longrightarrow> u_role u \<noteq> Some ''admin'')"
  using assms
  by (auto simp: remove_member_def require_team_manager_def team_or_404_def bindE_Inr_iff Let_def
      split: option.splits if_splits)

lemma set_user_team_Inr:
  assumes "set_user_team su d nm tick sub tid role = Inr (v, d', nm')"
  shows "super_admin su"
    and "\<exists>t r. d' = set_membership d sub t r \<and> (\<forall>x. t = Some x \<longrightarrow> get_team d x \<noteq> None)"
  using assms
  by (auto simp: set_user_team_def require_super_admin_def user_or_404_def team_or_404_def
      bindE_Inr_iff Let_def split: option.splits if_splits elim!: truthyE)

lemma create_team_Inr:
  assumes "create_team su d nm tick tid now name = Inr (v, d', nm')"
  obtains n t where "super_admin su" and "create_team_record d tid now n = Inr (t, d')"
proof -
  from assms obtain n where "super_admin su"
    and "(case create_team_record d tid now n of Inl _ \<Rightarrow> Inl Team_Conflict
          | Inr (t, d') \<Rightarrow> Inr (team_dict d' t, d', remember_teams nm tick [t] False)) = Inr (v, d', nm')"
    unfolding create_team_def require_super_admin_def bindE_Inr_iff guardE_Inr_iff by blast
  then show thesis using that by (cases "create_team_record d tid now n") auto
qed

lemma rename_team_Inr:
  assumes "rename_team su d nm tick tid name = Inr (v, d', nm')"
  obtains n t where "super_admin su" and "rename_team_record d tid n = Inr (Some (t, d'))"
proof -
  from assms obtain n where "super_admin su"
    and "(case rename_team_record d tid n of
                    Inl _ \<Rightarrow> Inl Team_Conflict
                  | Inr None \<Rightarrow> Inl (Resource_Not_Found ''Team'' tid)
                  | Inr (Some (t, d')) \<Rightarrow>
                      Inr (team_dict d' t, d', remember_teams nm tick [t] False)) = Inr (v, d', nm')"
    unfolding rename_team_def require_super_admin_def bindE_Inr_iff guardE_Inr_iff by blast
  then show thesis using that
    by (cases "rename_team_record d tid n") (auto split: option.splits)
qed

lemma delete_team_Inr:
  assumes "delete_team su d nm tid backends = Inr (d', nm')"
  shows "super_admin su" and "resources_of_team backends tid = 0"
    and "d' = delete_team_record (clear_team d tid) tid" and "nm' = forget_team nm tid"
  using assms
  by (auto simp: delete_team_def require_super_admin_def bindE_Inr_iff split: if_splits)

lemma delete_user_Inr:
  assumes "delete_user su d sub = Inr d'"
  shows "super_admin su" and "d' = snd (delete_user_record d sub)"
  using assms
  by (auto simp: delete_user_def require_super_admin_def bindE_Inr_iff split: prod.splits if_splits)

lemma team_step_dir_ok:
  assumes "team_step su d d'" and ok: "dir_ok d"
  shows "dir_ok d'"
  using assms(1)
proof cases
  case (request fault nm tick now s s' nm')
  from resolve_directory [OF this] ok show ?thesis
    by (metis dir_ok_touch_user dir_ok_touched)
next
  case (create nm tick tid now name v nm')
  then show ?thesis by (rule create_team_Inr) (rule dir_ok_create_team [OF ok])
next
  case (rename nm tick tid name v nm')
  then show ?thesis by (rule rename_team_Inr) (rule dir_ok_rename_team [OF ok])
next
  case (delete nm tid backends nm')
  show ?thesis unfolding delete_team_Inr(3) [OF delete] by (rule dir_ok_delete_team [OF ok])
next
  case (set_member tid sub role v)
  note m = set_member_Inr [OF this]
  show ?thesis unfolding m(3) by (rule dir_ok_set_membership [OF ok]) (use m(2) in auto)
next
  case (remove_member tid sub v)
  show ?thesis
    unfolding remove_member_Inr(3) [OF remove_member] by (rule dir_ok_set_membership [OF ok]) simp
next
  case (set_user_team nm tick sub to role v nm')
  from set_user_team_Inr(2) [OF this] ok show ?thesis by (auto intro: dir_ok_set_membership)
next
  case (delete_user sub)
  show ?thesis unfolding delete_user_Inr(2) [OF delete_user] by (rule dir_ok_delete_user [OF ok])
qed

section \<open>Properties\<close>


definition no_names :: names where
  "no_names = \<lparr>nm_entries = [], nm_loaded = 0\<rparr>"


text \<open>The team admins the directory records.\<close>

definition team_admins :: "directory \<Rightarrow> (string \<times> string) set" where
  "team_admins d = {(sub, tid). tid \<noteq> [] \<and> membership d sub = Some (Some tid, Some ''admin'')}"

lemma plain_step_membership:
  assumes "team_step (Some s) d d'" and "\<not> is_super_admin s"
  shows "d_teams d' = d_teams d \<and> team_admins d' = team_admins d \<and>
         (\<forall>sub t. t \<noteq> [] \<longrightarrow> steam s \<noteq> Some t \<longrightarrow>
            (\<exists>r. membership d' sub = Some (Some t, r)) = (\<exists>r. membership d sub = Some (Some t, r)))"
  using assms(1)
proof cases
  case (request fault nm tick now s0 s' nm')
  let ?t = "touch_user d tick now (the (sid s0)) (sname s0) (semail s0) (sroles s0)
              (Some (is_super_admin s0))"
  have same: "(membership ?t sub = Some (Some t, r)) = (membership d sub = Some (Some t, r))" for sub t r
    using touch_membership [of d tick now "the (sid s0)" "sname s0" "semail s0" "sroles s0"
        "Some (is_super_admin s0)" sub] by auto
  have teams: "d_teams (d\<lparr>d_touched := x\<rparr>) = d_teams d" for x by simp
  from resolve_directory [OF request] consider "d' = d" | "d' = d\<lparr>d_touched := d_touched d'\<rparr>" | "d' = ?t"
    by blast
  then show ?thesis
  proof cases
    case 2
    then have "membership d' = membership d" "d_teams d' = d_teams d"
      by (metis membership_touched, metis teams)
    then show ?thesis by (simp add: team_admins_def)
  next
    case 3
    then show ?thesis using same by (simp add: team_admins_def)
  qed simp
next
  case (set_member tid sub role v)
  note m = set_member_Inr [OF this]
  have admin: "steam s = Some tid" using m(1) assms(2) by (simp add: super_admin_def team_admin_def)
  have plain: "\<not> super_admin (Some s)" using assms(2) by (simp add: super_admin_def)
  note mine = m(5) [OF plain]
  have "membership d sub \<noteq> Some (Some t, Some ''admin'')" if "t \<noteq> []" for t
    using mine that by (auto simp: membership_def)
  moreover have "membership d sub \<noteq> Some (Some t, r)" if "t \<noteq> []" "tid \<noteq> t" for t r
    using mine that by (auto simp: membership_def)
  ultimately show ?thesis
    using admin mine
    by (auto simp: m(3) team_admins_def set_membership_get split: if_splits) blast
next
  case (remove_member tid sub v)
  note m = remove_member_Inr [OF this]
  have "steam s = Some tid" using m(1) assms(2) by (simp add: super_admin_def team_admin_def)
  moreover obtain r where "membership d sub = Some (Some tid, r)" "r \<noteq> Some ''admin''"
    using m(4) assms(2) by (auto simp: super_admin_def membership_def)
  ultimately show ?thesis
    by (auto simp: m(3) team_admins_def set_membership_get split: if_splits)
qed (use assms(2) in \<open>auto simp: super_admin_def dest: set_user_team_Inr(1) delete_team_Inr(1)
       delete_user_Inr(1) elim: create_team_Inr rename_team_Inr\<close>)


definition example_directory :: directory where
  "example_directory = \<lparr>d_touched = [],
     d_users = [(''ann'', (new_user ''ann'')\<lparr>u_team := Some ''t1'', u_role := Some ''admin''\<rparr>),
                (''bob'', (new_user ''bob'')\<lparr>u_team := Some ''t2'', u_role := Some ''admin''\<rparr>),
                (''cy'', new_user ''cy'')],
     d_teams = [(''t1'', \<lparr>t_id = ''t1'', t_name = ''Red'', t_created = 0\<rparr>),
                (''t2'', \<lparr>t_id = ''t2'', t_name = ''Blue'', t_created = 0\<rparr>)]\<rparr>"

definition ann_admin :: subject where
  "ann_admin = (example_user ''ann'' (Some ''t1''))\<lparr>srole := Some ''admin''\<rparr>"


text \<open>
  A caller who is not a super admin has no effect on who is in a team other than their own.
\<close>

theorem other_teams_untouched:
  assumes "team_step (Some s) d d'" and "\<not> is_super_admin s" and "t \<noteq> []" and "steam s \<noteq> Some t"
  shows "(\<exists>r. membership d' sub = Some (Some t, r)) = (\<exists>r. membership d sub = Some (Some t, r))"
  using plain_step_membership [OF assms(1,2)] assms(3,4) by blast

theorem other_teams_untouched_witness:
  "\<exists>v d'. set_member (Some ann_admin) example_directory ''t1'' ''cy'' None = Inr (v, d') \<and>
          (\<exists>r. membership d' ''bob'' = Some (Some ''t2'', r))"
proof -
  let ?c = "set_member (Some ann_admin) example_directory ''t1'' ''cy'' None"
  have "case ?c of Inl _ \<Rightarrow> False | Inr _ \<Rightarrow> True" by code_simp
  then obtain v d' where c: "?c = Inr (v, d')" by (auto split: sum.splits)
  then have "team_step (Some ann_admin) example_directory d'" by (rule team_step.set_member)
  moreover have "\<not> is_super_admin ann_admin" "steam ann_admin \<noteq> Some ''t2''"
    by (simp_all add: ann_admin_def example_user_def)
  moreover have "membership example_directory ''bob'' = Some (Some ''t2'', Some ''admin'')"
    by (simp add: membership_def get_user_def example_directory_def)
  ultimately show ?thesis
    using other_teams_untouched [of ann_admin example_directory d' "''t2''" "''bob''"] c by auto
qed

text \<open>
  Deleting a team succeeds only when no definition of any backend names it, and then leaves
  neither the team nor any member of it, and every other team and everybody else's membership as
  they were.
\<close>

theorem delete_team_clean:
  assumes "delete_team su d nm tid backends = Inr (d', nm')"
  shows "super_admin su \<and>
         (\<forall>st r. Some st \<in> set backends \<longrightarrow> r \<in> set (raw_list st) \<longrightarrow> r_team r \<noteq> Some tid) \<and>
         get_team d' tid = None \<and> team_name nm' (Some tid) = None \<and> team_members d' tid = [] \<and>
         (\<forall>t. t \<noteq> tid \<longrightarrow> get_team d' t = get_team d t) \<and>
         (\<forall>sub. (\<forall>r. membership d sub \<noteq> Some (Some tid, r)) \<longrightarrow> membership d' sub = membership d sub)"
proof -
  note del = delete_team_Inr [OF assms]
  have "length (filter (\<lambda>r. r_team r = Some tid) (raw_list st)) = 0" if "Some st \<in> set backends" for st
    using del(2) that by (force simp: resources_of_team_def)
  then have "r_team r \<noteq> Some tid" if "Some st \<in> set backends" "r \<in> set (raw_list st)" for st r
    using that by (auto simp: filter_empty_conv)
  moreover have "team_name nm' (Some tid) = None"
    by (simp add: del(4) team_name_def forget_team_def)
  moreover have "team_members d' tid = []"
    by (auto simp: del(3) team_members_def list_user_records_def delete_team_record_def
        clear_team_def filter_empty_conv split: if_splits)
  moreover have "get_team d' t = (if t = tid then None else get_team d t)" for t
    by (simp add: del(3))
  moreover have "membership d' sub = membership d sub"
    if "\<forall>r. membership d sub \<noteq> Some (Some tid, r)" for sub
    using that by (cases "get_user d sub") (auto simp: del(3) membership_def get_user_clear)
  ultimately show ?thesis using del(1) by auto
qed

theorem delete_team_clean_witness:
  "\<exists>d' nm'. delete_team None example_directory no_names ''t2'' [Some [], None] = Inr (d', nm') \<and>
            team_members d' ''t2'' = []"
proof -
  let ?c = "delete_team None example_directory no_names ''t2'' [Some [], None]"
  have "case ?c of Inl _ \<Rightarrow> False | Inr _ \<Rightarrow> True" by code_simp
  then obtain d' nm' where c: "?c = Inr (d', nm')" by (auto split: sum.splits)
  have "team_members d' ''t2'' = []" using delete_team_clean [OF c] by (elim conjE)
  with c show ?thesis by (intro exI conjI)
qed

text \<open>
  The caller's team is the directory's or none: a resolved subject keeps its identity and
  privileges, carries a team only if it is the one the directory records for it now, and carries
  none when the directory cannot be read.
\<close>

theorem resolved_team_agrees:
  assumes "resolve_subject fault dir nm tick now s = (s', dir', nm')" and "steam s = None"
  shows "sid s' = sid s \<and> is_super_admin s' = is_super_admin s \<and> sroles s' = sroles s \<and>
         (steam s' \<noteq> None \<longrightarrow> steam s' = team_of dir' (sid s)) \<and>
         (fault \<noteq> None \<longrightarrow> s' = s) \<and>
         (fault = None \<longrightarrow> truthy (team_of dir' (sid s)) \<longrightarrow> steam s' = team_of dir' (sid s))"
proof (cases fault)
  case None
  with assms show ?thesis
    by (auto simp: resolve_subject_def Let_def team_of_def split: option.splits if_splits)
next
  case (Some f)
  with assms show ?thesis
    by (cases f) (auto simp: resolve_subject_def Let_def team_of_def split: option.splits if_splits)
qed

theorem resolved_team_agrees_witness:
  "steam (fst (resolve_subject None (Some example_directory) no_names 0 0 (example_user ''bob'' None)))
     = team_of (fst (snd (resolve_subject None (Some example_directory) no_names 0 0
                            (example_user ''bob'' None)))) (Some ''bob'')"
proof -
  define u where "u = example_user ''bob'' None"
  define r where "r = resolve_subject None (Some example_directory) no_names 0 0 u"
  have u: "sid u = Some ''bob''" "steam u = None" by (simp_all add: u_def example_user_def)
  have "truthy (team_of (fst (snd (resolve_subject None (Some example_directory) no_names 0 0
          (example_user ''bob'' None)))) (Some ''bob''))" by code_simp
  then have t: "truthy (team_of (fst (snd r)) (sid u))" by (simp only: r_def u_def u [unfolded u_def])
  have "resolve_subject None (Some example_directory) no_names 0 0 u = (fst r, fst (snd r), snd (snd r))"
    by (simp add: r_def)
  from resolved_team_agrees [OF this u(2)] t have "steam (fst r) = team_of (fst (snd r)) (sid u)"
    by blast
  then show ?thesis by (simp only: r_def u_def u [unfolded u_def])
qed

end
