(* ===== verification/Middleware.thy ===== *)
theory Middleware
  imports Teams
begin

text \<open>
  The authenticated front doors: \<^verbatim>\<open>OAuthMiddleware.dispatch\<close> and \<^verbatim>\<open>_is_unprotected\<close> of
  \<^verbatim>\<open>app/api/middleware/auth.py\<close>, and \<^verbatim>\<open>_ManagementAuthWrapper\<close> of \<^verbatim>\<open>app/api/app.py\<close>.  Token
  validation (the OIDC service) and the login script's decision are parameters; the answer says
  which principal and subject the request is served with.
\<close>

section \<open>Paths that bypass user authentication\<close>

definition unprotected_paths :: "string list" where
  "unprotected_paths = [''/health'', ''/ready'', ''/mcp/management'']"

definition unprotected_prefixes :: "string list" where
  "unprotected_prefixes = [''/api/v1/callbacks/slack/'', ''/api/v1/webhooks/'', ''/mcp/datasources'',
                           ''/mcp/management/'']"

definition unprotected_method_prefixes :: "(string \<times> string) list" where
  "unprotected_method_prefixes = [(''GET'', ''/api/v1/callbacks/'')]"

text \<open>The end of a \<^verbatim>\<open>re.match\<close> with \<open>$\<close>: at the end, or before a final newline.\<close>

definition at_end :: "string \<Rightarrow> string \<Rightarrow> bool" where
  "at_end expected rest = (rest = expected \<or> rest = expected @ [CHR 0x0A])"

text \<open>
  \<^verbatim>\<open>prefix[^/]+suffix$\<close> for one of the suffixes, all of which start with a slash.
\<close>

definition segment_path :: "string \<Rightarrow> string list \<Rightarrow> string \<Rightarrow> bool" where
  "segment_path prefix suffixes path =
     (starts_with prefix path \<and>
      (let rest = drop (length prefix) path;
           seg = takeWhile (\<lambda>c. c \<noteq> CHR ''/'') rest;
           tail = dropWhile (\<lambda>c. c \<noteq> CHR ''/'') rest
       in seg \<noteq> [] \<and> (\<exists>s \<in> set suffixes. at_end s tail)))"

definition agent_callback_path :: "string \<Rightarrow> bool" where
  "agent_callback_path =
     segment_path ''/api/v1/runs/''
       [''/agent/output'', ''/agent/question'', ''/agent/input'', ''/agent/progress'']"

definition runner_public :: "string \<Rightarrow> string \<Rightarrow> bool" where
  "runner_public method path =
     (method = ''GET'' \<and> (at_end ''/api/v1/acp/runners/info'' path \<or>
                         at_end ''/api/v1/acp/runners/install.md'' path) \<or>
      method = ''POST'' \<and> at_end ''/api/v1/acp/runners/enrollments'' path \<or>
      method = ''GET'' \<and> segment_path ''/api/v1/acp/runners/enrollments/'' [''/poll''] path \<or>
      method = ''DELETE'' \<and> at_end ''/api/v1/acp/runners/self'' path)"

definition is_unprotected :: "string \<Rightarrow> string \<Rightarrow> bool" where
  "is_unprotected method path =
     (if path \<in> set unprotected_paths \<or> (\<exists>p \<in> set unprotected_prefixes. starts_with p path) then True
      else if runner_public method path then True
      else if \<exists>(m, p) \<in> set unprotected_method_prefixes. method = m \<and> starts_with p path then True
      else agent_callback_path path)"

section \<open>The OAuth middleware\<close>

record request =
  rq_method :: string
  rq_path :: string
  rq_authorization :: string

datatype answer =
    Passed
  | Unauthorized
  | Forbidden "permission option"
  | Served "permission set" subject

text \<open>\<open>auth_header.split(" ", 1)[1]\<close> when the header starts with \<open>"Bearer "\<close>.\<close>

definition bearer_token :: "string \<Rightarrow> string option" where
  "bearer_token header =
     (if starts_with ''Bearer '' header then Some (drop (length ''Bearer '') header) else None)"

text \<open>The identity a validated token and the login decision give.\<close>

definition request_subject :: "policy \<Rightarrow> jobj \<Rightarrow> login_decision option \<Rightarrow> subject" where
  "request_subject p claims dec =
     (let roles = effective_roles p claims dec
      in (with_profile (subject_from_claims claims
            (SUPER_ADMIN \<in> permissions_for_roles_strict p roles)) dec)\<lparr>sroles := Some roles\<rparr>)"

definition dispatch ::
    "(string \<Rightarrow> string + jobj) \<Rightarrow> (string \<Rightarrow> jobj \<Rightarrow> login_decision option) \<Rightarrow> policy \<Rightarrow>
     (subject \<Rightarrow> subject) \<Rightarrow> request \<Rightarrow> answer" where
  "dispatch validate decide p resolve rq =
     (if is_unprotected (rq_method rq) (rq_path rq) then Passed
      else
        let token = bearer_token (rq_authorization rq)
        in if \<not> truthy token then Unauthorized
           else case validate (the token) of
                  Inl _ \<Rightarrow> Unauthorized
                | Inr claims \<Rightarrow>
                    let dec = decide (the token) claims;
                        roles = effective_roles p claims dec;
                        perms = permissions_for_roles p roles;
                        s = request_subject p claims dec;
                        required = permission_for_method (rq_method rq)
                    in if \<not> enforce p then Served perms (resolve s)
                       else if ACCESS \<notin> perms then Forbidden None
                       else if required \<notin> perms then Forbidden (Some required)
                       else Served perms (resolve s))"

text \<open>\<open>resolve\<close> above is \<^verbatim>\<open>resolve_subject\<close> on the directory of the moment.\<close>

definition resolver ::
    "fault option \<Rightarrow> directory option \<Rightarrow> names \<Rightarrow> time \<Rightarrow> time \<Rightarrow> subject \<Rightarrow> subject" where
  "resolver fault dir nm tick now s = fst (resolve_subject fault dir nm tick now s)"

section \<open>The management MCP gate\<close>

record gate =
  gt_api_key :: "string option"
  gt_oauth :: bool

text \<open>\<open>(api_key or "").strip() or None\<close>.\<close>

definition gate_key :: "gate \<Rightarrow> string option" where
  "gate_key g =
     (let k = py_strip (case gt_api_key g of None \<Rightarrow> [] | Some k \<Rightarrow> k) in if k = [] then None else Some k)"

definition api_key_subject :: subject where
  "api_key_subject = \<lparr>sid = None, sname = None, semail = None, is_super_admin = False,
                      steam = None, srole = None, sroles = None\<rparr>"

definition management_call ::
    "gate \<Rightarrow> (string \<Rightarrow> string + jobj) \<Rightarrow> (string \<Rightarrow> jobj \<Rightarrow> login_decision option) \<Rightarrow> policy \<Rightarrow>
     (subject \<Rightarrow> subject) \<Rightarrow> string \<Rightarrow> answer" where
  "management_call g validate decide p resolve header =
     (if gate_key g \<noteq> None \<and> header = ''Bearer '' @ the (gate_key g)
        then Served (permissions_for_api_key p) api_key_subject
      else if gt_oauth g \<and> bearer_token header \<noteq> None then
        (let token = the (bearer_token header)
         in if py_strip token = [] then Unauthorized
            else case validate token of
                   Inl _ \<Rightarrow> Unauthorized
                 | Inr claims \<Rightarrow>
                     let dec = decide token claims;
                         perms = permissions_for_roles p (effective_roles p claims dec)
                     in if ACCESS \<notin> perms then Forbidden None
                        else Served perms (resolve (request_subject p claims dec)))
      else Unauthorized)"

section \<open>Properties\<close>

lemma segment_path_iff:
  assumes "\<And>s. s \<in> set suffixes \<Longrightarrow> \<exists>t. s = CHR ''/'' # t"
  shows "segment_path prefix suffixes path \<longleftrightarrow>
           (\<exists>seg s nl. path = prefix @ seg @ s @ nl \<and> seg \<noteq> [] \<and> CHR ''/'' \<notin> set seg \<and>
              s \<in> set suffixes \<and> (nl = [] \<or> nl = [CHR 0x0A]))"
    (is "?l \<longleftrightarrow> ?r")
proof
  assume ?l
  then obtain rest s where path: "path = prefix @ rest"
    and seg: "takeWhile (\<lambda>c. c \<noteq> CHR ''/'') rest \<noteq> []" and s: "s \<in> set suffixes"
    and e: "at_end s (dropWhile (\<lambda>c. c \<noteq> CHR ''/'') rest)"
    by (auto simp: segment_path_def starts_with_iff Let_def)
  from e obtain nl where "dropWhile (\<lambda>c. c \<noteq> CHR ''/'') rest = s @ nl" "nl = [] \<or> nl = [CHR 0x0A]"
    by (auto simp: at_end_def)
  moreover have "CHR ''/'' \<notin> set (takeWhile (\<lambda>c. c \<noteq> CHR ''/'') rest)"
    by (auto dest: set_takeWhileD)
  moreover have "path = prefix @ takeWhile (\<lambda>c. c \<noteq> CHR ''/'') rest @
      dropWhile (\<lambda>c. c \<noteq> CHR ''/'') rest" using path by simp
  ultimately show ?r using seg s by metis
next
  assume ?r
  then obtain seg s nl where path: "path = prefix @ seg @ s @ nl" and seg: "seg \<noteq> []" "CHR ''/'' \<notin> set seg"
    and s: "s \<in> set suffixes" and nl: "nl = [] \<or> nl = [CHR 0x0A]" by blast
  from assms [OF s] obtain t where t: "s = CHR ''/'' # t" by blast
  have "takeWhile (\<lambda>c. c \<noteq> CHR ''/'') (seg @ s @ nl) = seg"
    "dropWhile (\<lambda>c. c \<noteq> CHR ''/'') (seg @ s @ nl) = s @ nl"
    using seg(2) t by (induction seg) auto
  with path seg s nl show ?l by (auto simp: segment_path_def Let_def at_end_def)
qed

definition agent_callbacks :: "string set" where
  "agent_callbacks = {''/agent/output'', ''/agent/question'', ''/agent/input'', ''/agent/progress''}"

text \<open>
  Under \<^verbatim>\<open>/api/v1/runs/\<close> the only requests that need no user token are, for any method, the
  four agent callbacks of a single path segment (a trailing newline apart): the run-control
  routes, the agent reply and everything nested deeper stay authenticated.
\<close>

theorem run_paths_exempt_iff:
  "is_unprotected method (''/api/v1/runs/'' @ rest) \<longleftrightarrow>
     (\<exists>seg cb nl. rest = seg @ cb @ nl \<and> seg \<noteq> [] \<and> CHR ''/'' \<notin> set seg \<and> cb \<in> agent_callbacks \<and>
        (nl = [] \<or> nl = [CHR 0x0A]))"
proof -
  let ?p = "''/api/v1/runs/'' @ rest"
  have "?p \<notin> set unprotected_paths" "\<not> (\<exists>p \<in> set unprotected_prefixes. starts_with p ?p)"
    "\<not> runner_public method ?p"
    "\<not> (\<exists>(m, p) \<in> set unprotected_method_prefixes. method = m \<and> starts_with p ?p)"
    by (auto simp: unprotected_paths_def unprotected_prefixes_def unprotected_method_prefixes_def
        starts_with_def runner_public_def at_end_def segment_path_def)
  then have "is_unprotected method ?p = agent_callback_path ?p"
    by (simp only: is_unprotected_def if_False simp_thms)
  also have "\<dots> \<longleftrightarrow> (\<exists>seg cb nl. rest = seg @ cb @ nl \<and> seg \<noteq> [] \<and> CHR ''/'' \<notin> set seg \<and>
        cb \<in> agent_callbacks \<and> (nl = [] \<or> nl = [CHR 0x0A]))"
    unfolding agent_callback_path_def
    by (subst segment_path_iff) (auto simp: agent_callbacks_def)
  finally show ?thesis .
qed

lemma request_subject_super:
  "is_super_admin (request_subject p claims dec) \<longleftrightarrow>
     SUPER_ADMIN \<in> permissions_for_roles_strict p (effective_roles p claims dec)"
  by (simp add: request_subject_def with_profile_def subject_from_claims_def Let_def split: option.splits)

lemma enforced_mem:
  "enforce p \<Longrightarrow> perm \<in> permissions_for_roles p roles \<longleftrightarrow>
     roles \<inter> deny_roles p = {} \<and> roles \<inter> access_roles p \<noteq> {} \<and> roles \<inter> roles_for p perm \<noteq> {}"
  by (simp add: permissions_for_roles_def strict_mem_iff)

text \<open>
  C3: Under enforcement a protected request is served only for a non-empty bearer token that
  validates, whose roles (as the login script leaves them) include no denied role, an access role
  and a role for the request's method; the principal bound for the request holds exactly the
  permissions the roles map to, and the subject is a super admin exactly when they include it.
\<close>

theorem served_request_entitled:
  assumes served: "dispatch validate decide p resolve rq = Served perms s" and on: "enforce p"
  shows "\<exists>token claims roles. bearer_token (rq_authorization rq) = Some token \<and> token \<noteq> [] \<and>
           validate token = Inr claims \<and> roles = effective_roles p claims (decide token claims) \<and>
           roles \<inter> deny_roles p = {} \<and> roles \<inter> access_roles p \<noteq> {} \<and>
           roles \<inter> roles_for p (permission_for_method (rq_method rq)) \<noteq> {} \<and>
           perms = {perm. roles \<inter> roles_for p perm \<noteq> {}} \<and>
           s = resolve (request_subject p claims (decide token claims)) \<and>
           (is_super_admin (request_subject p claims (decide token claims)) \<longleftrightarrow> SUPER_ADMIN \<in> perms)"
proof -
  from served obtain token claims where t: "bearer_token (rq_authorization rq) = Some token" "token \<noteq> []"
    and v: "validate token = Inr claims"
    and perms: "perms = permissions_for_roles p (effective_roles p claims (decide token claims))"
    and s: "s = resolve (request_subject p claims (decide token claims))"
    and m: "permission_for_method (rq_method rq) \<in> perms"
    using on
    by (auto simp: dispatch_def Let_def elim!: truthyE split: if_splits sum.splits)
  let ?roles = "effective_roles p claims (decide token claims)"
  note mem = enforced_mem [OF on, of _ ?roles]
  from m have gates: "?roles \<inter> deny_roles p = {}" "?roles \<inter> access_roles p \<noteq> {}"
    "?roles \<inter> roles_for p (permission_for_method (rq_method rq)) \<noteq> {}"
    by (simp_all add: perms mem)
  moreover have "perms = {perm. ?roles \<inter> roles_for p perm \<noteq> {}}"
    unfolding perms by (rule set_eqI) (use gates(1,2) mem in blast)
  moreover have "is_super_admin (request_subject p claims (decide token claims)) \<longleftrightarrow> SUPER_ADMIN \<in> perms"
    by (simp add: request_subject_super perms permissions_for_roles_def on)
  ultimately show ?thesis using t v s by blast
qed

definition example_claims :: jobj where
  "example_claims = [(''sub'', JStr ''ann''), (''roles'', JList [JStr ''staff''])]"

definition example_request :: request where
  "example_request =
     \<lparr>rq_method = ''GET'', rq_path = ''/api/v1/agents'', rq_authorization = ''Bearer tok''\<rparr>"

theorem served_request_entitled_witness:
  "\<exists>perms s. dispatch (\<lambda>_. Inr example_claims) (\<lambda>_ _. None) example_policy id example_request
               = Served perms s \<and> READ \<in> perms"
proof -
  let ?d = "dispatch (\<lambda>_. Inr example_claims) (\<lambda>_ _. None) example_policy id example_request"
  have "case ?d of Served _ _ \<Rightarrow> True | _ \<Rightarrow> False" by code_simp
  then obtain perms s where d: "?d = Served perms s" by (auto split: answer.splits)
  have "enforce example_policy" by code_simp
  moreover have "permission_for_method (rq_method example_request) = READ" by code_simp
  ultimately show ?thesis using served_request_entitled [OF d] d by auto
qed

text \<open>
  C33: The management endpoint fails closed: what it serves is either a request carrying the
  configured key, which is not blank and is never served with administration rights or as
  anybody, or one with a token that validates and whose roles grant access; with no key and no
  OAuth it serves nothing.
\<close>

theorem management_fails_closed:
  assumes served: "management_call g validate decide p resolve header = Served perms s"
  shows "(\<exists>key. gate_key g = Some key \<and> key \<noteq> [] \<and> header = ''Bearer '' @ key \<and>
            ADMIN \<notin> perms \<and> SUPER_ADMIN \<notin> perms \<and> s = api_key_subject) \<or>
         (gt_oauth g \<and> (\<exists>token claims. bearer_token header = Some token \<and> py_strip token \<noteq> [] \<and>
            validate token = Inr claims \<and> ACCESS \<in> perms \<and>
            perms = permissions_for_roles p (effective_roles p claims (decide token claims)) \<and>
            s = resolve (request_subject p claims (decide token claims))))"
proof (cases "gate_key g \<noteq> None \<and> header = ''Bearer '' @ the (gate_key g)")
  case True
  then obtain key where key: "gate_key g = Some key" "header = ''Bearer '' @ key" by auto
  then have "key \<noteq> []" by (auto simp: gate_key_def Let_def split: if_splits)
  moreover have "perms = permissions_for_api_key p" "s = api_key_subject"
    using served key by (auto simp: management_call_def)
  ultimately show ?thesis
    using key by (auto simp: permissions_for_api_key_def key_forbidden_def)
next
  case False
  with served have o: "gt_oauth g" and b: "bearer_token header \<noteq> None"
    by (auto simp: management_call_def split: if_splits)
  then obtain token where t: "bearer_token header = Some token" by blast
  from served False o t show ?thesis
    by (auto simp: management_call_def Let_def split: if_splits sum.splits)
qed

theorem management_fails_closed_witness:
  "\<exists>perms s. management_call \<lparr>gt_api_key = Some '' key '', gt_oauth = False\<rparr> (\<lambda>_. Inl []) (\<lambda>_ _. None)
               example_policy id ''Bearer key'' = Served perms s \<and> ADMIN \<notin> perms"
proof -
  let ?g = "\<lparr>gt_api_key = Some '' key '', gt_oauth = False\<rparr>"
  let ?d = "management_call ?g (\<lambda>_. Inl []) (\<lambda>_ _. None) example_policy id ''Bearer key''"
  have "case ?d of Served _ _ \<Rightarrow> True | _ \<Rightarrow> False" by code_simp
  then obtain perms s where d: "?d = Served perms s" by (auto split: answer.splits)
  with management_fails_closed [OF d] show ?thesis by auto
qed

end
