(* ===== verification/RunnerStore.thy ===== *)
theory RunnerStore
  imports Ownership
begin

text \<open>
  Runners and their enrollments: \<^verbatim>\<open>app/domain/models/runner.py\<close> and the in-memory backend of
  \<^verbatim>\<open>app/infrastructure/persistence/runner_backend.py\<close>, with the compare-and-set interface the
  enrollment service relies on.
\<close>

record agent_limit =
  al_until :: "time option"
  al_kind :: string
  al_message :: string
  al_updated :: "time option"

record runner =
  rn_id :: string
  rn_name :: string
  rn_hostname :: string
  rn_os :: string
  rn_arch :: string
  rn_tz :: "string option"
  rn_version :: string
  rn_agents :: "string list"
  rn_default_agent :: "string option"
  rn_visibility :: visibility
  rn_owner :: "string option"
  rn_owner_name :: "string option"
  rn_team :: "string option"
  rn_secret_hash :: string
  rn_approved_by :: "string option"
  rn_approved_by_name :: "string option"
  rn_created :: time
  rn_limits :: "agent_limit dict"

datatype estatus = Pending | Approved | Denied | Consumed

record enrollment =
  en_id :: string
  en_code_hash :: string
  en_poll_hash :: string
  en_status :: estatus
  en_hostname :: string
  en_os :: string
  en_arch :: string
  en_tz :: "string option"
  en_version :: string
  en_agents :: "string list"
  en_default_agent :: "string option"
  en_ip :: "string option"
  en_created :: time
  en_expires :: time
  en_runner :: "string option"
  en_decided_by :: "string option"
  en_decided_by_name :: "string option"

record runner_db =
  db_runners :: "runner dict"
  db_enrollments :: "enrollment dict"

section \<open>Runners\<close>

definition list_runners :: "runner_db \<Rightarrow> runner list" where
  "list_runners db = map snd (db_runners db)"

definition get_runner :: "runner_db \<Rightarrow> string \<Rightarrow> runner option" where
  "get_runner db i = map_of (db_runners db) i"

definition save_runner :: "runner \<Rightarrow> runner_db \<Rightarrow> runner_db" where
  "save_runner r db = db\<lparr>db_runners := AList.update (rn_id r) r (db_runners db)\<rparr>"

text \<open>\<^verbatim>\<open>model_copy(update=fields)\<close>: the fields are given as the change they make.\<close>

definition update_runner :: "string \<Rightarrow> (runner \<Rightarrow> runner) \<Rightarrow> runner_db \<Rightarrow> runner_db" where
  "update_runner i f db =
     (case get_runner db i of
        None \<Rightarrow> db
      | Some r \<Rightarrow> db\<lparr>db_runners := AList.update i (f r) (db_runners db)\<rparr>)"

definition delete_runner :: "string \<Rightarrow> runner_db \<Rightarrow> runner_db" where
  "delete_runner i db = db\<lparr>db_runners := AList.delete i (db_runners db)\<rparr>"

definition set_limit :: "string \<Rightarrow> string \<Rightarrow> agent_limit option \<Rightarrow> runner_db \<Rightarrow> runner_db" where
  "set_limit i agent lim db =
     update_runner i
       (\<lambda>r. r\<lparr>rn_limits := (case lim of None \<Rightarrow> AList.delete agent (rn_limits r)
                            | Some l \<Rightarrow> AList.update agent l (rn_limits r))\<rparr>) db"

section \<open>Enrollments\<close>

definition create_enrollment :: "enrollment \<Rightarrow> runner_db \<Rightarrow> runner_db" where
  "create_enrollment e db = db\<lparr>db_enrollments := AList.update (en_id e) e (db_enrollments db)\<rparr>"

definition get_enrollment :: "runner_db \<Rightarrow> string \<Rightarrow> enrollment option" where
  "get_enrollment db i = map_of (db_enrollments db) i"

definition find_pending_by_code :: "runner_db \<Rightarrow> string \<Rightarrow> time \<Rightarrow> enrollment option" where
  "find_pending_by_code db code_hash now =
     find (\<lambda>e. en_code_hash e = code_hash \<and> en_status e = Pending \<and> now < en_expires e)
       (map snd (db_enrollments db))"

definition transition_enrollment ::
    "string \<Rightarrow> estatus \<Rightarrow> (enrollment \<Rightarrow> enrollment) \<Rightarrow> runner_db \<Rightarrow> bool \<times> runner_db" where
  "transition_enrollment i from f db =
     (case get_enrollment db i of
        None \<Rightarrow> (False, db)
      | Some e \<Rightarrow>
          if en_status e \<noteq> from then (False, db)
          else (True, db\<lparr>db_enrollments := AList.update i (f e) (db_enrollments db)\<rparr>))"

definition delete_expired_enrollments :: "time \<Rightarrow> runner_db \<Rightarrow> runner_db" where
  "delete_expired_enrollments before db =
     db\<lparr>db_enrollments := filter (\<lambda>(k, e). \<not> en_expires e < before) (db_enrollments db)\<rparr>"

section \<open>Compare and set\<close>

text \<open>
  What the service assumes of \<^verbatim>\<open>transition_enrollment\<close>: it succeeds exactly in the expected state,
  and then puts the record where the change says; nothing else moves.
\<close>

locale status_store =
  fixes status :: "'s \<Rightarrow> string \<Rightarrow> estatus option"
    and cas :: "string \<Rightarrow> estatus \<Rightarrow> estatus \<Rightarrow> 's \<Rightarrow> bool \<times> 's"
  assumes cas_success: "fst (cas i from to s) \<longleftrightarrow> status s i = Some from"
    and cas_status: "status (snd (cas i from to s)) j =
          (if j = i \<and> status s i = Some from then Some to else status s j)"
begin

text \<open>
  The first of two racing claims of one transition wins and the second, however much later, loses
  as long as nobody puts the record back.
\<close>

lemma second_claim_fails:
  assumes "fst (cas i from to s)" and "status s' i = status (snd (cas i from to s)) i" and "to \<noteq> from"
  shows "\<not> fst (cas i from to' s')"
  using assms by (simp add: cas_success cas_status)

lemma claim_frame: "j \<noteq> i \<Longrightarrow> status (snd (cas i from to s)) j = status s j"
  by (simp add: cas_status)

lemma failed_claim_keeps: "\<not> fst (cas i from to s) \<Longrightarrow> status (snd (cas i from to s)) = status s"
  by (auto simp: fun_eq_iff cas_success cas_status)

end

definition enrollment_status :: "runner_db \<Rightarrow> string \<Rightarrow> estatus option" where
  "enrollment_status db i = map_option en_status (get_enrollment db i)"

definition claim_enrollment :: "string \<Rightarrow> estatus \<Rightarrow> estatus \<Rightarrow> runner_db \<Rightarrow> bool \<times> runner_db" where
  "claim_enrollment i from to = transition_enrollment i from (\<lambda>e. e\<lparr>en_status := to\<rparr>)"

lemma get_transition:
  "get_enrollment (snd (transition_enrollment i from f db)) j =
     (if j = i \<and> enrollment_status db i = Some from then map_option f (get_enrollment db i)
      else get_enrollment db j)"
  by (auto simp: transition_enrollment_def enrollment_status_def get_enrollment_def split: option.splits)

lemma fst_transition:
  "fst (transition_enrollment i from f db) \<longleftrightarrow> enrollment_status db i = Some from"
  by (auto simp: transition_enrollment_def enrollment_status_def split: option.splits)

lemma transition_runners [simp]:
  "db_runners (snd (transition_enrollment i from f db)) = db_runners db"
  "get_runner (snd (transition_enrollment i from f db)) = get_runner db"
  by (auto simp: transition_enrollment_def get_runner_def fun_eq_iff split: option.splits)

interpretation claims: status_store enrollment_status claim_enrollment
  by unfold_locales
     (auto simp: claim_enrollment_def fst_transition enrollment_status_def get_transition)

lemma get_save_runner [simp]:
  "get_runner (save_runner r db) i = (if i = rn_id r then Some r else get_runner db i)"
  "get_enrollment (save_runner r db) = get_enrollment db"
  by (simp_all add: get_runner_def save_runner_def get_enrollment_def fun_eq_iff)

lemma get_update_runner [simp]:
  "get_runner (update_runner i f db) j = (if j = i then map_option f (get_runner db i) else get_runner db j)"
  "get_enrollment (update_runner i f db) = get_enrollment db"
  by (auto simp: get_runner_def update_runner_def get_enrollment_def fun_eq_iff split: option.splits)

lemma get_create_enrollment [simp]:
  "get_enrollment (create_enrollment e db) i = (if i = en_id e then Some e else get_enrollment db i)"
  "get_runner (create_enrollment e db) = get_runner db"
  by (simp_all add: get_runner_def create_enrollment_def get_enrollment_def fun_eq_iff)

lemma map_of_filter_subset:
  "map_of (filter P xs) k = Some v \<Longrightarrow> distinct (map fst xs) \<Longrightarrow> map_of xs k = Some v"
  by (induction xs) (force split: if_splits dest: map_of_SomeD)+

end
