(* ===== verification/Limiter.thy ===== *)
theory Limiter
  imports Prelude
begin

text \<open>
  \<^verbatim>\<open>SlidingWindowLimiter\<close> of \<^verbatim>\<open>app/application/runners.py\<close>: at most \<open>lm_limit\<close> events per key in
  \<open>lm_window\<close>.  \<open>now\<close> is the monotonic clock.
\<close>

record limiter =
  lm_limit :: nat
  lm_window :: time
  lm_events :: "time list dict"

definition new_limiter :: "nat \<Rightarrow> time \<Rightarrow> limiter" where
  "new_limiter limit window = \<lparr>lm_limit = limit, lm_window = window, lm_events = []\<rparr>"

text \<open>The \<^verbatim>\<open>defaultdict\<close> lookup.\<close>

definition events :: "limiter \<Rightarrow> string \<Rightarrow> time list" where
  "events l key = (case map_of (lm_events l) key of None \<Rightarrow> [] | Some q \<Rightarrow> q)"

definition trim :: "limiter \<Rightarrow> string \<Rightarrow> time \<Rightarrow> limiter" where
  "trim l key now =
     l\<lparr>lm_events := AList.update key (dropWhile (\<lambda>t. t \<le> now - lm_window l) (events l key)) (lm_events l)\<rparr>"

definition blocked :: "limiter \<Rightarrow> string \<Rightarrow> time \<Rightarrow> bool \<times> limiter" where
  "blocked l key now = (let l = trim l key now in (lm_limit l \<le> length (events l key), l))"

definition hit :: "limiter \<Rightarrow> string \<Rightarrow> time \<Rightarrow> limiter" where
  "hit l key now =
     (let l = trim l key now
      in l\<lparr>lm_events := AList.update key (events l key @ [now]) (lm_events l)\<rparr>)"

text \<open>The guard every caller uses: refuse when blocked, count otherwise.\<close>

definition admit :: "limiter \<Rightarrow> string \<Rightarrow> time \<Rightarrow> bool \<times> limiter" where
  "admit l key now =
     (let (b, l) = blocked l key now in if b then (False, l) else (True, hit l key now))"

text \<open>The events admitted of a sequence of attempts, each by a key at a time.\<close>

fun admitted :: "limiter \<Rightarrow> (string \<times> time) list \<Rightarrow> (string \<times> time) list" where
  "admitted l [] = []"
| "admitted l ((key, now) # rest) =
     (let (ok, l) = admit l key now
      in if ok then (key, now) # admitted l rest else admitted l rest)"

section \<open>The bound\<close>

lemma trim_simps [simp]:
  "lm_limit (trim l k now) = lm_limit l" "lm_window (trim l k now) = lm_window l"
  "events (trim l k now) k' =
     (if k' = k then dropWhile (\<lambda>t. t \<le> now - lm_window l) (events l k) else events l k')"
  by (simp_all add: trim_def events_def)

lemma hit_simps [simp]:
  "lm_limit (hit l k now) = lm_limit l" "lm_window (hit l k now) = lm_window l"
  "events (hit l k now) k' =
     (if k' = k then dropWhile (\<lambda>t. t \<le> now - lm_window l) (events l k) @ [now] else events l k')"
  by (simp_all add: hit_def events_def Let_def trim_def)

lemma admit_cases:
  "admit l k now =
     (let q = dropWhile (\<lambda>t. t \<le> now - lm_window l) (events l k)
      in if lm_limit l \<le> length q then (False, trim l k now) else (True, hit (trim l k now) k now))"
  by (simp add: admit_def blocked_def Let_def)

lemma events_hit_trim [simp]:
  "events (hit (trim l k now) k now) k' =
     (if k' = k then dropWhile (\<lambda>t. t \<le> now - lm_window l) (events l k) @ [now] else events l k')"
  by (simp add: dropWhile_idem)

lemma sorted_dropWhile: "sorted q \<Longrightarrow> dropWhile (\<lambda>t. t \<le> (b :: int)) q = filter (\<lambda>t. b < t) q"
proof (induction q)
  case (Cons x q)
  show ?case
  proof (cases "x \<le> b")
    case False
    then have "filter (\<lambda>t. b < t) q = q" using Cons.prems by (auto simp: filter_id_conv)
    with False show ?thesis by simp
  qed (use Cons in simp)
qed simp

definition of_key :: "string \<Rightarrow> (string \<times> time) list \<Rightarrow> time list" where
  "of_key k h = map snd (filter (\<lambda>e. fst e = k) h)"

definition in_window :: "limiter \<Rightarrow> time \<Rightarrow> time list \<Rightarrow> nat" where
  "in_window l t ts = length (filter (\<lambda>x. t - lm_window l < x \<and> x \<le> t) ts)"

text \<open>
  What a queue holds of its key's admitted events at time \<open>now\<close>: everything still in the window.
\<close>

definition queue_ok :: "time \<Rightarrow> time list \<Rightarrow> time list \<Rightarrow> time \<Rightarrow> bool" where
  "queue_ok w q hs now =
     (sorted q \<and> (\<forall>x \<in> set q. x \<le> now) \<and> (\<forall>x \<in> set hs. x \<le> now) \<and>
      (\<forall>b \<ge> now - w. filter (\<lambda>t. b < t) q = filter (\<lambda>t. b < t) hs))"

lemma queue_ok_later: "queue_ok w q hs t0 \<Longrightarrow> t0 \<le> now \<Longrightarrow> queue_ok w q hs now"
  by (fastforce simp: queue_ok_def)

lemma queue_ok_drop:
  "queue_ok w q hs now \<Longrightarrow> dropWhile (\<lambda>t. t \<le> now - w) q = filter (\<lambda>t. now - w < t) hs"
  using sorted_dropWhile [of q] by (simp add: queue_ok_def)

lemma queue_ok_trim:
  assumes "queue_ok w q hs now"
  shows "queue_ok w (dropWhile (\<lambda>t. t \<le> now - w) q) hs now"
proof -
  have drop: "dropWhile (\<lambda>t. t \<le> now - w) q = filter (\<lambda>t. now - w < t) q"
    using assms by (simp add: queue_ok_def sorted_dropWhile)
  have "filter (\<lambda>t. b < t) (filter (\<lambda>t. now - w < t) q) = filter (\<lambda>t. b < t) q" if "b \<ge> now - w" for b
    unfolding filter_filter by (rule filter_cong) (use that in auto)
  moreover have "sorted (dropWhile (\<lambda>t. t \<le> now - w) q)"
    using assms sorted_wrt_drop by (simp add: queue_ok_def dropWhile_eq_drop)
  ultimately show ?thesis using assms unfolding queue_ok_def drop by auto
qed

lemma queue_ok_snoc: "queue_ok w q hs now \<Longrightarrow> queue_ok w (q @ [now]) (hs @ [now]) now"
  by (auto simp: queue_ok_def sorted_append)

definition tracks :: "limiter \<Rightarrow> (string \<times> time) list \<Rightarrow> time \<Rightarrow> bool" where
  "tracks l h now = (\<forall>k. queue_ok (lm_window l) (events l k) (of_key k h) now)"

lemma of_key_snoc: "of_key k (h @ [(k', t)]) = of_key k h @ (if k' = k then [t] else [])"
  by (simp add: of_key_def)

lemma tracks_queue: "tracks l h t0 \<Longrightarrow> t0 \<le> now \<Longrightarrow> queue_ok (lm_window l) (events l k) (of_key k h) now"
  by (rule queue_ok_later [of _ _ _ t0]) (simp_all add: tracks_def)

lemma tracks_trim: "tracks l h t0 \<Longrightarrow> t0 \<le> now \<Longrightarrow> tracks (trim l k now) h now"
  using tracks_queue queue_ok_trim by (simp add: tracks_def)

lemma tracks_hit:
  "tracks l h t0 \<Longrightarrow> t0 \<le> now \<Longrightarrow> tracks (hit (trim l k now) k now) (h @ [(k, now)]) now"
  using tracks_queue queue_ok_trim queue_ok_snoc
  by (simp add: tracks_def of_key_snoc dropWhile_idem)

lemma window_extend:
  assumes bound: "\<And>t. in_window l t (of_key k h) \<le> lm_limit l" and old: "\<And>x. x \<in> set (of_key k h) \<Longrightarrow> x \<le> now"
    and room: "length (filter (\<lambda>t. now - lm_window l < t) (of_key k h)) < lm_limit l"
  shows "in_window l t (of_key k h @ [now]) \<le> lm_limit l"
proof (cases "t < now")
  case True
  with bound show ?thesis by (simp add: in_window_def)
next
  case False
  have "filter (\<lambda>x. t - lm_window l < x \<and> x \<le> t) (of_key k h) =
      filter (\<lambda>x. t - lm_window l < x \<and> x \<le> t) (filter (\<lambda>x. now - lm_window l < x) (of_key k h))"
    unfolding filter_filter by (rule filter_cong) (use False in auto)
  then have "in_window l t (of_key k h) \<le> length (filter (\<lambda>x. now - lm_window l < x) (of_key k h))"
    unfolding in_window_def by (metis length_filter_le)
  with room have "in_window l t (of_key k h) < lm_limit l" by simp
  then show ?thesis by (simp add: in_window_def)
qed

lemma admitted_bound:
  assumes "tracks l h t0" and "sorted (t0 # map snd es)"
    and "\<And>k t. in_window l t (of_key k h) \<le> lm_limit l"
  shows "in_window l t (of_key k (h @ admitted l es)) \<le> lm_limit l"
  using assms
proof (induction l es arbitrary: h t0 rule: admitted.induct)
  case (1 l)
  then show ?case by simp
next
  case (2 l key now rest)
  have le: "t0 \<le> now" using 2(4) by simp
  have rest: "sorted (now # map snd rest)" using 2(4) by simp
  note q = queue_ok_drop [OF tracks_queue [OF 2(3) le, of key]]
  have old: "\<And>x. x \<in> set (of_key key h) \<Longrightarrow> x \<le> now"
    using tracks_queue [OF 2(3) le, of key] by (simp add: queue_ok_def)
  show ?case
  proof (cases "lm_limit l \<le> length (dropWhile (\<lambda>t. t \<le> now - lm_window l) (events l key))")
    case True
    then have a: "admit l key now = (False, trim l key now)" by (simp add: admit_cases)
    have "in_window (trim l key now) t (of_key k (h @ admitted (trim l key now) rest)) \<le>
        lm_limit (trim l key now)"
      by (rule 2(2) [OF refl a [symmetric] _ tracks_trim [OF 2(3) le] rest])
         (use 2(5) in \<open>simp_all add: in_window_def\<close>)
    with a show ?thesis by (simp add: in_window_def)
  next
    case False
    let ?l = "hit (trim l key now) key now"
    from False have a: "admit l key now = (True, ?l)" by (simp add: admit_cases)
    have ext0: "in_window l t (of_key key h @ [now]) \<le> lm_limit l" for t
      by (rule window_extend) (use 2(5) old False q in auto)
    have ext: "in_window l t (of_key k (h @ [(key, now)])) \<le> lm_limit l" for k t
      unfolding of_key_snoc using ext0 2(5) by auto
    have "in_window ?l t (of_key k ((h @ [(key, now)]) @ admitted ?l rest)) \<le> lm_limit ?l"
      by (rule 2(1) [OF refl a [symmetric] _ tracks_hit [OF 2(3) le] rest])
         (use ext in \<open>simp_all add: in_window_def\<close>)
    with a show ?thesis by (simp add: in_window_def)
  qed
qed

text \<open>
  C40: Whatever the attempts and the keys they come from, the limiter admits at most \<open>limit\<close> events
  of one key in any stretch of the window's length, as long as the clock does not run backwards.
\<close>

theorem limiter_bound:
  assumes "sorted (map snd es)"
  shows "length (filter (\<lambda>(k, x). k = key \<and> t - window < x \<and> x \<le> t)
                  (admitted (new_limiter limit window) es)) \<le> limit"
proof (cases es)
  case (Cons e rest)
  let ?l = "new_limiter limit window"
  have "tracks ?l [] (snd e)" by (simp add: tracks_def queue_ok_def new_limiter_def events_def of_key_def)
  from admitted_bound [OF this, of es t key] assms Cons
  have "in_window ?l t (of_key key (admitted ?l es)) \<le> limit"
    by (simp add: in_window_def of_key_def new_limiter_def)
  moreover have "in_window ?l t (of_key key xs) =
      length (filter (\<lambda>(k, x). k = key \<and> t - window < x \<and> x \<le> t) xs)" for xs
    by (induction xs) (auto simp: in_window_def of_key_def new_limiter_def)
  ultimately show ?thesis by simp
qed simp

theorem limiter_bound_witness:
  "length (filter (\<lambda>(k, x). k = ''a'' \<and> 12 - 10 < x \<and> x \<le> 12)
     (admitted (new_limiter 2 10) [(''a'', 1), (''a'', 3), (''a'', 4), (''b'', 5), (''a'', 12)])) \<le> 2"
  by (rule limiter_bound) simp

end
