(* ===== verification/Enrollment.thy ===== *)
theory Enrollment
  imports RunnerStore Limiter
begin

text \<open>
  Enrolling a machine by number matching: \<^verbatim>\<open>EnrollmentService\<close>, \<^verbatim>\<open>authenticate_runner\<close> and the
  input cleaning of \<^verbatim>\<open>app/application/runners.py\<close>.  The hash (SHA-256) is the parameter \<open>h\<close>;
  random codes, ids and secrets and the two clocks are arguments.  A call returns its result or
  error together with the service's new state, since a refused call still counts in a limiter.
\<close>

datatype enroll_error = Enroll_Error nat | Body_Error

record service =
  es_db :: runner_db
  es_creates :: limiter
  es_wrong :: limiter

definition new_service :: "runner_db \<Rightarrow> service" where
  "new_service db = \<lparr>es_db = db, es_creates = new_limiter 10 (seconds 600),
                     es_wrong = new_limiter 5 (seconds 600)\<rparr>"

section \<open>Input\<close>

definition code_digits :: nat where
  "code_digits = 6"

definition normalize_code :: "string \<Rightarrow> string option" where
  "normalize_code code =
     (let digits = filter (\<lambda>c. \<not> (is_space c \<or> c = CHR ''-'')) code
      in if length digits = code_digits \<and> list_all is_digit digits then Some digits else None)"

text \<open>\<^verbatim>\<open>AGENT_NAME_RE.match\<close>: the final \<open>$\<close> also matches before a trailing newline.\<close>

definition agent_chars :: "string \<Rightarrow> bool" where
  "agent_chars a =
     (1 \<le> length a \<and> length a \<le> 64 \<and> list_all (\<lambda>c. is_word c \<or> c = CHR ''-'') a)"

definition agent_name :: "string \<Rightarrow> bool" where
  "agent_name a = (agent_chars a \<or> a \<noteq> [] \<and> last a = CHR 0x0A \<and> agent_chars (butlast a))"

definition add_agent :: "json \<Rightarrow> string list \<Rightarrow> string list" where
  "add_agent v out =
     (case v of JStr a \<Rightarrow> if agent_name a \<and> a \<notin> set out then out @ [a] else out | _ \<Rightarrow> out)"

definition clean_agents :: "json \<Rightarrow> enroll_error + string list" where
  "clean_agents agents =
     (case jiter (jor agents (JList [])) of
        None \<Rightarrow> Inl Body_Error
      | Some items \<Rightarrow> Inr (take 32 (fold add_agent items [])))"

text \<open>\<^verbatim>\<open>str(body.get(k) or "")[:n]\<close>.\<close>

definition text_field :: "jobj \<Rightarrow> string \<Rightarrow> nat \<Rightarrow> string" where
  "text_field body k n = take n (py_str (jor (jget body k) (JStr [])))"

text \<open>A number below \<open>10 ^ code_digits\<close>, zero-padded.\<close>

definition code_of :: "nat \<Rightarrow> string" where
  "code_of n = (let d = nat_digits n in replicate (code_digits - length d) CHR ''0'' @ d)"

section \<open>Asking\<close>

definition build_enrollment ::
    "(string \<Rightarrow> string) \<Rightarrow> time \<Rightarrow> time \<Rightarrow> string \<Rightarrow> string \<Rightarrow> string \<Rightarrow> jobj \<Rightarrow> string option \<Rightarrow>
     string list \<Rightarrow> enrollment" where
  "build_enrollment h ttl now eid code poll_token body ip agents =
     \<lparr>en_id = eid, en_code_hash = h code, en_poll_hash = h poll_token, en_status = Pending,
      en_hostname = text_field body ''hostname'' 128, en_os = text_field body ''os'' 32,
      en_arch = text_field body ''arch'' 32,
      en_tz = (if jtrue (jget body ''tz'') then Some (take 64 (py_str (jget body ''tz''))) else None),
      en_version = text_field body ''version'' 32, en_agents = agents,
      en_default_agent =
        (case jget body ''default_agent'' of
           JStr d \<Rightarrow> if d \<in> set agents then Some d
                     else (case agents of [] \<Rightarrow> None | a # _ \<Rightarrow> Some a)
         | _ \<Rightarrow> (case agents of [] \<Rightarrow> None | a # _ \<Rightarrow> Some a)),
      en_ip = ip, en_created = now, en_expires = now + ttl, en_runner = None,
      en_decided_by = None, en_decided_by_name = None\<rparr>"

definition create_request ::
    "(string \<Rightarrow> string) \<Rightarrow> time \<Rightarrow> service \<Rightarrow> time \<Rightarrow> time \<Rightarrow> nat list \<Rightarrow> string \<Rightarrow> string \<Rightarrow> jobj \<Rightarrow>
     string option \<Rightarrow> (enroll_error + (enrollment \<times> string \<times> string)) \<times> service" where
  "create_request h ttl svc tick now draws eid poll_token body ip =
     (let key = (if truthy ip then the ip else ''?'');
          (full, l) = blocked (es_creates svc) key tick
      in if full then (Inl (Enroll_Error 429), svc\<lparr>es_creates := l\<rparr>)
         else
           let db = delete_expired_enrollments (now - days 1) (es_db svc);
               svc = svc\<lparr>es_creates := hit l key tick, es_db := db\<rparr>
           in case find (\<lambda>n. find_pending_by_code db (h (code_of n)) now = None) (take 20 draws) of
                None \<Rightarrow> (Inl (Enroll_Error 503), svc)
              | Some n \<Rightarrow>
                  (case clean_agents (jget body ''agents'') of
                     Inl e \<Rightarrow> (Inl e, svc)
                   | Inr agents \<Rightarrow>
                       let e = build_enrollment h ttl now eid (code_of n) poll_token body ip agents
                       in (Inr (e, code_of n, poll_token), svc\<lparr>es_db := create_enrollment e db\<rparr>)))"

section \<open>Deciding\<close>

definition lookup_request ::
    "(string \<Rightarrow> string) \<Rightarrow> service \<Rightarrow> time \<Rightarrow> time \<Rightarrow> string \<Rightarrow> string \<Rightarrow>
     (enroll_error + enrollment) \<times> service" where
  "lookup_request h svc tick now code user_key =
     (let (full, l) = blocked (es_wrong svc) user_key tick; svc = svc\<lparr>es_wrong := l\<rparr>
      in if full then (Inl (Enroll_Error 429), svc)
         else case Option.bind (normalize_code code) (\<lambda>c. find_pending_by_code (es_db svc) (h c) now) of
                None \<Rightarrow> (Inl (Enroll_Error 404), svc\<lparr>es_wrong := hit l user_key tick\<rparr>)
              | Some e \<Rightarrow> (Inr e, svc))"

definition pending_request ::
    "(string \<Rightarrow> string) \<Rightarrow> service \<Rightarrow> time \<Rightarrow> time \<Rightarrow> string \<Rightarrow> string \<Rightarrow> string \<Rightarrow>
     (enroll_error + enrollment) \<times> service" where
  "pending_request h svc tick now eid code user_key =
     (let miss = (Inl (Enroll_Error 404), svc\<lparr>es_wrong := hit (es_wrong svc) user_key tick\<rparr>)
      in case get_enrollment (es_db svc) eid of
           None \<Rightarrow> miss
         | Some e \<Rightarrow>
             if en_status e \<noteq> Pending \<or> en_expires e \<le> now then miss
             else case normalize_code code of
                    None \<Rightarrow> miss
                  | Some c \<Rightarrow> if en_code_hash e \<noteq> h c then miss else (Inr e, svc))"

definition approved_runner ::
    "enrollment \<Rightarrow> string \<Rightarrow> time \<Rightarrow> subject option \<Rightarrow> string option \<Rightarrow> visibility \<Rightarrow> string option \<Rightarrow>
     runner" where
  "approved_runner e rid now su name vis team =
     (let who = (case su of None \<Rightarrow> None | Some s \<Rightarrow> sid s);
          who_name = (case su of None \<Rightarrow> None | Some s \<Rightarrow> py_or (sname s) (semail s))
      in \<lparr>rn_id = rid,
          rn_name = take 80 (py_strip (if truthy name then the name
                                       else if en_hostname e \<noteq> [] then en_hostname e else ''runner'')),
          rn_hostname = en_hostname e, rn_os = en_os e, rn_arch = en_arch e, rn_tz = en_tz e,
          rn_version = en_version e, rn_agents = en_agents e, rn_default_agent = en_default_agent e,
          rn_visibility = vis, rn_owner = who, rn_owner_name = who_name,
          rn_team = (if vis = Team then team else None), rn_secret_hash = [],
          rn_approved_by = who, rn_approved_by_name = who_name, rn_created = now, rn_limits = []\<rparr>)"

definition mark_approved :: "runner \<Rightarrow> enrollment \<Rightarrow> enrollment" where
  "mark_approved r e =
     e\<lparr>en_status := Approved, en_runner := Some (rn_id r), en_decided_by := rn_approved_by r,
       en_decided_by_name := rn_approved_by_name r\<rparr>"

definition approve_request ::
    "(string \<Rightarrow> string) \<Rightarrow> service \<Rightarrow> time \<Rightarrow> time \<Rightarrow> string \<Rightarrow> string \<Rightarrow> string \<Rightarrow> string \<Rightarrow>
     subject option \<Rightarrow> string option \<Rightarrow> visibility \<Rightarrow> string option \<Rightarrow>
     (enroll_error + runner) \<times> service" where
  "approve_request h svc tick now rid eid code user_key su name vis team =
     (let (res, svc) = pending_request h svc tick now eid code user_key
      in case res of
           Inl err \<Rightarrow> (Inl err, svc)
         | Inr e \<Rightarrow>
             let r = approved_runner e rid now su name vis team;
                 (ok, db) = transition_enrollment eid Pending (mark_approved r) (es_db svc)
             in if \<not> ok then (Inl (Enroll_Error 409), svc\<lparr>es_db := db\<rparr>)
                else (Inr r, svc\<lparr>es_db := save_runner r db\<rparr>))"

definition deny_request ::
    "(string \<Rightarrow> string) \<Rightarrow> service \<Rightarrow> time \<Rightarrow> time \<Rightarrow> string \<Rightarrow> string \<Rightarrow> string \<Rightarrow> subject option \<Rightarrow>
     (enroll_error + unit) \<times> service" where
  "deny_request h svc tick now eid code user_key su =
     (let (res, svc) = pending_request h svc tick now eid code user_key
      in case res of
           Inl err \<Rightarrow> (Inl err, svc)
         | Inr e \<Rightarrow>
             (Inr (), svc\<lparr>es_db := snd (transition_enrollment eid Pending
                (\<lambda>e. e\<lparr>en_status := Denied,
                       en_decided_by := (case su of None \<Rightarrow> None | Some s \<Rightarrow> sid s)\<rparr>) (es_db svc))\<rparr>))"

section \<open>Polling\<close>

datatype poll_answer =
    Poll_Denied
  | Poll_Expired
  | Poll_Pending
  | Poll_Approved string string string

text \<open>
  What \<^verbatim>\<open>poll\<close> decides from the enrollment it read; \<open>None\<close>: go on and mint.
\<close>

definition poll_check ::
    "(string \<Rightarrow> string) \<Rightarrow> runner_db \<Rightarrow> time \<Rightarrow> string \<Rightarrow> string option \<Rightarrow>
     enroll_error + (poll_answer + enrollment)" where
  "poll_check h db now eid poll_token =
     (case get_enrollment db eid of
        None \<Rightarrow> Inl (Enroll_Error 404)
      | Some e \<Rightarrow>
          if \<not> truthy poll_token \<or> en_poll_hash e \<noteq> h (the poll_token) then Inl (Enroll_Error 404)
          else case en_status e of
                 Consumed \<Rightarrow> Inl (Enroll_Error 410)
               | Denied \<Rightarrow> Inr (Inl Poll_Denied)
               | Pending \<Rightarrow> Inr (Inl (if en_expires e \<le> now then Poll_Expired else Poll_Pending))
               | Approved \<Rightarrow> Inr (Inr e))"

definition poll_mint ::
    "(string \<Rightarrow> string) \<Rightarrow> runner_db \<Rightarrow> string \<Rightarrow> string \<Rightarrow> poll_answer \<times> runner_db" where
  "poll_mint h db rid secret =
     (case get_runner db rid of
        None \<Rightarrow> (Poll_Denied, db)
      | Some r \<Rightarrow>
          (Poll_Approved (rn_id r) (rn_name r) (rn_id r @ ''.'' @ secret),
           update_runner (rn_id r) (\<lambda>r. r\<lparr>rn_secret_hash := h secret\<rparr>) db))"

definition poll_request ::
    "(string \<Rightarrow> string) \<Rightarrow> runner_db \<Rightarrow> time \<Rightarrow> string \<Rightarrow> string \<Rightarrow> string option \<Rightarrow>
     (enroll_error + poll_answer) \<times> runner_db" where
  "poll_request h db now secret eid poll_token =
     (case poll_check h db now eid poll_token of
        Inl err \<Rightarrow> (Inl err, db)
      | Inr (Inl answer) \<Rightarrow> (Inr answer, db)
      | Inr (Inr e) \<Rightarrow>
          let (ok, db) = claim_enrollment eid Approved Consumed db
          in if \<not> ok then (Inl (Enroll_Error 410), db)
             else let (answer, db) = poll_mint h db (case en_runner e of None \<Rightarrow> [] | Some r \<Rightarrow> r) secret
                  in (Inr answer, db))"

section \<open>The credential\<close>

definition lower_starts :: "string \<Rightarrow> string \<Rightarrow> bool" where
  "lower_starts p s = starts_with p (py_lower s)"

definition bearer_value :: "string \<Rightarrow> string" where
  "bearer_value s = py_strip (drop 1 (dropWhile (\<lambda>c. c \<noteq> CHR '' '') s))"

definition authenticate_runner ::
    "(string \<Rightarrow> string) \<Rightarrow> runner_db \<Rightarrow> string option \<Rightarrow> runner option" where
  "authenticate_runner h db authorization =
     (if \<not> truthy authorization \<or> \<not> lower_starts ''bearer '' (the authorization) then None
      else
        let token = bearer_value (the authorization);
            rid = takeWhile (\<lambda>c. c \<noteq> CHR ''.'') token;
            secret = drop 1 (dropWhile (\<lambda>c. c \<noteq> CHR ''.'') token)
        in if rid = [] \<or> secret = [] then None
           else case get_runner db rid of
                  None \<Rightarrow> None
                | Some r \<Rightarrow>
                    if rn_secret_hash r = [] then None
                    else if rn_secret_hash r = h secret then Some r else None)"

definition active_limit :: "runner_db option \<Rightarrow> time \<Rightarrow> string \<Rightarrow> string \<Rightarrow> agent_limit option" where
  "active_limit db now rid agent =
     (case db of
        None \<Rightarrow> None
      | Some db \<Rightarrow>
          (case Option.bind (get_runner db rid) (\<lambda>r. map_of (rn_limits r) agent) of
             None \<Rightarrow> None
           | Some l \<Rightarrow>
               (case al_until l of
                  Some u \<Rightarrow> if now < u then Some l else None
                | None \<Rightarrow>
                    (case al_updated l of
                       None \<Rightarrow> None
                     | Some t \<Rightarrow> if now - minutes 30 < t then Some l else None))))"

text \<open>\<^verbatim>\<open>RunnerHub.set_limit\<close>.\<close>

definition hub_set_limit ::
    "runner_db option \<Rightarrow> string \<Rightarrow> string \<Rightarrow> agent_limit option \<Rightarrow> runner_db option" where
  "hub_set_limit db rid agent lim =
     (if \<not> agent_name agent then db else map_option (set_limit rid agent lim) db)"

section \<open>Interleavings\<close>

text \<open>
  The service's calls are not atomic: every \<^verbatim>\<open>await\<close> on the backend lets others run.  A state is
  the database, the enrollments some poll has claimed and not yet minted for, and those a
  credential was minted for; one step is one backend operation of any call in progress.
\<close>

type_synonym enroll_state = "runner_db \<times> string list \<times> string list"

inductive enroll_step :: "(string \<Rightarrow> string) \<Rightarrow> enroll_state \<Rightarrow> enroll_state \<Rightarrow> bool" for h where
  created: "get_enrollment db (en_id e) = None \<Longrightarrow> en_id e \<notin> set claimed \<union> set minted \<Longrightarrow>
    enroll_step h (db, claimed, minted) (create_enrollment e db, claimed, minted)"
| cleaned: "enroll_step h (db, claimed, minted) (delete_expired_enrollments t db, claimed, minted)"
| approved: "transition_enrollment i Pending (mark_approved r) db = (ok, db') \<Longrightarrow>
    enroll_step h (db, claimed, minted) (db', claimed, minted)"
| denied: "transition_enrollment i Pending
      (\<lambda>e. e\<lparr>en_status := Denied, en_decided_by := who\<rparr>) db = (ok, db') \<Longrightarrow>
    enroll_step h (db, claimed, minted) (db', claimed, minted)"
| saved: "enroll_step h (db, claimed, minted) (save_runner r db, claimed, minted)"
| updated: "enroll_step h (db, claimed, minted) (update_runner i f db, claimed, minted)"
| deleted: "enroll_step h (db, claimed, minted) (delete_runner i db, claimed, minted)"
| lost: "claim_enrollment i Approved Consumed db = (False, db') \<Longrightarrow>
    enroll_step h (db, claimed, minted) (db', claimed, minted)"
| won: "claim_enrollment i Approved Consumed db = (True, db') \<Longrightarrow>
    enroll_step h (db, claimed, minted) (db', i # claimed, minted)"
| minted: "i \<in> set claimed \<Longrightarrow> poll_mint h db rid secret = (answer, db') \<Longrightarrow>
    enroll_step h (db, claimed, minted)
      (db', removeAll i claimed, if answer = Poll_Denied then minted else i # minted)"

text \<open>A poll that hands out a credential is a claim won followed by a mint.\<close>

lemma poll_request_steps:
  assumes "poll_request h db now secret eid tok = (Inr (Poll_Approved rid name cred), db')"
    and "eid \<notin> set claimed"
  shows "\<exists>db1. enroll_step h (db, claimed, minted) (db1, eid # claimed, minted) \<and>
               enroll_step h (db1, eid # claimed, minted) (db', claimed, eid # minted)"
proof -
  from assms(1) obtain e where "poll_check h db now eid tok = Inr (Inr e)"
    by (auto simp: poll_request_def poll_check_def split: sum.splits option.splits if_splits estatus.splits)
  with assms(1) obtain db1 where won: "claim_enrollment eid Approved Consumed db = (True, db1)"
    and mint: "poll_mint h db1 (case en_runner e of None \<Rightarrow> [] | Some r \<Rightarrow> r) secret =
                 (Poll_Approved rid name cred, db')"
    by (auto simp: poll_request_def Let_def split: prod.splits if_splits)
  from enroll_step.minted [OF _ mint, of eid "eid # claimed" minted] assms(2)
    enroll_step.won [OF won, of h claimed minted]
  show ?thesis by auto
qed

definition spent :: "enroll_state \<Rightarrow> bool" where
  "spent = (\<lambda>(db, claimed, minted).
     distinct (claimed @ minted) \<and>
     (\<forall>i \<in> set claimed \<union> set minted. enrollment_status db i \<in> {None, Some Consumed}))"

lemma delete_runner_enrollments [simp]: "get_enrollment (delete_runner i db) = get_enrollment db"
  by (simp add: delete_runner_def get_enrollment_def fun_eq_iff)

lemma mint_enrollments: "poll_mint h db rid secret = (a, db') \<Longrightarrow> get_enrollment db' = get_enrollment db"
  by (auto simp: poll_mint_def split: option.splits)

lemma status_cleaned:
  "dict_ok (db_enrollments db) \<Longrightarrow>
   enrollment_status (delete_expired_enrollments t db) i \<in> {None, enrollment_status db i}"
proof -
  assume "dict_ok (db_enrollments db)"
  then have d: "distinct (map fst (db_enrollments db))" by (simp add: dict_ok_def)
  have "get_enrollment (delete_expired_enrollments t db) i = None \<or>
        get_enrollment (delete_expired_enrollments t db) i = get_enrollment db i"
    unfolding get_enrollment_def delete_expired_enrollments_def
    using map_of_filter_subset [OF _ d]
    by (cases "map_of (filter (\<lambda>(k, e). \<not> en_expires e < t) (db_enrollments db)) i") auto
  then show ?thesis by (auto simp: enrollment_status_def)
qed

lemma enroll_step_dict:
  "enroll_step h (db, c, m) (db', c', m') \<Longrightarrow> dict_ok (db_enrollments db) \<Longrightarrow> dict_ok (db_enrollments db')"
  by (erule enroll_step.cases)
     (auto simp: create_enrollment_def delete_expired_enrollments_def transition_enrollment_def
        save_runner_def update_runner_def delete_runner_def claim_enrollment_def poll_mint_def
        dict_ok_def distinct_map_filter distinct_update split: option.splits if_splits)

lemma transition_spent:
  assumes "fst (transition_enrollment i Pending f db) \<longrightarrow> en_status (f (the (get_enrollment db i))) \<noteq> Pending"
    and "enrollment_status db j \<in> {None, Some Consumed}"
  shows "enrollment_status (snd (transition_enrollment i Pending f db)) j \<in> {None, Some Consumed}"
  using assms(2) by (auto simp: enrollment_status_def get_transition)

lemma enroll_step_spent:
  assumes step: "enroll_step h (db, claimed, minted) (db', claimed', minted')"
    and ok: "spent (db, claimed, minted)" and d: "dict_ok (db_enrollments db)"
  shows "spent (db', claimed', minted')"
  using step
proof cases
  case (created e)
  then show ?thesis using ok by (auto simp: spent_def enrollment_status_def)
next
  case (cleaned t)
  then show ?thesis using ok status_cleaned [OF d, of t] by (fastforce simp: spent_def)
next
  case (approved i r ok')
  have "enrollment_status db' j \<in> {None, Some Consumed}"
    if "enrollment_status db j \<in> {None, Some Consumed}" for j
    using that approved(3) get_transition [of i Pending "mark_approved r" db j]
    by (auto simp: enrollment_status_def split: if_splits)
  with approved ok show ?thesis by (simp add: spent_def)
next
  case (denied i who ok')
  have "enrollment_status db' j \<in> {None, Some Consumed}"
    if "enrollment_status db j \<in> {None, Some Consumed}" for j
    using that denied(3) get_transition [of i Pending "\<lambda>e. e\<lparr>en_status := Denied, en_decided_by := who\<rparr>" db j]
    by (auto simp: enrollment_status_def split: if_splits)
  with denied ok show ?thesis by (simp add: spent_def)
next
  case (lost i)
  then have "enrollment_status db' = enrollment_status db"
    using claims.failed_claim_keeps [of i Approved Consumed db] by simp
  with lost ok show ?thesis by (simp add: spent_def)
next
  case (won i)
  then have "enrollment_status db i = Some Approved"
    using claims.cas_success [of i Approved Consumed db] by simp
  moreover have "enrollment_status db' j = (if j = i then Some Consumed else enrollment_status db j)" for j
    using won claims.cas_status [of i Approved Consumed db j] calculation by simp
  moreover have "i \<notin> set claimed \<union> set minted"
  proof
    assume "i \<in> set claimed \<union> set minted"
    with ok have "enrollment_status db i \<in> {None, Some Consumed}" unfolding spent_def by blast
    with calculation(1) show False by simp
  qed
  ultimately show ?thesis using won ok by (auto simp: spent_def)
next
  case (minted i rid secret answer)
  have "enrollment_status db' = enrollment_status db"
    using mint_enrollments [OF minted(4)] by (simp add: enrollment_status_def fun_eq_iff)
  note same = this
  have dist: "distinct (claimed' @ minted')"
    and sub: "set claimed' \<union> set minted' \<subseteq> set claimed \<union> set minted"
    using minted ok by (auto simp: spent_def distinct_removeAll)
  have all: "\<forall>j \<in> set claimed \<union> set minted. enrollment_status db j \<in> {None, Some Consumed}"
    using ok unfolding spent_def by blast
  show ?thesis
    unfolding spent_def prod.case
  proof (intro conjI ballI)
    fix j assume "j \<in> set claimed' \<union> set minted'"
    with sub have "j \<in> set claimed \<union> set minted" by blast
    with all show "enrollment_status db' j \<in> {None, Some Consumed}" unfolding same by blast
  qed (rule dist)
qed (use ok in \<open>auto simp: spent_def enrollment_status_def\<close>)

section \<open>Properties\<close>

text \<open>
  C7: However the calls of any number of machines and approvers interleave, at most one credential
  is ever minted for an enrollment: two polls that both saw it approved cannot both win.
\<close>

theorem credential_minted_once:
  assumes "(enroll_step h)\<^sup>*\<^sup>* (db0, [], []) (db, claimed, minted)" and "dict_ok (db_enrollments db0)"
  shows "distinct minted"
proof -
  have "spent s \<and> dict_ok (db_enrollments (fst s))"
    if "(enroll_step h)\<^sup>*\<^sup>* (db0, [], []) s" for s
    using that
  proof (induction rule: rtranclp_induct)
    case base
    then show ?case using assms(2) by (simp add: spent_def)
  next
    case (step y z)
    obtain db1 c1 m1 db2 c2 m2 where "y = (db1, c1, m1)" "z = (db2, c2, m2)"
      by (cases y, cases z) auto
    with step(2,3) show ?case
      using enroll_step_spent [of h db1 c1 m1 db2 c2 m2] enroll_step_dict [of h db1 c1 m1 db2 c2 m2]
      by simp
  qed
  from this [OF assms(1)] show ?thesis by (simp add: spent_def)
qed

definition example_enrollment :: enrollment where
  "example_enrollment = build_enrollment rev (seconds 600) 0 ''e1'' ''123456'' ''poll''
     [(''hostname'', JStr ''box'')] None [''claude'']"

definition example_runner :: runner where
  "example_runner = approved_runner example_enrollment ''rnr-1'' 0
     (Some (example_user ''ann'' None)) None Private None"

definition approved_db :: runner_db where
  "approved_db = \<lparr>db_runners = [(''rnr-1'', example_runner)],
     db_enrollments = [(''e1'', mark_approved example_runner example_enrollment)]\<rparr>"

theorem credential_minted_once_witness:
  "\<exists>rid name cred db'. poll_request rev approved_db 0 ''s3cret'' ''e1'' (Some ''poll'') =
     (Inr (Poll_Approved rid name cred), db') \<and> distinct [''e1'']"
proof -
  let ?p = "poll_request rev approved_db 0 ''s3cret'' ''e1'' (Some ''poll'')"
  have "case ?p of (Inr (Poll_Approved _ _ _), _) \<Rightarrow> True | _ \<Rightarrow> False" by code_simp
  then obtain rid name cred db' where p: "?p = (Inr (Poll_Approved rid name cred), db')"
    by (auto split: prod.splits sum.splits poll_answer.splits)
  obtain db1 where "enroll_step rev (approved_db, [], []) (db1, [''e1''], [])"
    "enroll_step rev (db1, [''e1''], []) (db', [], [''e1''])"
    using poll_request_steps [OF p, of "[]" "[]"] by auto
  then have "(enroll_step rev)\<^sup>*\<^sup>* (approved_db, [], []) (db', [], [''e1''])" by force
  moreover have "dict_ok (db_enrollments approved_db)" by (simp add: approved_db_def dict_ok_def)
  ultimately have "distinct [''e1'']" by (rule credential_minted_once)
  with p show ?thesis by blast
qed

lemma takeWhile_neq_append: "x \<notin> set r \<Longrightarrow> takeWhile (\<lambda>c. c \<noteq> x) (r @ x # s) = r"
  by (induction r) auto

lemma py_strip_no_space:
  assumes "t \<noteq> []" and "\<not> is_space (hd t)" and "\<not> is_space (last t)"
  shows "py_strip t = t"
proof -
  have "dropWhile is_space t = t" using assms(1,2) by (cases t) auto
  moreover have "dropWhile is_space (rev t) = rev t"
    using assms(1,3) by (cases "rev t") (auto simp: last_rev rev_swap hd_rev [symmetric])
  ultimately show ?thesis by (simp add: py_strip_def)
qed

lemma bearer_header: "py_strip t = t \<Longrightarrow> bearer_value (''Bearer '' @ t) = t"
  by (simp add: bearer_value_def)

lemma lower_starts_bearer: "lower_starts ''bearer '' (''Bearer '' @ t)"
proof -
  have "py_lower ''Bearer '' = ''bearer ''" by code_simp
  then show ?thesis by (simp add: lower_starts_def starts_with_def)
qed

text \<open>
  The credential a poll hands out is the one that authenticates: sent back as a bearer token
  it identifies the approved runner, and a bearer token for that runner is accepted only if its
  secret has the same hash.
\<close>

theorem minted_credential_authenticates:
  assumes poll: "poll_request h db now secret eid tok = (Inr (Poll_Approved rid name cred), db')"
    and keyed: "\<And>i r. get_runner db i = Some r \<Longrightarrow> rn_id r = i"
    and rid: "rid \<noteq> []" "CHR ''.'' \<notin> set rid" "\<not> is_space (hd rid)"
    and secret: "secret \<noteq> []" "\<not> is_space (last secret)" "h secret \<noteq> []"
  shows "\<exists>r. authenticate_runner h db' (Some (''Bearer '' @ cred)) = Some r \<and> rn_id r = rid \<and>
           (\<forall>other. py_strip (rid @ ''.'' @ other) = rid @ ''.'' @ other \<longrightarrow>
              authenticate_runner h db' (Some (''Bearer '' @ rid @ ''.'' @ other)) \<noteq> None \<longrightarrow>
              h other = h secret)"
proof -
  from poll obtain e where "poll_check h db now eid tok = Inr (Inr e)"
    by (auto simp: poll_request_def poll_check_def split: sum.splits option.splits if_splits estatus.splits)
  with poll obtain db1 i where claim: "claim_enrollment eid Approved Consumed db = (True, db1)"
    and mint: "poll_mint h db1 i secret = (Poll_Approved rid name cred, db')"
    by (auto simp: poll_request_def Let_def split: prod.splits if_splits)
  have same: "get_runner db1 = get_runner db"
    using claim transition_runners(2) [of eid Approved _ db]
    by (metis claim_enrollment_def snd_conv)
  from mint obtain r where r: "get_runner db1 i = Some r" "rid = rn_id r"
    and cred: "cred = rid @ ''.'' @ secret"
    and db': "db' = update_runner rid (\<lambda>r. r\<lparr>rn_secret_hash := h secret\<rparr>) db1"
    by (auto simp: poll_mint_def split: option.splits)
  have "rn_id r = i" using keyed r(1) same by metis
  with r have got: "get_runner db' rid = Some (r\<lparr>rn_secret_hash := h secret\<rparr>)"
    by (simp add: db')
  have split: "takeWhile (\<lambda>c. c \<noteq> CHR ''.'') (rid @ ''.'' @ x) = rid"
    "drop 1 (dropWhile (\<lambda>c. c \<noteq> CHR ''.'') (rid @ ''.'' @ x)) = x" for x
    using takeWhile_neq_append [OF rid(2)] dropWhile_neq_append [OF rid(2)] by simp_all
  have auth: "authenticate_runner h db' (Some (''Bearer '' @ rid @ ''.'' @ x)) =
      (if x = [] then None else if h secret = [] then None
       else if h secret = h x then Some (r\<lparr>rn_secret_hash := h secret\<rparr>) else None)"
    if "py_strip (rid @ ''.'' @ x) = rid @ ''.'' @ x" for x
    unfolding authenticate_runner_def Let_def option.sel bearer_header [OF that] split
    using lower_starts_bearer rid(1) got by simp
  have "py_strip cred = cred"
    unfolding cred by (rule py_strip_no_space) (use rid secret in auto)
  then have "authenticate_runner h db' (Some (''Bearer '' @ cred)) = Some (r\<lparr>rn_secret_hash := h secret\<rparr>)"
    using auth [of secret] secret unfolding cred by simp
  moreover have "h other = h secret"
    if "py_strip (rid @ ''.'' @ other) = rid @ ''.'' @ other"
      "authenticate_runner h db' (Some (''Bearer '' @ rid @ ''.'' @ other)) \<noteq> None" for other
    using that(2) unfolding auth [OF that(1)] by (simp split: if_splits)
  ultimately show ?thesis using r by auto
qed

lemma approved_db_keyed: "get_runner approved_db i = Some r \<Longrightarrow> rn_id r = i"
  by (auto simp: get_runner_def approved_db_def example_runner_def approved_runner_def Let_def
      split: if_splits)

theorem minted_credential_authenticates_witness:
  "\<exists>rid name cred db' r. poll_request rev approved_db 0 ''s3cret'' ''e1'' (Some ''poll'') =
     (Inr (Poll_Approved rid name cred), db') \<and>
     authenticate_runner rev db' (Some (''Bearer '' @ cred)) = Some r"
proof -
  let ?p = "poll_request rev approved_db 0 ''s3cret'' ''e1'' (Some ''poll'')"
  have "case ?p of (Inr (Poll_Approved rid _ _), _) \<Rightarrow> rid = ''rnr-1'' | _ \<Rightarrow> False" by code_simp
  then obtain name cred db' where p: "?p = (Inr (Poll_Approved ''rnr-1'' name cred), db')"
    by (auto split: prod.splits sum.splits poll_answer.splits)
  have "\<not> is_space (hd ''rnr-1'')" "\<not> is_space (last ''s3cret'')" by code_simp+
  with minted_credential_authenticates [OF p approved_db_keyed] p show ?thesis by auto
qed

text \<open>
  Approving takes the number: it succeeds only for a pending, unexpired enrollment whose code
  hash the typed code has, and then the runner is the approver's, carries the machine's details and
  no credential yet, is shared with a team only if that was asked for, and the enrollment is
  approved for this runner; any other outcome leaves the database as it was.
\<close>

theorem approve_takes_the_code:
  assumes call: "approve_request h svc tick now rid eid code user_key su name vis team = (res, svc')"
  shows "case res of
           Inl err \<Rightarrow> es_db svc' = es_db svc
         | Inr r \<Rightarrow> \<exists>e c. get_enrollment (es_db svc) eid = Some e \<and> en_status e = Pending \<and>
             now < en_expires e \<and> normalize_code code = Some c \<and> en_code_hash e = h c \<and>
             rn_owner r = Option.bind su sid \<and> rn_hostname r = en_hostname e \<and>
             rn_agents r = en_agents e \<and> rn_secret_hash r = [] \<and> rn_visibility r = vis \<and>
             (rn_team r \<noteq> None \<longrightarrow> vis = Team) \<and>
             get_runner (es_db svc') rid = Some r \<and>
             get_enrollment (es_db svc') eid = Some (mark_approved r e)"
proof (cases "pending_request h svc tick now eid code user_key")
  case (Pair res0 svc0)
  show ?thesis
  proof (cases res0)
    case (Inl err)
    with Pair have "es_db svc0 = es_db svc"
      by (auto simp: pending_request_def Let_def split: option.splits if_splits)
    with call Pair Inl show ?thesis by (auto simp: approve_request_def)
  next
    case (Inr e)
    with Pair obtain c where e: "get_enrollment (es_db svc) eid = Some e" "en_status e = Pending"
      "now < en_expires e" "normalize_code code = Some c" "en_code_hash e = h c" and svc0: "svc0 = svc"
      by (auto simp: pending_request_def Let_def split: option.splits if_splits)
    let ?r = "approved_runner e rid now su name vis team"
    have st: "enrollment_status (es_db svc) eid = Some Pending" using e by (simp add: enrollment_status_def)
    let ?t = "transition_enrollment eid Pending (mark_approved ?r) (es_db svc)"
    have t: "?t = (True, snd ?t)" using fst_transition [of eid Pending "mark_approved ?r" "es_db svc"] st
      by (cases ?t) simp
    have "res = Inr ?r" and svc': "es_db svc' = save_runner ?r (snd ?t)"
      using call Pair Inr svc0 t by (auto simp: approve_request_def Let_def split: prod.splits)
    moreover have "rn_id ?r = rid" by (simp add: approved_runner_def Let_def)
    ultimately show ?thesis
      using e st by (auto simp: svc' get_transition approved_runner_def Let_def split: option.splits)
  qed
qed

theorem approve_takes_the_code_witness:
  "\<exists>r svc'. approve_request rev
       (new_service \<lparr>db_runners = [], db_enrollments = [(''e1'', example_enrollment)]\<rparr>) 0 0 ''rnr-1'' ''e1''
       ''123-456'' ''user:ann'' (Some (example_user ''ann'' None)) None Private None = (Inr r, svc') \<and>
     rn_owner r = Some ''ann''"
proof -
  let ?a = "approve_request rev
       (new_service \<lparr>db_runners = [], db_enrollments = [(''e1'', example_enrollment)]\<rparr>) 0 0 ''rnr-1'' ''e1''
       ''123-456'' ''user:ann'' (Some (example_user ''ann'' None)) None Private None"
  have "case ?a of (Inr _, _) \<Rightarrow> True | _ \<Rightarrow> False" by code_simp
  then obtain r svc' where a: "?a = (Inr r, svc')" by (auto split: prod.splits sum.splits)
  have "Option.bind (Some (example_user ''ann'' None)) sid = Some ''ann''"
    by (simp add: example_user_def)
  with approve_takes_the_code [OF a] a show ?thesis by auto
qed

end
