(* ===== verification/Hub.thy ===== *)
theory Hub
  imports Json
begin

text \<open>
  The live sockets of runners: \<^verbatim>\<open>RunnerSession\<close> and \<^verbatim>\<open>RunnerHub\<close> of
  \<^verbatim>\<open>app/application/runners.py\<close>.  Sessions and futures are objects the code compares
  and shares by identity, so they live in stores under numbers.  A coroutine is cut where it awaits:
  each definition is what runs between two awaits, and a history interleaves them freely.
\<close>

text \<open>What a request ends with: a result, an error, a lost connection, or nobody waiting any more.\<close>

datatype answer = Result json | Raised string | Disconnected string | Given_Up

record rsession =
  rs_runner :: string
  rs_pending :: "nat dict"
  rs_next :: nat
  rs_closed :: bool

text \<open>
  \<^verbatim>\<open>hb_futures f = Some None\<close>: a future without an answer.  \<open>hb_data\<close>: the data
  sockets being opened, by runner and connection; \<open>hb_sockets\<close> what was offered for them.
  \<open>hb_online\<close>: the runners whose event is set.  \<open>hb_closes\<close>: the close codes sent.
\<close>

record hub =
  hb_store :: "nat \<Rightarrow> rsession option"
  hb_futures :: "nat \<Rightarrow> answer option option"
  hb_sessions :: "nat dict"
  hb_online :: "string list"
  hb_data :: "((string \<times> string) \<times> nat) list"
  hb_sockets :: "nat \<Rightarrow> nat option option"
  hb_closes :: "(nat \<times> nat) list"

definition empty_hub :: hub where
  "empty_hub = \<lparr>hb_store = (\<lambda>_. None), hb_futures = (\<lambda>_. None), hb_sessions = [], hb_online = [],
     hb_data = [], hb_sockets = (\<lambda>_. None), hb_closes = []\<rparr>"

definition close_superseded :: nat where "close_superseded = 4000"
definition close_revoked :: nat where "close_revoked = 4403"

section \<open>A session\<close>

text \<open>\<^verbatim>\<open>RunnerSession(runner_id, ws)\<close>, a new object.\<close>

definition new_session :: "string \<Rightarrow> nat \<Rightarrow> hub \<Rightarrow> hub" where
  "new_session runner r h =
     h\<lparr>hb_store := (hb_store h)(r \<mapsto> \<lparr>rs_runner = runner, rs_pending = [], rs_next = 1, rs_closed = False\<rparr>)\<rparr>"

text \<open>\<^verbatim>\<open>if not fut.done(): fut.set_...\<close>\<close>

definition settle :: "answer \<Rightarrow> nat \<Rightarrow> (nat \<Rightarrow> answer option option) \<Rightarrow> nat \<Rightarrow> answer option option" where
  "settle a f futures = (if futures f = Some None then futures(f \<mapsto> Some a) else futures)"

text \<open>\<^verbatim>\<open>request\<close> until it awaits: the id to wait for, or \<^verbatim>\<open>RunnerOffline\<close>.\<close>

definition send_request :: "nat \<Rightarrow> nat \<Rightarrow> hub \<Rightarrow> (string + string) \<times> hub" where
  "send_request f r h =
     (case hb_store h r of
        None \<Rightarrow> (Inl [], h)
      | Some s \<Rightarrow>
          if rs_closed s then (Inl (''runner '' @ rs_runner s @ '' is offline''), h)
          else
            let rid = CHR ''c'' # nat_digits (rs_next s)
            in (Inr rid,
                h\<lparr>hb_store := (hb_store h)(r \<mapsto> s\<lparr>rs_next := rs_next s + 1,
                      rs_pending := AList.update rid f (rs_pending s)\<rparr>),
                  hb_futures := (hb_futures h)(f \<mapsto> None)\<rparr>))"

text \<open>
  The \<^verbatim>\<open>finally\<close> of \<^verbatim>\<open>request\<close>: answered, timed out or cancelled, the
  entry goes, and nobody waits for the future any more.
\<close>

definition request_done :: "string \<Rightarrow> nat \<Rightarrow> hub \<Rightarrow> hub" where
  "request_done rid r h =
     (case hb_store h r of
        None \<Rightarrow> h
      | Some s \<Rightarrow>
          h\<lparr>hb_store := (hb_store h)(r \<mapsto> s\<lparr>rs_pending := AList.delete rid (rs_pending s)\<rparr>),
            hb_futures := (case map_of (rs_pending s) rid of
               None \<Rightarrow> hb_futures h | Some f \<Rightarrow> settle Given_Up f (hb_futures h))\<rparr>)"

text \<open>\<^verbatim>\<open>str((msg["error"] or {}).get("message", "error"))\<close> of an object.\<close>

definition error_text :: "json \<Rightarrow> string" where
  "error_text e =
     (case e of JObj d \<Rightarrow> (case map_of d ''message'' of None \<Rightarrow> ''error'' | Some m \<Rightarrow> py_str m)
      | _ \<Rightarrow> [])"

text \<open>The answer to a request; an error that is not an object raises and settles nothing.\<close>

definition resolve_msg :: "jobj \<Rightarrow> nat \<Rightarrow> hub \<Rightarrow> hub" where
  "resolve_msg msg r h =
     (case hb_store h r of
        None \<Rightarrow> h
      | Some s \<Rightarrow>
          (case map_of (rs_pending s) (py_str (jget msg ''id'')) of
             None \<Rightarrow> h
           | Some f \<Rightarrow>
               if jtrue (jget msg ''error'') then
                 (if is_obj (jget msg ''error'')
                  then h\<lparr>hb_futures := settle (Raised (error_text (jget msg ''error''))) f (hb_futures h)\<rparr>
                  else h)
               else h\<lparr>hb_futures := settle (Result (jget msg ''result'')) f (hb_futures h)\<rparr>))"

definition fail_all :: "nat \<Rightarrow> hub \<Rightarrow> hub" where
  "fail_all r h =
     (case hb_store h r of
        None \<Rightarrow> h
      | Some s \<Rightarrow>
          h\<lparr>hb_store := (hb_store h)(r \<mapsto> s\<lparr>rs_closed := True, rs_pending := []\<rparr>),
            hb_futures := fold (settle (Disconnected (''runner '' @ rs_runner s @ '' disconnected'')))
              (map snd (rs_pending s)) (hb_futures h)\<rparr>)"

section \<open>The hub\<close>

definition is_online :: "hub \<Rightarrow> string \<Rightarrow> bool" where
  "is_online h runner =
     (case map_of (hb_sessions h) runner of
        None \<Rightarrow> False
      | Some r \<Rightarrow> (case hb_store h r of None \<Rightarrow> False | Some s \<Rightarrow> \<not> rs_closed s))"

text \<open>\<^verbatim>\<open>attach\<close> up to the close of the superseded socket, and after it.\<close>

definition attach :: "nat \<Rightarrow> hub \<Rightarrow> hub" where
  "attach r h =
     (case hb_store h r of
        None \<Rightarrow> h
      | Some s \<Rightarrow>
          let old = map_of (hb_sessions h) (rs_runner s);
              h = h\<lparr>hb_sessions := AList.update (rs_runner s) r (hb_sessions h)\<rparr>
          in (case old of
                None \<Rightarrow> h
              | Some o' \<Rightarrow>
                  if o' = r then h
                  else (fail_all o' h)\<lparr>hb_closes := (o', close_superseded) # hb_closes h\<rparr>))"

definition attached :: "nat \<Rightarrow> hub \<Rightarrow> hub" where
  "attached r h =
     (case hb_store h r of
        None \<Rightarrow> h
      | Some s \<Rightarrow> h\<lparr>hb_online := List.insert (rs_runner s) (hb_online h)\<rparr>)"

definition detach :: "nat \<Rightarrow> hub \<Rightarrow> hub" where
  "detach r h =
     (case hb_store h r of
        None \<Rightarrow> h
      | Some s \<Rightarrow>
          let h = fail_all r h
          in if map_of (hb_sessions h) (rs_runner s) = Some r
             then h\<lparr>hb_sessions := AList.delete (rs_runner s) (hb_sessions h),
                    hb_online := removeAll (rs_runner s) (hb_online h)\<rparr>
             else h)"

definition drop_runner :: "string \<Rightarrow> hub \<Rightarrow> hub" where
  "drop_runner runner h =
     (let found = map_of (hb_sessions h) runner;
          h = h\<lparr>hb_sessions := AList.delete runner (hb_sessions h),
                hb_online := removeAll runner (hb_online h)\<rparr>
      in case found of
           None \<Rightarrow> h
         | Some r \<Rightarrow> (fail_all r h)\<lparr>hb_closes := (r, close_revoked) # hb_closes h\<rparr>)"

section \<open>Data sockets\<close>

text \<open>\<^verbatim>\<open>open_socket\<close> once the runner is online: the future registered, and taken back.\<close>

definition expect_socket :: "string \<Rightarrow> string \<Rightarrow> nat \<Rightarrow> hub \<Rightarrow> hub" where
  "expect_socket runner cid f h =
     h\<lparr>hb_data := AList.update (runner, cid) f (hb_data h), hb_sockets := (hb_sockets h)(f \<mapsto> None)\<rparr>"

definition socket_done :: "string \<Rightarrow> string \<Rightarrow> hub \<Rightarrow> hub" where
  "socket_done runner cid h = h\<lparr>hb_data := AList.delete (runner, cid) (hb_data h)\<rparr>"

definition offer_data_socket :: "string \<Rightarrow> string \<Rightarrow> nat \<Rightarrow> hub \<Rightarrow> bool \<times> hub" where
  "offer_data_socket runner cid sock h =
     (case map_of (hb_data h) (runner, cid) of
        None \<Rightarrow> (False, h)
      | Some f \<Rightarrow>
          if hb_sockets h f \<noteq> Some None then (False, h)
          else (True, h\<lparr>hb_sockets := (hb_sockets h)(f \<mapsto> Some sock)\<rparr>))"

section \<open>Histories\<close>

text \<open>
  The steps coroutines take, in any order.  A session and a future are new objects; a session is
  attached when it is new.
\<close>

inductive hub_step :: "hub \<Rightarrow> hub \<Rightarrow> bool" where
  connected: "hb_store h r = None \<Longrightarrow> hub_step h (attach r (new_session runner r h))"
| set_event: "hub_step h (attached r h)"
| detached: "hub_step h (detach r h)"
| dropped: "hub_step h (drop_runner runner h)"
| requested: "hb_futures h f = None \<Longrightarrow> send_request f r h = (res, h') \<Longrightarrow> hub_step h h'"
| finished: "hub_step h (request_done rid r h)"
| answered: "hub_step h (resolve_msg msg r h)"
| expected: "hb_sockets h f = None \<Longrightarrow> hub_step h (expect_socket runner cid f h)"
| taken_back: "hub_step h (socket_done runner cid h)"
| offered: "offer_data_socket runner cid sock h = (ok, h') \<Longrightarrow> hub_step h h'"

inductive hub_run :: "hub \<Rightarrow> bool" where
  start: "hub_run empty_hub"
| step: "hub_run h \<Longrightarrow> hub_step h h' \<Longrightarrow> hub_run h'"

lemma nat_digits_low: "n < 10 \<Longrightarrow> nat_digits n = [char_of (48 + n)]"
  and nat_digits_high: "\<not> n < 10 \<Longrightarrow> nat_digits n = nat_digits (n div 10) @ [char_of (48 + n mod 10)]"
  by (subst nat_digits.simps, simp)+

definition digits_value :: "string \<Rightarrow> nat" where
  "digits_value ds = foldl (\<lambda>acc c. acc * 10 + (of_char c - 48)) 0 ds"

lemma digits_value_snoc: "digits_value (ds @ [c]) = digits_value ds * 10 + (of_char c - 48)"
  by (simp add: digits_value_def)

lemma digits_value_nat_digits: "digits_value (nat_digits k) = k"
proof (induction k rule: less_induct)
  case (less k)
  show ?case
  proof (cases "10 \<le> k")
    case True
    with less.IH [of "k div 10"] show ?thesis
      by (simp add: nat_digits_high digits_value_snoc)
  qed (simp add: nat_digits_low digits_value_def)
qed

lemma nat_digits_inj: "nat_digits m = nat_digits n \<longleftrightarrow> m = n"
  using digits_value_nat_digits by metis

text \<open>
  Registered sessions are open and registered under their runner; a closed session waits for
  nothing; request ids are the ones counted out; a future belongs to one request; and every
  future without an answer is one a session still waits for.
\<close>

definition session_ok :: "hub \<Rightarrow> nat \<Rightarrow> rsession \<Rightarrow> bool" where
  "session_ok h r s =
     ((rs_closed s \<longrightarrow> rs_pending s = []) \<and> dict_ok (rs_pending s) \<and>
      (\<forall>(rid, f) \<in> set (rs_pending s). (\<exists>k < rs_next s. rid = CHR ''c'' # nat_digits k) \<and> hb_futures h f \<noteq> None))"

definition waits_for :: "hub \<Rightarrow> nat \<Rightarrow> nat \<Rightarrow> bool" where
  "waits_for h r f = (\<exists>s. hb_store h r = Some s \<and> f \<in> snd ` set (rs_pending s))"

definition registered_ok :: "hub \<Rightarrow> bool" where
  "registered_ok h =
     (dict_ok (hb_sessions h) \<and>
      (\<forall>k r. map_of (hb_sessions h) k = Some r \<longrightarrow>
         (\<exists>s. hb_store h r = Some s \<and> rs_runner s = k \<and> \<not> rs_closed s)))"

definition futures_ok :: "hub \<Rightarrow> bool" where
  "futures_ok h =
     ((\<forall>r s. hb_store h r = Some s \<longrightarrow> session_ok h r s) \<and>
      (\<forall>r r' f. waits_for h r f \<longrightarrow> waits_for h r' f \<longrightarrow> r = r') \<and>
      (\<forall>f. hb_futures h f = Some None \<longrightarrow> (\<exists>r. waits_for h r f)))"

lemma settle_waiting: "settle a f futures g = Some None \<longleftrightarrow> futures g = Some None \<and> g \<noteq> f"
  by (auto simp: settle_def)

lemma settle_None [simp]: "settle a f futures g = None \<longleftrightarrow> futures g = None"
  by (auto simp: settle_def)

lemma settle_final: "futures g = Some (Some b) \<Longrightarrow> settle a f futures g = Some (Some b)"
  by (auto simp: settle_def)

lemma settle_other: "g \<noteq> f \<Longrightarrow> settle a f futures g = futures g"
  by (simp add: settle_def)

lemma settle_fold:
  "fold (settle a) fs futures g = Some None \<longleftrightarrow> futures g = Some None \<and> g \<notin> set fs"
  "fold (settle a) fs futures g = None \<longleftrightarrow> futures g = None"
  by (induction fs arbitrary: futures) (auto simp: settle_waiting)

lemma settle_fold_final: "futures g = Some (Some b) \<Longrightarrow> fold (settle a) fs futures g = Some (Some b)"
  by (induction fs arbitrary: futures) (auto simp: settle_final)

lemma settle_fold_other: "g \<notin> set fs \<Longrightarrow> fold (settle a) fs futures g = futures g"
  by (induction fs arbitrary: futures) (auto simp: settle_other)

text \<open>Only the store and the futures matter to \<open>futures_ok\<close>.\<close>

lemma futures_ok_cong:
  "hb_store h' = hb_store h \<Longrightarrow> hb_futures h' = hb_futures h \<Longrightarrow> futures_ok h' = futures_ok h"
  by (simp add: futures_ok_def session_ok_def waits_for_def)

lemma fail_all_fields [simp]:
  "hb_sessions (fail_all r h) = hb_sessions h" "hb_online (fail_all r h) = hb_online h"
  "hb_data (fail_all r h) = hb_data h" "hb_sockets (fail_all r h) = hb_sockets h"
  by (simp_all add: fail_all_def split: option.split)

lemma fail_all_store:
  "hb_store (fail_all r h) r' =
     (if r' = r then map_option (\<lambda>s. s\<lparr>rs_closed := True, rs_pending := []\<rparr>) (hb_store h r)
      else hb_store h r')"
  by (simp add: fail_all_def split: option.split)

lemma fail_all_futures:
  "hb_futures (fail_all r h) f = Some None \<longleftrightarrow> hb_futures h f = Some None \<and> \<not> waits_for h r f"
  "hb_futures (fail_all r h) f = None \<longleftrightarrow> hb_futures h f = None"
  by (auto simp: fail_all_def waits_for_def settle_fold split: option.split)

lemma fail_all_waits: "waits_for (fail_all r h) r' f \<longleftrightarrow> r' \<noteq> r \<and> waits_for h r' f"
  by (auto simp: waits_for_def fail_all_store)

lemma futures_okI:
  assumes "\<And>r s. hb_store h r = Some s \<Longrightarrow> session_ok h r s"
    and "\<And>r r' f. waits_for h r f \<Longrightarrow> waits_for h r' f \<Longrightarrow> r = r'"
    and "\<And>f. hb_futures h f = Some None \<Longrightarrow> \<exists>r. waits_for h r f"
  shows "futures_ok h"
  using assms unfolding futures_ok_def by blast

lemma futures_okD:
  assumes "futures_ok h"
  shows "hb_store h r = Some s \<Longrightarrow> session_ok h r s"
    and "waits_for h r f \<Longrightarrow> waits_for h r' f \<Longrightarrow> r = r'"
    and "hb_futures h f = Some None \<Longrightarrow> \<exists>r. waits_for h r f"
  using assms unfolding futures_ok_def by blast+

lemma fail_all_other:
  assumes "futures_ok h" and "waits_for h r' f" and "r' \<noteq> r"
  shows "hb_futures (fail_all r h) f = hb_futures h f"
proof (cases "hb_store h r")
  case (Some s)
  have "\<not> waits_for h r f" using futures_okD(2) [OF assms(1)] assms(2,3) by blast
  with Some have "f \<notin> set (map snd (rs_pending s))" by (simp add: waits_for_def)
  with Some show ?thesis by (simp add: fail_all_def settle_fold_other del: set_map)
qed (simp add: fail_all_def)

lemma session_ok_mono:
  "session_ok h r s \<Longrightarrow> (\<And>f. hb_futures h' f = None \<Longrightarrow> hb_futures h f = None) \<Longrightarrow> session_ok h' r' s"
  unfolding session_ok_def by fastforce

lemma futures_ok_fail_all:
  assumes "futures_ok h"
  shows "futures_ok (fail_all r h)"
proof (rule futures_okI)
  fix r' s' assume s': "hb_store (fail_all r h) r' = Some s'"
  show "session_ok (fail_all r h) r' s'"
  proof (cases "r' = r")
    case True
    with s' show ?thesis by (auto simp: fail_all_store session_ok_def)
  next
    case False
    with s' have "session_ok h r' s'" by (simp add: fail_all_store futures_okD(1) [OF assms])
    then show ?thesis by (rule session_ok_mono) (simp add: fail_all_futures)
  qed
next
  show "\<exists>r'. waits_for (fail_all r h) r' f" if "hb_futures (fail_all r h) f = Some None" for f
    using that futures_okD(3) [OF assms] unfolding fail_all_waits fail_all_futures by metis
qed (use futures_okD(2) [OF assms] in \<open>auto simp: fail_all_waits\<close>)

lemma new_session_waits: "hb_store h r = None \<Longrightarrow> waits_for (new_session k r h) = waits_for h"
  by (auto simp: waits_for_def new_session_def fun_eq_iff)

lemma new_session_fields [simp]:
  "hb_futures (new_session k r h) = hb_futures h" "hb_sessions (new_session k r h) = hb_sessions h"
  by (simp_all add: new_session_def)

lemma futures_ok_new_session:
  assumes "futures_ok h" and "hb_store h r = None"
  shows "futures_ok (new_session k r h)"
proof (rule futures_okI)
  fix r' s' assume "hb_store (new_session k r h) r' = Some s'"
  then have "session_ok h r' s'"
    using futures_okD(1) [OF assms(1)] by (auto simp: new_session_def session_ok_def split: if_splits)
  then show "session_ok (new_session k r h) r' s'" by (rule session_ok_mono) simp
next
  show "\<exists>r'. waits_for (new_session k r h) r' f" if "hb_futures (new_session k r h) f = Some None" for f
    using that futures_okD(3) [OF assms(1)] by (simp add: new_session_waits [OF assms(2)])
qed (use futures_okD(2) [OF assms(1)] in \<open>simp add: new_session_waits [OF assms(2)]\<close>)

lemma registered_ok_new_session:
  "registered_ok h \<Longrightarrow> hb_store h r = None \<Longrightarrow> registered_ok (new_session k r h)"
  by (fastforce simp: registered_ok_def new_session_def)

lemma futures_ok_attach: "futures_ok h \<Longrightarrow> futures_ok (attach r h)"
proof -
  assume ok: "futures_ok h"
  have set_sessions: "futures_ok (h\<lparr>hb_sessions := x\<rparr>)" for x
    using ok by (subst futures_ok_cong) auto
  have "futures_ok ((fail_all o' (h\<lparr>hb_sessions := x\<rparr>))\<lparr>hb_closes := y\<rparr>)" for o' x y
    using futures_ok_fail_all [OF set_sessions [of x], of o'] by (subst futures_ok_cong) auto
  with ok set_sessions show ?thesis by (simp add: attach_def Let_def split: option.split)
qed

lemma registered_runner:
  assumes "registered_ok h" and "map_of (hb_sessions h) k = Some r"
  obtains s where "hb_store h r = Some s" "rs_runner s = k" "\<not> rs_closed s"
  using assms unfolding registered_ok_def by blast

lemma attach_fields:
  assumes "hb_store h r = Some s"
  shows "hb_sessions (attach r h) = AList.update (rs_runner s) r (hb_sessions h)"
    and "hb_store (attach r h) r' =
      (if r' \<noteq> r \<and> map_of (hb_sessions h) (rs_runner s) = Some r'
       then map_option (\<lambda>s. s\<lparr>rs_closed := True, rs_pending := []\<rparr>) (hb_store h r')
       else hb_store h r')"
  using assms by (auto simp: attach_def Let_def fail_all_store split: option.split)

lemma registered_ok_attach:
  assumes "registered_ok h" and "hb_store h r = Some s" and "\<not> rs_closed s"
  shows "registered_ok (attach r h)"
proof -
  let ?new = "AList.update (rs_runner s) r (hb_sessions h)"
  have kept: "\<exists>s'. hb_store h r' = Some s' \<and> rs_runner s' = k \<and> \<not> rs_closed s' \<and>
      (map_of (hb_sessions h) (rs_runner s) = Some o' \<longrightarrow> o' \<noteq> r \<longrightarrow> r' \<noteq> o')"
    if new: "map_of ?new k = Some r'" for k r' o'
  proof (cases "k = rs_runner s")
    case True
    with new assms(2,3) show ?thesis by simp
  next
    case False
    with new have "map_of (hb_sessions h) k = Some r'" by simp
    with assms(1) obtain s' where s': "hb_store h r' = Some s'" "rs_runner s' = k" "\<not> rs_closed s'"
      by (rule registered_runner)
    have "r' \<noteq> o'" if "map_of (hb_sessions h) (rs_runner s) = Some o'"
      using registered_runner [OF assms(1) that] s' False by (metis option.inject)
    with s' show ?thesis by blast
  qed
  have "dict_ok ?new" using assms(1) by (simp add: registered_ok_def)
  moreover have "\<exists>s'. hb_store (attach r h) r' = Some s' \<and> rs_runner s' = k \<and> \<not> rs_closed s'"
    if "map_of ?new k = Some r'" for k r'
    using kept [OF that, of r'] unfolding attach_fields(2) [OF assms(2)] by auto
  ultimately show ?thesis
    unfolding registered_ok_def attach_fields(1) [OF assms(2)] by blast
qed

lemma futures_ok_detach: "futures_ok h \<Longrightarrow> futures_ok (detach r h)"
  using futures_ok_fail_all [of h r] futures_ok_cong [of "detach r h" "fail_all r h"]
  by (auto simp: detach_def Let_def split: option.splits)

lemma registered_ok_fail:
  assumes "registered_ok h" and "\<And>k. map_of x k = Some r \<Longrightarrow> False" and "dict_ok x"
    and "\<And>k r'. map_of x k = Some r' \<Longrightarrow> map_of (hb_sessions h) k = Some r'"
  shows "registered_ok ((fail_all r h)\<lparr>hb_sessions := x\<rparr>)"
proof -
  have "\<exists>s. hb_store (fail_all r h) r' = Some s \<and> rs_runner s = k \<and> \<not> rs_closed s" if "map_of x k = Some r'" for k r'
  proof -
    from that assms(2) have "r' \<noteq> r" by blast
    with assms(1,4) that show ?thesis by (auto simp: registered_ok_def fail_all_store)
  qed
  with assms(3) show ?thesis by (simp add: registered_ok_def)
qed

lemma registered_ok_cong:
  "hb_store h' = hb_store h \<Longrightarrow> hb_sessions h' = hb_sessions h \<Longrightarrow> registered_ok h' = registered_ok h"
  by (simp add: registered_ok_def)

lemma registered_ok_detach:
  assumes "registered_ok h"
  shows "registered_ok (detach r h)"
proof (cases "hb_store h r")
  case (Some s)
  have runner: "k = rs_runner s" if "map_of (hb_sessions h) k = Some r" for k
    using registered_runner [OF assms that] Some by auto
  show ?thesis
  proof (cases "map_of (hb_sessions h) (rs_runner s) = Some r")
    case True
    have "registered_ok ((fail_all r h)\<lparr>hb_sessions := AList.delete (rs_runner s) (hb_sessions h)\<rparr>)"
      by (rule registered_ok_fail [OF assms])
         (use assms runner in \<open>auto simp: registered_ok_def split: if_splits\<close>)
    with Some True show ?thesis
      by (simp add: detach_def Let_def) (subst registered_ok_cong, auto)
  next
    case False
    have "registered_ok ((fail_all r h)\<lparr>hb_sessions := hb_sessions h\<rparr>)"
      by (rule registered_ok_fail [OF assms])
         (use assms runner False in \<open>auto simp: registered_ok_def split: if_splits\<close>)
    with Some False show ?thesis
      by (simp add: detach_def Let_def) (subst (asm) registered_ok_cong, auto)
  qed
qed (simp add: detach_def assms)

lemma futures_ok_drop: "futures_ok h \<Longrightarrow> futures_ok (drop_runner k h)"
proof -
  assume ok: "futures_ok h"
  have base: "futures_ok (h\<lparr>hb_sessions := x, hb_online := y\<rparr>)" for x y
    using ok by (subst futures_ok_cong) auto
  have "futures_ok ((fail_all r (h\<lparr>hb_sessions := x, hb_online := y\<rparr>))\<lparr>hb_closes := z\<rparr>)" for r x y z
    using futures_ok_fail_all [OF base] by (subst futures_ok_cong) auto
  with base show ?thesis by (simp add: drop_runner_def Let_def split: option.split)
qed

lemma registered_ok_drop:
  assumes "registered_ok h"
  shows "registered_ok (drop_runner k h)"
proof (cases "map_of (hb_sessions h) k")
  case (Some r)
  have "registered_ok ((fail_all r h)\<lparr>hb_sessions := AList.delete k (hb_sessions h)\<rparr>)"
  proof (rule registered_ok_fail [OF assms])
    show False if "map_of (AList.delete k (hb_sessions h)) k' = Some r" for k'
    proof -
      from that have "k' \<noteq> k" "map_of (hb_sessions h) k' = Some r" by (auto split: if_splits)
      with Some assms show False unfolding registered_ok_def by (metis option.inject)
    qed
  qed (use assms in \<open>auto simp: registered_ok_def split: if_splits\<close>)
  with Some show ?thesis
    by (simp add: drop_runner_def Let_def) (erule back_subst [where P = "\<lambda>x. x"], rule registered_ok_cong,
      auto simp: fail_all_def fun_eq_iff split: option.split)
next
  case None
  with assms show ?thesis by (auto simp: drop_runner_def registered_ok_def split: if_splits)
qed

text \<open>Requests only touch the pending entries of one session and its futures.\<close>

lemma registered_ok_session:
  assumes "registered_ok h" and "hb_sessions h' = hb_sessions h"
    and "\<And>r s. hb_store h r = Some s \<Longrightarrow>
      \<exists>s'. hb_store h' r = Some s' \<and> rs_runner s' = rs_runner s \<and> rs_closed s' = rs_closed s"
  shows "registered_ok h'"
  using assms unfolding registered_ok_def by metis

lemma request_Inr:
  assumes "send_request f r h = (Inr rid, h')"
  obtains s where "hb_store h r = Some s" "\<not> rs_closed s" "rid = CHR ''c'' # nat_digits (rs_next s)"
    "h' = h\<lparr>hb_store := (hb_store h)(r \<mapsto> s\<lparr>rs_next := rs_next s + 1,
            rs_pending := AList.update rid f (rs_pending s)\<rparr>),
          hb_futures := (hb_futures h)(f \<mapsto> None)\<rparr>"
  using assms by (auto simp: send_request_def Let_def split: option.splits if_splits)

lemma request_Inl: "send_request f r h = (Inl e, h') \<Longrightarrow> h' = h"
  by (auto simp: send_request_def Let_def split: option.splits if_splits)

lemma fresh_rid:
  assumes "session_ok h r s"
  shows "CHR ''c'' # nat_digits (rs_next s) \<notin> fst ` set (rs_pending s)"
  using assms by (fastforce simp: session_ok_def nat_digits_inj)

lemma pending_add:
  assumes "session_ok h r s"
  shows "set (AList.update (CHR ''c'' # nat_digits (rs_next s)) f (rs_pending s)) =
     insert (CHR ''c'' # nat_digits (rs_next s), f) (set (rs_pending s))"
  using fresh_rid [OF assms] assms by (subst dict_values_update) (auto simp: session_ok_def image_iff)

lemma ok_request:
  assumes "registered_ok h" and "futures_ok h" and "hb_futures h f = None" and "send_request f r h = (res, h')"
  shows "registered_ok h' \<and> futures_ok h'"
proof (cases res)
  case (Inl e)
  with assms request_Inl show ?thesis by blast
next
  case (Inr rid)
  with assms(4) obtain s where s: "hb_store h r = Some s" "\<not> rs_closed s" "rid = CHR ''c'' # nat_digits (rs_next s)"
    and h': "h' = h\<lparr>hb_store := (hb_store h)(r \<mapsto> s\<lparr>rs_next := rs_next s + 1,
            rs_pending := AList.update rid f (rs_pending s)\<rparr>),
          hb_futures := (hb_futures h)(f \<mapsto> None)\<rparr>"
    by (auto elim: request_Inr)
  have ok: "session_ok h r s" by (rule futures_okD(1) [OF assms(2) s(1)])
  note pending = pending_add [OF ok, of f, folded s(3)]
  have waits: "waits_for h' r' g \<longleftrightarrow> waits_for h r' g \<or> (r' = r \<and> g = f)" for r' g
    using s(1) pending by (auto simp: waits_for_def h')
  have new: "\<not> waits_for h r' f" for r'
    using futures_okD(1) [OF assms(2)] assms(3) by (fastforce simp: waits_for_def session_ok_def)
  have "futures_ok h'"
  proof (rule futures_okI)
    fix r' s' assume s': "hb_store h' r' = Some s'"
    show "session_ok h' r' s'"
    proof (cases "r' = r")
      case True
      with s' have "s' = s\<lparr>rs_next := rs_next s + 1, rs_pending := AList.update rid f (rs_pending s)\<rparr>"
        by (simp add: h')
      then show ?thesis using ok s pending
        by (fastforce simp: session_ok_def h' less_Suc_eq)
    next
      case False
      with s' have "session_ok h r' s'" by (simp add: h' futures_okD(1) [OF assms(2)])
      then show ?thesis by (rule session_ok_mono) (simp add: h' split: if_splits)
    qed
  next
    show "r1 = r2" if "waits_for h' r1 g" "waits_for h' r2 g" for r1 r2 g
      using that new futures_okD(2) [OF assms(2)] unfolding waits by blast
    show "\<exists>r'. waits_for h' r' g" if "hb_futures h' g = Some None" for g
      using that futures_okD(3) [OF assms(2)] unfolding waits by (cases "g = f") (auto simp: h')
  qed
  moreover have "registered_ok h'"
    by (rule registered_ok_session [OF assms(1)]) (auto simp: h' s)
  ultimately show ?thesis by simp
qed

lemma ok_request_done:
  assumes "registered_ok h" and "futures_ok h"
  shows "registered_ok (request_done rid r h) \<and> futures_ok (request_done rid r h)"
proof (cases "hb_store h r")
  case (Some s)
  let ?h = "request_done rid r h"
  have ok: "session_ok h r s" by (rule futures_okD(1) [OF assms(2) Some])
  have futures: "hb_futures ?h g = None \<longleftrightarrow> hb_futures h g = None"
    "hb_futures ?h g = Some None \<longleftrightarrow> hb_futures h g = Some None \<and> map_of (rs_pending s) rid \<noteq> Some g" for g
    using Some by (auto simp: request_done_def settle_waiting split: option.split)
  have store: "hb_store ?h = (hb_store h)(r \<mapsto> s\<lparr>rs_pending := AList.delete rid (rs_pending s)\<rparr>)"
    using Some by (simp add: request_done_def)
  have subset: "set (AList.delete rid (rs_pending s)) \<subseteq> set (rs_pending s)"
    by (simp add: AList.delete_eq)
  have waits: "waits_for ?h r' g \<Longrightarrow> waits_for h r' g" for r' g
    using subset Some by (auto simp: waits_for_def store split: if_splits)
  have kept: "waits_for ?h r' g" if "waits_for h r' g" "map_of (rs_pending s) rid \<noteq> Some g" for r' g
  proof (cases "r' = r")
    case True
    with that(1) Some obtain k where k: "(k, g) \<in> set (rs_pending s)" by (auto simp: waits_for_def)
    with that(2) ok have "k \<noteq> rid" by (auto simp: session_ok_def dict_ok_def)
    with k have "(k, g) \<in> set (AList.delete rid (rs_pending s))" by (simp add: AList.delete_eq)
    with True show ?thesis by (force simp: waits_for_def store)
  qed (use that in \<open>simp add: waits_for_def store\<close>)
  have "futures_ok ?h"
  proof (rule futures_okI)
    fix r' s' assume s': "hb_store ?h r' = Some s'"
    have "session_ok h r' s'"
    proof (cases "r' = r")
      case True
      with s' have "s' = s\<lparr>rs_pending := AList.delete rid (rs_pending s)\<rparr>" by (simp add: store)
      with True ok subset show ?thesis by (auto simp: session_ok_def)
    next
      case False
      with s' show ?thesis by (simp add: store futures_okD(1) [OF assms(2)])
    qed
    then show "session_ok ?h r' s'" by (rule session_ok_mono) (simp add: futures)
  next
    show "r1 = r2" if "waits_for ?h r1 g" "waits_for ?h r2 g" for r1 r2 g
      using waits that futures_okD(2) [OF assms(2)] by blast
    show "\<exists>r'. waits_for ?h r' g" if "hb_futures ?h g = Some None" for g
      using that kept futures_okD(3) [OF assms(2)] unfolding futures by blast
  qed
  moreover have "registered_ok ?h"
    by (rule registered_ok_session [OF assms(1)]) (auto simp: store Some, simp add: request_done_def Some)
  ultimately show ?thesis by simp
qed (simp add: request_done_def assms)

lemma futures_ok_settle:
  assumes "futures_ok h"
  shows "futures_ok (h\<lparr>hb_futures := settle a f (hb_futures h)\<rparr>)"
proof (rule futures_okI)
  fix r s assume "hb_store (h\<lparr>hb_futures := settle a f (hb_futures h)\<rparr>) r = Some s"
  then have "session_ok h r s" by (simp add: futures_okD(1) [OF assms])
  then show "session_ok (h\<lparr>hb_futures := settle a f (hb_futures h)\<rparr>) r s"
    by (rule session_ok_mono) simp
next
  have waits: "waits_for (h\<lparr>hb_futures := x\<rparr>) = waits_for h" for x
    by (simp add: waits_for_def fun_eq_iff)
  show "r1 = r2" if "waits_for (h\<lparr>hb_futures := settle a f (hb_futures h)\<rparr>) r1 g"
      "waits_for (h\<lparr>hb_futures := settle a f (hb_futures h)\<rparr>) r2 g" for r1 r2 g
    using futures_okD(2) [OF assms] that unfolding waits .
  show "\<exists>r. waits_for (h\<lparr>hb_futures := settle a f (hb_futures h)\<rparr>) r g"
    if "hb_futures (h\<lparr>hb_futures := settle a f (hb_futures h)\<rparr>) g = Some None" for g
    using futures_okD(3) [OF assms, of g] that unfolding waits by (simp add: settle_waiting)
qed

lemma ok_resolve:
  assumes "registered_ok h" and "futures_ok h"
  shows "registered_ok (resolve_msg msg r h) \<and> futures_ok (resolve_msg msg r h)"
proof -
  have "registered_ok (h\<lparr>hb_futures := settle a f (hb_futures h)\<rparr>) \<and>
      futures_ok (h\<lparr>hb_futures := settle a f (hb_futures h)\<rparr>)" for a f
    using futures_ok_settle [OF assms(2)] assms(1) by (simp add: registered_ok_def)
  with assms show ?thesis unfolding resolve_msg_def by (simp split: option.split)
qed

lemma ok_unrelated:
  "registered_ok h \<Longrightarrow> futures_ok h \<Longrightarrow> hb_store h' = hb_store h \<Longrightarrow> hb_futures h' = hb_futures h \<Longrightarrow>
   hb_sessions h' = hb_sessions h \<Longrightarrow> registered_ok h' \<and> futures_ok h'"
  using futures_ok_cong registered_ok_cong by metis

lemma ok_step: "hub_step h h' \<Longrightarrow> registered_ok h \<Longrightarrow> futures_ok h \<Longrightarrow> registered_ok h' \<and> futures_ok h'"
proof (induction rule: hub_step.induct)
  case (connected h r runner)
  have new: "hb_store (new_session runner r h) r =
      Some \<lparr>rs_runner = runner, rs_pending = [], rs_next = 1, rs_closed = False\<rparr>"
    by (simp add: new_session_def)
  show ?case
    by (intro conjI registered_ok_attach [OF _ new] futures_ok_attach registered_ok_new_session
        futures_ok_new_session connected) simp
next
  case (set_event h r)
  then show ?case by (rule ok_unrelated) (simp_all add: attached_def split: option.split)
next
  case (detached h r)
  then show ?case by (intro conjI registered_ok_detach futures_ok_detach)
next
  case (dropped h runner)
  then show ?case by (intro conjI registered_ok_drop futures_ok_drop)
next
  case (requested h f r res h')
  then show ?case using ok_request by blast
next
  case (finished h rid r)
  then show ?case by (rule ok_request_done)
next
  case (answered h msg r)
  then show ?case by (rule ok_resolve)
next
  case (expected h f runner cid)
  from expected(2,3) show ?case by (rule ok_unrelated) (simp_all add: expect_socket_def)
next
  case (taken_back h runner cid)
  then show ?case by (rule ok_unrelated) (simp_all add: socket_done_def)
next
  case (offered runner cid sock h ok h')
  then have "hb_store h' = hb_store h \<and> hb_futures h' = hb_futures h \<and> hb_sessions h' = hb_sessions h"
    by (auto simp: offer_data_socket_def split: option.splits if_splits)
  with offered(2,3) show ?case using ok_unrelated by blast
qed

lemma ok_run: "hub_run h \<Longrightarrow> registered_ok h \<and> futures_ok h"
proof (induction rule: hub_run.induct)
  case start
  show ?case
    by (simp add: empty_hub_def registered_ok_def futures_ok_def waits_for_def session_ok_def)
qed (use ok_step in blast)


text \<open>A runner that reconnects while a request on its old socket is open.\<close>

definition reconnected :: hub where
  "reconnected =
     (let h = attach 1 (new_session ''r'' 1 empty_hub);
          h = snd (send_request 10 1 h);
          h = attach 2 (new_session ''r'' 2 h)
      in snd (send_request 11 2 h))"

lemma reconnected_run: "hub_run reconnected"
proof -
  define h1 where "h1 = attach 1 (new_session ''r'' 1 empty_hub)"
  define h2 where "h2 = snd (send_request 10 1 h1)"
  define h3 where "h3 = attach 2 (new_session ''r'' 2 h2)"
  note run = hub_run.step
  have r1: "hub_run h1" unfolding h1_def
    by (rule run [OF hub_run.start hub_step.connected]) (simp add: empty_hub_def)
  have "hb_futures h1 10 = None" unfolding h1_def by code_simp
  from run [OF r1 hub_step.requested [OF this, of 1 "fst (send_request 10 1 h1)" h2]]
  have r2: "hub_run h2" by (simp add: h2_def)
  have "hb_store h2 2 = None" unfolding h2_def h1_def by code_simp
  from run [OF r2 hub_step.connected [OF this]] have r3: "hub_run h3" by (simp add: h3_def)
  have "hb_futures h3 11 = None" unfolding h3_def h2_def h1_def by code_simp
  from run [OF r3 hub_step.requested [OF this, of 2 "fst (send_request 11 2 h3)" "snd (send_request 11 2 h3)"]]
  show ?thesis by (simp add: reconnected_def Let_def h3_def h2_def h1_def)
qed


text \<open>
  The late end of a superseded socket harms nothing: when a runner has reconnected, detaching its
  old session leaves the registry, who is online, every other session, and every request waiting on
  one as they are.
\<close>

theorem stale_detach_harmless:
  assumes "hub_run h" and "hb_store h r = Some s" and "map_of (hb_sessions h) (rs_runner s) \<noteq> Some r"
  shows "hb_sessions (detach r h) = hb_sessions h \<and> hb_online (detach r h) = hb_online h \<and>
     (\<forall>k. is_online (detach r h) k = is_online h k) \<and>
     (\<forall>r'. r' \<noteq> r \<longrightarrow> hb_store (detach r h) r' = hb_store h r' \<and>
        (\<forall>f. waits_for h r' f \<longrightarrow> hb_futures (detach r h) f = hb_futures h f))"
proof -
  have d: "detach r h = fail_all r h" using assms(2,3) by (simp add: detach_def Let_def)
  from ok_run [OF assms(1)] have reg: "registered_ok h" and fut: "futures_ok h" by simp_all
  have "is_online (fail_all r h) k = is_online h k" for k
  proof (cases "map_of (hb_sessions h) k")
    case (Some r')
    with reg assms(2,3) have "r' \<noteq> r" by (metis option.inject registered_runner)
    with Some show ?thesis by (simp add: is_online_def fail_all_store)
  qed (simp add: is_online_def)
  with fail_all_other [OF fut] show ?thesis by (auto simp: d fail_all_store)
qed

theorem stale_detach_harmless_witness:
  "is_online (detach 1 reconnected) ''r'' \<and> hb_futures (detach 1 reconnected) 11 = Some None"
proof -
  have "\<exists>s. hb_store reconnected 1 = Some s \<and> map_of (hb_sessions reconnected) (rs_runner s) \<noteq> Some 1"
    by (rule exI [of _ "the (hb_store reconnected 1)"]) code_simp
  then obtain s where s: "hb_store reconnected 1 = Some s" "map_of (hb_sessions reconnected) (rs_runner s) \<noteq> Some 1"
    by blast
  have "is_online reconnected ''r''" "hb_futures reconnected 11 = Some None" by code_simp+
  moreover have "\<exists>s. hb_store reconnected 2 = Some s \<and> 11 \<in> set (map snd (rs_pending s))"
    by (rule exI [of _ "the (hb_store reconnected 2)"]) code_simp
  then have w: "waits_for reconnected 2 11" by (simp add: waits_for_def)
  note harmless = stale_detach_harmless [OF reconnected_run s]
  from harmless have "\<forall>r'. r' \<noteq> 1 \<longrightarrow> (\<forall>f. waits_for reconnected r' f \<longrightarrow>
      hb_futures (detach 1 reconnected) f = hb_futures reconnected f)" by blast
  from this [THEN spec [of _ 2]] w have "hb_futures (detach 1 reconnected) 11 = hb_futures reconnected 11" by simp
  moreover from harmless have "is_online (detach 1 reconnected) ''r'' = is_online reconnected ''r''" by blast
  ultimately show ?thesis by simp
qed

text \<open>
  Two places where an await lets another coroutine in: the new socket can be gone again while its
  \<^verbatim>\<open>attach\<close> still closes the superseded one, and then the runner's event is set while
  it is offline; and of two openings of one connection, the one that gives up takes the other's
  expectation with it.
\<close>

lemma event_set_while_offline:
  "let h = attached 2 (detach 2 (attach 2 (new_session ''r'' 2 (attach 1 (new_session ''r'' 1 empty_hub)))))
   in ''r'' \<in> set (hb_online h) \<and> \<not> is_online h ''r''"
  by code_simp

lemma opening_taken_back_by_another:
  "fst (offer_data_socket ''r'' ''c'' 7
     (socket_done ''r'' ''c'' (expect_socket ''r'' ''c'' 2 (expect_socket ''r'' ''c'' 1 empty_hub)))) = False"
  by code_simp

end
