(* ===== verification/ApprovalStore.thy ===== *)
theory ApprovalStore
  imports Json
begin

text \<open>
  Approval cases and where they are kept: \<^verbatim>\<open>app/domain/models/approval_case.py\<close> and the
  in-memory backend of \<^verbatim>\<open>app/infrastructure/persistence/approval_backend.py\<close>.
\<close>

section \<open>Cases\<close>

datatype case_status = Open_Case | Approved_Case | Rejected_Case | Expired_Case | Cancelled_Case

datatype decision_source = By_UI | By_Slack | By_Meta_Llm | By_Timeout | By_Api | By_Mcp

datatype surface = On_Workflow | On_Mcp | On_Try_Run

datatype change_kind = Delete_Change | Write_Change | Other_Change

datatype decision = Approve | Reject | Abstain

text \<open>\<^verbatim>\<open>workflow_id or '-'\<close>, the data source and the operation, separated by bars.\<close>

definition history_key_for :: "string \<Rightarrow> string \<Rightarrow> string \<Rightarrow> string" where
  "history_key_for workflow source operation =
     (if workflow = [] then ''-'' else workflow) @ ''|'' @ source @ ''|'' @ operation"

record verdict =
  vd_decision :: decision
  vd_reason :: string
  vd_model :: string
  vd_autonomous :: bool
  vd_history_size :: nat

record acase =
  ac_id :: string
  ac_status :: case_status
  ac_workflow :: string
  ac_workflow_name :: string
  ac_run :: string
  ac_step :: "string option"
  ac_agent :: string
  ac_surface :: surface
  ac_source :: string
  ac_source_name :: string
  ac_operation :: string
  ac_method :: string
  ac_endpoint :: string
  ac_targets :: "string list"
  ac_params :: json
  ac_rows :: int
  ac_sample :: "string list"
  ac_rows_label :: string
  ac_change :: change_kind
  ac_details :: "string dict"
  ac_history_key :: string
  ac_meta :: "verdict option"
  ac_decided_via :: "decision_source option"
  ac_decided_by :: string
  ac_decided_by_id :: string
  ac_decided_at :: "time option"
  ac_reason :: string
  ac_veto_deadline :: "time option"
  ac_vetoed_by :: string
  ac_slack_channel :: string
  ac_slack_ts :: string
  ac_created :: time
  ac_updated :: time

definition case_decided :: "acase \<Rightarrow> bool" where
  "case_decided c = (ac_status c \<in> {Approved_Case, Rejected_Case, Expired_Case, Cancelled_Case})"

section \<open>The backend\<close>

record approvals =
  ap_cases :: "acase dict"
  ap_claimed :: "string list"

definition ap_create :: "acase \<Rightarrow> approvals \<Rightarrow> approvals" where
  "ap_create c s = s\<lparr>ap_cases := AList.update (ac_id c) c (ap_cases s)\<rparr>"

definition ap_get :: "approvals \<Rightarrow> string \<Rightarrow> acase option" where
  "ap_get s i = map_of (ap_cases s) i"

definition ap_update :: "time \<Rightarrow> acase \<Rightarrow> approvals \<Rightarrow> approvals" where
  "ap_update now c s = ap_create (c\<lparr>ac_updated := now\<rparr>) s"

definition claim_for_decision :: "string \<Rightarrow> approvals \<Rightarrow> acase option \<times> approvals" where
  "claim_for_decision i s =
     (case ap_get s i of
        None \<Rightarrow> (None, s)
      | Some c \<Rightarrow>
          if ac_status c \<noteq> Open_Case \<or> i \<in> set (ap_claimed s) then (None, s)
          else (Some c, s\<lparr>ap_claimed := i # ap_claimed s\<rparr>))"

text \<open>\<open>None\<close> for a filter: not filtered by it.\<close>

definition ap_match ::
    "acase \<Rightarrow> case_status option \<Rightarrow> string option \<Rightarrow> string option \<Rightarrow> string option \<Rightarrow> bool" where
  "ap_match c status workflow source run =
     ((status = None \<or> Some (ac_status c) = status) \<and>
      (workflow = None \<or> Some (ac_workflow c) = workflow) \<and>
      (source = None \<or> Some (ac_source c) = source) \<and>
      (run = None \<or> Some (ac_run c) = run))"

definition not_excluded :: "acase \<Rightarrow> string list \<Rightarrow> string list \<Rightarrow> bool" where
  "not_excluded c workflows sources =
     (ac_workflow c \<notin> set workflows \<and> ac_source c \<notin> set sources)"

definition stripped :: "acase \<Rightarrow> acase" where
  "stripped c = c\<lparr>ac_params := JObj [], ac_targets := [], ac_sample := [], ac_details := []\<rparr>"

definition newest_first :: "(acase \<Rightarrow> time) \<Rightarrow> acase list \<Rightarrow> acase list" where
  "newest_first key cs = sort_key (\<lambda>c. - key c) cs"

definition ap_list ::
    "approvals \<Rightarrow> case_status option \<Rightarrow> string option \<Rightarrow> string option \<Rightarrow> string option \<Rightarrow>
     nat \<Rightarrow> nat \<Rightarrow> bool \<Rightarrow> string list \<Rightarrow> string list \<Rightarrow> acase list" where
  "ap_list s status workflow source run limit offset summary ex_flows ex_sources =
     (let rows = filter (\<lambda>c. ap_match c status workflow source run \<and> not_excluded c ex_flows ex_sources)
                   (map snd (ap_cases s));
          page = take limit (drop offset (newest_first ac_created rows))
      in if summary then map stripped page else page)"

definition ap_count ::
    "approvals \<Rightarrow> case_status option \<Rightarrow> string option \<Rightarrow> string option \<Rightarrow> string option \<Rightarrow>
     string option \<Rightarrow> string list \<Rightarrow> string list \<Rightarrow> nat" where
  "ap_count s status workflow source run operation ex_flows ex_sources =
     length (filter (\<lambda>c. ap_match c status workflow source run \<and>
                         (\<not> truthy operation \<or> Some (ac_operation c) = operation) \<and>
                         not_excluded c ex_flows ex_sources)
               (map snd (ap_cases s)))"

definition decided_key :: "acase \<Rightarrow> time" where
  "decided_key c = (case ac_decided_at c of None \<Rightarrow> ac_created c | Some t \<Rightarrow> t)"

definition in_history :: "string \<Rightarrow> acase \<Rightarrow> bool" where
  "in_history key c =
     (ac_history_key c = key \<and> ac_status c \<in> {Approved_Case, Rejected_Case} \<and>
      ac_surface c \<noteq> On_Try_Run)"

definition ap_history :: "approvals \<Rightarrow> string \<Rightarrow> nat \<Rightarrow> acase list" where
  "ap_history s key limit =
     take limit (newest_first decided_key (filter (in_history key) (map snd (ap_cases s))))"

definition find_pending_for_run :: "approvals \<Rightarrow> string \<Rightarrow> string option \<Rightarrow> acase option" where
  "find_pending_for_run s run step =
     (case newest_first ac_created
             (filter (\<lambda>c. ac_run c = run \<and> ac_status c = Open_Case \<and> (step = None \<or> ac_step c = step))
                (map snd (ap_cases s))) of
        [] \<Rightarrow> None
      | c # _ \<Rightarrow> Some c)"

section \<open>Claims\<close>

text \<open>
  The interface the deciders rely on: a claim succeeds exactly on what is open for claiming, and
  closes it for everybody else.
\<close>

locale claim_once =
  fixes claimable :: "'s \<Rightarrow> string \<Rightarrow> bool"
    and claim :: "string \<Rightarrow> 's \<Rightarrow> 'c option \<times> 's"
  assumes claim_iff: "fst (claim i s) \<noteq> None \<longleftrightarrow> claimable s i"
    and claim_closes: "claimable (snd (claim i s)) j \<longleftrightarrow> claimable s j \<and> j \<noteq> i"
begin

lemma second_loses: "fst (claim i (snd (claim i s))) = None"
  using claim_iff claim_closes by blast

lemma others_keep: "j \<noteq> i \<Longrightarrow> fst (claim j (snd (claim i s))) \<noteq> None \<longleftrightarrow> fst (claim j s) \<noteq> None"
  by (metis claim_iff claim_closes)

end

definition claimable :: "approvals \<Rightarrow> string \<Rightarrow> bool" where
  "claimable s i =
     (case ap_get s i of None \<Rightarrow> False
      | Some c \<Rightarrow> ac_status c = Open_Case \<and> i \<notin> set (ap_claimed s))"

interpretation decisions: claim_once claimable claim_for_decision
  by unfold_locales (auto simp: claimable_def claim_for_decision_def ap_get_def split: option.splits)

lemma claim_Some:
  "claim_for_decision i s = (Some c, s') \<Longrightarrow>
     ap_get s i = Some c \<and> ac_status c = Open_Case \<and> i \<notin> set (ap_claimed s) \<and>
     s' = s\<lparr>ap_claimed := i # ap_claimed s\<rparr>"
  by (auto simp: claim_for_decision_def split: option.splits if_splits)

lemma claim_None: "claim_for_decision i s = (None, s') \<Longrightarrow> s' = s \<and> \<not> claimable s i"
  by (auto simp: claim_for_decision_def claimable_def split: option.splits if_splits)

lemma ap_get_create [simp]: "ap_get (ap_create c s) i = (if i = ac_id c then Some c else ap_get s i)"
  by (simp add: ap_get_def ap_create_def)

lemma ap_get_update [simp]:
  "ap_get (ap_update now c s) i = (if i = ac_id c then Some (c\<lparr>ac_updated := now\<rparr>) else ap_get s i)"
  by (simp add: ap_update_def)

lemma ap_claimed_create [simp]:
  "ap_claimed (ap_create c s) = ap_claimed s" "ap_claimed (ap_update now c s) = ap_claimed s"
  by (simp_all add: ap_create_def ap_update_def)

lemma ap_get_claimed [simp]: "ap_get (s\<lparr>ap_claimed := x\<rparr>) = ap_get s"
  by (simp add: ap_get_def fun_eq_iff)

definition cases_ok :: "approvals \<Rightarrow> bool" where
  "cases_ok s = (dict_ok (ap_cases s) \<and> (\<forall>i c. ap_get s i = Some c \<longrightarrow> ac_id c = i))"

lemma cases_mem: "cases_ok s \<Longrightarrow> c \<in> set (map snd (ap_cases s)) \<longleftrightarrow> ap_get s (ac_id c) = Some c"
  unfolding ap_get_def set_map by (rule dict_values_iff) (auto simp: cases_ok_def ap_get_def)

lemma cases_ok_create: "cases_ok s \<Longrightarrow> cases_ok (ap_create c s)"
  by (simp add: cases_ok_def) (simp add: ap_create_def)

lemma cases_ok_update: "cases_ok s \<Longrightarrow> cases_ok (ap_update now c s)"
  by (simp add: ap_update_def cases_ok_create)

lemma cases_ok_claimed [simp]: "cases_ok (s\<lparr>ap_claimed := x\<rparr>) = cases_ok s"
  by (simp add: cases_ok_def)

text \<open>
  The history bucket of a case is its own: two workflows, data sources or operations share one
  only if they are the same, provided no id contains the separator and no workflow is called by
  the placeholder for none.
\<close>

theorem history_key_injective:
  assumes "history_key_for w s op = history_key_for w' s' op'"
    and "CHR ''|'' \<notin> set w \<union> set w' \<union> set s \<union> set s'" and "w \<noteq> ''-''" and "w' \<noteq> ''-''"
  shows "w = w' \<and> s = s' \<and> op = op'"
proof -
  have split: "a = a' \<and> b = b'" if "a @ ''|'' @ b = a' @ ''|'' @ b'" "CHR ''|'' \<notin> set a" "CHR ''|'' \<notin> set a'"
    for a a' b b' :: string
    using that by (auto simp: append_eq_append_conv2 append_eq_Cons_conv Cons_eq_append_conv)
  let ?n = "\<lambda>w. if w = [] then ''-'' else w :: string"
  from assms(1,2) have n: "?n w = ?n w'" and rest: "s @ ''|'' @ op = s' @ ''|'' @ op'"
    unfolding history_key_for_def
    using split [of "?n w" "s @ ''|'' @ op" "?n w'" "s' @ ''|'' @ op'"] by (auto split: if_splits)
  from split [OF rest] assms(2) have "s = s' \<and> op = op'" by blast
  with n assms(3,4) show ?thesis by (auto split: if_splits)
qed

theorem history_key_injective_witness: "history_key_for ''a'' ''b'' ''c'' \<noteq> history_key_for ''a'' ''b'' ''d''"
  using history_key_injective [of "''a''" "''b''" "''c''" "''a''" "''b''" "''d''"] by auto

end
