(* ===== verification/Approvals.thy ===== *)
theory Approvals
  imports ApprovalStore
begin

text \<open>
  The gate in front of destructive data-source operations: \<^verbatim>\<open>ApprovalService\<close> of
  \<^verbatim>\<open>app/application/approval_service.py\<close>.  The language model, the workflow store and Slack are
  parameters: the text the model answers (or nothing), the name and meta-LLM flag of a workflow (or
  nothing), and the message a post got (or nothing).  Ids and instants are arguments.
\<close>

record approval_env =
  ae_flow :: "string \<Rightarrow> (string \<times> bool) option"
  ae_llm :: "acase \<Rightarrow> acase list \<Rightarrow> bool \<Rightarrow> string option"
  ae_model :: string
  ae_post :: "acase \<Rightarrow> (string \<times> string) option"
  ae_threshold :: int
  ae_veto_window :: int
  ae_probation :: int

text \<open>The data source as the gate sees it: its id, name, and which operations are generated writes.\<close>

record gate_source =
  gs_id :: string
  gs_name :: string
  gs_tier2_write :: "string \<Rightarrow> bool"

definition history_window :: nat where
  "history_window = 25"

section \<open>Reading the model's answer\<close>

definition line_break :: "char \<Rightarrow> bool" where
  "line_break c = (c \<in> {CHR 0x0A, CHR 0x0B, CHR 0x0C, CHR 0x0D, CHR 0x1C, CHR 0x1D, CHR 0x1E})"

text \<open>\<^verbatim>\<open>s.splitlines()\<close>; \<open>\<backslash>r\<backslash>n\<close> is one break.\<close>

fun split_lines :: "string \<Rightarrow> string \<Rightarrow> string list" where
  "split_lines acc [] = (if acc = [] then [] else [rev acc])"
| "split_lines acc (c # cs) =
     (if c = CHR 0x0D \<and> cs \<noteq> [] \<and> hd cs = CHR 0x0A then rev acc # split_lines [] (tl cs)
      else if line_break c then rev acc # split_lines [] cs
      else split_lines (c # acc) cs)"

text \<open>\<^verbatim>\<open>line.split(":", 1)[1].strip()\<close>.\<close>

definition after_colon :: "string \<Rightarrow> string" where
  "after_colon line = py_strip (drop 1 (dropWhile (\<lambda>c. c \<noteq> CHR '':'') line))"

definition read_line :: "string \<Rightarrow> decision \<times> string \<Rightarrow> decision \<times> string" where
  "read_line line0 acc =
     (let line = py_strip line0
      in if starts_with ''DECISION:'' (py_upper line) then
           (let raw = py_upper (after_colon line)
            in if starts_with ''APPROVE'' raw then (Approve, snd acc)
               else if starts_with ''REJECT'' raw then (Reject, snd acc) else acc)
         else if starts_with ''REASON:'' (py_upper line) then (fst acc, after_colon line)
         else acc)"

definition parse_verdict :: "string \<Rightarrow> decision \<times> string" where
  "parse_verdict text = fold read_line (split_lines [] (py_strip text)) (Abstain, [])"

section \<open>The streak and the meta-LLM\<close>

text \<open>The loop of \<^verbatim>\<open>_streak\<close>, from the value and length so far.\<close>

fun streak_from :: "case_status option \<Rightarrow> nat \<Rightarrow> acase list \<Rightarrow> case_status option \<times> nat" where
  "streak_from v n [] = (v, n)"
| "streak_from v n (c # cs) =
     (if ac_decided_via c = Some By_Meta_Llm then (v, n)
      else if ac_status c \<notin> {Approved_Case, Rejected_Case} then (v, n)
      else if v = None then streak_from (Some (ac_status c)) (Suc n) cs
      else if Some (ac_status c) \<noteq> v then (v, n)
      else streak_from v (Suc n) cs)"

definition streak :: "acase list \<Rightarrow> case_status option \<times> nat" where
  "streak history = streak_from None 0 history"

definition meta_llm_enabled :: "approval_env \<Rightarrow> string \<Rightarrow> bool" where
  "meta_llm_enabled env workflow =
     (if workflow = [] then False
      else case ae_flow env workflow of None \<Rightarrow> False | Some (_, enabled) \<Rightarrow> enabled)"

definition workflow_name :: "approval_env \<Rightarrow> string \<Rightarrow> string" where
  "workflow_name env workflow =
     (if workflow = [] then []
      else case ae_flow env workflow of None \<Rightarrow> [] | Some (name, _) \<Rightarrow> name)"

definition auto_threshold :: "approval_env \<Rightarrow> int" where
  "auto_threshold env = (if ae_threshold env = 0 then 10 else ae_threshold env)"

definition ask_meta_llm :: "approval_env \<Rightarrow> acase \<Rightarrow> acase list \<Rightarrow> bool \<Rightarrow> verdict option" where
  "ask_meta_llm env c history autonomous =
     (case ae_llm env c history autonomous of
        None \<Rightarrow> None
      | Some text \<Rightarrow>
          let (d, r) = parse_verdict text
          in Some \<lparr>vd_decision = d, vd_reason = r, vd_model = ae_model env, vd_autonomous = False,
                   vd_history_size = 0\<rparr>)"

definition consult_meta_llm :: "approval_env \<Rightarrow> acase \<Rightarrow> acase list \<Rightarrow> verdict option" where
  "consult_meta_llm env c history =
     (if history = [] then None
      else if \<not> meta_llm_enabled env (ac_workflow c) then None
      else
        let (value, len) = streak history;
            autonomous = (value \<noteq> None \<and> auto_threshold env \<le> int len)
        in case ask_meta_llm env c history autonomous of
             None \<Rightarrow> None
           | Some v \<Rightarrow>
               let expected = (if value = Some Approved_Case then Approve else Reject)
               in Some (v\<lparr>vd_history_size := length history,
                          vd_autonomous := (autonomous \<and> vd_decision v = expected)\<rparr>))"

text \<open>
  Why a generated write is still on probation: the human approvals counted.  No backend of the
  repository filters by operation, so the listing is the fallback one.
\<close>

definition tier2_write_probation :: "approval_env \<Rightarrow> approvals \<Rightarrow> gate_source \<Rightarrow> string \<Rightarrow> nat option" where
  "tier2_write_probation env s src operation =
     (if \<not> gs_tier2_write src operation then None
      else if ae_probation env \<le> 0 then None
      else
        let cases = filter (\<lambda>c. ac_operation c = operation)
              (ap_list s (Some Approved_Case) None (Some (gs_id src)) None
                 (nat (max (ae_probation env * 8) 100)) 0 False [] []);
            human = length (filter (\<lambda>c. ac_decided_via c \<noteq> Some By_Meta_Llm) cases)
        in if ae_probation env \<le> int human then None else Some human)"

section \<open>Opening a case\<close>

definition apply_autonomous_decision :: "approval_env \<Rightarrow> time \<Rightarrow> verdict \<Rightarrow> acase \<Rightarrow> acase" where
  "apply_autonomous_decision env now v c =
     (let window = max 0 (ae_veto_window env)
      in c\<lparr>ac_status := (if vd_decision v = Approve then Approved_Case else Rejected_Case),
           ac_decided_via := Some By_Meta_Llm,
           ac_decided_by := (if vd_model v \<noteq> [] then ''meta-LLM ('' @ vd_model v @ '')'' else ''meta-LLM''),
           ac_decided_at := Some now, ac_reason := vd_reason v,
           ac_veto_deadline := (if window \<noteq> 0 then Some (now + seconds window) else None)\<rparr>)"

text \<open>\<^verbatim>\<open>_announce\<close>: a post that Slack accepted is recorded on the case.\<close>

definition announce :: "approval_env \<Rightarrow> time \<Rightarrow> acase \<Rightarrow> approvals \<Rightarrow> acase \<times> approvals" where
  "announce env now c s =
     (case ae_post env c of
        None \<Rightarrow> (c, s)
      | Some (ts, channel) \<Rightarrow>
          let c = c\<lparr>ac_slack_ts := ts, ac_slack_channel := channel, ac_updated := now\<rparr>
          in (c, ap_update now c s))"

record gate_call =
  gc_operation :: string
  gc_method :: string
  gc_params :: json
  gc_rows :: int
  gc_targets :: "string list"
  gc_sample :: "json list"
  gc_workflow :: string
  gc_run :: string
  gc_step :: "string option"
  gc_agent :: string
  gc_surface :: surface
  gc_change :: string
  gc_details :: "string dict"
  gc_rows_label :: string

definition parse_change :: "string \<Rightarrow> change_kind" where
  "parse_change k =
     (if k = ''delete'' then Delete_Change else if k = ''write'' then Write_Change else Other_Change)"

definition new_case :: "approval_env \<Rightarrow> string \<Rightarrow> time \<Rightarrow> gate_source \<Rightarrow> gate_call \<Rightarrow> acase" where
  "new_case env fresh now src call =
     \<lparr>ac_id = fresh, ac_status = Open_Case, ac_workflow = gc_workflow call,
      ac_workflow_name = workflow_name env (gc_workflow call), ac_run = gc_run call,
      ac_step = gc_step call, ac_agent = gc_agent call, ac_surface = gc_surface call,
      ac_source = gs_id src, ac_source_name = (if gs_name src \<noteq> [] then gs_name src else gs_id src),
      ac_operation = gc_operation call, ac_method = py_upper (gc_method call),
      ac_endpoint = (case gc_targets call of [] \<Rightarrow> [] | t # _ \<Rightarrow> t), ac_targets = gc_targets call,
      ac_params = gc_params call, ac_rows = gc_rows call, ac_sample = map py_str (gc_sample call),
      ac_rows_label = gc_rows_label call, ac_change = parse_change (gc_change call),
      ac_details = gc_details call,
      ac_history_key = history_key_for (gc_workflow call) (gs_id src) (gc_operation call),
      ac_meta = None, ac_decided_via = None, ac_decided_by = [], ac_decided_by_id = [],
      ac_decided_at = None, ac_reason = [], ac_veto_deadline = None, ac_vetoed_by = [],
      ac_slack_channel = [], ac_slack_ts = [], ac_created = now, ac_updated = now\<rparr>"

definition hold_note :: "nat \<Rightarrow> int \<Rightarrow> string" where
  "hold_note human required =
     ''[held for review: generated-code write, '' @ nat_digits human @ '' of '' @ int_digits required @
     '' human approvals so far]''"

text \<open>What the meta-LLM makes of a new case, before it is stored.\<close>

definition screen_case :: "approval_env \<Rightarrow> time \<Rightarrow> gate_source \<Rightarrow> approvals \<Rightarrow> acase \<Rightarrow> acase" where
  "screen_case env now src s c =
     (let history = ap_history s (ac_history_key c) history_window
      in case consult_meta_llm env c history of
           None \<Rightarrow> c
         | Some v \<Rightarrow>
             if \<not> vd_autonomous v then c\<lparr>ac_meta := Some v\<rparr>
             else case tier2_write_probation env s src (ac_operation c) of
                    Some human \<Rightarrow>
                      c\<lparr>ac_meta := Some (v\<lparr>vd_autonomous := False,
                          vd_reason := py_strip (vd_reason v @ [CHR 0x0A, CHR 0x0A] @
                            hold_note human (ae_probation env))\<rparr>)\<rparr>
                  | None \<Rightarrow> apply_autonomous_decision env now v (c\<lparr>ac_meta := Some v\<rparr>))"

definition open_case ::
    "approval_env \<Rightarrow> string \<Rightarrow> time \<Rightarrow> gate_source \<Rightarrow> gate_call \<Rightarrow> approvals \<Rightarrow> acase \<times> approvals" where
  "open_case env fresh now src call s =
     (let c = screen_case env now src s (new_case env fresh now src call)
      in announce env now c (ap_create c s))"

definition record_confirmed ::
    "approval_env \<Rightarrow> string \<Rightarrow> time \<Rightarrow> gate_source \<Rightarrow> gate_call \<Rightarrow> string \<Rightarrow> string \<Rightarrow> approvals \<Rightarrow>
     acase \<times> approvals" where
  "record_confirmed env fresh now src call by_name by_id s =
     (let c = (new_case env fresh now src call)\<lparr>ac_status := Approved_Case, ac_workflow := [],
                ac_workflow_name := [], ac_run := [], ac_step := None, ac_agent := [],
                ac_change := Delete_Change, ac_details := [],
                ac_history_key := history_key_for [] (gs_id src) (gc_operation call),
                ac_decided_via := Some By_UI, ac_decided_by := by_name, ac_decided_by_id := by_id,
                ac_decided_at := Some now,
                ac_reason := ''Confirmed in the data source editor'' @ [CHR 0x27] @ ''s try run''\<rparr>
      in announce env now c (ap_create c s))"

definition find_open_case :: "approvals \<Rightarrow> string \<Rightarrow> string option \<Rightarrow> acase option" where
  "find_open_case s run step = (if run = [] then None else find_pending_for_run s run step)"

section \<open>Deciding\<close>

text \<open>What each way of closing writes on the claimed case.\<close>

definition decided_case ::
    "time \<Rightarrow> bool \<Rightarrow> decision_source \<Rightarrow> string \<Rightarrow> string \<Rightarrow> string \<Rightarrow> acase \<Rightarrow> acase" where
  "decided_case now ok via by_name by_id reason c =
     c\<lparr>ac_status := (if ok then Approved_Case else Rejected_Case), ac_decided_via := Some via,
       ac_decided_by := by_name, ac_decided_by_id := by_id, ac_decided_at := Some now,
       ac_reason := reason\<rparr>"

definition expired_case :: "time \<Rightarrow> string \<Rightarrow> acase \<Rightarrow> acase" where
  "expired_case now reason c =
     c\<lparr>ac_status := Expired_Case, ac_decided_via := Some By_Timeout, ac_decided_at := Some now,
       ac_reason := (if reason \<noteq> [] then reason else ''No decision within the approval timeout'')\<rparr>"

definition abandoned_case :: "time \<Rightarrow> string \<Rightarrow> acase \<Rightarrow> acase" where
  "abandoned_case now reason c =
     c\<lparr>ac_status := Cancelled_Case, ac_decided_via := Some By_Api, ac_decided_at := Some now,
       ac_reason := reason\<rparr>"

definition close_claimed ::
    "time \<Rightarrow> (acase \<Rightarrow> acase) \<Rightarrow> string \<Rightarrow> approvals \<Rightarrow> acase option \<times> approvals" where
  "close_claimed now f i s =
     (case claim_for_decision i s of
        (None, s) \<Rightarrow> (None, s)
      | (Some c, s) \<Rightarrow> let c = (f c)\<lparr>ac_updated := now\<rparr> in (Some c, ap_update now c s))"

definition decide ::
    "time \<Rightarrow> bool \<Rightarrow> decision_source \<Rightarrow> string \<Rightarrow> string \<Rightarrow> string \<Rightarrow> string \<Rightarrow> approvals \<Rightarrow>
     acase option \<times> approvals" where
  "decide now ok via by_name by_id reason i =
     close_claimed now (decided_case now ok via by_name by_id reason) i"

definition expire :: "time \<Rightarrow> string \<Rightarrow> string \<Rightarrow> approvals \<Rightarrow> acase option \<times> approvals" where
  "expire now reason i = close_claimed now (expired_case now reason) i"

definition abandon :: "time \<Rightarrow> string \<Rightarrow> string \<Rightarrow> approvals \<Rightarrow> acase option \<times> approvals" where
  "abandon now reason i = close_claimed now (abandoned_case now reason) i"

definition veto :: "time \<Rightarrow> string \<Rightarrow> string \<Rightarrow> approvals \<Rightarrow> acase option \<times> approvals" where
  "veto now by i s =
     (case ap_get s i of
        None \<Rightarrow> (None, s)
      | Some c \<Rightarrow>
          (case ac_veto_deadline c of
             None \<Rightarrow> (None, s)
           | Some deadline \<Rightarrow>
               if deadline < now then (None, s)
               else let c = c\<lparr>ac_status := Cancelled_Case, ac_vetoed_by := by,
                       ac_reason := ''Cancelled by '' @ (if by \<noteq> [] then by else ''a reviewer'') @
                                    '' during the veto window'',
                       ac_decided_at := Some now, ac_updated := now\<rparr>
                    in (Some c, ap_update now c s)))"

section \<open>Draining a run's cases\<close>

text \<open>The cases a claim could still take: what the loop uses up.\<close>

definition claimable_ids :: "approvals \<Rightarrow> string set" where
  "claimable_ids s = {i \<in> dict_keys (ap_cases s). claimable s i}"

lemma claimable_key: "claimable s i \<Longrightarrow> i \<in> dict_keys (ap_cases s)"
  by (auto simp: claimable_def ap_get_def split: option.splits dest: map_of_SomeD)
     (metis fst_conv image_eqI map_of_SomeD)

lemma claimable_ids_iff: "i \<in> claimable_ids s \<longleftrightarrow> claimable s i"
  using claimable_key by (auto simp: claimable_ids_def)

lemma close_claimed_claimable:
  assumes "close_claimed now f i s = (Some c', s')" and "\<And>c. ac_status (f c) \<noteq> Open_Case"
  shows "claimable s i" and "\<And>j. claimable s' j \<Longrightarrow> claimable s j \<and> j \<noteq> i"
proof -
  from assms(1) obtain c where c: "claim_for_decision i s = (Some c, s\<lparr>ap_claimed := i # ap_claimed s\<rparr>)"
    and s': "s' = ap_update now ((f c)\<lparr>ac_updated := now\<rparr>) (s\<lparr>ap_claimed := i # ap_claimed s\<rparr>)"
    by (auto simp: close_claimed_def Let_def split: prod.splits option.splits dest!: claim_Some)
  from claim_Some [OF c] show "claimable s i" by (simp add: claimable_def)
  show "claimable s j \<and> j \<noteq> i" if "claimable s' j" for j
    using that assms(2) [of c] by (auto simp: claimable_def s' split: option.splits if_splits)
qed

lemma close_claimed_shrinks:
  assumes "close_claimed now f i s = (Some c', s')" and "\<And>c. ac_status (f c) \<noteq> Open_Case"
  shows "card (claimable_ids s') < card (claimable_ids s)"
proof (rule psubset_card_mono)
  show "finite (claimable_ids s)" by (simp add: claimable_ids_def)
  have "i \<in> claimable_ids s" "i \<notin> claimable_ids s'" "claimable_ids s' \<subseteq> claimable_ids s"
    using close_claimed_claimable [OF assms] by (auto simp: claimable_ids_iff)
  then show "claimable_ids s' \<subset> claimable_ids s" by blast
qed

lemma abandon_shrinks:
  "(Some c', s') = abandon now reason i s \<Longrightarrow> card (claimable_ids s') < card (claimable_ids s)"
  by (rule close_claimed_shrinks [of now "abandoned_case now reason" i s c'])
     (simp_all add: abandon_def abandoned_case_def)

function drain_run :: "time \<Rightarrow> string \<Rightarrow> string \<Rightarrow> approvals \<Rightarrow> acase list \<times> approvals" where
  "drain_run now run reason s =
     (case find_open_case s run None of
        None \<Rightarrow> ([], s)
      | Some c \<Rightarrow>
          (case abandon now reason (ac_id c) s of
             (None, s) \<Rightarrow> ([], s)
           | (Some closed, s) \<Rightarrow>
               let (rest, s) = drain_run now run reason s in (closed # rest, s)))"
  by pat_completeness auto
termination
  by (relation "measure (\<lambda>(now, run, reason, s). card (claimable_ids s))") (auto intro: abandon_shrinks)

declare drain_run.simps [simp del]

definition cancel_open_for_run :: "time \<Rightarrow> string \<Rightarrow> string \<Rightarrow> approvals \<Rightarrow> acase list \<times> approvals" where
  "cancel_open_for_run now run reason s = (if run = [] then ([], s) else drain_run now run reason s)"

section \<open>Waiting\<close>

text \<open>One turn of \<^verbatim>\<open>wait_for_decision\<close>'s loop, on what the backend holds at \<open>now\<close>.\<close>

datatype turn = Gone | Decided acase | Await_Veto acase time | Expire | Sleep

definition wait_turn :: "time \<Rightarrow> time \<Rightarrow> acase option \<Rightarrow> turn" where
  "wait_turn deadline now found =
     (case found of
        None \<Rightarrow> Gone
      | Some c \<Rightarrow>
          (case (case_decided c, ac_veto_deadline c) of
             (True, None) \<Rightarrow> Decided c
           | (True, Some d) \<Rightarrow> Await_Veto c d
           | (False, _) \<Rightarrow> if deadline \<le> now then Expire else Sleep))"

text \<open>
  \<^verbatim>\<open>wait_out_veto\<close> over what the backend answers at the instants it is polled; the last answer
  is the read after the window.
\<close>

fun wait_out_veto :: "acase \<Rightarrow> (time \<times> acase option) list \<Rightarrow> acase" where
  "wait_out_veto c [] = c"
| "wait_out_veto c ((now, found) # later) =
     (case ac_veto_deadline c of
        None \<Rightarrow> c
      | Some deadline \<Rightarrow>
          if deadline \<le> now then (case found of None \<Rightarrow> c | Some f \<Rightarrow> f)
          else case found of
                 None \<Rightarrow> wait_out_veto c later
               | Some f \<Rightarrow> if ac_status f = Cancelled_Case then f else wait_out_veto f later)"

section \<open>One decision per case\<close>

text \<open>Any of the three ways to close a case, and the other writes of the service.\<close>

inductive approval_step :: "approvals \<Rightarrow> string option \<Rightarrow> approvals \<Rightarrow> bool" where
  opened: "ap_get s fresh = None \<Longrightarrow> fresh \<notin> set (ap_claimed s) \<Longrightarrow>
    open_case env fresh now src call s = (c, s') \<Longrightarrow> approval_step s None s'"
| confirmed: "ap_get s fresh = None \<Longrightarrow> fresh \<notin> set (ap_claimed s) \<Longrightarrow>
    record_confirmed env fresh now src call by_name by_id s = (c, s') \<Longrightarrow> approval_step s None s'"
| decided: "decide now ok via by_name by_id reason i s = (Some c, s') \<Longrightarrow> approval_step s (Some i) s'"
| expired: "expire now reason i s = (Some c, s') \<Longrightarrow> approval_step s (Some i) s'"
| abandoned: "abandon now reason i s = (Some c, s') \<Longrightarrow> approval_step s (Some i) s'"
| refused: "close_claimed now f i s = (None, s') \<Longrightarrow> approval_step s None s'"
| vetoed: "veto now by i s = (Some c, s') \<Longrightarrow> approval_step s None s'"

text \<open>The cases closed along a history.\<close>

inductive approval_run :: "approvals \<Rightarrow> string list \<Rightarrow> approvals \<Rightarrow> bool" where
  start: "approval_run s [] s"
| step: "approval_run s closed s1 \<Longrightarrow> approval_step s1 who s2 \<Longrightarrow>
    approval_run s (case who of None \<Rightarrow> closed | Some i \<Rightarrow> i # closed) s2"

lemma announce_claimed: "announce env now c s = (c', s') \<Longrightarrow> ap_claimed s' = ap_claimed s"
  by (auto simp: announce_def Let_def split: option.splits)

lemma open_case_claimed: "open_case env fresh now src call s = (c, s') \<Longrightarrow> ap_claimed s' = ap_claimed s"
  unfolding open_case_def Let_def by (drule announce_claimed) simp

lemma record_confirmed_claimed:
  "record_confirmed env fresh now src call n i s = (c, s') \<Longrightarrow> ap_claimed s' = ap_claimed s"
  unfolding record_confirmed_def Let_def by (drule announce_claimed) simp

lemma close_claimed_claims:
  "close_claimed now f i s = (Some c, s') \<Longrightarrow>
     i \<notin> set (ap_claimed s) \<and> ap_claimed s' = i # ap_claimed s"
  by (auto simp: close_claimed_def Let_def split: prod.splits option.splits dest!: claim_Some)

lemma close_claimed_refused: "close_claimed now f i s = (None, s') \<Longrightarrow> s' = s"
  by (auto simp: close_claimed_def Let_def split: prod.splits option.splits dest!: claim_None)

lemma veto_claimed: "veto now by i s = (Some c, s') \<Longrightarrow> ap_claimed s' = ap_claimed s"
  by (auto simp: veto_def Let_def split: option.splits if_splits)

lemma approval_step_claims:
  assumes "approval_step s who s'"
  shows "case who of None \<Rightarrow> ap_claimed s' = ap_claimed s
         | Some i \<Rightarrow> i \<notin> set (ap_claimed s) \<and> ap_claimed s' = i # ap_claimed s"
  using assms
  by (induction rule: approval_step.induct)
     (simp_all add: decide_def expire_def abandon_def open_case_claimed record_confirmed_claimed
        close_claimed_claims veto_claimed, frule close_claimed_refused, simp)


definition quiet_env :: approval_env where
  "quiet_env = \<lparr>ae_flow = (\<lambda>_. Some (''flow'', True)), ae_llm = (\<lambda>_ _ _. Some ''DECISION: APPROVE''),
     ae_model = ''m'', ae_post = (\<lambda>_. None), ae_threshold = 2, ae_veto_window = 60,
     ae_probation = 5\<rparr>"

definition example_source :: gate_source where
  "example_source = \<lparr>gs_id = ''crm'', gs_name = [], gs_tier2_write = (\<lambda>_. False)\<rparr>"

definition example_call :: "string \<Rightarrow> gate_call" where
  "example_call run = \<lparr>gc_operation = ''purge'', gc_method = ''delete'', gc_params = JObj [],
     gc_rows = 3, gc_targets = [''/x''], gc_sample = [], gc_workflow = ''flow'', gc_run = run,
     gc_step = None, gc_agent = [], gc_surface = On_Workflow, gc_change = ''delete'',
     gc_details = [], gc_rows_label = []\<rparr>"

definition no_approvals :: approvals where
  "no_approvals = \<lparr>ap_cases = [], ap_claimed = []\<rparr>"

text \<open>Two cases opened and approved by a person.\<close>

definition two_approved :: approvals where
  "two_approved = fold (\<lambda>i s. snd (decide 5 True By_UI ''ann'' [] [] i
       (snd (open_case quiet_env i 1 example_source (example_call ''r'') s)))) [''a'', ''b''] no_approvals"


end
