(* ===== verification/ApprovalGuarantees.thy ===== *)
theory ApprovalGuarantees
  imports Approvals
begin

text \<open>
  What the approval gate promises along every history of its operations: the shape of a stored
  case, what autonomy has to be earned with, how long a decision can be taken back, and that a dead
  run leaves nothing open.
\<close>

section \<open>The shape of stored cases\<close>

text \<open>
  An open case carries no decision, a closed one says who closed it, and only a decision of the
  meta-LLM has a veto window.
\<close>

definition case_shape :: "acase \<Rightarrow> bool" where
  "case_shape c =
     (if ac_status c = Open_Case
      then ac_decided_via c = None \<and> ac_decided_at c = None \<and> ac_veto_deadline c = None
      else ac_decided_via c \<noteq> None \<and> ac_decided_at c \<noteq> None \<and>
           (ac_veto_deadline c \<noteq> None \<longrightarrow> ac_decided_via c = Some By_Meta_Llm))"

definition gate_ok :: "approvals \<Rightarrow> bool" where
  "gate_ok s =
     (cases_ok s \<and> (\<forall>i c. ap_get s i = Some c \<longrightarrow> case_shape c) \<and>
      (\<forall>i \<in> set (ap_claimed s). \<exists>c. ap_get s i = Some c \<and> ac_status c \<noteq> Open_Case))"

lemma case_shape_stamps [simp]:
  "case_shape (c\<lparr>ac_updated := t\<rparr>) = case_shape c"
  "case_shape (c\<lparr>ac_slack_ts := a, ac_slack_channel := b, ac_updated := t\<rparr>) = case_shape c"
  "case_shape (c\<lparr>ac_meta := m\<rparr>) = case_shape c"
  by (simp_all add: case_shape_def)

lemma new_case_open [simp]:
  "ac_status (new_case env fresh now src call) = Open_Case" "case_shape (new_case env fresh now src call)"
  "ac_id (new_case env fresh now src call) = fresh" "ac_run (new_case env fresh now src call) = gc_run call"
  "ac_veto_deadline (new_case env fresh now src call) = None"
  by (simp_all add: new_case_def case_shape_def)

lemma autonomous_shape [simp]:
  "case_shape (apply_autonomous_decision env now v c)" "ac_id (apply_autonomous_decision env now v c) = ac_id c"
  "ac_run (apply_autonomous_decision env now v c) = ac_run c"
  by (simp_all add: apply_autonomous_decision_def case_shape_def Let_def)

lemma screen_case_shape:
  assumes "case_shape c"
  shows "case_shape (screen_case env now src s c) \<and> ac_id (screen_case env now src s c) = ac_id c \<and>
     ac_run (screen_case env now src s c) = ac_run c"
  using assms by (simp add: screen_case_def Let_def split: option.split)

lemma gate_ok_create:
  "gate_ok s \<Longrightarrow> case_shape c \<Longrightarrow> ac_id c \<notin> set (ap_claimed s) \<or> ac_status c \<noteq> Open_Case \<Longrightarrow>
   gate_ok (ap_create c s)"
  by (auto simp: gate_ok_def cases_ok_create)

lemma gate_ok_announce:
  assumes "announce env now c s = (c', s')" and "gate_ok s" and "case_shape c"
    and "ac_id c \<notin> set (ap_claimed s) \<or> ac_status c \<noteq> Open_Case"
  shows "gate_ok s'"
  using assms
  by (auto simp: announce_def Let_def ap_update_def case_shape_def intro!: gate_ok_create split: option.splits)

lemma gate_ok_open:
  assumes "open_case env fresh now src call s = (c, s')" and "gate_ok s" and "fresh \<notin> set (ap_claimed s)"
  shows "gate_ok s'"
proof -
  let ?c = "screen_case env now src s (new_case env fresh now src call)"
  have "case_shape ?c" "ac_id ?c = fresh"
    using screen_case_shape [of "new_case env fresh now src call"] by simp_all
  with assms show ?thesis
    unfolding open_case_def Let_def by (elim gate_ok_announce) (simp_all add: gate_ok_create)
qed

lemma gate_ok_confirmed:
  assumes "record_confirmed env fresh now src call n i s = (c, s')" and "gate_ok s"
    and "fresh \<notin> set (ap_claimed s)"
  shows "gate_ok s'"
  using assms unfolding record_confirmed_def Let_def
  by (elim gate_ok_announce) (simp_all add: gate_ok_create case_shape_def)

text \<open>What closing writes is closed, keeps the case's identity, and is shaped.\<close>

definition closes :: "(acase \<Rightarrow> acase) \<Rightarrow> bool" where
  "closes f = (\<forall>c. ac_id (f c) = ac_id c \<and> ac_run (f c) = ac_run c \<and> ac_status (f c) \<noteq> Open_Case \<and>
     (case_shape c \<longrightarrow> ac_status c = Open_Case \<longrightarrow> case_shape (f c)))"

lemma closes_intros [simp, intro]:
  "closes (decided_case now ok via n i r)" "closes (expired_case now r)" "closes (abandoned_case now r)"
  by (simp_all add: closes_def decided_case_def expired_case_def abandoned_case_def case_shape_def)

lemma close_claimed_Some:
  assumes "close_claimed now f i s = (Some c', s')"
  obtains c where "ap_get s i = Some c" "ac_status c = Open_Case" "c' = (f c)\<lparr>ac_updated := now\<rparr>"
    "s' = ap_update now c' (s\<lparr>ap_claimed := i # ap_claimed s\<rparr>)"
  using assms by (auto simp: close_claimed_def Let_def split: prod.splits option.splits dest!: claim_Some)

lemma gate_ok_close:
  assumes "close_claimed now f i s = (Some c', s')" and "gate_ok s" and "closes f"
  shows "gate_ok s'"
proof -
  from assms(1) obtain c where c: "ap_get s i = Some c" "ac_status c = Open_Case"
      "c' = (f c)\<lparr>ac_updated := now\<rparr>" "s' = ap_update now c' (s\<lparr>ap_claimed := i # ap_claimed s\<rparr>)"
    by (rule close_claimed_Some)
  from assms(2) c(1) have "ac_id c = i" "case_shape c" by (auto simp: gate_ok_def cases_ok_def)
  with assms(3) c have "ac_id c' = i" "case_shape c'" "ac_status c' \<noteq> Open_Case"
    by (simp_all add: closes_def)
  with assms(2) show ?thesis
    unfolding c(4) by (auto simp: gate_ok_def cases_ok_update)
qed

lemma veto_Some:
  assumes "veto now by i s = (Some c', s')"
  obtains c d where "ap_get s i = Some c" "ac_veto_deadline c = Some d" "now \<le> d"
    "ac_status c' = Cancelled_Case" "ac_decided_at c' = Some now" "ac_decided_via c' = ac_decided_via c"
    "ac_id c' = ac_id c" "ac_run c' = ac_run c" "ac_updated c' = now" "s' = ap_update now c' s"
  using assms by (auto simp: veto_def Let_def split: option.splits if_splits)

lemma gate_ok_veto:
  assumes "veto now by i s = (Some c', s')" and "gate_ok s"
  shows "gate_ok s'"
proof -
  from assms(1) obtain c d where c: "ap_get s i = Some c" "ac_veto_deadline c = Some d"
      "ac_status c' = Cancelled_Case" "ac_decided_at c' = Some now" "ac_decided_via c' = ac_decided_via c"
      "ac_id c' = ac_id c" "s' = ap_update now c' s"
    by (rule veto_Some)
  from assms(2) c(1) have "case_shape c" by (simp add: gate_ok_def)
  with c have "case_shape c'" by (auto simp: case_shape_def split: if_splits)
  with assms(2) c show ?thesis
    unfolding c(7) by (simp add: ap_update_def gate_ok_create)
qed

lemma gate_ok_step: "approval_step s who s' \<Longrightarrow> gate_ok s \<Longrightarrow> gate_ok s'"
proof (induction rule: approval_step.induct)
  case (refused now f i s s')
  then show ?case using close_claimed_refused by blast
qed (auto simp: decide_def expire_def abandon_def intro: gate_ok_open gate_ok_confirmed gate_ok_close
       gate_ok_veto)

lemma gate_ok_run: "approval_run s closed s' \<Longrightarrow> gate_ok s \<Longrightarrow> gate_ok s'"
  by (induction rule: approval_run.induct) (auto intro: gate_ok_step)

lemma gate_ok_none [simp]: "gate_ok no_approvals"
  by (simp add: no_approvals_def gate_ok_def cases_ok_def ap_get_def)

lemmas history_gate_ok = gate_ok_run [OF _ gate_ok_none]

section \<open>Autonomy\<close>

text \<open>A decision a person took, that way.\<close>

definition human_verdict :: "case_status option \<Rightarrow> acase \<Rightarrow> bool" where
  "human_verdict v c =
     (Some (ac_status c) = v \<and> ac_decided_via c \<noteq> Some By_Meta_Llm \<and>
      ac_status c \<in> {Approved_Case, Rejected_Case})"

lemma streak_from_Cons:
  "streak_from v n (c # cs) =
     (if human_verdict (Some (ac_status c)) c \<and> (v = None \<or> v = Some (ac_status c))
      then streak_from (Some (ac_status c)) (Suc n) cs else (v, n))"
  by (auto simp: human_verdict_def)

lemma streak_from_spec:
  "streak_from v n h = (w, m) \<Longrightarrow>
     \<exists>k. m = n + k \<and> k \<le> length h \<and> (\<forall>x \<in> set (take k h). human_verdict w x) \<and>
         (v \<noteq> None \<longrightarrow> w = v) \<and> (v = None \<longrightarrow> w \<noteq> None \<longrightarrow> 0 < k)"
proof (induction h arbitrary: v n)
  case (Cons c cs)
  show ?case
  proof (cases "human_verdict (Some (ac_status c)) c \<and> (v = None \<or> v = Some (ac_status c))")
    case True
    with Cons.prems have "streak_from (Some (ac_status c)) (Suc n) cs = (w, m)"
      by (simp only: streak_from_Cons if_True simp_thms)
    from Cons.IH [OF this] obtain k where "m = Suc n + k" "k \<le> length cs" "w = Some (ac_status c)"
      "\<forall>x \<in> set (take k cs). human_verdict w x" by blast
    with True show ?thesis by (intro exI [of _ "Suc k"]) auto
  next
    case False
    with Cons.prems have "v = w" "n = m" by (simp_all only: streak_from_Cons if_False prod.inject)
    then show ?thesis by (intro exI [of _ 0]) simp
  qed
qed simp

lemma ap_history_mem: "c \<in> set (ap_history s key k) \<Longrightarrow> in_history key c"
  by (auto simp: ap_history_def newest_first_def dest: in_set_takeD)

lemma announce_fields:
  "announce env now c s = (c', s') \<Longrightarrow>
     ac_status c' = ac_status c \<and> ac_veto_deadline c' = ac_veto_deadline c \<and> ac_id c' = ac_id c \<and>
     ac_decided_via c' = ac_decided_via c"
  by (auto simp: announce_def Let_def split: option.splits)

lemma consult_autonomous:
  assumes "consult_meta_llm env c h = Some v" and "vd_autonomous v"
  obtains n where "n \<le> length h" "1 \<le> n" "auto_threshold env \<le> int n"
    "meta_llm_enabled env (ac_workflow c)"
    "\<forall>x \<in> set (take n h). ac_decided_via x \<noteq> Some By_Meta_Llm \<and>
       ac_status x = (if vd_decision v = Approve then Approved_Case else Rejected_Case)"
    "vd_decision v \<in> {Approve, Reject}"
proof -
  obtain w n where s: "streak h = (w, n)" by (cases "streak h")
  from assms s have w: "w \<noteq> None" "auto_threshold env \<le> int n" "meta_llm_enabled env (ac_workflow c)"
      "vd_decision v = (if w = Some Approved_Case then Approve else Reject)"
    by (auto simp: consult_meta_llm_def Let_def split: if_splits option.splits)
  from streak_from_spec [OF s [unfolded streak_def]] w(1)
  have n: "n \<le> length h" "1 \<le> n" and h: "\<forall>x \<in> set (take n h). human_verdict w x"
    by auto
  have ne: "take n h \<noteq> []" using n by auto
  have "human_verdict w (hd (take n h))" using h hd_in_set [OF ne] by blast
  then have "w \<in> {Some Approved_Case, Some Rejected_Case}" by (auto simp: human_verdict_def)
  then have "w = Some (if vd_decision v = Approve then Approved_Case else Rejected_Case)"
    using w(4) by auto
  with h have "\<forall>x \<in> set (take n h). ac_decided_via x \<noteq> Some By_Meta_Llm \<and>
       ac_status x = (if vd_decision v = Approve then Approved_Case else Rejected_Case)"
    by (simp add: human_verdict_def)
  then show ?thesis using that [OF n w(2,3)] w(4) by simp
qed

lemma screen_autonomous:
  assumes "ac_status (screen_case env now src s c) \<noteq> Open_Case" and "ac_status c = Open_Case"
  obtains v where "consult_meta_llm env c (ap_history s (ac_history_key c) history_window) = Some v"
    "vd_autonomous v" "tier2_write_probation env s src (ac_operation c) = None"
    "screen_case env now src s c = apply_autonomous_decision env now v (c\<lparr>ac_meta := Some v\<rparr>)"
  using assms unfolding screen_case_def Let_def
  by (auto split: option.splits if_splits)



section \<open>Vetoes\<close>

text \<open>
  Only what the meta-LLM decided can be vetoed, only until its deadline, and a veto cancels that
  case and no other: a person's answer, once given, stands.
\<close>

theorem veto_only_of_autonomy:
  assumes "approval_run no_approvals closed s" and "veto now by i s = (Some c', s')"
  shows "(\<exists>c d. ap_get s i = Some c \<and> ac_decided_via c = Some By_Meta_Llm \<and>
            ac_veto_deadline c = Some d \<and> now \<le> d) \<and>
         ap_get s' i = Some c' \<and> ac_status c' = Cancelled_Case \<and> (\<forall>j. j \<noteq> i \<longrightarrow> ap_get s' j = ap_get s j)"
proof -
  from assms(2) obtain c d where c: "ap_get s i = Some c" "ac_veto_deadline c = Some d" "now \<le> d"
      "ac_status c' = Cancelled_Case" "ac_id c' = ac_id c" "ac_updated c' = now" "s' = ap_update now c' s"
    by (rule veto_Some)
  from history_gate_ok [OF assms(1)] c(1) have "ac_id c = i" "case_shape c"
    by (simp_all add: gate_ok_def cases_ok_def)
  with c show ?thesis by (auto simp: case_shape_def split: if_splits)
qed

text \<open>A history in which the meta-LLM takes over after two approvals.\<close>

definition autonomous_case :: "acase \<times> approvals" where
  "autonomous_case = open_case quiet_env ''c'' 9 example_source (example_call ''r'') two_approved"

lemma two_approved_run: "approval_run no_approvals [''b'', ''a''] two_approved"
proof -
  define o1 where "o1 = open_case quiet_env ''a'' 1 example_source (example_call ''r'') no_approvals"
  define d1 where "d1 = decide 5 True By_UI ''ann'' [] [] ''a'' (snd o1)"
  define o2 where "o2 = open_case quiet_env ''b'' 1 example_source (example_call ''r'') (snd d1)"
  define d2 where "d2 = decide 5 True By_UI ''ann'' [] [] ''b'' (snd o2)"
  have r1: "approval_run no_approvals [] (snd o1)"
    using approval_run.step [OF approval_run.start approval_step.opened [of no_approvals "''a''"
      quiet_env 1 example_source "example_call ''r''" "fst o1" "snd o1"]]
    by (simp add: o1_def ap_get_def no_approvals_def)
  have "fst d1 \<noteq> None" unfolding d1_def o1_def by code_simp
  then obtain c1 where "decide 5 True By_UI ''ann'' [] [] ''a'' (snd o1) = (Some c1, snd d1)"
    by (metis d1_def not_None_eq prod.collapse)
  with approval_run.step [OF r1 approval_step.decided] have r2: "approval_run no_approvals [''a''] (snd d1)"
    by fastforce
  have "ap_get (snd d1) ''b'' = None" "''b'' \<notin> set (ap_claimed (snd d1))"
    unfolding d1_def o1_def by code_simp+
  with approval_run.step [OF r2 approval_step.opened [of "snd d1" "''b''"
      quiet_env 1 example_source "example_call ''r''" "fst o2" "snd o2"]]
  have r3: "approval_run no_approvals [''a''] (snd o2)" by (simp add: o2_def)
  have "fst d2 \<noteq> None" unfolding d2_def o2_def d1_def o1_def by code_simp
  then obtain c2 where "decide 5 True By_UI ''ann'' [] [] ''b'' (snd o2) = (Some c2, snd d2)"
    by (metis d2_def not_None_eq prod.collapse)
  with approval_run.step [OF r3 approval_step.decided] have "approval_run no_approvals [''b'', ''a''] (snd d2)"
    by fastforce
  then show ?thesis by (simp add: two_approved_def d2_def o2_def d1_def o1_def)
qed

lemma autonomous_run: "approval_run no_approvals [''b'', ''a''] (snd autonomous_case)"
proof -
  have "ap_get two_approved ''c'' = None" "''c'' \<notin> set (ap_claimed two_approved)" by code_simp+
  from approval_run.step [OF two_approved_run approval_step.opened [OF this, of quiet_env 9 example_source
      "example_call ''r''" "fst autonomous_case" "snd autonomous_case"]]
  show ?thesis by (simp add: autonomous_case_def)
qed

theorem veto_only_of_autonomy_witness:
  "\<exists>c' s'. veto 10 ''bob'' ''c'' (snd autonomous_case) = (Some c', s') \<and> ac_status c' = Cancelled_Case"
proof -
  have "fst (veto 10 ''bob'' ''c'' (snd autonomous_case)) \<noteq> None" by code_simp
  then obtain c' where v: "veto 10 ''bob'' ''c'' (snd autonomous_case) =
      (Some c', snd (veto 10 ''bob'' ''c'' (snd autonomous_case)))"
    by (metis not_None_eq prod.collapse)
  from veto_only_of_autonomy [OF autonomous_run v] v show ?thesis by blast
qed

section \<open>A run that ends leaves nothing open\<close>

text \<open>Two states agree on a case unless it is an open one of the run.\<close>

definition same_but_run :: "string \<Rightarrow> approvals \<Rightarrow> approvals \<Rightarrow> bool" where
  "same_but_run run s s' =
     (\<forall>i. ap_get s' i = ap_get s i \<or>
        (\<exists>c c'. ap_get s i = Some c \<and> ac_run c = run \<and> ac_status c = Open_Case \<and>
           ap_get s' i = Some c' \<and> ac_run c' = run \<and> ac_status c' = Cancelled_Case))"

lemma same_but_run_refl: "same_but_run run s s"
  by (simp add: same_but_run_def)

lemma same_but_run_trans:
  assumes "same_but_run run s s1" and "same_but_run run s1 s2"
  shows "same_but_run run s s2"
  unfolding same_but_run_def
proof
  fix i
  show "ap_get s2 i = ap_get s i \<or>
        (\<exists>c c'. ap_get s i = Some c \<and> ac_run c = run \<and> ac_status c = Open_Case \<and>
           ap_get s2 i = Some c' \<and> ac_run c' = run \<and> ac_status c' = Cancelled_Case)"
  proof (cases "ap_get s1 i = ap_get s i")
    case True
    with assms(2) show ?thesis unfolding same_but_run_def by metis
  next
    case False
    with assms(1) obtain c c' where c: "ap_get s i = Some c" "ac_run c = run" "ac_status c = Open_Case"
        "ap_get s1 i = Some c'" "ac_run c' = run" "ac_status c' = Cancelled_Case"
      unfolding same_but_run_def by metis
    with assms(2) have "ap_get s2 i = ap_get s1 i"
      unfolding same_but_run_def by (metis case_status.distinct(7) option.inject)
    with c show ?thesis by auto
  qed
qed

lemma find_pending_Some:
  assumes "find_pending_for_run s run None = Some c" and "cases_ok s"
  shows "ap_get s (ac_id c) = Some c \<and> ac_run c = run \<and> ac_status c = Open_Case"
proof -
  have "c \<in> set (newest_first ac_created
      (filter (\<lambda>c. ac_run c = run \<and> ac_status c = Open_Case \<and> (None = None \<or> ac_step c = None)) (map snd (ap_cases s))))"
    using assms(1) by (auto simp: find_pending_for_run_def split: list.splits)
  then have "c \<in> set (map snd (ap_cases s))" "ac_run c = run" "ac_status c = Open_Case"
    by (simp_all add: newest_first_def)
  with cases_mem [OF assms(2)] show ?thesis by blast
qed

lemma find_pending_None:
  assumes "find_pending_for_run s run None = None" and "cases_ok s" and "ap_get s i = Some c"
  shows "ac_run c \<noteq> run \<or> ac_status c \<noteq> Open_Case"
proof -
  have "newest_first ac_created (filter (\<lambda>c. ac_run c = run \<and> ac_status c = Open_Case) (map snd (ap_cases s))) = []"
    using assms(1) by (auto simp: find_pending_for_run_def split: list.splits)
  then have "filter (\<lambda>c. ac_run c = run \<and> ac_status c = Open_Case) (map snd (ap_cases s)) = []"
    by (metis newest_first_def set_empty set_sort)
  moreover from assms(2,3) have "c \<in> set (map snd (ap_cases s))"
    using cases_mem by (metis cases_ok_def)
  ultimately show ?thesis by (auto simp: filter_empty_conv)
qed

lemma abandon_open:
  assumes "gate_ok s" and "ap_get s i = Some c" and "ac_status c = Open_Case"
  obtains c' s' where "abandon now reason i s = (Some c', s')"
proof -
  from assms have "i \<notin> set (ap_claimed s)" unfolding gate_ok_def by fastforce
  with assms that show ?thesis
    by (simp add: abandon_def close_claimed_def claim_for_decision_def Let_def)
qed

lemma abandon_same_but_run:
  assumes "abandon now reason i s = (Some c', s')" and "gate_ok s" and "ap_get s i = Some c"
    and "ac_run c = run"
  shows "gate_ok s' \<and> same_but_run run s s' \<and> ac_run c' = run \<and> ac_status c' = Cancelled_Case"
proof -
  from assms(1) obtain c0 where c: "ap_get s i = Some c0" "ac_status c0 = Open_Case"
      "c' = (abandoned_case now reason c0)\<lparr>ac_updated := now\<rparr>"
      "s' = ap_update now c' (s\<lparr>ap_claimed := i # ap_claimed s\<rparr>)"
    unfolding abandon_def by (rule close_claimed_Some)
  have "gate_ok s'"
    using assms(1,2) unfolding abandon_def by (rule gate_ok_close) simp
  moreover from assms(2) c(1) have "ac_id c0 = i" by (simp add: gate_ok_def cases_ok_def)
  ultimately show ?thesis
    using c assms(3,4) by (auto simp: same_but_run_def abandoned_case_def)
qed

lemma drain_run_spec:
  "drain_run now run reason s = (closed, s') \<Longrightarrow> gate_ok s \<Longrightarrow> run \<noteq> [] \<Longrightarrow>
     gate_ok s' \<and> find_pending_for_run s' run None = None \<and> same_but_run run s s' \<and>
     (\<forall>c \<in> set closed. ac_run c = run \<and> ac_status c = Cancelled_Case)"
proof (induction now run reason s arbitrary: closed s' rule: drain_run.induct)
  case (1 now run reason s)
  show ?case
  proof (cases "find_pending_for_run s run None")
    case None
    with 1 show ?thesis
      by (subst (asm) drain_run.simps) (simp add: find_open_case_def same_but_run_refl)
  next
    case (Some c)
    from 1(3) have "cases_ok s" by (simp add: gate_ok_def)
    from find_pending_Some [OF Some this] have c: "ap_get s (ac_id c) = Some c" "ac_run c = run"
      "ac_status c = Open_Case" by simp_all
    from abandon_open [OF 1(3) c(1,3)] obtain c' s1 where a: "abandon now reason (ac_id c) s = (Some c', s1)"
      by blast
    from abandon_same_but_run [OF a 1(3) c(1,2)]
    have s1: "gate_ok s1" "same_but_run run s s1" "ac_run c' = run" "ac_status c' = Cancelled_Case"
      by simp_all
    obtain rest s2 where r: "drain_run now run reason s1 = (rest, s2)" by (cases "drain_run now run reason s1")
    have f: "find_open_case s run None = Some c" using Some 1(4) by (simp add: find_open_case_def)
    from 1(1) [OF f a [symmetric] refl r s1(1) 1(4)]
    have "gate_ok s2 \<and> find_pending_for_run s2 run None = None \<and> same_but_run run s1 s2 \<and>
        (\<forall>c \<in> set rest. ac_run c = run \<and> ac_status c = Cancelled_Case)" by simp
    moreover from 1(2) have "closed = c' # rest" "s' = s2"
      by (subst (asm) (1) drain_run.simps, simp add: f a r)+
    ultimately show ?thesis using s1 same_but_run_trans by auto
  qed
qed



section \<open>Try runs\<close>

lemma filter_values_update:
  "\<not> P v \<Longrightarrow> (\<And>x. map_of d k = Some x \<Longrightarrow> \<not> P x) \<Longrightarrow>
     filter P (map snd (AList.update k v d)) = filter P (map snd d)"
  by (induction d) auto

lemma ap_history_create:
  "\<not> in_history key c \<Longrightarrow> (\<And>x. ap_get s (ac_id c) = Some x \<Longrightarrow> \<not> in_history key x) \<Longrightarrow>
     ap_history (ap_create c s) key n = ap_history s key n"
  by (simp add: ap_history_def ap_create_def ap_get_def filter_values_update)

lemma try_run_history:
  assumes "ac_surface c = On_Try_Run" and "\<And>x. ap_get s (ac_id c) = Some x \<Longrightarrow> ac_surface x = On_Try_Run"
  shows "ap_history (ap_create c s) key n = ap_history s key n"
  by (rule ap_history_create) (use assms in \<open>auto simp: in_history_def\<close>)

text \<open>
  A deletion somebody confirmed in the editor's try run earns no trust: the history the meta-LLM
  is given, and so its streak, is the same before and after, for every bucket.
\<close>

theorem try_run_earns_no_streak:
  assumes "ap_get s fresh = None" and "gc_surface call = On_Try_Run"
    and "record_confirmed env fresh now src call by_name by_id s = (c, s')"
  shows "ap_history s' key n = ap_history s key n"
proof -
  define c0 where "c0 = (new_case env fresh now src call)\<lparr>ac_status := Approved_Case, ac_workflow := [],
                ac_workflow_name := [], ac_run := [], ac_step := None, ac_agent := [],
                ac_change := Delete_Change, ac_details := [],
                ac_history_key := history_key_for [] (gs_id src) (gc_operation call),
                ac_decided_via := Some By_UI, ac_decided_by := by_name, ac_decided_by_id := by_id,
                ac_decided_at := Some now,
                ac_reason := ''Confirmed in the data source editor'' @ [CHR 0x27] @ ''s try run''\<rparr>"
  have c0: "ac_id c0 = fresh" "ac_surface c0 = On_Try_Run"
    using assms(2) by (simp_all add: c0_def new_case_def)
  have "announce env now c0 (ap_create c0 s) = (c, s')"
    using assms(3) by (simp add: record_confirmed_def Let_def c0_def)
  moreover have create: "ap_history (ap_create c0 s) key n = ap_history s key n"
    by (rule try_run_history) (use c0 assms(1) in auto)
  moreover have "ap_history (ap_update now (c0\<lparr>ac_slack_ts := a, ac_slack_channel := b, ac_updated := now\<rparr>)
      (ap_create c0 s)) key n = ap_history (ap_create c0 s) key n" for a b
    unfolding ap_update_def by (rule try_run_history) (use c0 in auto)
  ultimately show ?thesis by (auto simp: announce_def Let_def split: option.splits)
qed

theorem try_run_earns_no_streak_witness:
  "\<exists>c s'. record_confirmed quiet_env ''t'' 7 example_source ((example_call [])\<lparr>gc_surface := On_Try_Run\<rparr>)
      ''ann'' [] two_approved = (c, s') \<and>
    streak (ap_history s' (history_key_for ''flow'' ''crm'' ''purge'') history_window) = (Some Approved_Case, 2)"
proof -
  let ?call = "(example_call [])\<lparr>gc_surface := On_Try_Run\<rparr>"
  obtain c s' where r: "record_confirmed quiet_env ''t'' 7 example_source ?call ''ann'' [] two_approved = (c, s')"
    by (cases "record_confirmed quiet_env ''t'' 7 example_source ?call ''ann'' [] two_approved")
  have "ap_get two_approved ''t'' = None" by code_simp
  from try_run_earns_no_streak [OF this _ r] 
  have "ap_history s' (history_key_for ''flow'' ''crm'' ''purge'') history_window =
      ap_history two_approved (history_key_for ''flow'' ''crm'' ''purge'') history_window" by simp
  moreover have "streak (ap_history two_approved (history_key_for ''flow'' ''crm'' ''purge'') history_window) =
      (Some Approved_Case, 2)" by code_simp
  ultimately show ?thesis using r by simp
qed

text \<open>
  The probation of a generated write counts them, though: one confirmation in the try run ends a
  probation of one.
\<close>

definition tier2_source :: gate_source where
  "tier2_source = example_source\<lparr>gs_tier2_write := (\<lambda>_. True)\<rparr>"

lemma probation_counts_try_runs:
  "tier2_write_probation (quiet_env\<lparr>ae_probation := 1\<rparr>) no_approvals tier2_source ''purge'' = Some 0 \<and>
   tier2_write_probation (quiet_env\<lparr>ae_probation := 1\<rparr>)
     (snd (record_confirmed quiet_env ''t'' 7 tier2_source ((example_call [])\<lparr>gc_surface := On_Try_Run\<rparr>)
        ''ann'' [] no_approvals)) tier2_source ''purge'' = None"
  by code_simp

text \<open>
  A waiter whose deadline has passed and who loses the claim to an approval is told nothing: the
  approval between its last look and its \<^verbatim>\<open>expire\<close> is lost on it.
\<close>

lemma late_approval_is_lost:
  "let s = snd (open_case quiet_env ''a'' 1 example_source (example_call ''r'') no_approvals);
       (answer, s') = decide 5 True By_UI ''ann'' [] [] ''a'' s
   in wait_turn 4 4 (ap_get s ''a'') = Expire \<and> map_option ac_status answer = Some Approved_Case \<and>
      fst (expire 5 [] ''a'' s') = None"
  by code_simp

end
