(* ===== verification/StepEdges.thy ===== *)
theory StepEdges
  imports Json "HOL-Library.List_Lexorder" "HOL-Library.Char_ord" "HOL-Library.Product_Lexorder"
begin

text \<open>
  The edges of a step list: \<^verbatim>\<open>app/application/step_normalization.py\<close>, which writes the
  implicit ones down, and the edge builder of \<^verbatim>\<open>YamlGraphRunner._build\<close>
  (\<^verbatim>\<open>app/infrastructure/orchestration/yaml_graph.py\<close>), which decides what runs.  Steps are
  JSON objects; equality of ids is that of JSON values.
\<close>

text \<open>
  \<open>Malformed\<close>: a \<^verbatim>\<open>KeyError\<close>, \<^verbatim>\<open>TypeError\<close> or \<^verbatim>\<open>AttributeError\<close> on
  a step list of the wrong shape.
\<close>

datatype edge_error = Malformed | Too_Many_Routes json

definition end_marker :: json where
  "end_marker = JStr ''END''"

definition hashable :: "json \<Rightarrow> bool" where
  "hashable v = (case v of JList _ \<Rightarrow> False | JObj _ \<Rightarrow> False | _ \<Rightarrow> True)"

text \<open>\<^verbatim>\<open>v or []\<close>, iterated over.\<close>

definition items :: "json \<Rightarrow> edge_error + json list" where
  "items v =
     (if \<not> jtrue v then Inr [] else case jiter v of None \<Rightarrow> Inl Malformed | Some xs \<Rightarrow> Inr xs)"

definition in_ids :: "json \<Rightarrow> json list \<Rightarrow> edge_error + bool" where
  "in_ids v ids = (if hashable v then Inr (v \<in> set ids) else Inl Malformed)"

section \<open>Normalisation\<close>

definition is_parallel :: "jobj \<Rightarrow> bool" where
  "is_parallel d = (jget d ''type'' = JStr ''parallel'')"

definition declares_an_edge :: "jobj \<Rightarrow> bool" where
  "declares_an_edge d =
     (if is_parallel d then jtrue (jget d ''targets'')
      else jtrue (jget d ''next'') \<or> jtrue (jget d ''routes''))"

text \<open>The ids of the entries that are steps: objects with a truthy id, in order.\<close>

fun step_ids :: "json list \<Rightarrow> json list" where
  "step_ids [] = []"
| "step_ids (JObj d # rest) =
     (if jtrue (jget d ''id'') then jget d ''id'' # step_ids rest else step_ids rest)"
| "step_ids (_ # rest) = step_ids rest"

text \<open>The id of the next step, or \<^verbatim>\<open>"END"\<close> after the last one.\<close>

definition following :: "json list \<Rightarrow> json" where
  "following rest = (case step_ids rest of [] \<Rightarrow> end_marker | i # _ \<Rightarrow> i)"

definition write_edge :: "json \<Rightarrow> jobj \<Rightarrow> jobj" where
  "write_edge dest d =
     (if is_parallel d then AList.update ''targets'' (JList [dest]) d
      else AList.update ''next'' dest d)"

fun normalize_edges :: "json list \<Rightarrow> json list" where
  "normalize_edges [] = []"
| "normalize_edges (JObj d # rest) =
     JObj (if jtrue (jget d ''id'') \<and> \<not> declares_an_edge d then write_edge (following rest) d else d) #
     normalize_edges rest"
| "normalize_edges (v # rest) = v # normalize_edges rest"

text \<open>The destinations one step states, of those that are steps.\<close>

definition route_dest :: "json list \<Rightarrow> json \<Rightarrow> edge_error + json list" where
  "route_dest ids route =
     (case route of
        JObj r \<Rightarrow>
          (case jget r ''next'' of
             JStr t \<Rightarrow> Inr (if JStr t \<in> set ids then [JStr t] else [])
           | _ \<Rightarrow> Inr [])
      | _ \<Rightarrow> Inl Malformed)"

definition stated_dests :: "json list \<Rightarrow> jobj \<Rightarrow> edge_error + json list" where
  "stated_dests ids d =
     (if is_parallel d then
        bindE (items (jget d ''targets'')) (collectE (\<lambda>t.
          bindE (in_ids t ids) (\<lambda>known. Inr (if known then [t] else []))))
      else
        bindE (items (jget d ''routes'')) (\<lambda>routes.
        bindE (collectE (route_dest ids) routes) (\<lambda>dests.
          Inr (dests @ (case jget d ''next'' of
                          JStr t \<Rightarrow> (if JStr t \<in> set ids then [JStr t] else [])
                        | _ \<Rightarrow> [])))))"

definition step_edges :: "json list \<Rightarrow> json \<Rightarrow> edge_error + (json \<times> json) list" where
  "step_edges ids v =
     (case v of
        JObj d \<Rightarrow>
          (if jtrue (jget d ''id'')
           then bindE (stated_dests ids d) (\<lambda>dests. Inr (map (Pair (jget d ''id'')) dests))
           else Inr [])
      | _ \<Rightarrow> Inr [])"

text \<open>A set of edges, kept as a list without repetitions.\<close>

definition declared_edges :: "json list \<Rightarrow> edge_error + (json \<times> json) list" where
  "declared_edges steps =
     (let ids = step_ids steps
      in if \<not> list_all hashable ids then Inl Malformed
         else bindE (collectE (step_edges ids) steps) (\<lambda>edges. Inr (remdups edges)))"

text \<open>Sorting compares the ids as strings, which they are in any step list a caller can sort.\<close>

definition id_text :: "json \<Rightarrow> string" where
  "id_text v = (case v of JStr s \<Rightarrow> s | _ \<Rightarrow> [])"

definition implicit_edges :: "json list \<Rightarrow> edge_error + (json \<times> json) list" where
  "implicit_edges steps =
     bindE (declared_edges (normalize_edges steps)) (\<lambda>all_edges.
     bindE (declared_edges steps) (\<lambda>stated.
       Inr (sort_key (\<lambda>(a, b). (id_text a, id_text b)) (filter (\<lambda>e. e \<notin> set stated) all_edges))))"

section \<open>What the engine wires\<close>

datatype target = To json | Graph_End

text \<open>
  Unconditional edges; a router over its destinations; the router of a
  \<^verbatim>\<open>proceed_or\<close>, which lets the first arrival through.
\<close>

datatype wiring = Direct "target list" | Routed "(json \<times> target) list" | Proceed json

definition resolve :: "json list \<Rightarrow> json \<Rightarrow> edge_error + target" where
  "resolve ids v = bindE (in_ids v ids) (\<lambda>known. Inr (if known then To v else Graph_End))"

definition fall_through :: "json option \<Rightarrow> target" where
  "fall_through follow = (case follow of None \<Rightarrow> Graph_End | Some i \<Rightarrow> To i)"

definition wire_parallel :: "json list \<Rightarrow> json option \<Rightarrow> jobj \<Rightarrow> edge_error + wiring" where
  "wire_parallel ids follow d =
     bindE (items (jget d ''targets'')) (\<lambda>targets.
     bindE (collectE (\<lambda>t. bindE (resolve ids t) (\<lambda>r. Inr [r])) targets) (\<lambda>rs.
       Inr (Direct (if targets = [] then [fall_through follow] else rs))))"

text \<open>\<^verbatim>\<open>routes[0].get("next")\<close>, or \<^verbatim>\<open>None\<close> without routes.\<close>

definition first_route_next :: "json \<Rightarrow> edge_error + json" where
  "first_route_next routes =
     (if \<not> jtrue routes then Inr JNull
      else case routes of JList (JObj r # _) \<Rightarrow> Inr (jget r ''next'') | _ \<Rightarrow> Inl Malformed)"

definition wire_proceed :: "json list \<Rightarrow> json option \<Rightarrow> jobj \<Rightarrow> edge_error + wiring" where
  "wire_proceed ids follow d =
     bindE (if jtrue (jget d ''next'') then Inr (jget d ''next'') else first_route_next (jget d ''routes'')) (\<lambda>dest.
     bindE (if jtrue dest then in_ids dest ids else Inr False) (\<lambda>known.
       let dest = (if known then Some dest else follow)
       in Inr (case dest of
                 None \<Rightarrow> Direct [Graph_End]
               | Some t \<Rightarrow> if jtrue t \<and> t \<in> set ids then Proceed t else Direct [Graph_End])))"

definition multi_output :: "json \<Rightarrow> bool" where
  "multi_output t =
     (t \<in> {JStr ''switch'', JStr ''langgraph-agent'', JStr ''claude-agent'', JStr ''human_approval''})"

definition route_obj :: "json \<Rightarrow> edge_error + jobj list" where
  "route_obj route = (case route of JObj r \<Rightarrow> Inr [r] | _ \<Rightarrow> Inl Malformed)"

definition has_key :: "string \<Rightarrow> jobj \<Rightarrow> bool" where
  "has_key k r = (map_of r k \<noteq> None)"

definition wire_routes :: "json list \<Rightarrow> jobj \<Rightarrow> jobj list \<Rightarrow> edge_error + wiring" where
  "wire_routes ids d routes =
     (if \<not> hashable (jget d ''type'') then Inl Malformed
      else if \<not> multi_output (jget d ''type'') \<and> 1 < length routes
           then Inl (Too_Many_Routes (jget d ''id''))
      else if length routes = 1 \<and> \<not> has_key ''when'' (hd routes) \<and>
              \<not> list_ex (\<lambda>r. jtrue (jget r ''wait_seconds'')) routes
           then (if \<not> has_key ''next'' (hd routes) then Inl Malformed
                 else bindE (resolve ids (jget (hd routes) ''next'')) (\<lambda>t. Inr (Direct [t])))
      else bindE (collectE (\<lambda>r. bindE (resolve ids (jget r ''next'')) (\<lambda>t. Inr [(jget r ''next'', t)]))
                   (filter (has_key ''next'') routes)) (\<lambda>m. Inr (Routed m)))"

definition wire_step :: "json list \<Rightarrow> json option \<Rightarrow> jobj \<Rightarrow> edge_error + wiring" where
  "wire_step ids follow d =
     (if is_parallel d then wire_parallel ids follow d
      else if jget d ''type'' = JStr ''proceed_or'' then wire_proceed ids follow d
      else if jtrue (jget d ''routes'') then
        bindE (items (jget d ''routes'')) (\<lambda>rs.
        bindE (collectE route_obj rs) (wire_routes ids d))
      else if jtrue (jget d ''next'') then
        bindE (resolve ids (jget d ''next'')) (\<lambda>t. Inr (Direct [t]))
      else Inr (Direct [fall_through follow]))"

text \<open>\<^verbatim>\<open>s["id"]\<close> of every step.\<close>

definition step_id :: "json \<Rightarrow> edge_error + json list" where
  "step_id v =
     (case v of JObj d \<Rightarrow> (if has_key ''id'' d then Inr [jget d ''id''] else Inl Malformed) | _ \<Rightarrow> Inl Malformed)"

definition next_id :: "json list \<Rightarrow> json option" where
  "next_id rest = (case rest of JObj d # _ \<Rightarrow> Some (jget d ''id'') | _ \<Rightarrow> None)"

fun wire_steps :: "json list \<Rightarrow> json list \<Rightarrow> edge_error + (json \<times> wiring) list" where
  "wire_steps ids [] = Inr []"
| "wire_steps ids (JObj d # rest) =
     bindE (wire_step ids (next_id rest) d) (\<lambda>w.
     bindE (wire_steps ids rest) (\<lambda>ws. Inr ((jget d ''id'', w) # ws)))"
| "wire_steps ids (_ # rest) = Inl Malformed"

text \<open>The edge from the start, and what leaves each step.\<close>

definition build_edges :: "json list \<Rightarrow> edge_error + target \<times> (json \<times> wiring) list" where
  "build_edges steps =
     bindE (collectE step_id steps) (\<lambda>ids.
       if \<not> list_all hashable ids then Inl Malformed
       else bindE (wire_steps ids steps) (\<lambda>ws.
         Inr (case ids of [] \<Rightarrow> Graph_End | i # _ \<Rightarrow> To i, ws)))"

section \<open>Normalisation changes no meaning\<close>

text \<open>Steps a definition can hold: objects with an id to name them by.\<close>

definition step_ok :: "json \<Rightarrow> bool" where
  "step_ok v = (case v of JObj d \<Rightarrow> jtrue (jget d ''id'') \<and> hashable (jget d ''id'') | _ \<Rightarrow> False)"

lemma end_marker_simps [simp]: "jtrue end_marker" "hashable end_marker"
  by (simp_all add: end_marker_def hashable_def)

lemma jget_written [simp]:
  "jget (write_edge e d) k =
     (if k = (if is_parallel d then ''targets'' else ''next'')
      then (if is_parallel d then JList [e] else e) else jget d k)"
  by (simp add: write_edge_def)

lemma is_parallel_written [simp]: "is_parallel (write_edge e d) = is_parallel d"
  by (simp add: is_parallel_def)

lemma following_true [simp]: "jtrue (following rest)"
proof -
  have "i \<in> set (step_ids rest) \<Longrightarrow> jtrue i" for i
    by (induction rest rule: step_ids.induct) (auto split: if_splits)
  then show ?thesis by (auto simp: following_def split: list.split)
qed

lemma step_ids_normalize [simp]: "step_ids (normalize_edges steps) = step_ids steps"
  by (induction steps rule: normalize_edges.induct) auto

lemma following_normalize [simp]: "following (normalize_edges rest) = following rest"
  by (simp add: following_def)

lemma normalize_Cons:
  "normalize_edges (v # rest) =
     (case v of JObj d \<Rightarrow>
        JObj (if jtrue (jget d ''id'') \<and> \<not> declares_an_edge d then write_edge (following rest) d else d)
      | _ \<Rightarrow> v) # normalize_edges rest"
  by (cases v) auto

text \<open>
  Writing the implicit edges down is done once: normalising a normalised step list changes
  nothing, and then every step that has an id declares where it goes.
\<close>

theorem normalize_idempotent:
  "normalize_edges (normalize_edges steps) = normalize_edges steps \<and>
   (\<forall>d. JObj d \<in> set (normalize_edges steps) \<longrightarrow> jtrue (jget d ''id'') \<longrightarrow> declares_an_edge d)"
proof (induction steps)
  case (Cons v rest)
  have written: "declares_an_edge (write_edge (following rest) d)" for d
    by (simp add: declares_an_edge_def)
  with Cons show ?case
    by (cases v) (auto simp: normalize_Cons)
qed simp

theorem normalize_idempotent_witness:
  "normalize_edges (normalize_edges [JObj [(''id'', JStr ''a'')], JObj [(''id'', JStr ''b'')]]) =
   [JObj [(''id'', JStr ''a''), (''next'', JStr ''b'')], JObj [(''id'', JStr ''b''), (''next'', JStr ''END'')]]"
  using conjunct1 [OF normalize_idempotent [of "[JObj [(''id'', JStr ''a'')], JObj [(''id'', JStr ''b'')]]"]]
  by (simp add: declares_an_edge_def is_parallel_def write_edge_def following_def end_marker_def)

lemma step_ok_D: "step_ok v \<Longrightarrow> \<exists>d. v = JObj d \<and> jtrue (jget d ''id'') \<and> hashable (jget d ''id'')"
  by (cases v) (simp_all add: step_ok_def)

lemma steps_ok_ids:
  "list_all step_ok steps \<Longrightarrow> collectE step_id steps = Inr (step_ids steps) \<and>
     list_all hashable (step_ids steps) \<and> list_all jtrue (step_ids steps)"
proof (induction steps)
  case (Cons v steps)
  then obtain d where "v = JObj d" "jtrue (jget d ''id'')" "hashable (jget d ''id'')"
    using step_ok_D by auto
  with Cons show ?case
    by (auto simp: step_id_def has_key_def jget_def split: option.splits)
qed simp

lemma steps_ok_normalize: "list_all step_ok steps \<Longrightarrow> list_all step_ok (normalize_edges steps)"
proof (induction steps)
  case (Cons v steps)
  then obtain d where "v = JObj d" using step_ok_D by auto
  with Cons show ?case by (auto simp: step_ok_def)
qed simp

lemma following_next_id:
  assumes "list_all step_ok rest"
  shows "following rest = (case next_id rest of None \<Rightarrow> end_marker | Some i \<Rightarrow> i) \<and>
     (\<forall>i. next_id rest = Some i \<longrightarrow> i \<in> set (step_ids rest))"
proof (cases rest)
  case (Cons v vs)
  with assms obtain d where "v = JObj d" "jtrue (jget d ''id'')" using step_ok_D by auto
  with Cons show ?thesis by (simp add: following_def next_id_def)
qed (simp add: following_def next_id_def)

lemma next_id_normalize [simp]: "next_id (normalize_edges rest) = next_id rest"
  by (cases rest rule: normalize_edges.cases) (auto simp: next_id_def)

lemma wire_written:
  assumes "\<not> declares_an_edge d" and "end_marker \<notin> set ids"
    and "\<And>i. follow = Some i \<Longrightarrow> i \<in> set ids \<and> jtrue i \<and> hashable i"
  shows "wire_step ids follow (write_edge (case follow of None \<Rightarrow> end_marker | Some i \<Rightarrow> i) d) =
         wire_step ids follow d"
proof (cases "is_parallel d")
  case True
  with assms show ?thesis
    by (cases follow) (auto simp: wire_step_def wire_parallel_def declares_an_edge_def items_def
        resolve_def in_ids_def fall_through_def)
next
  case False
  with assms show ?thesis
    by (cases follow) (auto simp: wire_step_def wire_proceed_def first_route_next_def declares_an_edge_def
        resolve_def in_ids_def fall_through_def)
qed

lemma wire_steps_normalize:
  assumes "list_all step_ok steps" and "end_marker \<notin> set ids" and "set (step_ids steps) \<subseteq> set ids"
    and "list_all hashable ids" and "list_all jtrue ids"
  shows "wire_steps ids (normalize_edges steps) = wire_steps ids steps"
  using assms
proof (induction steps)
  case (Cons v rest)
  then obtain d where v: "v = JObj d" "jtrue (jget d ''id'')" using step_ok_D by auto
  with Cons have rest: "list_all step_ok rest" "set (step_ids rest) \<subseteq> set ids" by auto
  note follow = following_next_id [OF rest(1)]
  have "wire_step ids (next_id rest) (write_edge (following rest) d) = wire_step ids (next_id rest) d"
    if "\<not> declares_an_edge d"
    unfolding conjunct1 [OF follow]
    by (rule wire_written [OF that Cons.prems(2)])
       (use follow rest Cons.prems in \<open>auto simp: list_all_iff\<close>)
  with Cons v rest show ?case by auto
qed simp

text \<open>
  C5: Normalisation never changes what a definition means: the graph the engine builds from the
  normalised steps is the one it builds from the steps as written (the same edges, routers and
  refusals), provided every step has an id and none is called like the end marker.
\<close>

theorem normalize_keeps_meaning:
  assumes "list_all step_ok steps" and "end_marker \<notin> set (step_ids steps)"
  shows "build_edges (normalize_edges steps) = build_edges steps"
  using assms steps_ok_ids [OF assms(1)] steps_ok_ids [OF steps_ok_normalize [OF assms(1)]]
  by (simp add: build_edges_def wire_steps_normalize)

definition example_steps :: "json list" where
  "example_steps =
     [JObj [(''id'', JStr ''fan''), (''type'', JStr ''parallel''), (''targets'', JList [JStr ''a'', JStr ''b''])],
      JObj [(''id'', JStr ''a''), (''next'', JStr ''c'')], JObj [(''id'', JStr ''b'')], JObj [(''id'', JStr ''c'')]]"

theorem normalize_keeps_meaning_witness:
  "build_edges (normalize_edges example_steps) =
   Inr (To (JStr ''fan''), [(JStr ''fan'', Direct [To (JStr ''a''), To (JStr ''b'')]),
        (JStr ''a'', Direct [To (JStr ''c'')]), (JStr ''b'', Direct [To (JStr ''c'')]), (JStr ''c'', Direct [Graph_End])])"
proof -
  have "list_all step_ok example_steps" "end_marker \<notin> set (step_ids example_steps)" by code_simp+
  from normalize_keeps_meaning [OF this] show ?thesis by (simp only:) code_simp
qed

section \<open>The graph drawn is the graph run\<close>

text \<open>The steps that can run after one, as wired.\<close>

definition wired :: "wiring \<Rightarrow> json set" where
  "wired w = (case w of Direct ts \<Rightarrow> {t. To t \<in> set ts} | Routed m \<Rightarrow> {t. To t \<in> snd ` set m} | Proceed t \<Rightarrow> {t})"

text \<open>
  A step that states its edges one way: not both routes and a next step, and a
  \<^verbatim>\<open>proceed_or\<close> that names a step or nothing.
\<close>

definition plain_step :: "json list \<Rightarrow> json \<Rightarrow> bool" where
  "plain_step ids v =
     (case v of
        JObj d \<Rightarrow> is_parallel d \<or>
          (\<not> (jtrue (jget d ''routes'') \<and> jtrue (jget d ''next'')) \<and>
           (jget d ''type'' = JStr ''proceed_or'' \<longrightarrow>
              \<not> jtrue (jget d ''routes'') \<and> (jtrue (jget d ''next'') \<longrightarrow> jget d ''next'' \<in> set ids)))
      | _ \<Rightarrow> False)"

definition is_text :: "json \<Rightarrow> bool" where
  "is_text v = (case v of JStr s \<Rightarrow> s \<noteq> [] | _ \<Rightarrow> False)"

lemma in_ids_Inr: "in_ids t ids = Inr b \<longleftrightarrow> hashable t \<and> b = (t \<in> set ids)"
  by (auto simp: in_ids_def)

lemma resolve_Inr: "resolve ids t = Inr r \<longleftrightarrow> hashable t \<and> r = (if t \<in> set ids then To t else Graph_End)"
  by (auto simp: resolve_def bindE_Inr_iff in_ids_Inr)

lemma collect_known:
  "collectE (\<lambda>t. bindE (in_ids t ids) (\<lambda>known. Inr (if known then [t] else []))) ts = Inr ds \<Longrightarrow>
     ds = filter (\<lambda>t. t \<in> set ids) ts"
  by (induction ts arbitrary: ds) (auto simp: bindE_Inr_iff in_ids_Inr)

lemma collect_resolved:
  "collectE (\<lambda>t. bindE (resolve ids t) (\<lambda>r. Inr [r])) ts = Inr rs \<Longrightarrow>
     rs = map (\<lambda>t. if t \<in> set ids then To t else Graph_End) ts"
  by (induction ts arbitrary: rs) (auto simp: bindE_Inr_iff resolve_Inr)

lemma collect_route_objs: "collectE route_obj rs = Inr os \<Longrightarrow> rs = map JObj os"
  by (induction rs arbitrary: os) (auto simp: bindE_Inr_iff route_obj_def split: json.splits)

lemma collect_route_dests:
  assumes "list_all is_text ids" and "collectE (route_dest ids) (map JObj os) = Inr ds"
  shows "set ds = {t \<in> set ids. \<exists>r \<in> set os. jget r ''next'' = t}"
  using assms(2)
proof (induction os arbitrary: ds)
  case (Cons r os)
  then obtain a b where ab: "route_dest ids (JObj r) = Inr a" "collectE (route_dest ids) (map JObj os) = Inr b"
      "ds = a @ b" by (auto simp: bindE_Inr_iff)
  have "set a = {t \<in> set ids. jget r ''next'' = t}"
    using ab(1) assms(1) by (cases "jget r ''next''") (auto simp: route_dest_def list_all_iff is_text_def)
  with Cons.IH [OF ab(2)] ab(3) show ?case by auto
qed simp

lemma collect_route_map:
  "collectE (\<lambda>r. bindE (resolve ids (jget r ''next'')) (\<lambda>t. Inr [(jget r ''next'', t)])) os = Inr m \<Longrightarrow>
     {t. To t \<in> snd ` set m} = {t \<in> set ids. \<exists>r \<in> set os. jget r ''next'' = t}"
proof (induction os arbitrary: m)
  case (Cons r os)
  then obtain b where b: "collectE (\<lambda>r. bindE (resolve ids (jget r ''next'')) (\<lambda>t. Inr [(jget r ''next'', t)])) os = Inr b"
      "m = (jget r ''next'', if jget r ''next'' \<in> set ids then To (jget r ''next'') else Graph_End) # b"
    by (auto simp: bindE_Inr_iff resolve_Inr)
  from Cons.IH [OF b(1)] b(2) show ?case by auto
qed simp

lemma text_ids:
  assumes "list_all is_text ids" and "t \<in> set ids"
  shows "jtrue t \<and> hashable t \<and> (\<exists>s. t = JStr s)"
  using assms by (cases t) (auto simp: list_all_iff is_text_def hashable_def)

lemma wire_routes_wired:
  assumes "wire_routes ids d os = Inr w" and "list_all is_text ids"
  shows "wired w = {t \<in> set ids. \<exists>r \<in> set os. jget r ''next'' = t}"
proof -
  have keyed: "has_key ''next'' r" if "jget r ''next'' \<in> set ids" for r
    using text_ids [OF assms(2) that] by (auto simp: has_key_def jget_def split: option.splits)
  show ?thesis
  proof (cases "length os = 1 \<and> \<not> has_key ''when'' (hd os) \<and> \<not> list_ex (\<lambda>r. jtrue (jget r ''wait_seconds'')) os")
    case True
    then obtain r where "os = [r]" by (cases os) auto
    with True assms(1) show ?thesis
      by (auto simp: wire_routes_def bindE_Inr_iff resolve_Inr wired_def split: if_splits)
  next
    case False
    with assms(1) obtain m where m: "w = Routed m"
        "collectE (\<lambda>r. bindE (resolve ids (jget r ''next'')) (\<lambda>t. Inr [(jget r ''next'', t)]))
           (filter (has_key ''next'') os) = Inr m"
      unfolding wire_routes_def by (auto simp: bindE_Inr_iff split: if_splits)
    from collect_route_map [OF m(2)] m(1) keyed show ?thesis by (auto simp: wired_def)
  qed
qed

text \<open>What one step states is what is wired for it, once its edge is written.\<close>

lemma stated_parallel:
  assumes "stated_dests ids d = Inr ds" and "wire_step ids follow d = Inr w" and "is_parallel d"
    and "jtrue (jget d ''targets'')"
  shows "wired w = set ds"
proof -
  from assms obtain ts where ts: "items (jget d ''targets'') = Inr ts" "ds = filter (\<lambda>t. t \<in> set ids) ts"
    by (auto simp: stated_dests_def bindE_Inr_iff dest: collect_known)
  have "ts \<noteq> []" using ts(1) assms(4)
    by (cases "jget d ''targets''") (auto simp: items_def)
  with assms(2,3) ts show ?thesis
    by (auto simp: wire_step_def wire_parallel_def bindE_Inr_iff wired_def dest!: collect_resolved)
qed

lemma stated_routes:
  assumes "stated_dests ids d = Inr ds" and "wire_step ids follow d = Inr w" and "\<not> is_parallel d"
    and "jget d ''type'' \<noteq> JStr ''proceed_or''" and "jtrue (jget d ''routes'')"
    and "\<not> jtrue (jget d ''next'')" and "list_all is_text ids"
  shows "wired w = set ds"
proof -
  have no_next: "jget d ''next'' \<notin> set ids" using text_ids [OF assms(7)] assms(6) by blast
  from assms(1,3) no_next obtain rs dests where rs: "items (jget d ''routes'') = Inr rs"
      "collectE (route_dest ids) rs = Inr dests" "ds = dests"
    by (auto simp: stated_dests_def bindE_Inr_iff split: json.splits if_splits)
  from assms(2-5) rs(1) obtain os where os: "collectE route_obj rs = Inr os" "wire_routes ids d os = Inr w"
    by (auto simp: wire_step_def bindE_Inr_iff)
  from collect_route_objs [OF os(1)] rs(2) have "collectE (route_dest ids) (map JObj os) = Inr dests" by simp
  from collect_route_dests [OF assms(7) this] wire_routes_wired [OF os(2) assms(7)] rs(3)
  show ?thesis by simp
qed

lemma stated_next:
  assumes "stated_dests ids d = Inr ds" and "wire_step ids follow d = Inr w" and "\<not> is_parallel d"
    and "\<not> jtrue (jget d ''routes'')" and "jtrue (jget d ''next'')"
    and "jget d ''type'' = JStr ''proceed_or'' \<Longrightarrow> jget d ''next'' \<in> set ids \<or> follow = None"
    and "list_all is_text ids"
  shows "wired w = set ds"
proof -
  have "items (jget d ''routes'') = Inr []" using assms(4) by (simp add: items_def)
  with assms(1,3) have ds: "set ds = {t \<in> set ids. jget d ''next'' = t}"
    using text_ids [OF assms(7)]
    by (cases "jget d ''next''") (auto simp: stated_dests_def split: if_splits)
  from assms(2-6) have "wired w = {t \<in> set ids. jget d ''next'' = t}"
    by (cases "jget d ''type'' = JStr ''proceed_or''"; cases "jget d ''next'' \<in> set ids")
      (auto simp: wire_step_def wire_proceed_def bindE_Inr_iff in_ids_Inr resolve_Inr wired_def Let_def)
  with ds show ?thesis by simp
qed

lemma stated_is_wired:
  assumes "stated_dests ids d = Inr ds" and "wire_step ids follow d = Inr w" and "declares_an_edge d"
    and "plain_step ids (JObj d) \<or> (\<not> is_parallel d \<and> \<not> jtrue (jget d ''routes'') \<and> follow = None)"
    and "list_all is_text ids"
  shows "wired w = set ds"
proof (cases "is_parallel d")
  case True
  with assms stated_parallel show ?thesis by (simp add: declares_an_edge_def)
next
  case False
  show ?thesis
  proof (cases "jtrue (jget d ''routes'')")
    case True
    with False assms(4) have "\<not> jtrue (jget d ''next'')" "jget d ''type'' \<noteq> JStr ''proceed_or''"
      by (auto simp: plain_step_def)
    with stated_routes [OF assms(1,2) False] True assms(5) show ?thesis by simp
  next
    case no_routes: False
    with False assms(3) have next_true: "jtrue (jget d ''next'')" by (simp add: declares_an_edge_def)
    show ?thesis
      by (rule stated_next [OF assms(1,2) False no_routes next_true _ assms(5)])
         (use assms(4) False next_true in \<open>auto simp: plain_step_def\<close>)
  qed
qed

lemma step_edges_wired:
  assumes "step_edges ids (JObj (if declares_an_edge d then d else write_edge dest d)) = Inr es"
    and "wire_step ids follow d = Inr w" and "plain_step ids (JObj d)" and "jtrue (jget d ''id'')"
    and "dest = (case follow of None \<Rightarrow> end_marker | Some i \<Rightarrow> i)"
    and "\<And>i. follow = Some i \<Longrightarrow> i \<in> set ids" and "list_all is_text ids" and "end_marker \<notin> set ids"
  shows "set es = Pair (jget d ''id'') ` wired w"
proof -
  let ?d = "if declares_an_edge d then d else write_edge dest d"
  have dest: "jtrue dest" "hashable dest"
    using assms(5-7) text_ids [OF assms(7)] by (auto split: option.splits)
  have id: "jget ?d ''id'' = jget d ''id''" by simp
  from assms(1,4) id obtain ds where ds: "stated_dests ids ?d = Inr ds" "es = map (Pair (jget d ''id'')) ds"
    by (auto simp: step_edges_def bindE_Inr_iff split: if_splits)
  have "wired w = set ds"
  proof (cases "declares_an_edge d")
    case True
    with stated_is_wired [OF _ assms(2) True _ assms(7)] ds assms(3) show ?thesis by simp
  next
    case False
    have "wire_step ids follow (write_edge dest d) = Inr w"
      unfolding assms(5)
      by (subst wire_written [OF False assms(8)])
         (use assms(2,6) text_ids [OF assms(7)] in auto)
    moreover have "declares_an_edge (write_edge dest d)" using dest by (simp add: declares_an_edge_def)
    moreover have "plain_step ids (JObj (write_edge dest d)) \<or>
        (\<not> is_parallel d \<and> \<not> jtrue (jget d ''routes'') \<and> follow = None)"
      using False assms(3,5,6) by (cases follow) (auto simp: plain_step_def declares_an_edge_def)
    ultimately show ?thesis
      using stated_is_wired [of ids "write_edge dest d" ds follow w] ds False assms(7)
      by (simp split: if_splits)
  qed
  with ds(2) show ?thesis by simp
qed

lemma all_edges_wired:
  assumes "list_all step_ok steps" and "list_all (plain_step ids) steps" and "list_all is_text ids"
    and "end_marker \<notin> set ids" and "set (step_ids steps) \<subseteq> set ids"
    and "collectE (step_edges ids) (normalize_edges steps) = Inr es" and "wire_steps ids steps = Inr ws"
  shows "set es = (\<Union>(s, w) \<in> set ws. Pair s ` wired w)"
  using assms
proof (induction steps arbitrary: es ws)
  case (Cons v rest)
  from Cons.prems(1) have "step_ok v" by simp
  from step_ok_D [OF this] obtain d where v: "v = JObj d" "jtrue (jget d ''id'')" by blast
  let ?d = "if declares_an_edge d then d else write_edge (following rest) d"
  from Cons.prems(6) v obtain a b where es: "step_edges ids (JObj ?d) = Inr a"
      "collectE (step_edges ids) (normalize_edges rest) = Inr b" "es = a @ b"
    by (auto simp: bindE_Inr_iff split: if_splits)
  from Cons.prems(7) v obtain w ws' where ws: "wire_step ids (next_id rest) d = Inr w"
      "wire_steps ids rest = Inr ws'" "ws = (jget d ''id'', w) # ws'"
    by (auto simp: bindE_Inr_iff)
  from Cons.prems v have rest: "list_all step_ok rest" "set (step_ids rest) \<subseteq> set ids"
      "list_all (plain_step ids) rest" "plain_step ids (JObj d)" by auto
  note follow = following_next_id [OF rest(1)]
  have "set a = Pair (jget d ''id'') ` wired w"
    by (rule step_edges_wired [OF es(1) ws(1) rest(4) v(2) conjunct1 [OF follow] _ Cons.prems(3,4)])
       (use follow rest(2) in auto)
  with Cons.IH [OF rest(1,3) Cons.prems(3,4) rest(2) es(2) ws(2)] es(3) ws(3) show ?case by simp
qed simp

text \<open>
  The graph the API draws is the graph that runs: the edges declared by the normalised steps are
  exactly the step-to-step edges the engine wires, for steps named by strings other than the end
  marker that state their edges one way.
\<close>

theorem drawn_graph_runs:
  assumes "list_all step_ok steps" and "list_all is_text (step_ids steps)"
    and "end_marker \<notin> set (step_ids steps)" and "list_all (plain_step (step_ids steps)) steps"
    and "declared_edges (normalize_edges steps) = Inr es" and "build_edges steps = Inr (entry, ws)"
  shows "set es = {(s, t). \<exists>w. (s, w) \<in> set ws \<and> t \<in> wired w}"
proof -
  have ids: "collectE step_id steps = Inr (step_ids steps)" using steps_ok_ids [OF assms(1)] by simp
  from assms(5) obtain all where es: "collectE (step_edges (step_ids steps)) (normalize_edges steps) = Inr all"
      "set es = set all"
    by (auto simp: declared_edges_def Let_def bindE_Inr_iff split: if_splits)
  from assms(6) ids have "wire_steps (step_ids steps) steps = Inr ws"
    by (auto simp: build_edges_def bindE_Inr_iff split: if_splits)
  from all_edges_wired [OF assms(1,4,2,3) _ es(1) this] es(2)
  have "set es = (\<Union>(s, w) \<in> set ws. Pair s ` wired w)" by simp
  then show ?thesis by auto
qed

theorem drawn_graph_runs_witness:
  "\<exists>es entry ws. declared_edges (normalize_edges example_steps) = Inr es \<and>
     build_edges example_steps = Inr (entry, ws) \<and> (JStr ''b'', JStr ''c'') \<in> set es"
proof -
  have ok: "list_all step_ok example_steps" "list_all is_text (step_ids example_steps)"
    "end_marker \<notin> set (step_ids example_steps)" "list_all (plain_step (step_ids example_steps)) example_steps"
    by code_simp+
  have d: "declared_edges (normalize_edges example_steps) =
      Inr [(JStr ''fan'', JStr ''a''), (JStr ''fan'', JStr ''b''), (JStr ''a'', JStr ''c''), (JStr ''b'', JStr ''c'')]"
    by code_simp
  have b: "build_edges example_steps = Inr (To (JStr ''fan''), [(JStr ''fan'', Direct [To (JStr ''a''), To (JStr ''b'')]),
      (JStr ''a'', Direct [To (JStr ''c'')]), (JStr ''b'', Direct [To (JStr ''c'')]), (JStr ''c'', Direct [Graph_End])])"
    by code_simp
  from drawn_graph_runs [OF ok d b] have "(JStr ''b'', JStr ''c'') \<in>
      set [(JStr ''fan'', JStr ''a''), (JStr ''fan'', JStr ''b''), (JStr ''a'', JStr ''c''), (JStr ''b'', JStr ''c'')]"
    by (auto simp: wired_def)
  with d b show ?thesis by blast
qed

text \<open>
  Where the drawing and the run part: a \<^verbatim>\<open>proceed_or\<close> sent to the end is wired to the
  next step in the list, and a next step beside routes is drawn and never taken.
\<close>

definition ending_gate :: "json list" where
  "ending_gate =
     [JObj [(''id'', JStr ''gate''), (''type'', JStr ''proceed_or''), (''next'', JStr ''END'')],
      JObj [(''id'', JStr ''tail''), (''next'', JStr ''END'')]]"

lemma proceed_or_cannot_end:
  "declared_edges (normalize_edges ending_gate) = Inr [] \<and>
   build_edges ending_gate = Inr (To (JStr ''gate''), [(JStr ''gate'', Proceed (JStr ''tail'')), (JStr ''tail'', Direct [Graph_End])])"
  by (intro conjI) code_simp+

definition two_ways :: "json list" where
  "two_ways =
     [JObj [(''id'', JStr ''s''), (''type'', JStr ''switch''), (''next'', JStr ''a''),
        (''routes'', JList [JObj [(''next'', JStr ''b'')]])],
      JObj [(''id'', JStr ''a''), (''next'', JStr ''END'')], JObj [(''id'', JStr ''b''), (''next'', JStr ''END'')]]"

lemma next_beside_routes_is_drawn_only:
  "declared_edges two_ways = Inr [(JStr ''s'', JStr ''b''), (JStr ''s'', JStr ''a'')] \<and>
   map_option wired (case build_edges two_ways of Inr (_, ws) \<Rightarrow> map_of ws (JStr ''s'') | Inl _ \<Rightarrow> None) = Some {JStr ''b''}"
proof
  have "build_edges two_ways = Inr (To (JStr ''s''), [(JStr ''s'', Direct [To (JStr ''b'')]),
      (JStr ''a'', Direct [Graph_End]), (JStr ''b'', Direct [Graph_End])])" by code_simp
  then show "map_option wired (case build_edges two_ways of Inr (_, ws) \<Rightarrow> map_of ws (JStr ''s'') | Inl _ \<Rightarrow> None) = Some {JStr ''b''}"
    by (simp add: wired_def)
qed code_simp

end
