(* ===== verification/JsonText.thy ===== *)
theory JsonText
  imports Json
begin

text \<open>
  JSON as text: \<^verbatim>\<open>json.dumps\<close>, on one line and with \<^verbatim>\<open>indent=2\<close>, and \<^verbatim>\<open>json.loads\<close>, as the sources use
  them for files, tokens and prompts.  Below code point 128 \<^verbatim>\<open>ensure_ascii\<close> changes nothing.  A float keeps
  its text, which on what \<^verbatim>\<open>dumps\<close> wrote is what \<^verbatim>\<open>float\<close> and \<^verbatim>\<open>repr\<close> make of it.
\<close>

section \<open>Writing\<close>

definition dump_char :: "char \<Rightarrow> string" where
  "dump_char c =
     (let n = of_char c :: nat; bs = CHR 0x5C
      in if n = 34 \<or> n = 92 then [bs, c]
         else if n = 10 then [bs, CHR ''n'']
         else if n = 13 then [bs, CHR ''r'']
         else if n = 9 then [bs, CHR ''t'']
         else if n = 8 then [bs, CHR ''b'']
         else if n = 12 then [bs, CHR ''f'']
         else if n < 32 then [bs, CHR ''u'', CHR ''0'', CHR ''0'', hex_digit (n div 16), hex_digit (n mod 16)]
         else [c])"

definition dump_str :: "string \<Rightarrow> string" where
  "dump_str s = [CHR 0x22] @ List.maps dump_char s @ [CHR 0x22]"

definition dump_float :: "string \<Rightarrow> string" where
  "dump_float r =
     (if r = ''nan'' then ''NaN'' else if r = ''inf'' then ''Infinity''
      else if r = ''-inf'' then ''-Infinity'' else r)"

fun dumps :: "json \<Rightarrow> string" where
  "dumps JNull = ''null''"
| "dumps (JBool b) = (if b then ''true'' else ''false'')"
| "dumps (JInt i) = int_digits i"
| "dumps (JFloat r) = dump_float r"
| "dumps (JStr s) = dump_str s"
| "dumps (JList xs) = ''['' @ join '', '' (map dumps xs) @ '']''"
| "dumps (JObj kvs) = ''{'' @ join '', '' (map (\<lambda>(k, v). dump_str k @ '': '' @ dumps v) kvs) @ ''}''"

text \<open>\<^verbatim>\<open>indent=2\<close>: \<open>d\<close> is the depth.\<close>

definition margin :: "nat \<Rightarrow> string" where
  "margin d = CHR 0x0A # replicate (2 * d) (CHR '' '')"

fun dumps_indent :: "nat \<Rightarrow> json \<Rightarrow> string" where
  "dumps_indent d (JList xs) =
     (if xs = [] then ''[]''
      else ''['' @ margin (Suc d) @ join ('','' @ margin (Suc d)) (map (dumps_indent (Suc d)) xs) @ margin d @ '']'')"
| "dumps_indent d (JObj kvs) =
     (if kvs = [] then ''{}''
      else ''{'' @ margin (Suc d)
        @ join ('','' @ margin (Suc d)) (map (\<lambda>(k, v). dump_str k @ '': '' @ dumps_indent (Suc d) v) kvs)
        @ margin d @ ''}'')"
| "dumps_indent d v = dumps v"

section \<open>Reading\<close>

definition is_ws :: "char \<Rightarrow> bool" where
  "is_ws c \<longleftrightarrow> c \<in> set [CHR '' '', CHR 0x09, CHR 0x0A, CHR 0x0D]"

abbreviation skip_ws :: "string \<Rightarrow> string" where "skip_ws \<equiv> dropWhile is_ws"

definition hex_val :: "char \<Rightarrow> nat option" where
  "hex_val c =
     (let n = of_char c :: nat
      in if 48 \<le> n \<and> n \<le> 57 then Some (n - 48)
         else if 97 \<le> n \<and> n \<le> 102 then Some (n - 87)
         else if 65 \<le> n \<and> n \<le> 70 then Some (n - 55) else None)"

fun hex_num :: "string \<Rightarrow> nat \<Rightarrow> nat option" where
  "hex_num [] acc = Some acc"
| "hex_num (c # cs) acc = (case hex_val c of None \<Rightarrow> None | Some v \<Rightarrow> hex_num cs (16 * acc + v))"

definition escaped :: "char \<Rightarrow> char option" where
  "escaped e =
     map_of [(CHR 0x22, CHR 0x22), (CHR 0x5C, CHR 0x5C), (CHR ''/'', CHR ''/''), (CHR ''b'', CHR 0x08),
       (CHR ''f'', CHR 0x0C), (CHR ''n'', CHR 0x0A), (CHR ''r'', CHR 0x0D), (CHR ''t'', CHR 0x09)] e"

text \<open>
  The rest of a string literal after its opening quote.  A control character ends in an error, as does
  an escape of a character beyond code point 255, which strings here do not have.
\<close>

fun read_chars :: "string \<Rightarrow> (string \<times> string) option" where
  "read_chars [] = None"
| "read_chars (c # cs) =
     (if c = CHR 0x22 then Some ([], cs)
      else if c = CHR 0x5C then
        (case cs of
           [] \<Rightarrow> None
         | e # r \<Rightarrow>
             if e = CHR ''u'' then
               (case r of
                  h1 # h2 # h3 # h4 # r' \<Rightarrow>
                    (case hex_num [h1, h2, h3, h4] 0 of
                       None \<Rightarrow> None
                     | Some n \<Rightarrow> if n < 256 then map_option (apfst (Cons (char_of n))) (read_chars r') else None)
                | _ \<Rightarrow> None)
             else (case escaped e of
                     None \<Rightarrow> None
                   | Some x \<Rightarrow> map_option (apfst (Cons x)) (read_chars r)))
      else if of_char c < (32 :: nat) then None
      else map_option (apfst (Cons c)) (read_chars cs))"

definition digits_val :: "string \<Rightarrow> nat" where
  "digits_val s = foldl (\<lambda>acc c. 10 * acc + (of_char c - 48)) 0 s"

definition whole_part :: "string \<Rightarrow> string" where
  "whole_part s = (case s of [] \<Rightarrow> [] | c # r \<Rightarrow> if c = CHR ''0'' then [c] else takeWhile is_digit s)"

definition fraction_part :: "string \<Rightarrow> string" where
  "fraction_part s =
     (case s of [] \<Rightarrow> []
      | c # r \<Rightarrow> if c = CHR ''.'' \<and> takeWhile is_digit r \<noteq> [] then c # takeWhile is_digit r else [])"

definition exponent_part :: "string \<Rightarrow> string" where
  "exponent_part s =
     (case s of [] \<Rightarrow> []
      | c # r \<Rightarrow>
          if c = CHR ''e'' \<or> c = CHR ''E'' then
            (let sign = (case r of [] \<Rightarrow> [] | x # _ \<Rightarrow> if x = CHR ''+'' \<or> x = CHR ''-'' then [x] else []);
                 ds = takeWhile is_digit (drop (length sign) r)
             in if ds = [] then [] else c # sign @ ds)
          else [])"

definition number_of :: "bool \<Rightarrow> string \<Rightarrow> string \<Rightarrow> string \<Rightarrow> string \<Rightarrow> (json \<times> string) option" where
  "number_of neg whole frac ex rest =
     (if whole = [] then None
      else if frac = [] \<and> ex = [] then
        Some (JInt (if neg then - int (digits_val whole) else int (digits_val whole)), rest)
      else Some (JFloat ((if neg then ''-'' else []) @ whole @ frac @ ex), rest))"

definition read_number :: "string \<Rightarrow> (json \<times> string) option" where
  "read_number s =
     (let neg = starts_with ''-'' s;
          s1 = (if neg then tl s else s);
          whole = whole_part s1;
          s2 = drop (length whole) s1;
          frac = fraction_part s2;
          s3 = drop (length frac) s2;
          ex = exponent_part s3
      in number_of neg whole frac ex (drop (length ex) s3))"

definition literals :: "(string \<times> json) list" where
  "literals = [(''null'', JNull), (''true'', JBool True), (''false'', JBool False),
     (''NaN'', JFloat ''nan''), (''Infinity'', JFloat ''inf''), (''-Infinity'', JFloat ''-inf'')]"

definition read_atom :: "string \<Rightarrow> (json \<times> string) option" where
  "read_atom s =
     (case find (\<lambda>(w, _). starts_with w s) literals of
        Some (w, v) \<Rightarrow> Some (v, drop (length w) s)
      | None \<Rightarrow> read_number s)"

text \<open>A dictionary keeps the first place of a key and the last value.\<close>

definition dict_of :: "(string \<times> 'v) list \<Rightarrow> 'v dict" where
  "dict_of kvs = fold (\<lambda>(k, v) d. AList.update k v d) kvs []"

text \<open>The number bounds the depth of the calls; \<open>loads\<close> gives twice as many as the text has characters.\<close>

fun read_value :: "nat \<Rightarrow> string \<Rightarrow> (json \<times> string) option"
  and read_items :: "nat \<Rightarrow> string \<Rightarrow> (json list \<times> string) option"
  and read_members :: "nat \<Rightarrow> string \<Rightarrow> ((string \<times> json) list \<times> string) option" where
  "read_value 0 s = None"
| "read_value (Suc n) s =
     (case skip_ws s of
        [] \<Rightarrow> None
      | c # r \<Rightarrow>
          if c = CHR 0x22 then map_option (apfst JStr) (read_chars r)
          else if c = CHR ''['' then
            (if starts_with '']'' (skip_ws r) then Some (JList [], tl (skip_ws r))
             else map_option (apfst JList) (read_items n r))
          else if c = CHR ''{'' then
            (if starts_with ''}'' (skip_ws r) then Some (JObj [], tl (skip_ws r))
             else map_option (apfst (\<lambda>kvs. JObj (dict_of kvs))) (read_members n r))
          else read_atom (c # r))"
| "read_items 0 s = None"
| "read_items (Suc n) s =
     (case read_value n s of
        None \<Rightarrow> None
      | Some (v, r) \<Rightarrow>
          (case skip_ws r of
             [] \<Rightarrow> None
           | c # r' \<Rightarrow>
               if c = CHR '']'' then Some ([v], r')
               else if c = CHR '','' then map_option (apfst (Cons v)) (read_items n r')
               else None))"
| "read_members 0 s = None"
| "read_members (Suc n) s =
     (case skip_ws s of
        [] \<Rightarrow> None
      | q # r0 \<Rightarrow>
          if q \<noteq> CHR 0x22 then None
          else (case read_chars r0 of
             None \<Rightarrow> None
           | Some (k, r1) \<Rightarrow>
               if \<not> starts_with '':'' (skip_ws r1) then None
               else (case read_value n (tl (skip_ws r1)) of
                  None \<Rightarrow> None
                | Some (v, r) \<Rightarrow>
                    (case skip_ws r of
                       [] \<Rightarrow> None
                     | c # r' \<Rightarrow>
                         if c = CHR ''}'' then Some ([(k, v)], r')
                         else if c = CHR '','' then map_option (apfst (Cons (k, v))) (read_members n r')
                         else None))))"

definition loads :: "string \<Rightarrow> json option" where
  "loads s =
     (case read_value (Suc (2 * length s)) s of
        None \<Rightarrow> None
      | Some (v, r) \<Rightarrow> if skip_ws r = [] then Some v else None)"


section \<open>Reading what was written\<close>

lemma special_codes:
  "of_char c = (34 :: nat) \<longleftrightarrow> c = CHR 0x22" "of_char c = (92 :: nat) \<longleftrightarrow> c = CHR 0x5C"
  "of_char c = (10 :: nat) \<longleftrightarrow> c = CHR 0x0A" "of_char c = (13 :: nat) \<longleftrightarrow> c = CHR 0x0D"
  "of_char c = (9 :: nat) \<longleftrightarrow> c = CHR 0x09" "of_char c = (8 :: nat) \<longleftrightarrow> c = CHR 0x08"
  "of_char c = (12 :: nat) \<longleftrightarrow> c = CHR 0x0C"
proof -
  have code: "of_char c = n \<longleftrightarrow> c = d" if "of_char d = n" for d and n :: nat
    using that of_char_eq_iff by metis
  show "of_char c = (34 :: nat) \<longleftrightarrow> c = CHR 0x22" "of_char c = (92 :: nat) \<longleftrightarrow> c = CHR 0x5C"
    "of_char c = (10 :: nat) \<longleftrightarrow> c = CHR 0x0A" "of_char c = (13 :: nat) \<longleftrightarrow> c = CHR 0x0D"
    "of_char c = (9 :: nat) \<longleftrightarrow> c = CHR 0x09" "of_char c = (8 :: nat) \<longleftrightarrow> c = CHR 0x08"
    "of_char c = (12 :: nat) \<longleftrightarrow> c = CHR 0x0C"
    by (rule code, simp)+
qed

lemma hex_num_byte:
  assumes "n < 256"
  shows "hex_num [CHR ''0'', CHR ''0'', hex_digit (n div 16), hex_digit (n mod 16)] 0 = Some n"
proof -
  have hex: "hex_val (hex_digit m) = Some m" if "m < 16" for m
    using that by (auto simp: hex_val_def hex_digit_def Let_def)
  have "hex_val (CHR ''0'') = Some 0" by code_simp
  with assms hex show ?thesis by simp
qed

lemma short_escapes:
  "dump_char (CHR 0x22) = [CHR 0x5C, CHR 0x22]" "dump_char (CHR 0x5C) = [CHR 0x5C, CHR 0x5C]"
  "dump_char (CHR 0x0A) = [CHR 0x5C, CHR ''n'']" "dump_char (CHR 0x0D) = [CHR 0x5C, CHR ''r'']"
  "dump_char (CHR 0x09) = [CHR 0x5C, CHR ''t'']" "dump_char (CHR 0x08) = [CHR 0x5C, CHR ''b'']"
  "dump_char (CHR 0x0C) = [CHR 0x5C, CHR ''f'']"
  by code_simp+

lemma read_chars_dump_char: "read_chars (dump_char c @ t) = map_option (apfst (Cons c)) (read_chars t)"
proof -
  consider "c \<in> set [CHR 0x22, CHR 0x5C, CHR 0x0A, CHR 0x0D, CHR 0x09, CHR 0x08, CHR 0x0C]"
    | "c \<notin> set [CHR 0x22, CHR 0x5C, CHR 0x0A, CHR 0x0D, CHR 0x09, CHR 0x08, CHR 0x0C]" "of_char c < (32 :: nat)"
    | "c \<notin> set [CHR 0x22, CHR 0x5C]" "\<not> of_char c < (32 :: nat)" by fastforce
  then show ?thesis
  proof cases
    case 1
    then show ?thesis using short_escapes by (auto simp: escaped_def)
  next
    case 2
    let ?n = "of_char c :: nat"
    have ne: "?n \<noteq> 34" "?n \<noteq> 92" "?n \<noteq> 10" "?n \<noteq> 13" "?n \<noteq> 9" "?n \<noteq> 8" "?n \<noteq> 12"
      using 2 by (simp_all add: special_codes)
    show ?thesis using 2(2) ne hex_num_byte [of ?n]
      by (simp add: dump_char_def Let_def del: hex_num.simps)
  next
    case 3
    let ?n = "of_char c :: nat"
    have "?n \<noteq> 34" "?n \<noteq> 92" "?n \<noteq> 10" "?n \<noteq> 13" "?n \<noteq> 9" "?n \<noteq> 8" "?n \<noteq> 12"
      using 3 by (auto simp: special_codes)
    then show ?thesis using 3 by (simp add: dump_char_def Let_def)
  qed
qed

lemma read_chars_dump: "read_chars (List.maps dump_char s @ CHR 0x22 # t) = Some (s, t)"
  by (induction s) (simp_all add: read_chars_dump_char)


subsection \<open>Numbers\<close>

text \<open>What may follow a number: nothing a number could go on with.\<close>

definition stops :: "string \<Rightarrow> bool" where
  "stops r = (case r of [] \<Rightarrow> True | c # _ \<Rightarrow> \<not> is_digit c \<and> c \<notin> set ''.eE+-'')"

lemma take_digits [simp]: "stops r \<Longrightarrow> takeWhile is_digit (s @ r) = takeWhile is_digit s"
  by (induction s) (auto simp: stops_def split: list.splits)

lemma take_digits_Nil: "stops r \<Longrightarrow> takeWhile is_digit r = []"
  using take_digits [of r "[]"] by simp

lemma whole_append: "stops r \<Longrightarrow> whole_part s \<noteq> [] \<Longrightarrow> whole_part (s @ r) = whole_part s"
  using take_digits [of r s] by (cases s) (auto simp: whole_part_def)

lemma fraction_append: "stops r \<Longrightarrow> fraction_part (s @ r) = fraction_part s"
  by (cases s) (auto simp: fraction_part_def take_digits_Nil stops_def split: list.splits)

lemma exponent_append: "stops r \<Longrightarrow> exponent_part (s @ r) = exponent_part s"
proof (cases s)
  case Nil
  assume "stops r"
  then show ?thesis using Nil by (auto simp: exponent_part_def stops_def split: list.splits)
next
  case (Cons c t)
  assume r: "stops r"
  show ?thesis
  proof (cases t)
    case Nil
    have "takeWhile is_digit r = []" "\<And>x y. r = x # y \<Longrightarrow> x \<noteq> CHR ''+'' \<and> x \<noteq> CHR ''-''"
      using r take_digits_Nil by (auto simp: stops_def)
    then show ?thesis using Cons Nil by (cases r) (auto simp: exponent_part_def)
  next
    fix x t' assume "t = x # t'"
    then show ?thesis using Cons r take_digits [OF r, of t] take_digits [OF r, of t']
      by (auto simp: exponent_part_def Let_def)
  qed
qed

lemma part_lengths:
  "length (whole_part s) \<le> length s" "length (fraction_part s) \<le> length s" "length (exponent_part s) \<le> length s"
proof -
  show "length (whole_part s) \<le> length s"
    using length_takeWhile_le [of is_digit s] by (cases s) (auto simp: whole_part_def)
  show "length (fraction_part s) \<le> length s"
    using length_takeWhile_le [of is_digit "tl s"] by (cases s) (auto simp: fraction_part_def)
  show "length (exponent_part s) \<le> length s"
  proof (cases s)
    case Nil
    then show ?thesis by (simp add: exponent_part_def)
  next
    case (Cons c t)
    let ?g = "case t of [] \<Rightarrow> [] | x # _ \<Rightarrow> if x = CHR ''+'' \<or> x = CHR ''-'' then [x] else []"
    have "length ?g \<le> length t" by (cases t) auto
    then have "length (?g @ takeWhile is_digit (drop (length ?g) t)) \<le> length t"
      using length_takeWhile_le [of is_digit "drop (length ?g) t"] by simp
    then show ?thesis using Cons by (auto simp: exponent_part_def Let_def)
  qed
qed

lemma read_number_append:
  assumes "read_number s = Some (v, [])" and r: "stops r"
  shows "read_number (s @ r) = Some (v, r)"
proof -
  define s1 where "s1 = (if starts_with ''-'' s then tl s else s)"
  define w where "w = whole_part s1"
  define s2 where "s2 = drop (length w) s1"
  define f where "f = fraction_part s2"
  define s3 where "s3 = drop (length f) s2"
  define x where "x = exponent_part s3"
  have at: "read_number s = number_of (starts_with ''-'' s) w f x (drop (length x) s3)"
    by (simp only: read_number_def Let_def s1_def w_def s2_def f_def s3_def x_def)
  then have w: "w \<noteq> []" and all: "drop (length x) s3 = []"
    using assms(1) by (auto simp: number_of_def split: if_splits)
  have s1: "s1 \<noteq> []" using w by (auto simp: w_def whole_part_def)
  have ne: "s \<noteq> []" using s1 by (auto simp: s1_def starts_with_def split: if_splits)
  have neg: "starts_with ''-'' (s @ r) = starts_with ''-'' s"
    using ne by (cases s) (auto simp: starts_with_def)
  have a1: "(if starts_with ''-'' s then tl (s @ r) else s @ r) = s1 @ r"
    using ne by (simp add: s1_def)
  have a2: "whole_part (s1 @ r) = w" using w whole_append [OF r] by (simp add: w_def)
  have a3: "drop (length w) (s1 @ r) = s2 @ r" using part_lengths(1) [of s1] by (simp add: s2_def w_def)
  have a4: "drop (length f) (s2 @ r) = s3 @ r" using part_lengths(2) [of s2] by (simp add: s3_def f_def)
  have a5: "drop (length x) (s3 @ r) = r"
    using part_lengths(3) [of s3] all by (simp add: x_def)
  have fr: "fraction_part (s2 @ r) = f" "exponent_part (s3 @ r) = x"
    using fraction_append [OF r] exponent_append [OF r] by (simp_all add: f_def x_def)
  have "read_number (s @ r) = number_of (starts_with ''-'' s) w f x r"
    by (simp only: read_number_def Let_def neg a1 a2 a3 fr a4 a5)
  then show ?thesis using assms(1) at by (auto simp: number_of_def split: if_splits)
qed

lemma digit_char: "n < 10 \<Longrightarrow> is_digit (char_of (48 + n)) \<and> of_char (char_of (48 + n)) = 48 + n" for n :: nat
  by (simp add: is_digit_def)

lemma nat_digits_digits: "list_all is_digit (nat_digits n) \<and> nat_digits n \<noteq> []"
proof (induction n rule: nat_digits.induct)
  case (1 n)
  then show ?case by (subst (1 2) nat_digits.simps) (simp add: digit_char)
qed

lemma nat_digits_val: "digits_val (nat_digits n) = n"
proof (induction n rule: nat_digits.induct)
  case (1 n)
  show ?case
  proof (cases "n < 10")
    case True
    then show ?thesis by (subst nat_digits.simps) (simp add: digits_val_def digit_char)
  next
    case False
    then have "digits_val (nat_digits (n div 10)) = n div 10" using 1 by simp
    then show ?thesis using False by (subst nat_digits.simps) (simp add: digits_val_def digit_char)
  qed
qed

lemma nat_digits_lead: "hd (nat_digits n) = CHR ''0'' \<Longrightarrow> n = 0"
proof (induction n rule: nat_digits.induct)
  case (1 n)
  show ?case
  proof (cases "n < 10")
    case True
    then have "char_of (48 + n) = CHR ''0''" using 1(2) by (subst (asm) nat_digits.simps) simp
    then have "of_char (char_of (48 + n)) = (48 :: nat)" by simp
    then show ?thesis using True digit_char [of n] by simp
  next
    case False
    then have "hd (nat_digits n) = hd (nat_digits (n div 10))"
      using nat_digits_digits [of "n div 10"] by (subst nat_digits.simps) simp
    then have "n div 10 = 0" using 1 False by simp
    then show ?thesis using False by simp
  qed
qed

lemma whole_nat_digits: "whole_part (nat_digits n) = nat_digits n"
proof (cases "nat_digits n")
  case Nil
  then show ?thesis by (simp add: whole_part_def)
next
  case (Cons c t)
  show ?thesis
  proof (cases "c = CHR ''0''")
    case True
    then have "n = 0" using nat_digits_lead [of n] Cons by simp
    moreover have "nat_digits 0 = ''0''" by code_simp
    ultimately have "nat_digits n = ''0''" by simp
    then show ?thesis by (simp add: whole_part_def)
  next
    case False
    have "takeWhile is_digit (nat_digits n) = nat_digits n"
      using nat_digits_digits [of n] by (simp add: takeWhile_eq_all_conv list_all_iff)
    then show ?thesis using False Cons by (simp add: whole_part_def)
  qed
qed

lemma read_int_digits: "read_number (int_digits i) = Some (JInt i, [])"
proof -
  have nominus: "\<not> starts_with ''-'' (nat_digits n)" for n
    using nat_digits_digits [of n] by (cases "nat_digits n") (auto simp: starts_with_def is_digit_def)
  have parts: "fraction_part [] = []" "exponent_part [] = []"
    by (simp_all add: fraction_part_def exponent_part_def)
  show ?thesis
    using nominus nat_digits_digits
    by (simp add: int_digits_def read_number_def number_of_def Let_def whole_nat_digits parts nat_digits_val starts_with_def [of "''-''" "CHR ''-'' # _"])
qed

lemma whole_head:
  assumes "whole_part s \<noteq> []"
  obtains c t where "s = c # t" "is_digit c"
proof -
  obtain c t where s: "s = c # t" using assms by (cases s) (auto simp: whole_part_def)
  have "is_digit (CHR ''0'')" by code_simp
  then have "is_digit c" using assms s by (auto simp: whole_part_def split: if_splits)
  then show thesis using s that by blast
qed

lemma read_number_head:
  assumes "read_number s \<noteq> None"
  obtains c t where "s = c # t" "is_digit c" | c t where "s = CHR ''-'' # c # t" "is_digit c"
proof (cases "starts_with ''-'' s")
  case True
  then have "whole_part (tl s) \<noteq> []" using assms by (auto simp: read_number_def number_of_def Let_def)
  then obtain c t where "tl s = c # t" "is_digit c" by (rule whole_head)
  moreover have "s = CHR ''-'' # tl s" using True by (cases s) (auto simp: starts_with_def)
  ultimately show thesis using that(2) by metis
next
  case False
  then have "whole_part s \<noteq> []" using assms by (auto simp: read_number_def number_of_def Let_def)
  then show thesis using whole_head that(1) by metis
qed

lemma digit_letters:
  assumes "is_digit c"
  shows "c \<noteq> CHR ''n''" "c \<noteq> CHR ''t''" "c \<noteq> CHR ''f''" "c \<noteq> CHR ''N''" "c \<noteq> CHR ''I''" "c \<noteq> CHR ''-''"
    "c \<noteq> CHR ''[''" "c \<noteq> CHR ''{''" "c \<noteq> CHR 0x22" "\<not> is_ws c"
proof -
  have no: "\<not> is_digit (CHR ''n'')" "\<not> is_digit (CHR ''t'')" "\<not> is_digit (CHR ''f'')" "\<not> is_digit (CHR ''N'')"
    "\<not> is_digit (CHR ''I'')" "\<not> is_digit (CHR ''-'')" "\<not> is_digit (CHR ''['')" "\<not> is_digit (CHR ''{'')"
    "\<not> is_digit (CHR 0x22)" "\<not> is_digit (CHR '' '')" "\<not> is_digit (CHR 0x09)" "\<not> is_digit (CHR 0x0A)"
    "\<not> is_digit (CHR 0x0D)"
    by code_simp+
  have ne: "c \<noteq> d" if "\<not> is_digit d" for d using assms that by blast
  show "c \<noteq> CHR ''n''" "c \<noteq> CHR ''t''" "c \<noteq> CHR ''f''" "c \<noteq> CHR ''N''" "c \<noteq> CHR ''I''" "c \<noteq> CHR ''-''"
    "c \<noteq> CHR ''[''" "c \<noteq> CHR ''{''" "c \<noteq> CHR 0x22"
    by (rule ne, rule no)+
  have "c \<noteq> CHR '' ''" "c \<noteq> CHR 0x09" "c \<noteq> CHR 0x0A" "c \<noteq> CHR 0x0D" by (rule ne, rule no)+
  then show "\<not> is_ws c" by (simp add: is_ws_def)
qed

lemma starts_with_Cons [simp]: "starts_with (x # xs) (y # ys) \<longleftrightarrow> x = y \<and> starts_with xs ys"
  by (auto simp: starts_with_def)

lemma read_atom_number:
  assumes "read_number s \<noteq> None"
  shows "read_atom (s @ r) = read_number (s @ r)"
proof -
  have "find (\<lambda>(w, _). starts_with w (s @ r)) literals = None"
    using assms
  proof (rule read_number_head)
    fix c t assume "s = c # t" "is_digit c"
    then show ?thesis using digit_letters(1-6) [of c] by (simp add: literals_def)
  next
    fix c t assume "s = CHR ''-'' # c # t" "is_digit c"
    then show ?thesis using digit_letters(5) [of c] by (simp add: literals_def)
  qed
  then show ?thesis by (simp add: read_atom_def)
qed

lemma number_start:
  assumes "read_number s \<noteq> None"
  obtains c t where "s = c # t" "\<not> is_ws c" "c \<noteq> CHR 0x22" "c \<noteq> CHR ''[''" "c \<noteq> CHR ''{''" "c \<noteq> CHR '']''"
  using assms
proof (rule read_number_head)
  fix c t assume "s = c # t" "is_digit c"
  moreover have "\<not> is_digit (CHR '']'')" by code_simp
  ultimately show thesis using that digit_letters(7-10) [of c] by blast
next
  fix c t assume "s = CHR ''-'' # c # t"
  then show thesis using that by (simp add: is_ws_def)
qed

subsection \<open>Spellings\<close>

text \<open>\<open>spells v s\<close>: \<open>s\<close> is \<open>v\<close> written with any white space between its parts.\<close>

abbreviation white :: "string \<Rightarrow> bool" where "white \<equiv> list_all is_ws"

definition float_ok :: "string \<Rightarrow> bool" where
  "float_ok r \<longleftrightarrow> r \<in> set [''nan'', ''inf'', ''-inf''] \<or> read_number r = Some (JFloat r, [])"

inductive spells :: "json \<Rightarrow> string \<Rightarrow> bool"
  and spells_items :: "json list \<Rightarrow> string \<Rightarrow> bool"
  and spells_members :: "(string \<times> json) list \<Rightarrow> string \<Rightarrow> bool" where
  null: "spells JNull ''null''"
| true: "spells (JBool True) ''true''"
| false: "spells (JBool False) ''false''"
| int: "spells (JInt i) (int_digits i)"
| float: "float_ok r \<Longrightarrow> spells (JFloat r) (dump_float r)"
| str: "spells (JStr s) (dump_str s)"
| list_empty: "spells (JList []) ''[]''"
| list: "spells_items xs t \<Longrightarrow> spells (JList xs) (''['' @ t @ '']'')"
| object_empty: "spells (JObj []) ''{}''"
| object: "spells_members kvs t \<Longrightarrow> dict_ok kvs \<Longrightarrow> spells (JObj kvs) (''{'' @ t @ ''}'')"
| item: "spells v t \<Longrightarrow> white a \<Longrightarrow> white b \<Longrightarrow> spells_items [v] (a @ t @ b)"
| items: "spells v t \<Longrightarrow> white a \<Longrightarrow> white b \<Longrightarrow> spells_items vs u \<Longrightarrow>
    spells_items (v # vs) (a @ t @ b @ '','' @ u)"
| member: "spells v t \<Longrightarrow> white a \<Longrightarrow> white b \<Longrightarrow> white c \<Longrightarrow>
    spells_members [(k, v)] (a @ dump_str k @ '':'' @ b @ t @ c)"
| members: "spells v t \<Longrightarrow> white a \<Longrightarrow> white b \<Longrightarrow> white c \<Longrightarrow> spells_members kvs u \<Longrightarrow>
    spells_members ((k, v) # kvs) (a @ dump_str k @ '':'' @ b @ t @ c @ '','' @ u)"

lemma skip_white [simp]: "white a \<Longrightarrow> skip_ws (a @ s) = skip_ws s"
  by (induction a) auto

lemma skip_token: "\<not> is_ws c \<Longrightarrow> skip_ws (c # s) = c # s"
  by simp

lemma punctuation:
  "\<not> is_ws (CHR ''['')" "\<not> is_ws (CHR ''{'')" "\<not> is_ws (CHR 0x22)" "\<not> is_ws (CHR '','')" "\<not> is_ws (CHR '':'')"
  "\<not> is_ws (CHR '']'')" "\<not> is_ws (CHR ''}'')" "\<not> is_ws (CHR ''n'')" "\<not> is_ws (CHR ''t'')" "\<not> is_ws (CHR ''f'')"
  "\<not> is_ws (CHR ''N'')" "\<not> is_ws (CHR ''I'')" "\<not> is_ws (CHR ''-'')"
  by (simp_all add: is_ws_def)

lemma dict_of_distinct:
  assumes "dict_ok kvs"
  shows "dict_of kvs = kvs"
proof -
  have "fold (\<lambda>(k, v) d. AList.update k v d) kvs acc = acc @ kvs"
    if "distinct (map fst (acc @ kvs))" for acc
    using that
  proof (induction kvs arbitrary: acc)
    case (Cons kv kvs)
    obtain k v where kv: "kv = (k, v)" by force
    have "AList.update k v acc = acc @ [(k, v)]" if "k \<notin> set (map fst acc)" for acc :: "(string \<times> 'a) list"
      using that by (induction acc) auto
    then show ?case using Cons kv by simp
  qed simp
  from this [of "[]"] assms show ?thesis by (simp add: dict_of_def dict_ok_def)
qed

lemma stops_after:
  assumes "white b"
  shows "stops (b @ '','' @ r)" "stops (b @ '']'' @ r)" "stops (b @ ''}'' @ r)"
proof -
  have ws: "\<not> is_digit c \<and> c \<notin> set ''.eE+-''" if "is_ws c" for c
  proof -
    have "list_all (\<lambda>c. \<not> is_digit c \<and> c \<notin> set ''.eE+-'') [CHR '' '', CHR 0x09, CHR 0x0A, CHR 0x0D]" by code_simp
    then show ?thesis using that by (auto simp: is_ws_def)
  qed
  have ends: "list_all (\<lambda>c. \<not> is_digit c \<and> c \<notin> set ''.eE+-'') '',]}''" by code_simp
  show "stops (b @ '','' @ r)" "stops (b @ '']'' @ r)" "stops (b @ ''}'' @ r)"
    using assms ws ends by (cases b; auto simp: stops_def)+
qed

text \<open>A value that is not a string, a list or an object is read as an atom.\<close>

lemma read_atom_value:
  assumes "read_atom (t @ r) = Some (v, r)" and "t = c # t'" and "\<not> is_ws c" and "c \<noteq> CHR 0x22"
    and "c \<noteq> CHR ''[''" and "c \<noteq> CHR ''{''" and "white a"
  shows "read_value (Suc n) (a @ t @ r) = Some (v, r)"
  using assms by simp

lemma starts_with_Nil [simp]: "starts_with [] s"
  by (simp add: starts_with_def)

lemma read_words:
  assumes "white a"
  shows "read_value (Suc n) (a @ ''null'' @ r) = Some (JNull, r)"
    "read_value (Suc n) (a @ ''true'' @ r) = Some (JBool True, r)"
    "read_value (Suc n) (a @ ''false'' @ r) = Some (JBool False, r)"
    "read_value (Suc n) (a @ ''NaN'' @ r) = Some (JFloat ''nan'', r)"
    "read_value (Suc n) (a @ ''Infinity'' @ r) = Some (JFloat ''inf'', r)"
    "read_value (Suc n) (a @ ''-Infinity'' @ r) = Some (JFloat ''-inf'', r)"
proof -
  have atoms: "read_atom (''null'' @ r) = Some (JNull, r)" "read_atom (''true'' @ r) = Some (JBool True, r)"
    "read_atom (''false'' @ r) = Some (JBool False, r)" "read_atom (''NaN'' @ r) = Some (JFloat ''nan'', r)"
    "read_atom (''Infinity'' @ r) = Some (JFloat ''inf'', r)"
    "read_atom (''-Infinity'' @ r) = Some (JFloat ''-inf'', r)"
    by (simp_all add: read_atom_def literals_def)
  show "read_value (Suc n) (a @ ''null'' @ r) = Some (JNull, r)"
    by (rule read_atom_value [OF atoms(1) refl punctuation(8) _ _ _ assms]) simp_all
  show "read_value (Suc n) (a @ ''true'' @ r) = Some (JBool True, r)"
    by (rule read_atom_value [OF atoms(2) refl punctuation(9) _ _ _ assms]) simp_all
  show "read_value (Suc n) (a @ ''false'' @ r) = Some (JBool False, r)"
    by (rule read_atom_value [OF atoms(3) refl punctuation(10) _ _ _ assms]) simp_all
  show "read_value (Suc n) (a @ ''NaN'' @ r) = Some (JFloat ''nan'', r)"
    by (rule read_atom_value [OF atoms(4) refl punctuation(11) _ _ _ assms]) simp_all
  show "read_value (Suc n) (a @ ''Infinity'' @ r) = Some (JFloat ''inf'', r)"
    by (rule read_atom_value [OF atoms(5) refl punctuation(12) _ _ _ assms]) simp_all
  show "read_value (Suc n) (a @ ''-Infinity'' @ r) = Some (JFloat ''-inf'', r)"
    by (rule read_atom_value [OF atoms(6) refl punctuation(13) _ _ _ assms]) simp_all
qed

lemma read_number_value:
  assumes "read_number t = Some (v, [])" and "stops r" and "white a"
  shows "read_value (Suc n) (a @ t @ r) = Some (v, r)"
proof -
  have ne: "read_number t \<noteq> None" using assms(1) by simp
  obtain c t' where t: "t = c # t'" "\<not> is_ws c" "c \<noteq> CHR 0x22" "c \<noteq> CHR ''[''" "c \<noteq> CHR ''{''"
    by (rule number_start [OF ne])
  have "read_atom (t @ r) = Some (v, r)"
    using read_atom_number [OF ne] read_number_append [OF assms(1,2)] by simp
  then show ?thesis by (rule read_atom_value [OF _ t assms(3)])
qed

text \<open>\<open>reads v t\<close>: the reader gives \<open>v\<close> for \<open>t\<close>, wherever it stands.\<close>

definition reads :: "json \<Rightarrow> string \<Rightarrow> bool" where
  "reads v t \<longleftrightarrow>
     (\<forall>n a r. length t \<le> n \<longrightarrow> stops r \<longrightarrow> white a \<longrightarrow> read_value n (a @ t @ r) = Some (v, r)) \<and>
     (\<exists>c t'. t = c # t' \<and> \<not> is_ws c \<and> c \<noteq> CHR '']'')"

lemma readsD: "reads v t \<Longrightarrow> length t \<le> n \<Longrightarrow> stops r \<Longrightarrow> white a \<Longrightarrow> read_value n (a @ t @ r) = Some (v, r)"
  unfolding reads_def by blast

lemma readsI:
  assumes "\<And>n a r. length (c # t) \<le> Suc n \<Longrightarrow> stops r \<Longrightarrow> white a \<Longrightarrow> read_value (Suc n) (a @ (c # t) @ r) = Some (v, r)"
    and "\<not> is_ws c" and "c \<noteq> CHR '']''"
  shows "reads v (c # t)"
  unfolding reads_def
proof (intro conjI allI impI)
  fix n a r assume n: "length (c # t) \<le> n" "stops r" "white a"
  then obtain m where "n = Suc m" by (cases n) auto
  then show "read_value n (a @ (c # t) @ r) = Some (v, r)" using assms(1) [of m r a] n by simp
qed (use assms(2,3) in blast)

lemma reads_words:
  "reads JNull ''null''" "reads (JBool True) ''true''" "reads (JBool False) ''false''"
  "reads (JFloat ''nan'') ''NaN''" "reads (JFloat ''inf'') ''Infinity''" "reads (JFloat ''-inf'') ''-Infinity''"
  by (rule readsI, erule read_words, rule punctuation, simp)+

lemma reads_number:
  assumes "read_number t = Some (v, [])"
  shows "reads v t"
proof -
  have "read_number t \<noteq> None" using assms by simp
  then obtain c t' where t: "t = c # t'" "\<not> is_ws c" "c \<noteq> CHR '']''" by (rule number_start) blast
  show ?thesis unfolding t(1)
    by (rule readsI) (use read_number_value [OF assms [unfolded t(1)]] t in auto)
qed

lemma reads_float:
  assumes "float_ok r"
  shows "reads (JFloat r) (dump_float r)"
proof -
  consider "r = ''nan''" | "r = ''inf''" | "r = ''-inf''" | "read_number r = Some (JFloat r, [])" "dump_float r = r"
    using assms unfolding float_ok_def dump_float_def by fastforce
  then show ?thesis
    by cases (use reads_words reads_number in \<open>simp_all add: dump_float_def\<close>)
qed

lemma reads_str: "reads (JStr s) (dump_str s)"
proof -
  have "reads (JStr s) (CHR 0x22 # List.maps dump_char s @ [CHR 0x22])"
    using punctuation(3) read_chars_dump by (intro readsI) (simp_all del: List.maps_eq)
  then show ?thesis by (simp add: dump_str_def)
qed

definition reads_items :: "json list \<Rightarrow> string \<Rightarrow> bool" where
  "reads_items xs u \<longleftrightarrow>
     (\<forall>n r. length u < n \<longrightarrow> read_items n (u @ CHR '']'' # r) = Some (xs, r)) \<and>
     (\<forall>r. \<not> starts_with '']'' (skip_ws (u @ r)))"

definition reads_members :: "(string \<times> json) list \<Rightarrow> string \<Rightarrow> bool" where
  "reads_members kvs u \<longleftrightarrow>
     (\<forall>n r. length u < n \<longrightarrow> read_members n (u @ CHR ''}'' # r) = Some (kvs, r)) \<and>
     (\<forall>r. \<not> starts_with ''}'' (skip_ws (u @ r)))"

lemma reads_start: "reads v t \<Longrightarrow> white a \<Longrightarrow> \<not> starts_with '']'' (skip_ws (a @ t @ r))"
  unfolding reads_def by auto

lemma reads_item:
  assumes v: "reads v t" and w: "white a" "white b"
  shows "reads_items [v] (a @ t @ b)"
  unfolding reads_items_def
proof (intro conjI allI impI)
  fix n r assume "length (a @ t @ b) < n"
  then obtain m where m: "n = Suc m" "length t \<le> m" by (cases n) auto
  have "read_value m (a @ t @ b @ '']'' @ r) = Some (v, b @ '']'' @ r)"
    by (rule readsD [OF v m(2) stops_after(2) [OF w(2)] w(1)])
  then show "read_items n ((a @ t @ b) @ CHR '']'' # r) = Some ([v], r)" using w punctuation(6) by (simp add: m(1))
next
  fix r show "\<not> starts_with '']'' (skip_ws ((a @ t @ b) @ r))" using reads_start [OF v w(1)] by simp
qed

lemma reads_more_items:
  assumes v: "reads v t" and w: "white a" "white b" and vs: "reads_items vs u"
  shows "reads_items (v # vs) (a @ t @ b @ '','' @ u)"
  unfolding reads_items_def
proof (intro conjI allI impI)
  fix n r assume "length (a @ t @ b @ '','' @ u) < n"
  then obtain m where m: "n = Suc m" "length t \<le> m" "length u < m" by (cases n) auto
  have "read_value m (a @ t @ b @ '','' @ (u @ '']'' @ r)) = Some (v, b @ '','' @ (u @ '']'' @ r))"
    by (rule readsD [OF v m(2) stops_after(1) [OF w(2)] w(1)])
  moreover have "read_items m (u @ CHR '']'' # r) = Some (vs, r)" using vs m(3) unfolding reads_items_def by blast
  ultimately show "read_items n ((a @ t @ b @ '','' @ u) @ CHR '']'' # r) = Some (v # vs, r)"
    using w punctuation(4) by (simp add: m(1))
next
  fix r show "\<not> starts_with '']'' (skip_ws ((a @ t @ b @ '','' @ u) @ r))" using reads_start [OF v w(1)] by simp
qed

text \<open>The key of a member and what stands before its value.\<close>

lemma read_members_key:
  assumes "white a" and "read_value m rest = Some (v, r)"
  shows "read_members (Suc m) (a @ dump_str k @ '':'' @ rest) =
    (case skip_ws r of
       [] \<Rightarrow> None
     | c # r' \<Rightarrow>
         if c = CHR ''}'' then Some ([(k, v)], r')
         else if c = CHR '','' then map_option (apfst (Cons (k, v))) (read_members m r')
         else None)"
proof -
  have "skip_ws (a @ dump_str k @ '':'' @ rest) = CHR 0x22 # List.maps dump_char k @ CHR 0x22 # CHR '':'' # rest"
    using assms(1) punctuation(3) by (simp add: dump_str_def)
  moreover have "read_chars (List.maps dump_char k @ CHR 0x22 # CHR '':'' # rest) = Some (k, CHR '':'' # rest)"
    by (rule read_chars_dump)
  ultimately show ?thesis using punctuation(5) assms(2) by (simp del: List.maps_eq)
qed

lemma key_start: "white a \<Longrightarrow> \<not> starts_with ''}'' (skip_ws (a @ dump_str k @ r))"
  using punctuation(3) by (simp add: dump_str_def)

lemma reads_member:
  assumes v: "reads v t" and w: "white a" "white b" "white c"
  shows "reads_members [(k, v)] (a @ dump_str k @ '':'' @ b @ t @ c)"
  unfolding reads_members_def
proof (intro conjI allI impI)
  fix n r assume "length (a @ dump_str k @ '':'' @ b @ t @ c) < n"
  then obtain m where m: "n = Suc m" "length t \<le> m" by (cases n) auto
  have "read_value m (b @ t @ c @ ''}'' @ r) = Some (v, c @ ''}'' @ r)"
    by (rule readsD [OF v m(2) stops_after(3) [OF w(3)] w(2)])
  from read_members_key [OF w(1) this, of k]
  show "read_members n ((a @ dump_str k @ '':'' @ b @ t @ c) @ CHR ''}'' # r) = Some ([(k, v)], r)"
    using w punctuation(7) by (simp add: m(1))
next
  fix r show "\<not> starts_with ''}'' (skip_ws ((a @ dump_str k @ '':'' @ b @ t @ c) @ r))"
    using key_start [OF w(1)] by simp
qed

lemma reads_more_members:
  assumes v: "reads v t" and w: "white a" "white b" "white c" and kvs: "reads_members kvs u"
  shows "reads_members ((k, v) # kvs) (a @ dump_str k @ '':'' @ b @ t @ c @ '','' @ u)"
  unfolding reads_members_def
proof (intro conjI allI impI)
  fix n r assume "length (a @ dump_str k @ '':'' @ b @ t @ c @ '','' @ u) < n"
  then obtain m where m: "n = Suc m" "length t \<le> m" "length u < m" by (cases n) auto
  have "read_value m (b @ t @ c @ '','' @ (u @ ''}'' @ r)) = Some (v, c @ '','' @ (u @ ''}'' @ r))"
    by (rule readsD [OF v m(2) stops_after(1) [OF w(3)] w(2)])
  from read_members_key [OF w(1) this, of k]
  moreover have "read_members m (u @ CHR ''}'' # r) = Some (kvs, r)" using kvs m(3) unfolding reads_members_def by blast
  ultimately show "read_members n ((a @ dump_str k @ '':'' @ b @ t @ c @ '','' @ u) @ CHR ''}'' # r) = Some ((k, v) # kvs, r)"
    using w punctuation(4) by (simp add: m(1))
next
  fix r show "\<not> starts_with ''}'' (skip_ws ((a @ dump_str k @ '':'' @ b @ t @ c @ '','' @ u) @ r))"
    using key_start [OF w(1)] by simp
qed

lemma reads_list: "reads_items xs u \<Longrightarrow> reads (JList xs) (CHR ''['' # u @ '']'')"
  using punctuation(1) unfolding reads_items_def by (intro readsI) auto

lemma reads_object: "reads_members kvs u \<Longrightarrow> dict_ok kvs \<Longrightarrow> reads (JObj kvs) (CHR ''{'' # u @ ''}'')"
  using punctuation(2) unfolding reads_members_def by (intro readsI) (auto simp: dict_of_distinct)

lemma reads_empty: "reads (JList []) ''[]''" "reads (JObj []) ''{}''"
  using punctuation by (auto intro!: readsI)

lemma spelled_values_read:
  "spells v t \<Longrightarrow> reads v t"
  "spells_items xs u \<Longrightarrow> reads_items xs u"
  "spells_members kvs w \<Longrightarrow> reads_members kvs w"
proof (induction rule: spells_spells_items_spells_members.inducts)
  case (int i)
  show ?case by (rule reads_number) (rule read_int_digits)
next
  case (list xs t)
  then show ?case using reads_list by simp
next
  case (object kvs t)
  then show ?case using reads_object by simp
qed (rule reads_words reads_float reads_str reads_empty reads_item reads_more_items reads_member
      reads_more_members; assumption)+

section \<open>Round trips\<close>

text \<open>The values \<^verbatim>\<open>json.loads\<close> gives: floats it can print, objects without a key twice.\<close>

fun json_ok :: "json \<Rightarrow> bool" where
  "json_ok (JFloat r) = float_ok r"
| "json_ok (JList xs) = list_all json_ok xs"
| "json_ok (JObj kvs) = (dict_ok kvs \<and> list_all (\<lambda>(k, v). json_ok v) kvs)"
| "json_ok v = True"

lemma spells_items_join:
  assumes "xs \<noteq> []" and "\<And>x. x \<in> set xs \<Longrightarrow> spells x (f x)" and "white p" and "white w" and "white q"
  shows "spells_items xs (p @ join ('','' @ w) (map f xs) @ q)"
  using assms
proof (induction xs arbitrary: p)
  case (Cons x xs)
  have x: "spells x (f x)" using Cons.prems(2) by simp
  show ?case
  proof (cases xs)
    case Nil
    then show ?thesis using item [OF x Cons.prems(3,5)] by simp
  next
    case (Cons y ys)
    have "spells_items xs (w @ join ('','' @ w) (map f xs) @ q)"
      using Cons Cons.IH [OF _ _ Cons.prems(4)] Cons.prems by auto
    from items [OF x Cons.prems(3) _ this, of "[]"] show ?thesis by (simp add: Cons)
  qed
qed simp

lemma spells_members_join:
  assumes "kvs \<noteq> []" and "\<And>k v. (k, v) \<in> set kvs \<Longrightarrow> spells v (f v)" and "white p" and "white w" and "white q"
  shows "spells_members kvs (p @ join ('','' @ w) (map (\<lambda>(k, v). dump_str k @ '': '' @ f v) kvs) @ q)"
  using assms
proof (induction kvs arbitrary: p)
  case (Cons kv kvs)
  obtain k v where kv: "kv = (k, v)" by force
  have v: "spells v (f v)" using Cons.prems(2) [of k v] kv by simp
  have sp: "white '' ''" by (simp add: is_ws_def)
  show ?case
  proof (cases kvs)
    case Nil
    then show ?thesis using member [OF v Cons.prems(3) sp Cons.prems(5), of k] kv by simp
  next
    case (Cons y ys)
    have "spells_members kvs (w @ join ('','' @ w) (map (\<lambda>(k, v). dump_str k @ '': '' @ f v) kvs) @ q)"
      using Cons Cons.IH [OF _ _ Cons.prems(4)] Cons.prems by auto
    from members [OF v Cons.prems(3) sp _ this, of "[]" k] show ?thesis by (simp add: Cons kv)
  qed
qed simp

lemma spells_dumps: "json_ok v \<Longrightarrow> spells v (dumps v)"
proof (induction v rule: dumps.induct)
  case (6 xs)
  have "spells_items xs ([] @ join ('','' @ '' '') (map dumps xs) @ [])" if "xs \<noteq> []"
    by (rule spells_items_join [OF that]) (use 6 in \<open>auto simp: list_all_iff is_ws_def\<close>)
  then show ?case using list list_empty by (cases "xs = []") simp_all
next
  case (7 kvs)
  have "spells_members kvs ([] @ join ('','' @ '' '') (map (\<lambda>(k, v). dump_str k @ '': '' @ dumps v) kvs) @ [])"
    if "kvs \<noteq> []"
    by (rule spells_members_join [OF that]) (use 7 in \<open>auto simp: list_all_iff is_ws_def\<close>)
  then show ?case using object object_empty 7(2) by (cases "kvs = []") simp_all
qed (auto intro: spells_spells_items_spells_members.intros)

lemma white_margin [simp]: "white (margin d)"
  by (simp add: margin_def is_ws_def list_all_iff)

lemma spells_dumps_indent: "json_ok v \<Longrightarrow> spells v (dumps_indent d v)"
proof (induction d v rule: dumps_indent.induct)
  case (1 d xs)
  show ?case
  proof (cases "xs = []")
    case False
    have "spells_items xs (margin (Suc d) @ join ('','' @ margin (Suc d)) (map (dumps_indent (Suc d)) xs) @ margin d)"
      by (rule spells_items_join [OF False _ white_margin white_margin white_margin])
          (use 1 False in \<open>auto simp: list_all_iff\<close>)
    from list [OF this] show ?thesis using False by simp
  qed (simp add: list_empty)
next
  case (2 d kvs)
  show ?case
  proof (cases "kvs = []")
    case False
    have "spells_members kvs (margin (Suc d)
        @ join ('','' @ margin (Suc d)) (map (\<lambda>(k, v). dump_str k @ '': '' @ dumps_indent (Suc d) v) kvs) @ margin d)"
      by (rule spells_members_join [OF False _ white_margin white_margin white_margin])
          (use 2 False in \<open>auto simp: list_all_iff\<close>)
    from object [OF this] show ?thesis using 2(2) False by simp
  qed (simp add: object_empty)
qed (use spells_dumps in \<open>simp_all del: dumps.simps\<close>)

lemma loads_spelled:
  assumes "spells v t" and "white a" and "white b"
  shows "loads (a @ t @ b) = Some v"
proof -
  have ws: "list_all (\<lambda>c. \<not> is_digit c \<and> c \<notin> set ''.eE+-'') b"
    using assms(3) stops_after(1) [of "[c]" for c] by (fastforce simp: list_all_iff stops_def)
  then have "stops b" by (cases b) (auto simp: stops_def)
  from readsD [OF spelled_values_read(1) [OF assms(1)] _ this assms(2)]
  have "read_value (Suc (2 * length (a @ t @ b))) (a @ t @ b) = Some (v, b)" by (simp del: read_value.simps)
  moreover have "skip_ws b = []" using assms(3) by (simp add: list_all_iff)
  ultimately show ?thesis by (simp add: loads_def del: read_value.simps)
qed

text \<open>
  What was written is read back: a value printed on one line or indented is the value the reader gives,
  white space around it or not.
\<close>

theorem json_text_roundtrip:
  assumes "json_ok v" and "white a" and "white b"
  shows "loads (a @ dumps v @ b) = Some v \<and> loads (a @ dumps_indent d v @ b) = Some v"
  using assms loads_spelled spells_dumps spells_dumps_indent by blast

definition example_json :: json where
  "example_json = JObj [(''name'', JStr (''quote '' @ [CHR 0x22] @ '' and'' @ [CHR 0x0A])), (''n'', JInt (- 12)),
     (''x'', JFloat ''1.5e-07''), (''list'', JList [JNull, JBool True, JList [], JFloat ''nan''])]"

theorem json_text_roundtrip_witness:
  "loads (dumps_indent 0 example_json) = Some example_json \<and> loads ([CHR 0x0A] @ dumps example_json) = Some example_json"
proof -
  have ok: "json_ok example_json" by code_simp
  have nl: "white [CHR 0x0A]" by (simp add: is_ws_def)
  show ?thesis
    using json_text_roundtrip [OF ok, of "[]" "[]" 0] json_text_roundtrip [OF ok nl, of "[]" 0] by simp
qed

section \<open>Enough depth\<close>

text \<open>The reader consumes something, so the depth \<open>loads\<close> gives is enough for every text.\<close>

lemma map_apfst_Some: "map_option (apfst f) x = Some (y, r) \<longleftrightarrow> (\<exists>z. x = Some (z, r) \<and> y = f z)"
  by (cases x) auto

lemma skip_ws_shorter: "length (skip_ws s) \<le> length s"
  by (rule length_dropWhile_le)

lemma read_chars_shorter: "read_chars s = Some (x, r) \<Longrightarrow> length r < length s"
proof (induction "length s" arbitrary: s x r rule: less_induct)
  case less
  have rec: "length r < length t" if "map_option (apfst f) (read_chars t) = Some (x, r)" "length t < length s" for t f
    using less.hyps [OF that(2)] that(1) by (auto simp: map_apfst_Some)
  obtain c cs where s: "s = c # cs" using less.prems by (cases s) auto
  consider "c = CHR 0x22" | "c = CHR 0x5C" | "c \<noteq> CHR 0x22" "c \<noteq> CHR 0x5C" "\<not> of_char c < (32 :: nat)"
    using less.prems s by (auto split: if_splits)
  then show ?case
  proof cases
    case 2
    then obtain e t where cs: "cs = e # t" using less.prems s by (cases cs) auto
    show ?thesis
    proof (cases "e = CHR ''u''")
      case True
      obtain h1 h2 h3 h4 t' n where t: "t = h1 # h2 # h3 # h4 # t'" "hex_num [h1, h2, h3, h4] 0 = Some n"
        using less.prems True 2 unfolding s cs by (simp split: list.splits option.splits del: hex_num.simps)
      then have "map_option (apfst (Cons (char_of n))) (read_chars t') = Some (x, r)"
        using less.prems True 2 unfolding s cs by (simp split: if_splits del: hex_num.simps)
      from rec [OF this] show ?thesis by (simp add: s cs t)
    next
      case False
      then obtain y where "map_option (apfst (Cons y)) (read_chars t) = Some (x, r)"
        using less.prems 2 unfolding s cs by (simp split: option.splits)
      from rec [OF this] show ?thesis by (simp add: s cs)
    qed
  next
    case 3
    then have "map_option (apfst (Cons c)) (read_chars cs) = Some (x, r)" using less.prems unfolding s by simp
    from rec [OF this] show ?thesis by (simp add: s)
  qed (use less.prems s in simp)
qed

lemma read_atom_shorter:
  assumes "read_atom s = Some (v, r)"
  shows "length r < length s"
proof (cases "find (\<lambda>(w, _). starts_with w s) literals")
  case (Some wv)
  obtain w u where wu: "wv = (w, u)" by force
  have "list_all (\<lambda>(w, _). w \<noteq> []) literals" by code_simp
  moreover have "wv \<in> set literals" "starts_with w s"
    using Some wu by (auto simp: find_Some_iff in_set_conv_nth)
  ultimately have "w \<noteq> []" "s \<noteq> []" using wu by (auto simp: list_all_iff starts_with_def)
  moreover have "r = drop (length w) s" using assms Some wu by (simp add: read_atom_def)
  ultimately show ?thesis by simp
next
  case None
  then have n: "read_number s = Some (v, r)" using assms by (simp add: read_atom_def)
  let ?s1 = "if starts_with ''-'' s then tl s else s"
  have "whole_part ?s1 \<noteq> []" "length r \<le> length (drop (length (whole_part ?s1)) ?s1)"
    using n by (auto simp: read_number_def number_of_def Let_def split: if_splits)
  moreover have "length ?s1 \<le> length s" by simp
  moreover have "?s1 \<noteq> []" using \<open>whole_part ?s1 \<noteq> []\<close> by (auto simp: whole_part_def)
  ultimately show ?thesis using part_lengths(1) [of ?s1] by (cases "whole_part ?s1") auto
qed

lemma read_membersE:
  assumes "read_members (Suc n) s = Some (kvs, r)"
  obtains r0 k r1 v u c t where "skip_ws s = CHR 0x22 # r0" "read_chars r0 = Some (k, r1)"
    "starts_with '':'' (skip_ws r1)" "read_value n (tl (skip_ws r1)) = Some (v, u)" "skip_ws u = c # t"
    "c = CHR ''}'' \<and> kvs = [(k, v)] \<and> r = t \<or>
     c = CHR '','' \<and> (\<exists>kvs'. read_members n t = Some (kvs', r) \<and> kvs = (k, v) # kvs')"
proof -
  obtain r0 where r0: "skip_ws s = CHR 0x22 # r0" using assms by (auto split: list.splits if_splits)
  obtain k r1 where r1: "read_chars r0 = Some (k, r1)" using assms r0 by (auto split: option.splits)
  have colon: "starts_with '':'' (skip_ws r1)" using assms r0 r1 by (auto split: if_splits)
  obtain v u where u: "read_value n (tl (skip_ws r1)) = Some (v, u)" using assms r0 r1 colon by (auto split: option.splits)
  obtain c t where c: "skip_ws u = c # t" using assms r0 r1 colon u by (auto split: list.splits)
  show thesis
    by (rule that [OF r0 r1 colon u c])
      (use assms in \<open>auto simp: r0 r1 colon u c map_apfst_Some split: if_splits\<close>)
qed

lemma read_itemsE:
  assumes "read_items (Suc n) s = Some (xs, r)"
  obtains v u c t where "read_value n s = Some (v, u)" "skip_ws u = c # t"
    "c = CHR '']'' \<and> xs = [v] \<and> r = t \<or> c = CHR '','' \<and> (\<exists>xs'. read_items n t = Some (xs', r) \<and> xs = v # xs')"
proof -
  obtain v u where u: "read_value n s = Some (v, u)" using assms by (auto split: option.splits)
  obtain c t where c: "skip_ws u = c # t" using assms u by (auto split: list.splits)
  show thesis by (rule that [OF u c]) (use assms in \<open>auto simp: u c map_apfst_Some split: if_splits\<close>)
qed

lemma read_shorter:
  "(\<forall>s v r. read_value n s = Some (v, r) \<longrightarrow> length r < length s) \<and>
   (\<forall>s xs r. read_items n s = Some (xs, r) \<longrightarrow> length r < length s) \<and>
   (\<forall>s kvs r. read_members n s = Some (kvs, r) \<longrightarrow> length r < length s)"
proof (induction n)
  case (Suc n)
  show ?case
  proof (intro conjI allI impI)
    fix s v r assume v: "read_value (Suc n) s = Some (v, r)"
    then obtain c t where c: "skip_ws s = c # t" by (auto simp only: read_value.simps split: list.splits)
    have t: "length t < length s" using skip_ws_shorter [of s] c by simp
    have tl: "length (tl (skip_ws t)) \<le> length t" using skip_ws_shorter [of t] by simp
    consider x where "read_chars t = Some (x, r)" | "r = tl (skip_ws t)" | xs where "read_items n t = Some (xs, r)"
      | kvs where "read_members n t = Some (kvs, r)" | "read_atom (c # t) = Some (v, r)"
      using v c by (auto simp: map_apfst_Some split: if_splits)
    then show "length r < length s"
      using t tl Suc read_chars_shorter [of t] read_atom_shorter [of "c # t"] by cases fastforce+
  next
    fix s xs r assume "read_items (Suc n) s = Some (xs, r)"
    then obtain v u c t where u: "read_value n s = Some (v, u)" "skip_ws u = c # t"
      "r = t \<or> (\<exists>xs'. read_items n t = Some (xs', r))" by (rule read_itemsE) blast
    then have "length u < length s" "length r \<le> length t" using Suc by (auto intro: less_imp_le)
    then show "length r < length s" using skip_ws_shorter [of u] u(2) by simp
  next
    fix s kvs r assume "read_members (Suc n) s = Some (kvs, r)"
    then obtain r0 k r1 v u c t where m: "skip_ws s = CHR 0x22 # r0" "read_chars r0 = Some (k, r1)"
      "read_value n (tl (skip_ws r1)) = Some (v, u)" "skip_ws u = c # t"
      "r = t \<or> (\<exists>kvs'. read_members n t = Some (kvs', r))" by (rule read_membersE) blast
    have "length u < length (tl (skip_ws r1))" using Suc m(3) by blast
    moreover have "length r \<le> length t" using Suc m(5) by (auto intro: less_imp_le)
    moreover have "length (tl (skip_ws r1)) \<le> length r1" using skip_ws_shorter [of r1] by simp
    moreover have "length r1 < length r0" by (rule read_chars_shorter [OF m(2)])
    ultimately show "length r < length s"
      using skip_ws_shorter [of u] skip_ws_shorter [of s] m(1,4) by simp
  qed
qed simp

lemma depth_enough:
  "(\<forall>s m. 2 * length s < n \<longrightarrow> 2 * length s < m \<longrightarrow> read_value n s = read_value m s) \<and>
   (\<forall>s m. 2 * length s + 1 < n \<longrightarrow> 2 * length s + 1 < m \<longrightarrow> read_items n s = read_items m s) \<and>
   (\<forall>s m. 2 * length s + 1 < n \<longrightarrow> 2 * length s + 1 < m \<longrightarrow> read_members n s = read_members m s)"
proof (induction n)
  case (Suc n)
  note V = conjunct1 [OF Suc.IH, rule_format]
  note I = conjunct1 [OF conjunct2 [OF Suc.IH], rule_format]
  note M = conjunct2 [OF conjunct2 [OF Suc.IH], rule_format]
  show ?case
  proof (intro conjI allI impI)
    fix s :: string and m assume n: "2 * length s < Suc n" "2 * length s < m"
    then obtain k where k: "m = Suc k" by (cases m) auto
    show "read_value (Suc n) s = read_value m s"
    proof (cases "skip_ws s")
      case Nil
      then show ?thesis unfolding k read_value.simps Nil by (simp only: list.case)
    next
      case (Cons c t)
      then have "2 * length t + 1 < n" "2 * length t + 1 < k" using skip_ws_shorter [of s] n k by simp_all
      from I [OF this] M [OF this] show ?thesis unfolding k read_value.simps Cons by simp
    qed
  next
    fix s :: string and m assume n: "2 * length s + 1 < Suc n" "2 * length s + 1 < m"
    then obtain k where k: "m = Suc k" by (cases m) auto
    have v: "read_value n s = read_value k s" by (rule V) (use n k in simp_all)
    have i: "read_items n t = read_items k t" if "read_value k s = Some (w, u)" "skip_ws u = c # t" for w u c t
    proof -
      have "length t < length u" using skip_ws_shorter [of u] that(2) by simp
      moreover have "length u < length s" using read_shorter [of k] that(1) by blast
      ultimately show ?thesis using n k by (intro I) simp_all
    qed
    show "read_items (Suc n) s = read_items m s"
    proof (cases "read_value k s")
      case None
      then show ?thesis unfolding k read_items.simps v by simp
    next
      case (Some wu)
      obtain w u where wu: "wu = (w, u)" by force
      show ?thesis using i Some wu unfolding k read_items.simps v by (cases "skip_ws u") (simp_all del: dropWhile_eq_Nil_conv)
    qed
  next
    fix s :: string and m assume n: "2 * length s + 1 < Suc n" "2 * length s + 1 < m"
    then obtain k where k: "m = Suc k" by (cases m) auto
    have v: "read_value n (tl (skip_ws r1)) = read_value k (tl (skip_ws r1)) \<and>
        (\<forall>w u c t. read_value k (tl (skip_ws r1)) = Some (w, u) \<longrightarrow> skip_ws u = c # t \<longrightarrow> read_members n t = read_members k t)"
      if "skip_ws s = q # r0" "read_chars r0 = Some (x, r1)" for q r0 x r1
    proof (intro conjI allI impI)
      have len: "length (tl (skip_ws r1)) < length s"
        using read_chars_shorter [OF that(2)] skip_ws_shorter [of r1] skip_ws_shorter [of s] that(1) by simp
      then show "read_value n (tl (skip_ws r1)) = read_value k (tl (skip_ws r1))" using n k by (intro V) simp_all
      fix w u c t assume u: "read_value k (tl (skip_ws r1)) = Some (w, u)" "skip_ws u = c # t"
      have "length t < length u" using skip_ws_shorter [of u] u(2) by simp
      moreover have "length u < length (tl (skip_ws r1))" using read_shorter [of k] u(1) by blast
      ultimately show "read_members n t = read_members k t" using n k len by (intro M) simp_all
    qed
    show "read_members (Suc n) s = read_members m s"
    proof (cases "\<exists>r0 x r1. skip_ws s = CHR 0x22 # r0 \<and> read_chars r0 = Some (x, r1)")
      case True
      then obtain r0 x r1 where r: "skip_ws s = CHR 0x22 # r0" "read_chars r0 = Some (x, r1)" by blast
      from v [OF r] have rv: "read_value n (tl (skip_ws r1)) = read_value k (tl (skip_ws r1))"
        and rm: "\<And>w u c t. read_value k (tl (skip_ws r1)) = Some (w, u) \<Longrightarrow> skip_ws u = c # t \<Longrightarrow> read_members n t = read_members k t"
        by blast+
      show ?thesis
      proof (cases "read_value k (tl (skip_ws r1))")
        case None
        then show ?thesis using r rv unfolding k by simp
      next
        case (Some wu)
        obtain w u where wu: "wu = (w, u)" by force
        show ?thesis using r rv rm Some wu unfolding k by (cases "skip_ws u") (simp_all del: dropWhile_eq_Nil_conv)
      qed
    next
      case False
      show ?thesis
      proof (cases "skip_ws s")
        case Nil
        then show ?thesis unfolding k read_members.simps Nil by (simp only: list.case)
      next
        case (Cons q r0)
        then show ?thesis using False unfolding k by (cases "read_chars r0") auto
      qed
    qed
  qed
qed simp

text \<open>
  Reading ends with the same answer whatever depth beyond that it is given: no text is turned down for
  being too long or too deep.
\<close>

theorem reader_depth_immaterial:
  assumes "2 * length s < n"
  shows "loads s = (case read_value n s of None \<Rightarrow> None | Some (v, r) \<Rightarrow> if skip_ws r = [] then Some v else None)"
  using depth_enough [of n] assms unfolding loads_def by (metis lessI)

theorem reader_depth_immaterial_witness:
  "loads ''[[1, 2], {}]'' =
     (case read_value 100 ''[[1, 2], {}]'' of None \<Rightarrow> None | Some (v, r) \<Rightarrow> if skip_ws r = [] then Some v else None) \<and>
   loads ''[[1, 2], {}]'' = Some (JList [JList [JInt 1, JInt 2], JObj []])"
proof
  show "loads ''[[1, 2], {}]'' =
     (case read_value 100 ''[[1, 2], {}]'' of None \<Rightarrow> None | Some (v, r) \<Rightarrow> if skip_ws r = [] then Some v else None)"
    by (rule reader_depth_immaterial) simp
  show "loads ''[[1, 2], {}]'' = Some (JList [JList [JInt 1, JInt 2], JObj []])" by code_simp
qed

end
