(* ===== verification/JobModel.thy ===== *)
theory JobModel
  imports JsonText "HOL-Library.List_Lexorder" "HOL-Library.Char_ord"
begin

text \<open>
  The records of a job workflow: the configuration of a \<^verbatim>\<open>type: dynamic\<close> step and the
  DAG of jobs it runs (\<^verbatim>\<open>app/domain/models/dynamic.py\<close>), and what the meta-agent answers with
  (\<^verbatim>\<open>MetaAction\<close>, \<^verbatim>\<open>MetaDecision\<close>).  A \<^verbatim>\<open>Literal\<close> the rules branch on is a datatype;
  the fields kept only to read older records (\<^verbatim>\<open>delegated_by\<close>, \<^verbatim>\<open>pending_feedback\<close>,
  \<^verbatim>\<open>delegations\<close>, \<^verbatim>\<open>expanded\<close>) are left out.  \<^verbatim>\<open>_now()\<close> is an argument.
\<close>

section \<open>Rendering\<close>

text \<open>An f-string's rendering of an optional string, and of a list of strings.\<close>

definition opt_str :: "string option \<Rightarrow> string" where
  "opt_str s = (case s of None \<Rightarrow> ''None'' | Some x \<Rightarrow> x)"

definition repr_opt :: "string option \<Rightarrow> string" where
  "repr_opt s = (case s of None \<Rightarrow> ''None'' | Some x \<Rightarrow> repr_str x)"

definition repr_list :: "string list \<Rightarrow> string" where
  "repr_list xs = ''['' @ join '', '' (map repr_str xs) @ '']''"

text \<open>\<^verbatim>\<open>xs[-n:]\<close>.\<close>

definition last_n :: "nat \<Rightarrow> 'a list \<Rightarrow> 'a list" where
  "last_n n xs = drop (length xs - n) xs"

lemma length_last_n [simp]: "length (last_n n xs) = min n (length xs)"
  by (auto simp: last_n_def)

section \<open>Configuration\<close>

datatype category = Planning | Execution | Validation | Integration

definition job_categories :: "category list" where
  "job_categories = [Planning, Execution, Validation, Integration]"

fun category_name :: "category \<Rightarrow> string" where
  "category_name Planning = ''planning''"
| "category_name Execution = ''execution''"
| "category_name Validation = ''validation''"
| "category_name Integration = ''integration''"

lemma in_job_categories [simp]: "c \<in> set job_categories"
  by (cases c) (simp_all add: job_categories_def)

datatype automation = Ask | Plan_Mode | Auto | Bypass

fun automation_name :: "automation \<Rightarrow> string" where
  "automation_name Ask = ''ask''"
| "automation_name Plan_Mode = ''plan''"
| "automation_name Auto = ''auto''"
| "automation_name Bypass = ''bypass''"

datatype decision_kind =
  D_Plan | D_Rearrange | D_Answer | D_Question | D_Escalation | D_Handback | D_Delegate

fun decision_name :: "decision_kind \<Rightarrow> string" where
  "decision_name D_Plan = ''plan''"
| "decision_name D_Rearrange = ''rearrange''"
| "decision_name D_Answer = ''answer''"
| "decision_name D_Question = ''question''"
| "decision_name D_Escalation = ''escalation''"
| "decision_name D_Handback = ''handback''"
| "decision_name D_Delegate = ''delegate''"

fun approval_policy :: "automation \<Rightarrow> decision_kind list" where
  "approval_policy Ask = [D_Plan, D_Rearrange, D_Question, D_Escalation]"
| "approval_policy Plan_Mode = [D_Plan, D_Question, D_Escalation]"
| "approval_policy Auto = [D_Question, D_Escalation]"
| "approval_policy Bypass = []"

record pool_agent =
  pa_agent_id :: string
  pa_max_instances :: nat
  pa_categories :: "category list"

record step_datasource =
  sd_source_id :: string
  sd_operations :: "string list"
  sd_description :: string

record job_slot =
  sl_min :: nat
  sl_max :: nat

definition default_slots :: "category \<Rightarrow> job_slot" where
  "default_slots c =
     (case c of
        Planning \<Rightarrow> \<lparr>sl_min = 0, sl_max = 5\<rparr>
      | Execution \<Rightarrow> \<lparr>sl_min = 0, sl_max = 8\<rparr>
      | Validation \<Rightarrow> \<lparr>sl_min = 0, sl_max = 4\<rparr>
      | Integration \<Rightarrow> \<lparr>sl_min = 0, sl_max = 1\<rparr>)"

text \<open>\<^verbatim>\<open>_min_le_max\<close>: the error of a slot, if any.\<close>

definition min_le_max :: "job_slot \<Rightarrow> string option" where
  "min_le_max s =
     (if sl_max s < sl_min s
      then Some (''job slot min ('' @ nat_digits (sl_min s) @ '') exceeds max ('' @ nat_digits (sl_max s) @ '')'')
      else None)"

record dynamic_limits =
  li_max_total_jobs :: nat
  li_max_retries :: nat
  li_max_rearrangements :: nat
  li_max_replans :: nat
  li_max_parallel :: nat

text \<open>The defaults and the \<^verbatim>\<open>ge\<close>/\<^verbatim>\<open>le\<close> bounds of \<^verbatim>\<open>DynamicLimits\<close>.\<close>

definition default_limits :: dynamic_limits where
  "default_limits = \<lparr>li_max_total_jobs = 30, li_max_retries = 2, li_max_rearrangements = 10,
     li_max_replans = 2, li_max_parallel = 4\<rparr>"

definition limits_ok :: "dynamic_limits \<Rightarrow> bool" where
  "limits_ok l \<longleftrightarrow>
     1 \<le> li_max_total_jobs l \<and> li_max_total_jobs l \<le> 500 \<and> li_max_retries l \<le> 20 \<and>
     li_max_rearrangements l \<le> 100 \<and> li_max_replans l \<le> 10 \<and>
     1 \<le> li_max_parallel l \<and> li_max_parallel l \<le> 32"

record shared_volume =
  sv_mount_point :: string
  sv_ttl :: string

record repo_config =
  rc_url :: string
  rc_base_branch :: string
  rc_verify :: "string list"

record job_spec =
  js_id :: string
  js_category :: category
  js_agent_id :: string
  js_title :: string
  js_prompt :: string
  js_depends_on :: "string list"
  js_owns :: "string list"
  js_datasources :: "string list"

record dynamic_config =
  dc_agent_pool :: "pool_agent list"
  dc_jobs :: "category \<Rightarrow> job_slot"
  dc_plan :: "job_spec list option"
  dc_datasources :: "step_datasource list"
  dc_automation :: automation
  dc_limits :: dynamic_limits
  dc_instructions :: string
  dc_shared_volume :: "shared_volume option"
  dc_repo :: "repo_config option"

text \<open>\<^verbatim>\<open>_fill_slots\<close>: the slots an author gives, over the defaults.\<close>

definition fill_slots :: "(category \<times> job_slot) list \<Rightarrow> category \<Rightarrow> job_slot" where
  "fill_slots given c = (case map_of given c of None \<Rightarrow> default_slots c | Some s \<Rightarrow> s)"

definition duplicated :: "string list \<Rightarrow> string list" where
  "duplicated xs = sort (remdups (filter (\<lambda>i. 1 < count_list xs i) xs))"

text \<open>\<^verbatim>\<open>_check_pool\<close>: the first thing wrong with a configuration.\<close>

definition check_pool :: "dynamic_config \<Rightarrow> string option" where
  "check_pool cf =
     (let ids = map pa_agent_id (dc_agent_pool cf);
          sources = map sd_source_id (dc_datasources cf)
      in if duplicated ids \<noteq> []
         then Some (''agent_pool lists '' @ repr_list (duplicated ids) @ '' more than once'')
         else if duplicated sources \<noteq> []
         then Some (''datasources lists '' @ repr_list (duplicated sources) @ '' more than once'')
         else if dc_plan cf = Some []
         then Some ''plan is empty: list the jobs, or leave plan out to let the meta-agent plan''
         else None)"

definition pool_entry :: "dynamic_config \<Rightarrow> string \<Rightarrow> pool_agent option" where
  "pool_entry cf a = find (\<lambda>p. pa_agent_id p = a) (dc_agent_pool cf)"

definition datasource_of :: "dynamic_config \<Rightarrow> string \<Rightarrow> step_datasource option" where
  "datasource_of cf s = find (\<lambda>d. sd_source_id d = s) (dc_datasources cf)"

definition needs_approval :: "dynamic_config \<Rightarrow> decision_kind \<Rightarrow> bool" where
  "needs_approval cf k \<longleftrightarrow> k \<in> set (approval_policy (dc_automation cf))"

lemma duplicated_Nil_iff: "duplicated xs = [] \<longleftrightarrow> distinct xs"
proof -
  have "duplicated xs = [] \<longleftrightarrow> (\<forall>x \<in> set xs. count_list xs x \<le> 1)"
    unfolding duplicated_def by (auto simp: filter_empty_conv not_less simp flip: set_empty)
  also have "\<dots> \<longleftrightarrow> distinct xs"
    by (induction xs) (auto simp: count_list_0_iff Suc_le_eq split: if_splits)
  finally show ?thesis .
qed

section \<open>The run-time record\<close>

datatype job_status = Pending | Running | Finished | Failed | Waiting | Skipped | Cancelled | Removed

fun job_status_name :: "job_status \<Rightarrow> string" where
  "job_status_name Pending = ''pending''"
| "job_status_name Running = ''running''"
| "job_status_name Finished = ''finished''"
| "job_status_name Failed = ''failed''"
| "job_status_name Waiting = ''waiting''"
| "job_status_name Skipped = ''skipped''"
| "job_status_name Cancelled = ''cancelled''"
| "job_status_name Removed = ''removed''"

datatype attempt_status = A_Running | A_Finished | A_Failed | A_Cancelled | A_Needs_Input

record job_attempt =
  at_n :: nat
  at_child :: "string option"
  at_status :: attempt_status
  at_started_at :: time
  at_finished_at :: "time option"
  at_reason :: string
  at_feedback :: "string option"
  at_output :: "jobj option"
  at_error :: "string option"
  at_questions :: "string list"

record job_note =
  jn_ts :: time
  jn_source :: string
  jn_text :: string
  jn_after_attempt :: nat

record job =
  jb_id :: string
  jb_category :: category
  jb_agent_id :: string
  jb_title :: string
  jb_prompt :: string
  jb_depends_on :: "string list"
  jb_owns :: "string list"
  jb_datasources :: "string list"
  jb_status :: job_status
  jb_attempts :: "job_attempt list"
  jb_notes :: "job_note list"
  jb_pending_reason :: "string option"
  jb_pending_answers :: "jobj option"
  jb_created_by :: string
  jb_awaiting :: "string list"

text \<open>\<^verbatim>\<open>Job(**spec.model_dump(), created_by=...)\<close>.\<close>

definition job_of_spec :: "string \<Rightarrow> job_spec \<Rightarrow> job" where
  "job_of_spec created_by sp =
     \<lparr>jb_id = js_id sp, jb_category = js_category sp, jb_agent_id = js_agent_id sp,
      jb_title = js_title sp, jb_prompt = js_prompt sp, jb_depends_on = js_depends_on sp,
      jb_owns = js_owns sp, jb_datasources = js_datasources sp, jb_status = Pending,
      jb_attempts = [], jb_notes = [], jb_pending_reason = None, jb_pending_answers = None,
      jb_created_by = created_by, jb_awaiting = []\<rparr>"

definition last_attempt :: "job \<Rightarrow> job_attempt option" where
  "last_attempt j = (if jb_attempts j = [] then None else Some (last (jb_attempts j)))"

definition job_output :: "job \<Rightarrow> jobj option" where
  "job_output j =
     Option.bind (find (\<lambda>a. at_status a = A_Finished \<and> at_output a \<noteq> None) (rev (jb_attempts j)))
       at_output"

definition job_active :: "job \<Rightarrow> bool" where
  "job_active j \<longleftrightarrow> jb_status j \<noteq> Removed \<and> jb_status j \<noteq> Cancelled"

definition add_note :: "time \<Rightarrow> string \<Rightarrow> string \<Rightarrow> job \<Rightarrow> job" where
  "add_note now source txt j =
     j\<lparr>jb_notes := last_n 50 (jb_notes j @
         [\<lparr>jn_ts = now, jn_source = source, jn_text = take 4000 txt,
           jn_after_attempt = length (jb_attempts j)\<rparr>])\<rparr>"

definition new_notes :: "job \<Rightarrow> job_note list" where
  "new_notes j = filter (\<lambda>n. length (jb_attempts j) \<le> jn_after_attempt n) (jb_notes j)"

datatype situation_kind =
    Start | Phase_Done | Change_Request | Question | Live_Question | Needs_Help | Failure
  | Rejected | Human_Answer

fun situation_name :: "situation_kind \<Rightarrow> string" where
  "situation_name Start = ''start''"
| "situation_name Phase_Done = ''phase_done''"
| "situation_name Change_Request = ''change_request''"
| "situation_name Question = ''question''"
| "situation_name Live_Question = ''live_question''"
| "situation_name Needs_Help = ''needs_help''"
| "situation_name Failure = ''failure''"
| "situation_name Rejected = ''rejected''"
| "situation_name Human_Answer = ''human_answer''"

record situation =
  si_kind :: situation_kind
  si_job_id :: "string option"
  si_attempt :: "nat option"
  si_detail :: jobj
  si_ts :: time

datatype action_kind =
  Add_Jobs | Update_Job | Rewind | Remove | Answer | Message | Ask_Human | Finish | Fail

fun action_name :: "action_kind \<Rightarrow> string" where
  "action_name Add_Jobs = ''add_jobs''"
| "action_name Update_Job = ''update_job''"
| "action_name Rewind = ''rewind''"
| "action_name Remove = ''remove''"
| "action_name Answer = ''answer''"
| "action_name Message = ''message''"
| "action_name Ask_Human = ''ask_human''"
| "action_name Finish = ''finish''"
| "action_name Fail = ''fail''"

record meta_action =
  ma_kind :: action_kind
  ma_jobs :: "job_spec list"
  ma_job_id :: "string option"
  ma_job_ids :: "string list"
  ma_text :: string
  ma_interrupt :: bool
  ma_restart :: bool
  ma_changes :: jobj

record meta_decision =
  md_summary :: string
  md_actions :: "meta_action list"

text \<open>
  The three shapes of a decision's \<^verbatim>\<open>payload\<close>: what the meta-agent decided and about what, a
  question to a human, and the job of a manual retry.
\<close>

datatype payload =
    Meta_Payload meta_decision "situation list"
  | Question_Payload string "string option"
  | Retry_Payload string

record decision =
  de_id :: string
  de_kind :: decision_kind
  de_summary :: string
  de_payload :: payload
  de_created_at :: time
  de_resolved :: bool
  de_approved :: "bool option"
  de_reason :: "string option"

record dag_event =
  ev_ts :: time
  ev_kind :: string
  ev_job_id :: "string option"
  ev_detail :: string

datatype run_status = S_Planning | S_Running | S_Waiting_Approval | S_Completed | S_Failed

record run_state =
  st_step_id :: string
  st_status :: run_status
  st_jobs :: "job list"
  st_decisions :: "decision list"
  st_events :: "dag_event list"
  st_situations :: "situation list"
  st_replans :: nat
  st_rearrangements :: nat
  st_finished :: bool
  st_summary :: "string option"
  st_error :: "string option"
  st_usage :: "nat dict"

definition empty_run_state :: "string \<Rightarrow> run_state" where
  "empty_run_state step_id =
     \<lparr>st_step_id = step_id, st_status = S_Planning, st_jobs = [], st_decisions = [], st_events = [],
      st_situations = [], st_replans = 0, st_rearrangements = 0, st_finished = False,
      st_summary = None, st_error = None, st_usage = []\<rparr>"

definition find_job :: "run_state \<Rightarrow> string \<Rightarrow> job option" where
  "find_job s jid = find (\<lambda>j. jb_id j = jid) (st_jobs s)"

definition active_jobs :: "run_state \<Rightarrow> job list" where
  "active_jobs s = filter job_active (st_jobs s)"

definition running_jobs :: "run_state \<Rightarrow> job list" where
  "running_jobs s = filter (\<lambda>j. jb_status j = Running) (st_jobs s)"

definition open_decisions :: "run_state \<Rightarrow> decision list" where
  "open_decisions s = filter (\<lambda>d. \<not> de_resolved d) (st_decisions s)"

definition log_event :: "time \<Rightarrow> string \<Rightarrow> string option \<Rightarrow> string \<Rightarrow> run_state \<Rightarrow> run_state" where
  "log_event now kind jid detail s =
     s\<lparr>st_events := last_n 500 (st_events s @
         [\<lparr>ev_ts = now, ev_kind = kind, ev_job_id = jid, ev_detail = take 2000 detail\<rparr>])\<rparr>"

end
