(* ===== verification/JobRules.thy ===== *)
theory JobRules
  imports JobModel
begin

text \<open>
  The checks every planned job passes, and the roster the meta-agent picks agents from:
  \<^verbatim>\<open>app/infrastructure/orchestration/dynamic/dispatcher.py\<close>.  \<open>has_cycle_iff\<close> shows that
  the depth-first search finds a cycle exactly when there is one, within the depth it is given.
\<close>

section \<open>Roster\<close>

text \<open>What the roster shows of an agent definition; \<open>am_servers\<close> is \<^verbatim>\<open>enabled_servers()\<close>.\<close>

record agent_info =
  am_name :: string
  am_description :: "string option"
  am_servers :: "string list option"
  am_tools :: "(string \<times> bool) list option"
  am_datasources :: "(string \<times> string list) list"
  am_s3 :: bool

definition describe_agent :: "agent_info \<Rightarrow> string" where
  "describe_agent a =
     (let mcp = (case am_servers a of None \<Rightarrow> [] | Some servers \<Rightarrow>
            if servers = [] then [] else [''MCP: '' @ join '', '' (sort servers)]);
          enabled = (case am_tools a of None \<Rightarrow> [] | Some tools \<Rightarrow> sort (map fst (filter snd tools)));
          tools = (if enabled = [] then [] else [''tools: '' @ join '', '' enabled]);
          sources = map (\<lambda>(sid, ops). ''datasource '' @ sid @ '' (''
            @ (if ops = [] then ''no operations'' else join '', '' ops) @ '')'') (am_datasources a);
          s3 = (if am_s3 a then [''persistent workspace (S3)''] else []);
          parts = mcp @ tools @ sources @ s3;
          caps = (if parts = [] then ''no addons'' else join ''; '' parts);
          desc = py_strip (case am_description a of None \<Rightarrow> '''' | Some d \<Rightarrow> d)
      in (if desc = '''' then ''(no description)'' else desc) @ '' ['' @ caps @ '']'')"

definition newline :: string where
  "newline = [char_of (10 :: nat)]"

definition build_roster :: "dynamic_config \<Rightarrow> (string \<Rightarrow> agent_info option) \<Rightarrow> string" where
  "build_roster cf agents =
     (let lines = List.map_filter (\<lambda>p. map_option (\<lambda>a.
            ''- agent_id: '' @ pa_agent_id p
            @ '' | name: '' @ (if am_name a = '''' then pa_agent_id p else am_name a)
            @ '' | categories: '' @ (if pa_categories p = [] then ''any''
                                      else join '', '' (map category_name (pa_categories p)))
            @ '' | max parallel instances: '' @ nat_digits (pa_max_instances p)
            @ newline @ ''  '' @ describe_agent a) (agents (pa_agent_id p))) (dc_agent_pool cf)
      in if lines = [] then ''(empty pool)'' else join newline lines)"

definition describe_datasources :: "dynamic_config \<Rightarrow> string" where
  "describe_datasources cf =
     (if dc_datasources cf = []
      then ''(none: jobs only reach the data sources their agents already have)''
      else join newline (map (\<lambda>d.
             ''- '' @ sd_source_id d @ '': operations ''
             @ (if sd_operations d = [] then ''(none)'' else join '', '' (sd_operations d))
             @ (if py_strip (sd_description d) = '''' then ''''
                else newline @ ''  '' @ py_strip (sd_description d))) (dc_datasources cf)))"

section \<open>Cycles\<close>

text \<open>
  \<^verbatim>\<open>has_cycle\<close>.  \<open>marks v\<close>: \<open>None\<close> not seen, \<open>Some False\<close> on the stack (1),
  \<open>Some True\<close> done (2).  The first argument bounds the depth of the recursion.
\<close>

type_synonym graph = "string list dict"
type_synonym marks = "string \<Rightarrow> bool option"

definition no_marks :: marks where "no_marks = (\<lambda>_. None)"

function (sequential) dfs_visit :: "nat \<Rightarrow> graph \<Rightarrow> string \<Rightarrow> marks \<Rightarrow> bool \<times> marks"
  and dfs_each :: "nat \<Rightarrow> graph \<Rightarrow> string list \<Rightarrow> marks \<Rightarrow> bool \<times> marks" where
  "dfs_visit 0 g v m = (False, m)"
| "dfs_visit (Suc n) g v m =
     (let (found, m') = dfs_each n g (case map_of g v of None \<Rightarrow> [] | Some ws \<Rightarrow> ws) (m(v := Some False))
      in if found then (True, m') else (False, m'(v := Some True)))"
| "dfs_each n g [] m = (False, m)"
| "dfs_each n g (w # ws) m =
     (if map_of g w = None then dfs_each n g ws m
      else if m w = Some False then (True, m)
      else if m w = None
      then (let (found, m') = dfs_visit n g w m
            in if found then (True, m') else dfs_each n g ws m')
      else dfs_each n g ws m)"
  by pat_completeness auto
termination
  by (relation "inv_image (less_than <*lex*> less_than)
        (case_sum (\<lambda>(n, g, v, m). (n, 0)) (\<lambda>(n, g, ws, m). (n, Suc (length ws))))") auto

text \<open>The loop over \<^verbatim>\<open>list(graph)\<close>, which \<^verbatim>\<open>any\<close> leaves at the first cycle.\<close>

fun any_cycle :: "nat \<Rightarrow> graph \<Rightarrow> string list \<Rightarrow> marks \<Rightarrow> bool" where
  "any_cycle n g [] m = False"
| "any_cycle n g (v # vs) m =
     (if m v = None
      then (let (found, m') = dfs_visit n g v m in found \<or> any_cycle n g vs m')
      else any_cycle n g vs m)"

definition has_cycle :: "graph \<Rightarrow> bool" where
  "has_cycle g = any_cycle (length g) g (map fst g) no_marks"

text \<open>The edges the search follows: between nodes of the graph.\<close>

definition graph_edges :: "graph \<Rightarrow> string rel" where
  "graph_edges g = {(v, w). \<exists>ws. map_of g v = Some ws \<and> w \<in> set ws \<and> map_of g w \<noteq> None}"

definition unseen :: "graph \<Rightarrow> marks \<Rightarrow> string set" where
  "unseen g m = {v \<in> dict_keys g. m v = None}"

text \<open>What is done leads only to what is done, and never back.\<close>

definition done_ok :: "graph \<Rightarrow> marks \<Rightarrow> bool" where
  "done_ok g m \<longleftrightarrow>
     (\<forall>v w. m v = Some True \<longrightarrow> (v, w) \<in> graph_edges g \<longrightarrow> m w = Some True) \<and>
     wf {(w, v). (v, w) \<in> graph_edges g \<and> m v = Some True}"

definition grows :: "marks \<Rightarrow> marks \<Rightarrow> bool" where
  "grows m m' \<longleftrightarrow> (\<forall>v. (m' v = Some False) = (m v = Some False)) \<and>
     (\<forall>v. m v = Some True \<longrightarrow> m' v = Some True)"

lemma grows_trans: "grows m m' \<Longrightarrow> grows m' m'' \<Longrightarrow> grows m m''"
  by (simp add: grows_def)

lemma unseen_grows: "grows m m' \<Longrightarrow> unseen g m' \<subseteq> unseen g m"
proof
  fix v
  assume grow: "grows m m'" and v: "v \<in> unseen g m'"
  have "m v \<noteq> Some d" for d
    using grow v unfolding grows_def unseen_def by (cases d) (metis (mono_tags) mem_Collect_eq option.distinct(1))+
  then have "m v = None" by (cases "m v") auto
  with v show "v \<in> unseen g m" by (simp add: unseen_def)
qed

lemma grows_close:
  assumes "grows (m(v := Some False)) m1" and "m v = None"
  shows "grows m (m1(v := Some True))"
  unfolding grows_def
proof (intro conjI allI)
  fix u
  show "((m1(v \<mapsto> True)) u = Some False) = (m u = Some False)"
    using assms by (cases "u = v") (simp_all add: grows_def)
  show "m u = Some True \<longrightarrow> (m1(v \<mapsto> True)) u = Some True"
    using assms by (cases "u = v") (simp_all add: grows_def)
qed

lemma finite_unseen [simp]: "finite (unseen g m)"
  by (simp add: unseen_def)

lemma done_ok_close:
  assumes inv: "done_ok g m" and v: "m v \<noteq> Some True"
    and succs: "\<And>w. (v, w) \<in> graph_edges g \<Longrightarrow> m w = Some True"
  shows "done_ok g (m(v := Some True))"
proof -
  let ?old = "{(w, u). (u, w) \<in> graph_edges g \<and> m u = Some True}"
  let ?new = "{(w, u). (u, w) \<in> graph_edges g \<and> u = v}"
  have "wf ?new"
    by (rule wf_subset [OF wf_measure [of "\<lambda>x. if x = v then 1 else 0"]]) (use succs v in auto)
  moreover have "Domain ?old \<inter> Range ?new = {}"
    using inv v by (auto simp: done_ok_def)
  moreover have "wf ?old" using inv by (simp add: done_ok_def)
  ultimately have "wf (?old \<union> ?new)" by (intro wf_Un) auto
  moreover have "{(w, u). (u, w) \<in> graph_edges g \<and> (m(v := Some True)) u = Some True} = ?old \<union> ?new"
    by auto
  ultimately show ?thesis using inv succs by (auto simp: done_ok_def)
qed

lemma dfs_sound:
  shows "\<lbrakk>m v = None; v \<in> dict_keys g; card (unseen g m) \<le> n; done_ok g m;
          \<And>u. m u = Some False \<Longrightarrow> (u, v) \<in> (graph_edges g)\<^sup>*; dfs_visit n g v m = (b, m')\<rbrakk> \<Longrightarrow>
         (if b then \<not> acyclic (graph_edges g) else done_ok g m' \<and> grows m m' \<and> m' v = Some True)"
    and "\<lbrakk>card (unseen g m) \<le> n; done_ok g m;
          \<And>w. w \<in> set ws \<Longrightarrow> map_of g w \<noteq> None \<Longrightarrow> (p, w) \<in> graph_edges g;
          \<And>u. m u = Some False \<Longrightarrow> (u, p) \<in> (graph_edges g)\<^sup>*; dfs_each n g ws m = (b, m')\<rbrakk> \<Longrightarrow>
         (if b then \<not> acyclic (graph_edges g)
          else done_ok g m' \<and> grows m m' \<and>
               (\<forall>w \<in> set ws. map_of g w \<noteq> None \<longrightarrow> m' w = Some True))"
proof (induction n g v m and n g ws m arbitrary: b m' and b m' p rule: dfs_visit_dfs_each.induct)
  case (1 g v m)
  then have "v \<in> unseen g m" by (simp add: unseen_def)
  with 1 show ?case by (metis card_0_eq empty_iff finite_unseen le_zero_eq)
next
  case (2 n g v m)
  let ?ws = "case map_of g v of None \<Rightarrow> [] | Some ws \<Rightarrow> ws"
  let ?m1 = "m(v := Some False)"
  obtain b1 m1 where run: "dfs_each n g ?ws ?m1 = (b1, m1)" by fastforce
  obtain ws where ws: "map_of g v = Some ws"
    using "2.prems"(2) by (metis map_of_eq_None_iff not_None_eq)
  have "unseen g ?m1 = unseen g m - {v}" and "v \<in> unseen g m"
    using "2.prems" by (auto simp: unseen_def)
  then have "card (unseen g ?m1) \<le> n"
    using "2.prems"(3) by simp
  moreover have "done_ok g ?m1"
    using "2.prems"(1,4) unfolding done_ok_def
    by (simp, elim conjE) (auto elim!: wf_subset)
  ultimately have each: "if b1 then \<not> acyclic (graph_edges g)
      else done_ok g m1 \<and> grows ?m1 m1 \<and> (\<forall>w \<in> set ?ws. map_of g w \<noteq> None \<longrightarrow> m1 w = Some True)"
    by (rule "2.IH" [OF _ _ _ _ run, where p = v])
      (use "2.prems"(5) ws in \<open>auto simp: graph_edges_def split: if_splits\<close>)
  show ?case
  proof (cases b1)
    case True
    then show ?thesis using each run "2.prems"(6) by (auto split: prod.splits)
  next
    case False
    then have m1: "done_ok g m1" "grows ?m1 m1" "\<And>w. (v, w) \<in> graph_edges g \<Longrightarrow> m1 w = Some True"
      using each ws by (auto simp: graph_edges_def)
    then have "m1 v = Some False" by (simp add: grows_def)
    then have "done_ok g (m1(v := Some True))" by (intro done_ok_close m1) simp
    moreover have "\<not> b" "m' = m1(v := Some True)" using False run "2.prems"(6) by auto
    ultimately show ?thesis using grows_close [OF m1(2) "2.prems"(1)] by simp
  qed
next
  case (3 n g m)
  then show ?case by (auto simp: grows_def)
next
  case (4 n g w ws m)
  show ?case
  proof (cases "map_of g w = None \<or> m w = Some True")
    case True
    then have "dfs_each n g ws m = (b, m')"
      using "4.prems"(5) by (cases "map_of g w = None") simp_all
    note run = this
    have edges: "\<And>w. w \<in> set ws \<Longrightarrow> map_of g w \<noteq> None \<Longrightarrow> (p, w) \<in> graph_edges g"
      using "4.prems"(3) by simp
    have "if b then \<not> acyclic (graph_edges g)
          else done_ok g m' \<and> grows m m' \<and> (\<forall>w \<in> set ws. map_of g w \<noteq> None \<longrightarrow> m' w = Some True)"
    proof (cases "map_of g w = None")
      case None: True
      show ?thesis by (rule "4.IH"(1) [OF None "4.prems"(1,2) edges "4.prems"(4) run])
    next
      case Some: False
      with True have "m w \<noteq> Some False" "m w \<noteq> None" by auto
      then show ?thesis by (rule "4.IH"(4) [OF Some _ _ "4.prems"(1,2) edges "4.prems"(4) run])
    qed
    then show ?thesis using True by (auto simp: grows_def)
  next
    case False
    then have edge: "(p, w) \<in> graph_edges g" using "4.prems"(3) by simp
    show ?thesis
    proof (cases "m w")
      case (Some d)
      with False have "m w = Some False" by (cases d) auto
      then have "b" and "(w, w) \<in> (graph_edges g)\<^sup>+"
        using "4.prems"(4,5) False edge by (auto intro: rtrancl_into_trancl1)
      then show ?thesis by (auto simp: acyclic_def)
    next
      case None
      obtain b1 m1 where run: "dfs_visit n g w m = (b1, m1)" by fastforce
      have visit: "if b1 then \<not> acyclic (graph_edges g)
                   else done_ok g m1 \<and> grows m m1 \<and> m1 w = Some True"
        by (rule "4.IH"(2) [OF _ _ _ _ _ "4.prems"(1,2) _ run])
          (use False None "4.prems"(4) edge in
            \<open>auto simp: map_of_eq_None_iff intro: rtrancl_into_rtrancl\<close>)
      show ?thesis
      proof (cases b1)
        case True
        then show ?thesis using visit run None False "4.prems"(5) by auto
      next
        case b1: False
        then have m1: "done_ok g m1" "grows m m1" "m1 w = Some True" using visit by auto
        have rest: "dfs_each n g ws m1 = (b, m')"
          using b1 run None False "4.prems"(5) by auto
        have "if b then \<not> acyclic (graph_edges g)
              else done_ok g m' \<and> grows m1 m' \<and> (\<forall>w \<in> set ws. map_of g w \<noteq> None \<longrightarrow> m' w = Some True)"
        proof (rule "4.IH"(3) [OF _ _ None run [symmetric] refl b1 _ m1(1) _ _ rest])
          show "map_of g w \<noteq> None" "m w \<noteq> Some False" using False None by auto
          show "card (unseen g m1) \<le> n"
            using "4.prems"(1) card_mono [OF finite_unseen unseen_grows [OF m1(2)]]
            by (rule order_trans [rotated])
          show "(p, x) \<in> graph_edges g" if "x \<in> set ws" "map_of g x \<noteq> None" for x
            using that "4.prems"(3) by simp
          show "(u, p) \<in> (graph_edges g)\<^sup>*" if "m1 u = Some False" for u
            using that "4.prems"(4) m1(2) by (simp add: grows_def)
        qed
        with m1 show ?thesis by (auto simp: grows_def split: if_splits)
      qed
    qed
  qed
qed

lemma any_cycle_iff:
  assumes "card (unseen g m) \<le> n" and "done_ok g m" and "\<And>u. m u \<noteq> Some False"
    and "set vs \<subseteq> dict_keys g" and "\<And>v. v \<in> dict_keys g \<Longrightarrow> v \<notin> set vs \<Longrightarrow> m v = Some True"
  shows "any_cycle n g vs m \<longleftrightarrow> \<not> acyclic (graph_edges g)"
  using assms
proof (induction vs arbitrary: m)
  case Nil
  have "m u = Some True" if "(u, w) \<in> graph_edges g" for u w
  proof -
    from that obtain ws where "(u, ws) \<in> set g" by (auto simp: graph_edges_def dest: map_of_SomeD)
    then show ?thesis using Nil.prems(5) [of u] by force
  qed
  then have "(graph_edges g)\<inverse> = {(w, u). (u, w) \<in> graph_edges g \<and> m u = Some True}" by auto
  with Nil.prems(2) have "wf ((graph_edges g)\<inverse>)" by (simp add: done_ok_def)
  then have "acyclic (graph_edges g)" by (metis acyclic_converse wf_acyclic)
  then show ?case by simp
next
  case (Cons v vs)
  show ?case
  proof (cases "m v")
    case (Some d)
    with Cons.prems(3) have v: "m v = Some True" by (cases d) auto
    have "any_cycle n g vs m \<longleftrightarrow> \<not> acyclic (graph_edges g)"
    proof (rule Cons.IH [OF Cons.prems(1,2,3)])
      show "m u = Some True" if "u \<in> dict_keys g" "u \<notin> set vs" for u
        using that v Cons.prems(5) [of u] by (cases "u = v") simp_all
    qed (use Cons.prems(4) in simp)
    with v show ?thesis by simp
  next
    case None
    obtain b m' where run: "dfs_visit n g v m = (b, m')" by fastforce
    have visit: "if b then \<not> acyclic (graph_edges g) else done_ok g m' \<and> grows m m' \<and> m' v = Some True"
      by (rule dfs_sound(1) [OF None _ Cons.prems(1,2) _ run]) (use Cons.prems(3,4) in auto)
    show ?thesis
    proof (cases b)
      case True
      with visit run None show ?thesis by simp
    next
      case False
      then have m': "done_ok g m'" "grows m m'" "m' v = Some True" using visit by auto
      have "any_cycle n g vs m' \<longleftrightarrow> \<not> acyclic (graph_edges g)"
      proof (rule Cons.IH [OF _ m'(1)])
        show "card (unseen g m') \<le> n"
          using Cons.prems(1) card_mono [OF finite_unseen unseen_grows [OF m'(2)]] by (rule order_trans [rotated])
        show "m' u \<noteq> Some False" for u using m'(2) Cons.prems(3) by (simp add: grows_def)
        show "m' u = Some True" if "u \<in> dict_keys g" "u \<notin> set vs" for u
          using that m'(2,3) Cons.prems(5) [of u] by (cases "u = v") (auto simp: grows_def)
      qed (use Cons.prems(4) in simp)
      with False run None show ?thesis by simp
    qed
  qed
qed

lemma has_cycle_cyclic: "has_cycle g \<longleftrightarrow> \<not> acyclic (graph_edges g)"
proof -
  have "card (unseen g no_marks) \<le> length g"
    by (simp add: unseen_def no_marks_def) (metis card_length length_map list.set_map)
  then show ?thesis
    unfolding has_cycle_def by (rule any_cycle_iff) (auto simp: no_marks_def done_ok_def)
qed

text \<open>
  C23: The search answers correctly for every graph, and the depth it is given is always enough:
  a job DAG is refused for a cycle exactly when its dependencies, among its own jobs, have one.
\<close>

theorem has_cycle_iff: "has_cycle g \<longleftrightarrow> \<not> acyclic (graph_edges g)"
  by (rule has_cycle_cyclic)

section \<open>Validation\<close>

definition id_char :: "char \<Rightarrow> bool" where
  "id_char c \<longleftrightarrow> is_lower c \<or> is_digit c \<or> c = CHR ''_'' \<or> c = CHR ''-''"

text \<open>
  \<^verbatim>\<open>_ID_RE.match\<close>: a lower-case letter and at most 47 letters, digits, \<^verbatim>\<open>_\<close> or
  \<^verbatim>\<open>-\<close>; \<^verbatim>\<open>$\<close> also matches before a newline at the end.
\<close>

definition slug :: "string \<Rightarrow> bool" where
  "slug s \<longleftrightarrow>
     (case s of [] \<Rightarrow> False | c # cs \<Rightarrow> is_lower c \<and> length cs \<le> 47 \<and> list_all id_char cs)"

definition id_matches :: "string \<Rightarrow> bool" where
  "id_matches s \<longleftrightarrow> slug s \<or> (s \<noteq> [] \<and> last s = char_of (10 :: nat) \<and> slug (butlast s))"

definition id_pattern :: string where
  "id_pattern = ''^[a-z][a-z0-9_-]{0,47}$''"

text \<open>\<^verbatim>\<open>check_assignment\<close>.\<close>

definition check_assignment ::
    "string \<Rightarrow> category \<Rightarrow> string \<Rightarrow> string list \<Rightarrow> dynamic_config \<Rightarrow> string list" where
  "check_assignment jid cat agent sources cf =
     (case pool_entry cf agent of
        None \<Rightarrow> [''job '' @ repr_str jid @ '': agent '' @ repr_str agent @ '' is not in the pool'']
      | Some p \<Rightarrow>
          if pa_categories p \<noteq> [] \<and> cat \<notin> set (pa_categories p)
          then [''job '' @ repr_str jid @ '': agent '' @ repr_str agent @ '' may only fill ''
                @ repr_list (map category_name (pa_categories p))]
          else []) @
     List.map_filter (\<lambda>s. case datasource_of cf s of
        None \<Rightarrow> Some (''job '' @ repr_str jid @ '': data source '' @ repr_str s
                         @ '' is not enabled for this step'')
      | Some _ \<Rightarrow> None) sources"

text \<open>The first loop of \<^verbatim>\<open>validate_jobs\<close>, \<open>seen\<close> being \<^verbatim>\<open>new_ids\<close> so far.\<close>

fun check_specs ::
    "category list \<Rightarrow> dynamic_config \<Rightarrow> string set \<Rightarrow> string list \<Rightarrow> job_spec list \<Rightarrow> string list" where
  "check_specs allowed cf existing seen [] = []"
| "check_specs allowed cf existing seen (sp # sps) =
     (if id_matches (js_id sp) then []
      else [''job id '' @ repr_str (js_id sp) @ '' must match '' @ id_pattern]) @
     (if js_id sp \<in> existing \<or> js_id sp \<in> set seen
      then [''job id '' @ repr_str (js_id sp) @ '' is already used''] else []) @
     (if js_category sp \<in> set allowed then []
      else [''job '' @ repr_str (js_id sp) @ '': category '' @ repr_str (category_name (js_category sp))
            @ '' is not allowed here (allowed: '' @ repr_list (map category_name allowed) @ '')'']) @
     check_assignment (js_id sp) (js_category sp) (js_agent_id sp) (js_datasources sp) cf @
     (if py_strip (js_prompt sp) = ''''
      then [''job '' @ repr_str (js_id sp) @ '': prompt is empty''] else []) @
     check_specs allowed cf existing (seen @ [js_id sp]) sps"

text \<open>Its second loop: what the new jobs depend on.\<close>

definition check_deps :: "string set \<Rightarrow> job_spec \<Rightarrow> string list" where
  "check_deps known sp = List.map_filter (\<lambda>dep.
     if dep = js_id sp then Some (''job '' @ repr_str (js_id sp) @ '' depends on itself'')
     else if dep \<in> known then None
     else Some (''job '' @ repr_str (js_id sp) @ '' depends on unknown or removed job '' @ repr_str dep))
     (js_depends_on sp)"

definition too_many :: "category \<Rightarrow> nat \<Rightarrow> dynamic_config \<Rightarrow> string list" where
  "too_many cat n cf =
     (if sl_max (dc_jobs cf cat) < n
      then [''too many '' @ category_name cat @ '' jobs: '' @ nat_digits n @ '' > max ''
            @ nat_digits (sl_max (dc_jobs cf cat))]
      else [])"

definition count_category :: "category \<Rightarrow> job list \<Rightarrow> nat" where
  "count_category cat js = length (filter (\<lambda>j. job_active j \<and> jb_category j = cat) js)"

definition count_specs :: "category \<Rightarrow> job_spec list \<Rightarrow> nat" where
  "count_specs cat sps = length (filter (\<lambda>sp. js_category sp = cat) sps)"

definition job_graph :: "job list \<Rightarrow> graph" where
  "job_graph js = fold (\<lambda>j. AList.update (jb_id j) (jb_depends_on j)) (filter job_active js) []"

definition spec_graph :: "job list \<Rightarrow> job_spec list \<Rightarrow> graph" where
  "spec_graph existing proposed =
     fold (\<lambda>sp. AList.update (js_id sp) (js_depends_on sp)) proposed (job_graph existing)"

definition cycle_error :: string where
  "cycle_error = ''depends_on contains a cycle; loop by rewinding, not with cycles''"

definition too_many_total :: "nat \<Rightarrow> dynamic_config \<Rightarrow> string list" where
  "too_many_total n cf =
     (if li_max_total_jobs (dc_limits cf) < n
      then [''too many jobs in total: '' @ nat_digits n @ '' > '' @ nat_digits (li_max_total_jobs (dc_limits cf))]
      else [])"

definition validate_jobs ::
    "job_spec list \<Rightarrow> dynamic_config \<Rightarrow> job list \<Rightarrow> category list \<Rightarrow> string list" where
  "validate_jobs proposed cf existing allowed =
     (let known = jb_id ` set (filter job_active existing) \<union> js_id ` set proposed
      in check_specs allowed cf (jb_id ` set existing) [] proposed
         @ List.maps (check_deps known) proposed
         @ (if has_cycle (spec_graph existing proposed) then [cycle_error] else [])
         @ List.maps (\<lambda>cat. too_many cat (count_category cat existing + count_specs cat proposed) cf)
             job_categories
         @ too_many_total (length existing + length proposed) cf)"

text \<open>\<^verbatim>\<open>check_minimums\<close>, over the number of (active) jobs of a category.\<close>

definition check_minimums :: "(category \<Rightarrow> nat) \<Rightarrow> dynamic_config \<Rightarrow> string list" where
  "check_minimums count cf = List.maps (\<lambda>cat.
     if count cat < sl_min (dc_jobs cf cat)
     then [''at least '' @ nat_digits (sl_min (dc_jobs cf cat)) @ '' '' @ category_name cat
           @ '' job(s) required, plan has '' @ nat_digits (count cat)]
     else []) job_categories"

end
