(* ===== verification/JobEngine.thy ===== *)
theory JobEngine
  imports JobRules
begin

text \<open>
  The rules of a job DAG: \<^verbatim>\<open>JobDag\<close> of
  \<^verbatim>\<open>app/infrastructure/orchestration/dynamic/engine.py\<close>.  Events, decisions and a
  human's resolution go in, a step (attempts to launch and to stop, answers and messages to deliver)
  and the next status come out.  The object is a record passed through its methods; jobs are
  updated by id, and a decision by its place in the list (\<open>ids are unique\<close>: \<open>validate_jobs\<close>).
  An exception that leaves a method is \<open>Inl\<close>.
\<close>

section \<open>Events and steps\<close>

datatype outcome_status = O_Finished | O_Failed | O_Needs_Input

record attempt_result =
  ar_status :: outcome_status
  ar_output :: "jobj option"
  ar_error :: "string option"
  ar_questions :: "string list"
  ar_unread :: "string list"
  ar_job_id :: string
  ar_attempt :: nat
  ar_child :: "string option"

text \<open>A result, a running agent's question (with its child run), and an attempt without a live task.\<close>

datatype event =
    Attempt_Result attempt_result
  | Live_Question_Event string nat "string option" string
  | Lost_Attempt string nat

fun event_job :: "event \<Rightarrow> string" where
  "event_job (Attempt_Result r) = ar_job_id r"
| "event_job (Live_Question_Event jid n child q) = jid"
| "event_job (Lost_Attempt jid n) = jid"

fun event_attempt :: "event \<Rightarrow> nat" where
  "event_attempt (Attempt_Result r) = ar_attempt r"
| "event_attempt (Live_Question_Event jid n child q) = n"
| "event_attempt (Lost_Attempt jid n) = n"

record launch =
  la_job :: job
  la_attempt :: job_attempt
  la_payload :: jobj

record attempt_ref =
  rf_job_id :: string
  rf_attempt :: nat

record delivery =
  dl_job_id :: string
  dl_attempt :: nat
  dl_child :: "string option"
  dl_text :: string

record agent_message =
  am_job_id :: string
  am_attempt :: nat
  am_text :: string
  am_interrupt :: bool

datatype step_status = Run | Gate | Completed | Step_Failed

record dag_step =
  sp_launches :: "launch list"
  sp_cancels :: "attempt_ref list"
  sp_deliveries :: "delivery list"
  sp_messages :: "agent_message list"

definition empty_step :: dag_step where
  "empty_step = \<lparr>sp_launches = [], sp_cancels = [], sp_deliveries = [], sp_messages = []\<rparr>"

text \<open>
  What a \<^verbatim>\<open>JobDag\<close> is built with, and the text of \<^verbatim>\<open>_INSTRUCTIONS\<close>; \<open>en_uuid k\<close> is the id drawn for the decision recorded
  at place \<open>k\<close>.  \<open>dag\<close> is what its methods change: the record, the step under way, the live
  questions by job, and the token usage and number of calls of the meta-agent's model.
\<close>

record env =
  en_config :: dynamic_config
  en_roster :: string
  en_request :: string
  en_run_id :: string
  en_workspace :: jobj
  en_now :: time
  en_uuid :: "nat \<Rightarrow> string"
  en_instructions :: "category \<Rightarrow> string"

record meta_state =
  ms_usage :: "nat dict"
  ms_calls :: nat

record dag =
  dg_state :: run_state
  dg_step :: dag_step
  dg_live :: "string \<Rightarrow> (nat \<times> string option) option"
  dg_meta :: meta_state

abbreviation on_state :: "(run_state \<Rightarrow> run_state) \<Rightarrow> dag \<Rightarrow> dag" where
  "on_state f d \<equiv> d\<lparr>dg_state := f (dg_state d)\<rparr>"

definition on_job :: "string \<Rightarrow> (job \<Rightarrow> job) \<Rightarrow> run_state \<Rightarrow> run_state" where
  "on_job jid f s = s\<lparr>st_jobs := map (\<lambda>j. if jb_id j = jid then f j else j) (st_jobs s)\<rparr>"

definition on_attempt :: "nat \<Rightarrow> (job_attempt \<Rightarrow> job_attempt) \<Rightarrow> job \<Rightarrow> job" where
  "on_attempt n f j =
     j\<lparr>jb_attempts := map (\<lambda>a. if at_n a = n then f a else a) (jb_attempts j)\<rparr>"

definition drop_situations :: "(situation \<Rightarrow> bool) \<Rightarrow> run_state \<Rightarrow> run_state" where
  "drop_situations p s = s\<lparr>st_situations := filter (\<lambda>x. \<not> p x) (st_situations s)\<rparr>"

text \<open>\<^verbatim>\<open>_situation\<close>.\<close>

definition add_situation ::
    "env \<Rightarrow> situation_kind \<Rightarrow> string option \<Rightarrow> nat option \<Rightarrow> jobj \<Rightarrow> run_state \<Rightarrow> run_state" where
  "add_situation E k jid n detail s =
     log_event (en_now E) (''situation:'' @ situation_name k) jid (take 500 (dumps (JObj detail)))
       (s\<lparr>st_situations := st_situations s @
          [\<lparr>si_kind = k, si_job_id = jid, si_attempt = n, si_detail = detail, si_ts = en_now E\<rparr>]\<rparr>)"

text \<open>\<^verbatim>\<open>_fail\<close>.\<close>

definition fail_run :: "env \<Rightarrow> string \<Rightarrow> run_state \<Rightarrow> run_state" where
  "fail_run E msg s =
     log_event (en_now E) ''failed'' None msg (s\<lparr>st_status := S_Failed, st_error := Some msg\<rparr>)"

section \<open>Reading an output\<close>

definition get_or :: "jobj \<Rightarrow> string \<Rightarrow> json \<Rightarrow> json" where
  "get_or d k v = (case map_of d k of None \<Rightarrow> v | Some x \<Rightarrow> x)"

text \<open>\<^verbatim>\<open>_truncate\<close>: the value itself when short enough, else the start of its text.\<close>

definition truncate_json :: "nat \<Rightarrow> json \<Rightarrow> json" where
  "truncate_json cap v =
     (let txt = (case v of JStr s \<Rightarrow> s | _ \<Rightarrow> dumps v)
      in if length txt \<le> cap then v
         else JStr (take cap txt @ ''... [truncated '' @ nat_digits (length txt - cap) @ '' chars]''))"

definition verdict_failed :: "jobj option \<Rightarrow> bool" where
  "verdict_failed out =
     (case out of None \<Rightarrow> False
      | Some o' \<Rightarrow> py_lower (py_strip (py_str (get_or o' ''verdict'' (JStr ''pass''))))
                    \<in> {''fail'', ''failed'', ''reject'', ''rejected'', ''no''})"

fun split_commas :: "string \<Rightarrow> string \<Rightarrow> string list" where
  "split_commas acc [] = [acc]"
| "split_commas acc (c # cs) =
     (if c = CHR '','' \<or> c = CHR '';'' then acc # split_commas [] cs else split_commas (acc @ [c]) cs)"

fun as_list :: "json \<Rightarrow> string list" where
  "as_list (JStr s) = filter (\<lambda>v. v \<noteq> []) (map py_strip (split_commas [] s))"
| "as_list (JList vs) = filter (\<lambda>v. v \<noteq> []) (map (\<lambda>v. py_strip (py_str v)) vs)"
| "as_list _ = []"

text \<open>\<^verbatim>\<open>_help_request\<close>: \<open>JNull\<close> for \<^verbatim>\<open>None\<close>.\<close>

definition help_request :: "jobj option \<Rightarrow> json" where
  "help_request out =
     (case out of None \<Rightarrow> JNull
      | Some o' \<Rightarrow>
          (let raw = jget o' ''delegate''
           in if \<not> jtrue raw then JNull
              else case raw of
                JObj kvs \<Rightarrow> jor (jget kvs ''request'') (JStr (dumps raw))
              | _ \<Rightarrow> JStr (py_str raw)))"

definition output_summary :: "jobj option \<Rightarrow> string" where
  "output_summary out = (case out of None \<Rightarrow> '''' | Some o' \<Rightarrow> py_str (get_or o' ''summary'' (JStr '''')))"

definition opt_json :: "string option \<Rightarrow> json" where
  "opt_json s = (case s of None \<Rightarrow> JNull | Some x \<Rightarrow> JStr x)"

definition obj_json :: "jobj option \<Rightarrow> json" where
  "obj_json v = (case v of None \<Rightarrow> JNull | Some o' \<Rightarrow> JObj o')"

section \<open>Taking events in\<close>

text \<open>The failed attempts at the end of a job's history that are retries of the one before them.\<close>

definition trailing_retries :: "job \<Rightarrow> nat" where
  "trailing_retries j = length (takeWhile (\<lambda>a. at_reason a = ''retry'') (rev (drop 1 (jb_attempts j))))"

fun payload_job :: "payload \<Rightarrow> string option" where
  "payload_job (Meta_Payload dec sits) = None"
| "payload_job (Question_Payload q jid) = jid"
| "payload_job (Retry_Payload jid) = Some jid"

text \<open>\<^verbatim>\<open>"job_id" in payload\<close>.\<close>

fun has_job_key :: "payload \<Rightarrow> bool" where
  "has_job_key (Meta_Payload dec sits) = False"
| "has_job_key (Question_Payload q jid) = True"
| "has_job_key (Retry_Payload jid) = True"

definition granted_retries :: "run_state \<Rightarrow> string \<Rightarrow> nat" where
  "granted_retries s jid = length (filter (\<lambda>dc. de_kind dc = D_Escalation \<and> de_approved dc = Some True
     \<and> payload_job (de_payload dc) = Some jid) (st_decisions s))"

definition retries_left :: "env \<Rightarrow> run_state \<Rightarrow> job \<Rightarrow> bool" where
  "retries_left E s j =
     (trailing_retries j < li_max_retries (dc_limits (en_config E)) + granted_retries s (jb_id j))"

fun attempt_status_of :: "outcome_status \<Rightarrow> attempt_status" where
  "attempt_status_of O_Finished = A_Finished"
| "attempt_status_of O_Failed = A_Failed"
| "attempt_status_of O_Needs_Input = A_Needs_Input"

text \<open>The attempt as \<^verbatim>\<open>_record\<close> leaves it.\<close>

definition settle_attempt :: "env \<Rightarrow> attempt_result \<Rightarrow> job_attempt \<Rightarrow> job_attempt" where
  "settle_attempt E r a =
     a\<lparr>at_finished_at := Some (en_now E), at_child := py_or (ar_child r) (at_child a),
       at_output := ar_output r, at_error := ar_error r, at_questions := ar_questions r,
       at_status := attempt_status_of (ar_status r)\<rparr>"

text \<open>What follows for a job whose attempt \<open>n\<close> finished.\<close>

definition record_finished :: "env \<Rightarrow> attempt_result \<Rightarrow> job \<Rightarrow> run_state \<Rightarrow> run_state" where
  "record_finished E r j s =
     (let jid = jb_id j; n = Some (ar_attempt r);
          s1 = log_event (en_now E) ''attempt_finished'' (Some jid) (take 300 (output_summary (ar_output r)))
                 (on_job jid (\<lambda>j. j\<lparr>jb_status := Finished\<rparr>) s);
          ask = help_request (ar_output r)
      in if ar_unread r \<noteq> []
         then log_event (en_now E) ''messages_unread'' (Some jid) (take 500 (join '' / '' (ar_unread r)))
                (on_job jid (\<lambda>j. j\<lparr>jb_status := Pending, jb_pending_reason := Some ''message''\<rparr>) s1)
         else if jtrue ask
         then add_situation E Needs_Help (Some jid) n
                [(''request'', ask), (''output'', truncate_json 4000 (obj_json (ar_output r)))]
                (on_job jid (\<lambda>j. j\<lparr>jb_status := Waiting\<rparr>) s1)
         else if jb_category j = Validation \<and> verdict_failed (ar_output r)
         then (let o' = (case ar_output r of None \<Rightarrow> [] | Some o' \<Rightarrow> o')
               in add_situation E Change_Request (Some jid) n
                    [(''feedback'', jor (jor (jget o' ''feedback'') (jget o' ''summary'')) (JStr ''validation failed'')),
                     (''suggested_targets'', JList (map JStr (as_list (jget o' ''handback_to''))))] s1)
         else s1)"

text \<open>\<^verbatim>\<open>_record\<close>.\<close>

definition record_result :: "env \<Rightarrow> attempt_result \<Rightarrow> job \<Rightarrow> dag \<Rightarrow> dag" where
  "record_result E r j d =
     (let jid = jb_id j; n = Some (ar_attempt r);
          d1 = d\<lparr>dg_live := (dg_live d)(jid := None),
                 dg_state := drop_situations (\<lambda>x. si_kind x = Live_Question \<and> si_job_id x = Some jid)
                   (on_job jid (on_attempt (ar_attempt r) (settle_attempt E r)) (dg_state d))\<rparr>
      in if jb_status j \<noteq> Running then d1
         else case ar_status r of
           O_Needs_Input \<Rightarrow>
             on_state (\<lambda>s. add_situation E Question (Some jid) n
                 [(''questions'', JList (map JStr (ar_questions r)))]
                 (on_job jid (\<lambda>j. j\<lparr>jb_status := Waiting\<rparr>) s)) d1
         | O_Failed \<Rightarrow>
             on_state (\<lambda>s.
               let s1 = log_event (en_now E) ''attempt_failed'' (Some jid)
                          (case ar_error r of None \<Rightarrow> '''' | Some e \<Rightarrow> e) s
               in if retries_left E s1 j
                  then on_job jid (\<lambda>j. add_note (en_now E) ''system''
                         (''Your previous attempt failed: '' @ opt_str (ar_error r))
                         (j\<lparr>jb_status := Pending, jb_pending_reason := Some ''retry''\<rparr>)) s1
                  else add_situation E Failure (Some jid) n
                         [(''error'', opt_json (ar_error r)), (''attempts'', JInt (int (length (jb_attempts j))))]
                         (on_job jid (\<lambda>j. j\<lparr>jb_status := Waiting\<rparr>) s1)) d1
         | O_Finished \<Rightarrow> on_state (record_finished E r j) d1)"

text \<open>The graph no longer holds a task for the attempt, or the task was cancelled from outside.\<close>

definition lost_event :: "event \<Rightarrow> bool" where
  "lost_event e =
     (case e of
        Lost_Attempt _ _ \<Rightarrow> True
      | Attempt_Result r \<Rightarrow> ar_status r = O_Failed \<and> ar_error r = Some ''cancelled''
      | Live_Question_Event _ _ _ _ \<Rightarrow> False)"

definition lose_attempt :: "env \<Rightarrow> string \<Rightarrow> nat \<Rightarrow> run_state \<Rightarrow> run_state" where
  "lose_attempt E jid n s =
     log_event (en_now E) ''attempt_lost'' (Some jid) ''attempt was in flight when the run restarted''
       (on_job jid (\<lambda>j.
          let j1 = on_attempt n (\<lambda>a. a\<lparr>at_status := A_Cancelled, at_finished_at := Some (en_now E)\<rparr>) j
          in if jb_status j1 = Running
             then j1\<lparr>jb_status := Pending, jb_pending_reason := Some ''restart''\<rparr> else j1) s)"

text \<open>\<^verbatim>\<open>_ingest\<close>.\<close>

definition ingest :: "env \<Rightarrow> event \<Rightarrow> dag \<Rightarrow> dag" where
  "ingest E e d =
     (case find_job (dg_state d) (event_job e) of
        None \<Rightarrow> d
      | Some j \<Rightarrow>
         (case find (\<lambda>a. at_n a = event_attempt e) (jb_attempts j) of
            None \<Rightarrow> d
          | Some a \<Rightarrow>
             (case e of
                Live_Question_Event jid n child q \<Rightarrow>
                  if jb_status j = Running \<and> at_status a = A_Running
                  then d\<lparr>dg_state := add_situation E Live_Question (Some jid) (Some n)
                           [(''question'', JStr q), (''child_run_id'', opt_json child)] (dg_state d),
                         dg_live := (dg_live d)(jid := Some (n, child))\<rparr>
                  else d
              | _ \<Rightarrow>
                  if at_status a \<noteq> A_Running then d
                  else if lost_event e
                  then on_state (lose_attempt E (jb_id j) (at_n a)) d
                  else case e of Attempt_Result r \<Rightarrow> record_result E r j d | _ \<Rightarrow> d)))"

section \<open>Stopping, resetting and answering\<close>

text \<open>\<^verbatim>\<open>_stop\<close>: the caller gives the job its next status.\<close>

definition stop_job :: "env \<Rightarrow> string \<Rightarrow> dag \<Rightarrow> dag" where
  "stop_job E jid d =
     (case find_job (dg_state d) jid of
        None \<Rightarrow> d\<lparr>dg_live := (dg_live d)(jid := None)\<rparr>
      | Some j \<Rightarrow>
         (case last_attempt j of
            Some a \<Rightarrow>
              if jb_status j = Running \<and> at_status a = A_Running
              then d\<lparr>dg_state := on_job jid (\<lambda>j. j\<lparr>jb_attempts := butlast (jb_attempts j) @
                         [(last (jb_attempts j))\<lparr>at_status := A_Cancelled, at_finished_at := Some (en_now E)\<rparr>]\<rparr>)
                         (dg_state d),
                     dg_step := (dg_step d)\<lparr>sp_cancels := sp_cancels (dg_step d) @
                         [\<lparr>rf_job_id = jid, rf_attempt = at_n a\<rparr>]\<rparr>,
                     dg_live := (dg_live d)(jid := None)\<rparr>
              else d\<lparr>dg_live := (dg_live d)(jid := None)\<rparr>
          | None \<Rightarrow> d\<lparr>dg_live := (dg_live d)(jid := None)\<rparr>))"

definition reset_job :: "env \<Rightarrow> string \<Rightarrow> string \<Rightarrow> dag \<Rightarrow> dag" where
  "reset_job E jid reason d =
     on_state (\<lambda>s. drop_situations (\<lambda>x. si_job_id x = Some jid)
         (on_job jid (\<lambda>j. j\<lparr>jb_status := Pending, jb_pending_reason := Some reason\<rparr>) s))
       (stop_job E jid d)"

definition stop_all :: "env \<Rightarrow> dag \<Rightarrow> dag" where
  "stop_all E d =
     fold (\<lambda>j d.
       if jb_status j = Running
       then on_state (on_job (jb_id j) (\<lambda>j. j\<lparr>jb_status := Cancelled\<rparr>)) (stop_job E (jb_id j) d)
       else if jb_status j = Pending \<or> jb_status j = Waiting
       then on_state (on_job (jb_id j) (\<lambda>j. j\<lparr>jb_status := Cancelled\<rparr>)) d
       else d) (st_jobs (dg_state d)) d"

definition deliver_answer :: "string \<Rightarrow> string \<Rightarrow> dag \<Rightarrow> dag" where
  "deliver_answer jid txt d =
     (case dg_live d jid of
        None \<Rightarrow> d
      | Some (n, child) \<Rightarrow>
          d\<lparr>dg_live := (dg_live d)(jid := None),
            dg_step := (dg_step d)\<lparr>sp_deliveries := sp_deliveries (dg_step d) @
               [\<lparr>dl_job_id = jid, dl_attempt = n, dl_child = child, dl_text = txt\<rparr>]\<rparr>,
            dg_state := drop_situations (\<lambda>x. si_kind x = Live_Question \<and> si_job_id x = Some jid) (dg_state d)\<rparr>)"

text \<open>\<^verbatim>\<open>_answer\<close>; \<open>answers\<close> is empty for \<^verbatim>\<open>None\<close>.\<close>

definition answer_job :: "env \<Rightarrow> job \<Rightarrow> string \<Rightarrow> string \<Rightarrow> jobj \<Rightarrow> dag \<Rightarrow> dag" where
  "answer_job E j txt source answers d =
     (let jid = jb_id j;
          d1 = on_state (on_job jid (add_note (en_now E) source (''Answer: '' @ txt))) d
      in if jb_status j = Running \<and> dg_live d jid \<noteq> None then deliver_answer jid txt d1
         else if jb_status j = Waiting \<or> jb_status j = Pending
         then (let qs = (case last_attempt j of None \<Rightarrow> [] | Some a \<Rightarrow> at_questions a);
                   given = (if answers \<noteq> [] then answers
                            else if qs \<noteq> []
                            then fold (\<lambda>q. AList.update q (JStr txt)) qs []
                            else [(''answer'', JStr txt)])
               in on_state (on_job jid (\<lambda>j. j\<lparr>jb_pending_answers := Some given, jb_status := Pending,
                    jb_pending_reason := Some ''answer''\<rparr>)) d1)
         else d1)"

section \<open>Downstream jobs\<close>

text \<open>
  \<^verbatim>\<open>_dependents\<close>: one pass over the jobs per job taken from the end of the frontier.
  \<open>depends_pass\<close> gives what the pass finds, in order.
\<close>

fun depends_pass :: "string \<Rightarrow> job list \<Rightarrow> string set \<Rightarrow> string list" where
  "depends_pass current [] seen = []"
| "depends_pass current (j # js) seen =
     (if job_active j \<and> current \<in> set (jb_depends_on j) \<and> jb_id j \<notin> seen
      then jb_id j # depends_pass current js (insert (jb_id j) seen)
      else depends_pass current js seen)"

lemma depends_pass_set:
  "set (depends_pass c js seen) =
     {jb_id j | j. j \<in> set js \<and> job_active j \<and> c \<in> set (jb_depends_on j) \<and> jb_id j \<notin> seen}"
  by (induction c js seen rule: depends_pass.induct) auto

lemma depends_pass_distinct: "distinct (depends_pass c js seen)"
  by (induction c js seen rule: depends_pass.induct) (auto simp: depends_pass_set)

function dependents_loop :: "job list \<Rightarrow> string list \<Rightarrow> string set \<Rightarrow> string list \<Rightarrow> string list" where
  "dependents_loop js frontier seen out =
     (if frontier = [] then out
      else let found = depends_pass (last frontier) js seen
           in dependents_loop js (butlast frontier @ found) (seen \<union> set found) (out @ found))"
  by pat_completeness auto
termination
proof (relation "inv_image (less_than <*lex*> less_than)
    (\<lambda>(js, frontier, seen, out). (card (jb_id ` set js - seen), length frontier))")
  fix js frontier seen and out :: "string list" and found
  assume ne: "frontier \<noteq> []" and found: "found = depends_pass (last frontier) js seen"
  show "((js, butlast frontier @ found, seen \<union> set found, out @ found), js, frontier, seen, out)
        \<in> inv_image (less_than <*lex*> less_than)
            (\<lambda>(js, frontier, seen, out). (card (jb_id ` set js - seen), length frontier))"
  proof (cases found)
    case Nil
    with ne show ?thesis by simp
  next
    case (Cons x xs)
    then have "x \<in> set (depends_pass (last frontier) js seen)" using found by simp
    then have x: "x \<in> jb_id ` set js - seen" unfolding depends_pass_set by blast
    have "card (jb_id ` set js - (seen \<union> set found)) < card (jb_id ` set js - seen)"
      by (rule psubset_card_mono) (use x Cons in auto)
    then show ?thesis by simp
  qed
qed (intro wf_inv_image wf_lex_prod wf_less_than)

declare dependents_loop.simps [simp del]

definition dependents :: "run_state \<Rightarrow> string \<Rightarrow> string list" where
  "dependents s jid = dependents_loop (st_jobs s) [jid] {jid} []"

section \<open>Decisions\<close>

definition blocking :: "situation_kind \<Rightarrow> bool" where
  "blocking k \<longleftrightarrow> k \<in> {Question, Live_Question, Needs_Help, Failure}"

definition about_phase :: "situation_kind \<Rightarrow> bool" where
  "about_phase k \<longleftrightarrow> k \<in> {Start, Phase_Done}"

definition rearranging :: "action_kind \<Rightarrow> bool" where
  "rearranging k \<longleftrightarrow> k \<in> {Rewind, Remove, Update_Job, Add_Jobs}"

definition updatable :: "string list" where
  "updatable = [''prompt'', ''title'', ''agent_id'', ''depends_on'', ''owns'', ''datasources'']"

definition action_kinds :: "meta_decision \<Rightarrow> action_kind list" where
  "action_kinds dec = map ma_kind (md_actions dec)"

text \<open>\<^verbatim>\<open>_kind_of\<close>: what kind of approval a decision needs, if it changes the DAG at all.\<close>

definition kind_of :: "run_state \<Rightarrow> meta_decision \<Rightarrow> situation list \<Rightarrow> decision_kind option" where
  "kind_of s dec sits =
     (let kinds = action_kinds dec;
          drops = Finish \<in> set kinds \<and> list_ex (\<lambda>j. jb_status j \<noteq> Finished) (active_jobs s)
      in if list_ex rearranging kinds \<or> drops
         then (let about = filter (\<lambda>x. si_kind x \<noteq> Rejected \<and> si_kind x \<noteq> Human_Answer) sits
               in if list_all (\<lambda>x. about_phase (si_kind x)) about \<and>
                     list_all (\<lambda>k. k = Add_Jobs \<or> k = Finish) kinds
                  then Some D_Plan else Some D_Rearrange)
         else None)"

definition granted_rearrangements :: "env \<Rightarrow> run_state \<Rightarrow> nat" where
  "granted_rearrangements E s =
     (let m = li_max_rearrangements (dc_limits (en_config E))
      in (if m = 0 then 1 else m) *
         length (filter (\<lambda>dc. de_kind dc = D_Escalation \<and> de_approved dc = Some True \<and>
           \<not> has_job_key (de_payload dc)) (st_decisions s)))"

text \<open>\<^verbatim>\<open>_record_decision\<close>: a decision not yet resolved, at the end of the list.\<close>

definition record_decision ::
    "env \<Rightarrow> decision_kind \<Rightarrow> string \<Rightarrow> meta_decision \<Rightarrow> situation list \<Rightarrow> run_state \<Rightarrow> run_state" where
  "record_decision E k summary dec sits s =
     log_event (en_now E) (''decision:'' @ decision_name k) None summary
       (s\<lparr>st_decisions := st_decisions s @
          [\<lparr>de_id = en_uuid E (length (st_decisions s)), de_kind = k, de_summary = take 2000 summary,
            de_payload = Meta_Payload dec sits, de_created_at = en_now E, de_resolved = False,
            de_approved = None, de_reason = None\<rparr>]\<rparr>)"

text \<open>\<open>resolve_decision i\<close>: decision \<open>i\<close> is resolved so.\<close>

definition resolve_decision :: "nat \<Rightarrow> bool \<Rightarrow> string option \<Rightarrow> run_state \<Rightarrow> run_state" where
  "resolve_decision i ok reason s =
     s\<lparr>st_decisions := (st_decisions s)[i := (st_decisions s ! i)
         \<lparr>de_resolved := True, de_approved := Some ok, de_reason := reason\<rparr>]\<rparr>"

section \<open>Actions\<close>

definition get_job :: "string option \<Rightarrow> run_state \<Rightarrow> string + job" where
  "get_job jid s =
     (case find_job s (case jid of None \<Rightarrow> '''' | Some x \<Rightarrow> x) of
        None \<Rightarrow> Inl (''job '' @ repr_opt jid @ '' does not exist'')
      | Some j \<Rightarrow> Inr j)"

definition add_spec :: "env \<Rightarrow> string \<Rightarrow> job_spec \<Rightarrow> run_state \<Rightarrow> run_state" where
  "add_spec E created_by sp s =
     log_event (en_now E) ''job_added'' (Some (js_id sp))
       (category_name (js_category sp) @ '' -> '' @ js_agent_id sp)
       (s\<lparr>st_jobs := st_jobs s @ [job_of_spec created_by sp]\<rparr>)"

definition do_add_jobs :: "env \<Rightarrow> string \<Rightarrow> meta_action \<Rightarrow> dag \<Rightarrow> string + dag" where
  "do_add_jobs E created_by a d =
     (let errors = validate_jobs (ma_jobs a) (en_config E) (st_jobs (dg_state d)) job_categories
      in if errors \<noteq> [] then Inl (''add_jobs: '' @ join ''; '' errors)
         else Inr (on_state (fold (add_spec E created_by) (ma_jobs a)) d))"

text \<open>
  One key of \<^verbatim>\<open>changes\<close>, with the type the record gives it.  Any other key is refused by
  \<^verbatim>\<open>_check_action\<close> before a decision is applied.
\<close>

fun json_strings :: "json list \<Rightarrow> string list option" where
  "json_strings [] = Some []"
| "json_strings (JStr s # vs) = map_option (Cons s) (json_strings vs)"
| "json_strings (_ # vs) = None"

definition set_field :: "string \<times> json \<Rightarrow> job \<Rightarrow> string + job" where
  "set_field kv j =
     (let k = fst kv; bad = Inl (''malformed change of '' @ fst kv)
      in case snd kv of
           JStr s \<Rightarrow>
             if k = ''prompt'' then Inr (j\<lparr>jb_prompt := s\<rparr>)
             else if k = ''title'' then Inr (j\<lparr>jb_title := s\<rparr>)
             else if k = ''agent_id'' then Inr (j\<lparr>jb_agent_id := s\<rparr>)
             else bad
         | JList vs \<Rightarrow>
             (case json_strings vs of
                None \<Rightarrow> bad
              | Some ss \<Rightarrow>
                  if k = ''depends_on'' then Inr (j\<lparr>jb_depends_on := ss\<rparr>)
                  else if k = ''owns'' then Inr (j\<lparr>jb_owns := ss\<rparr>)
                  else if k = ''datasources'' then Inr (j\<lparr>jb_datasources := ss\<rparr>)
                  else bad)
         | _ \<Rightarrow> bad)"

fun set_fields :: "jobj \<Rightarrow> job \<Rightarrow> string + job" where
  "set_fields [] j = Inr j"
| "set_fields (kv # kvs) j = bindE (set_field kv j) (set_fields kvs)"

definition do_update_job :: "env \<Rightarrow> meta_action \<Rightarrow> dag \<Rightarrow> string + dag" where
  "do_update_job E a d =
     bindE (get_job (ma_job_id a) (dg_state d)) (\<lambda>j.
     bindE (set_fields (ma_changes a) j) (\<lambda>j1.
       let j2 = (if jb_status j1 \<in> {Finished, Failed, Skipped, Waiting}
                 then j1\<lparr>jb_status := Pending, jb_pending_reason := py_or (jb_pending_reason j1) (Some ''rewind'')\<rparr>
                 else j1)
       in Inr (on_state (\<lambda>s. log_event (en_now E) ''job_updated'' (Some (jb_id j))
                 (join '', '' (map fst (ma_changes a))) (on_job (jb_id j) (\<lambda>_. j2) s)) d)))"

text \<open>The jobs downstream of a rewound one, each started over unless it is rewound itself.\<close>

fun redo_dependents :: "env \<Rightarrow> string \<Rightarrow> string list \<Rightarrow> string \<Rightarrow> string list \<Rightarrow> dag \<Rightarrow> dag" where
  "redo_dependents E jid rewound txt [] d = d"
| "redo_dependents E jid rewound txt (dep # deps) d =
     redo_dependents E jid rewound txt deps
       (if dep \<in> set rewound then d
        else case find_job (dg_state d) dep of
               None \<Rightarrow> d
             | Some j \<Rightarrow>
                 if jb_status j \<in> {Finished, Failed, Skipped, Waiting, Running}
                 then on_state (on_job dep (add_note (en_now E) ''system''
                        (''Upstream job '' @ jid @ '' is being redone: '' @ txt)))
                        (reset_job E dep ''upstream_changed'' d)
                 else d)"

definition rewind_one :: "env \<Rightarrow> string list \<Rightarrow> string \<Rightarrow> string \<Rightarrow> dag \<Rightarrow> string + dag" where
  "rewind_one E rewound txt jid d =
     bindE (get_job (Some jid) (dg_state d)) (\<lambda>j.
       let d1 = on_state (on_job jid (add_note (en_now E) ''meta''
                    (if txt = '''' then ''Do this part again.'' else txt)))
                  (reset_job E jid ''rewind'' d)
       in Inr (redo_dependents E jid rewound txt (dependents (dg_state d1) jid) d1))"

fun for_jobs :: "(string \<Rightarrow> dag \<Rightarrow> string + dag) \<Rightarrow> string list \<Rightarrow> dag \<Rightarrow> string + dag" where
  "for_jobs f [] d = Inr d"
| "for_jobs f (jid # jids) d = bindE (f jid d) (for_jobs f jids)"

definition do_rewind :: "env \<Rightarrow> meta_action \<Rightarrow> dag \<Rightarrow> string + dag" where
  "do_rewind E a d =
     bindE (for_jobs (rewind_one E (ma_job_ids a) (ma_text a)) (ma_job_ids a) d) (\<lambda>d1.
       Inr (on_state (log_event (en_now E) ''rewind'' (Some (join '','' (ma_job_ids a))) (ma_text a)) d1))"

definition remove_one :: "env \<Rightarrow> string \<Rightarrow> string \<Rightarrow> dag \<Rightarrow> string + dag" where
  "remove_one E txt jid d =
     bindE (get_job (Some jid) (dg_state d)) (\<lambda>j.
       Inr (on_state (on_job jid (\<lambda>j. add_note (en_now E) ''meta'' (''Removed: '' @ txt)
              (j\<lparr>jb_status := Removed\<rparr>))) (stop_job E jid d)))"

definition do_remove :: "env \<Rightarrow> meta_action \<Rightarrow> dag \<Rightarrow> string + dag" where
  "do_remove E a d =
     bindE (for_jobs (remove_one E (ma_text a)) (ma_job_ids a) d) (\<lambda>d1.
       Inr (on_state (log_event (en_now E) ''removed'' (Some (join '','' (ma_job_ids a))) (ma_text a)) d1))"

definition do_answer :: "env \<Rightarrow> meta_action \<Rightarrow> dag \<Rightarrow> string + dag" where
  "do_answer E a d =
     bindE (get_job (ma_job_id a) (dg_state d)) (\<lambda>j. Inr (answer_job E j (ma_text a) ''meta'' [] d))"

definition do_message :: "env \<Rightarrow> meta_action \<Rightarrow> dag \<Rightarrow> string + dag" where
  "do_message E a d =
     bindE (get_job (ma_job_id a) (dg_state d)) (\<lambda>j.
       let jid = jb_id j;
           d1 = on_state (on_job jid (add_note (en_now E) ''meta'' (ma_text a))) d;
           d2 = (if jb_status j = Running \<and> ma_restart a then reset_job E jid ''restart'' d1
                 else if jb_status j = Running \<and> dg_live d jid \<noteq> None
                 then deliver_answer jid (ma_text a) d1
                 else case last_attempt j of
                   Some at' \<Rightarrow>
                     if jb_status j = Running
                     then d1\<lparr>dg_step := (dg_step d1)\<lparr>sp_messages := sp_messages (dg_step d1) @
                            [\<lparr>am_job_id = jid, am_attempt = at_n at', am_text = ma_text a,
                              am_interrupt = ma_interrupt a\<rparr>]\<rparr>\<rparr>
                     else if jb_status j = Waiting
                     then on_state (on_job jid (\<lambda>j. j\<lparr>jb_status := Pending,
                            jb_pending_reason := Some ''message''\<rparr>)) d1
                     else d1
                 | None \<Rightarrow>
                     if jb_status j = Waiting
                     then on_state (on_job jid (\<lambda>j. j\<lparr>jb_status := Pending,
                            jb_pending_reason := Some ''message''\<rparr>)) d1
                     else d1)
       in Inr (on_state (log_event (en_now E) ''message'' (Some jid) (ma_text a)) d2))"

definition do_ask_human :: "env \<Rightarrow> meta_action \<Rightarrow> dag \<Rightarrow> string + dag" where
  "do_ask_human E a d =
     Inr (on_state (\<lambda>s. log_event (en_now E) ''ask_human'' (ma_job_id a) (ma_text a)
       (s\<lparr>st_decisions := st_decisions s @
          [\<lparr>de_id = en_uuid E (length (st_decisions s)), de_kind = D_Question,
            de_summary = take 2000 (ma_text a), de_payload = Question_Payload (ma_text a) (ma_job_id a),
            de_created_at = en_now E, de_resolved = False, de_approved = None, de_reason = None\<rparr>]\<rparr>)) d)"

definition drop_unfinished :: "env \<Rightarrow> string \<Rightarrow> dag \<Rightarrow> dag" where
  "drop_unfinished E jid d =
     on_state (on_job jid (\<lambda>j. add_note (en_now E) ''meta'' ''Dropped: the work finished without it.''
       (j\<lparr>jb_status := Removed\<rparr>))) (stop_job E jid d)"

definition do_finish :: "env \<Rightarrow> meta_action \<Rightarrow> dag \<Rightarrow> string + dag" where
  "do_finish E a d =
     (let dropped = map jb_id (filter (\<lambda>j. jb_status j \<noteq> Finished) (active_jobs (dg_state d)));
          d1 = fold (drop_unfinished E) dropped d
      in Inr (on_state (\<lambda>s. log_event (en_now E) ''finish'' None (ma_text a)
           (s\<lparr>st_finished := True, st_summary := (if ma_text a = '''' then None else Some (ma_text a))\<rparr>)) d1))"

definition do_fail :: "env \<Rightarrow> meta_action \<Rightarrow> dag \<Rightarrow> string + dag" where
  "do_fail E a d = Inr (on_state (fail_run E (ma_text a)) d)"

fun do_action :: "env \<Rightarrow> string \<Rightarrow> meta_action \<Rightarrow> dag \<Rightarrow> string + dag" where
  "do_action E created_by a d =
     (case ma_kind a of
        Add_Jobs \<Rightarrow> do_add_jobs E created_by a d
      | Update_Job \<Rightarrow> do_update_job E a d
      | Rewind \<Rightarrow> do_rewind E a d
      | Remove \<Rightarrow> do_remove E a d
      | Answer \<Rightarrow> do_answer E a d
      | Message \<Rightarrow> do_message E a d
      | Ask_Human \<Rightarrow> do_ask_human E a d
      | Finish \<Rightarrow> do_finish E a d
      | Fail \<Rightarrow> do_fail E a d)"

fun do_actions :: "env \<Rightarrow> string \<Rightarrow> meta_action list \<Rightarrow> dag \<Rightarrow> string + dag" where
  "do_actions E created_by [] d = Inr d"
| "do_actions E created_by (a # as) d = bindE (do_action E created_by a d) (do_actions E created_by as)"

text \<open>\<^verbatim>\<open>_apply\<close>.\<close>

definition apply_decision ::
    "env \<Rightarrow> bool \<Rightarrow> string \<Rightarrow> meta_decision \<Rightarrow> situation list \<Rightarrow> dag \<Rightarrow> string + dag" where
  "apply_decision E dry_run created_by dec sits d =
     (let d0 = (if \<not> dry_run \<and> kind_of (dg_state d) dec sits = Some D_Rearrange
                then on_state (\<lambda>s. s\<lparr>st_rearrangements := st_rearrangements s + 1\<rparr>) d else d)
      in bindE (do_actions E created_by (md_actions dec) d0) (\<lambda>d1.
           Inr (if st_status (dg_state d1) = S_Planning \<and> st_jobs (dg_state d1) \<noteq> []
                then on_state (\<lambda>s. s\<lparr>st_status := S_Running\<rparr>) d1 else d1)))"

section \<open>Validating a decision\<close>

definition mentioned_jobs :: "meta_action \<Rightarrow> string list" where
  "mentioned_jobs a =
     (case ma_job_id a of None \<Rightarrow> [] | Some jid \<Rightarrow> if jid = '''' then [] else [jid]) @ ma_job_ids a"

text \<open>\<^verbatim>\<open>_check_action\<close>: its early returns, then the jobs it names and what it changes.\<close>

definition check_action :: "env \<Rightarrow> run_state \<Rightarrow> meta_action \<Rightarrow> string list" where
  "check_action E s a =
     (let k = ma_kind a; name = action_name k
      in if k \<in> {Update_Job, Answer, Message} \<and> \<not> truthy (ma_job_id a)
         then [name @ '': job_id is required'']
         else if k \<in> {Rewind, Remove} \<and> ma_job_ids a = [] then [name @ '': job_ids is required'']
         else if k = Add_Jobs \<and> ma_jobs a = [] then [''add_jobs: jobs is empty'']
         else if k \<in> {Answer, Message, Ask_Human, Fail} \<and> py_strip (ma_text a) = ''''
         then [name @ '': text is required'']
         else if k = Ask_Human \<and> dc_automation (en_config E) = Bypass
         then [''ask_human: nobody answers in bypass mode; decide yourself'']
         else
           List.map_filter (\<lambda>jid. case find_job s jid of
               Some j \<Rightarrow> if job_active j then None
                         else Some (name @ '': job '' @ repr_str jid @ '' does not exist or was removed'')
             | None \<Rightarrow> Some (name @ '': job '' @ repr_str jid @ '' does not exist or was removed''))
             (mentioned_jobs a) @
           (if k = Update_Job
            then (let unknown = sort (remdups (filter (\<lambda>c. c \<notin> set updatable) (map fst (ma_changes a))))
                  in if unknown = [] then []
                     else [''update_job: cannot change '' @ repr_list unknown @ '' (allowed: ''
                           @ repr_list updatable @ '')'']) @
                 (case find_job s (case ma_job_id a of None \<Rightarrow> '''' | Some x \<Rightarrow> x) of
                    None \<Rightarrow> []
                  | Some j \<Rightarrow> if jb_status j = Running
                      then [''update_job: '' @ repr_str (jb_id j) @ '' is running; rewind or remove it first'']
                      else [])
            else []))"

text \<open>\<^verbatim>\<open>_structure_errors\<close>.\<close>

definition structure_errors :: "env \<Rightarrow> run_state \<Rightarrow> string list" where
  "structure_errors E s =
     (let active = active_jobs s; cf = en_config E
      in List.maps (\<lambda>j.
           List.map_filter (\<lambda>dep. if dep \<in> jb_id ` set active then None
             else Some (''job '' @ repr_str (jb_id j) @ '' depends on '' @ repr_str dep
                        @ '', which is removed or unknown; rewire it with update_job''))
             (jb_depends_on j)
           @ check_assignment (jb_id j) (jb_category j) (jb_agent_id j) (jb_datasources j) cf) active
         @ (if has_cycle (job_graph (st_jobs s)) then [cycle_error] else [])
         @ List.maps (\<lambda>cat. too_many cat (count_category cat (st_jobs s)) cf) job_categories
         @ too_many_total (length (st_jobs s)) cf)"

definition unsettled :: "run_state \<Rightarrow> string set \<Rightarrow> situation list \<Rightarrow> string list" where
  "unsettled s settled sits = List.map_filter (\<lambda>x.
     case si_job_id x of
       None \<Rightarrow> None
     | Some jid \<Rightarrow>
         if blocking (si_kind x) \<and> jid \<noteq> '''' \<and> jid \<notin> settled
         then (case find_job s jid of
                 None \<Rightarrow> None
               | Some j \<Rightarrow> if job_active j
                   then Some (''job '' @ repr_str jid @ '' waits on its ''
                     @ map (\<lambda>c. if c = CHR ''_'' then CHR '' '' else c) (situation_name (si_kind x))
                     @ '': answer, rewind, message, remove it or ask a human'')
                   else None)
         else None) sits"

text \<open>\<^verbatim>\<open>validate\<close>: the decision is applied to a copy of the DAG, whose step is thrown away.\<close>

definition validate_decision :: "env \<Rightarrow> meta_decision \<Rightarrow> situation list \<Rightarrow> dag \<Rightarrow> string list" where
  "validate_decision E dec sits d =
     (let s = dg_state d; kinds = action_kinds dec;
          errors = List.maps (check_action E s) (md_actions dec)
      in if md_actions dec = [] then [''the decision has no actions'']
         else if errors \<noteq> [] then errors
         else case apply_decision E True ''meta'' dec sits (d\<lparr>dg_step := empty_step\<rparr>) of
           Inl err \<Rightarrow> [err]
         | Inr trial \<Rightarrow>
             if Finish \<in> set kinds \<or> Fail \<in> set kinds then structure_errors E (dg_state trial)
             else structure_errors E (dg_state trial) @
                  unsettled s (\<Union>a \<in> set (md_actions dec). set (mentioned_jobs a)) sits @
                  (if list_ex (\<lambda>x. about_phase (si_kind x)) sits \<and>
                      \<not> list_ex (\<lambda>k. k \<in> {Add_Jobs, Ask_Human, Rewind, Update_Job}) kinds
                   then [''plan the next jobs (add_jobs), finish, fail, or ask a human''] else []))"

section \<open>Consulting the meta-agent\<close>

record meta_view =
  vw_request :: string
  vw_config :: dynamic_config
  vw_roster :: string
  vw_dag :: run_state
  vw_situations :: "situation list"

text \<open>\<^verbatim>\<open>DispatcherError\<close>, and any other exception of \<^verbatim>\<open>decide\<close>.\<close>

datatype meta_failure = Dispatcher_Error string | Other_Error string

type_synonym decider =
  "meta_view \<Rightarrow> (meta_decision \<Rightarrow> string list) \<Rightarrow> meta_state \<Rightarrow> (meta_failure + meta_decision) \<times> meta_state"

text \<open>What is done with a decision the meta-agent gave: \<^verbatim>\<open>_consult\<close> after \<^verbatim>\<open>decide\<close>.\<close>

definition take_decision :: "env \<Rightarrow> meta_decision \<Rightarrow> situation list \<Rightarrow> dag \<Rightarrow> string + dag" where
  "take_decision E dec sits d0 =
     (let d = on_state (\<lambda>s. s\<lparr>st_situations := []\<rparr>) d0;
          s = dg_state d; cf = en_config E; max = li_max_rearrangements (dc_limits cf);
          kind = kind_of s dec sits
      in if kind = Some D_Rearrange \<and> max + granted_rearrangements E s \<le> st_rearrangements s
         then (if dc_automation cf = Bypass
               then Inr (on_state (fail_run E (''rearrangement budget ('' @ nat_digits max
                      @ '') exhausted: '' @ md_summary dec)) d)
               else Inr (on_state (record_decision E D_Escalation
                      (''rearrangement budget exhausted; the meta-agent wants to: '' @ md_summary dec) dec sits) d))
         else case kind of
           Some k \<Rightarrow>
             if needs_approval cf k
             then Inr (on_state (record_decision E k
                    (if md_summary dec = '''' then decision_name k else md_summary dec) dec sits) d)
             else apply_decision E False ''meta'' dec sits
                    (on_state (\<lambda>s. resolve_decision (length (st_decisions s)) True
                        (Some (''auto ('' @ automation_name (dc_automation cf) @ '')''))
                        (record_decision E k (if md_summary dec = '''' then ''meta-agent decision''
                          else md_summary dec) dec sits s)) d)
         | None \<Rightarrow>
             apply_decision E False ''meta'' dec sits
               (on_state (\<lambda>s. resolve_decision (length (st_decisions s)) True
                   (Some (''auto ('' @ automation_name (dc_automation cf) @ '')''))
                   (record_decision E D_Answer (if md_summary dec = '''' then ''meta-agent decision''
                     else md_summary dec) dec sits s)) d))"

definition consult :: "decider \<Rightarrow> env \<Rightarrow> jobj option \<Rightarrow> dag \<Rightarrow> string + dag" where
  "consult decide E rejection d =
     (let sits = st_situations (dg_state d) @
            (case rejection of None \<Rightarrow> []
             | Some detail \<Rightarrow> [\<lparr>si_kind = Rejected, si_job_id = None, si_attempt = None,
                                si_detail = detail, si_ts = en_now E\<rparr>]);
          view = \<lparr>vw_request = en_request E, vw_config = en_config E, vw_roster = en_roster E,
                  vw_dag = dg_state d, vw_situations = sits\<rparr>;
          (answer, m) = decide view (\<lambda>dec. validate_decision E dec sits d) (dg_meta d);
          d1 = d\<lparr>dg_meta := m\<rparr>
      in case answer of
           Inl (Dispatcher_Error msg) \<Rightarrow> Inr (on_state (fail_run E msg) d1)
         | Inl (Other_Error msg) \<Rightarrow> Inl msg
         | Inr dec \<Rightarrow> take_decision E dec sits d1)"

section \<open>A human's resolution\<close>

text \<open>
  The corrections hold edited jobs (\<open>Inl\<close>: they do not parse, and \<^verbatim>\<open>model_validate\<close>
  raises) and answers.
\<close>

record resolution =
  re_approved :: bool
  re_reason :: "string option"
  re_jobs :: "string + job_spec list"
  re_answers :: jobj

definition action_json :: "meta_action \<Rightarrow> json" where
  "action_json a =
     (let strs = (\<lambda>xs. JList (map JStr xs))
      in JObj [(''kind'', JStr (action_name (ma_kind a))),
        (''jobs'', JList (map (\<lambda>sp. JObj [(''id'', JStr (js_id sp)),
           (''category'', JStr (category_name (js_category sp))), (''agent_id'', JStr (js_agent_id sp)),
           (''title'', JStr (js_title sp)), (''prompt'', JStr (js_prompt sp)),
           (''depends_on'', strs (js_depends_on sp)), (''owns'', strs (js_owns sp)),
           (''datasources'', strs (js_datasources sp))]) (ma_jobs a))),
        (''job_id'', opt_json (ma_job_id a)), (''job_ids'', strs (ma_job_ids a)),
        (''text'', JStr (ma_text a)), (''interrupt'', JBool (ma_interrupt a)),
        (''restart'', JBool (ma_restart a)), (''changes'', JObj (ma_changes a))])"

text \<open>\<^verbatim>\<open>_reject\<close>.\<close>

definition reject_decision ::
    "decider \<Rightarrow> env \<Rightarrow> decision \<Rightarrow> string \<Rightarrow> situation list \<Rightarrow> dag \<Rightarrow> string + dag" where
  "reject_decision decide E rec reason sits d =
     (let s = dg_state d
      in if li_max_replans (dc_limits (en_config E)) \<le> st_replans s
         then Inr (on_state (fail_run E (''decision rejected '' @ nat_digits (st_replans s + 1)
                @ '' times; last reason: '' @ reason)) d)
         else consult decide E
           (Some (case de_payload rec of
              Meta_Payload dec _ \<Rightarrow>
                [(''rejected_decision'', JStr (if md_summary dec = '''' then de_summary rec else md_summary dec)),
                 (''actions'', JList (map action_json (md_actions dec))), (''reason'', JStr reason)]
            | _ \<Rightarrow> [(''rejected_decision'', JStr (de_summary rec)), (''actions'', JNull), (''reason'', JStr reason)]))
           (on_state (\<lambda>s. s\<lparr>st_replans := st_replans s + 1, st_situations := sits\<rparr>) d))"

definition corrected_jobs :: "meta_decision \<Rightarrow> job_spec list \<Rightarrow> meta_decision" where
  "corrected_jobs dec specs =
     dec\<lparr>md_actions := \<lparr>ma_kind = Add_Jobs, ma_jobs = specs, ma_job_id = None, ma_job_ids = [],
            ma_text = '''', ma_interrupt = False, ma_restart = False, ma_changes = []\<rparr> #
          filter (\<lambda>a. ma_kind a \<noteq> Add_Jobs) (md_actions dec)\<rparr>"

definition human_answered :: "env \<Rightarrow> decision \<Rightarrow> resolution \<Rightarrow> dag \<Rightarrow> dag" where
  "human_answered E rec res d =
     (let given = (if re_answers res \<noteq> []
            then join ''; '' (map (\<lambda>(q, v). q @ '': '' @ py_str v) (re_answers res))
            else case re_reason res of None \<Rightarrow> '''' | Some r \<Rightarrow> r);
          txt = (if \<not> re_approved res \<and> given = ''''
            then ''Nobody can answer this. Proceed with your best judgement and state your assumptions.''
            else given);
          q = (case de_payload rec of Question_Payload q _ \<Rightarrow> JStr q | _ \<Rightarrow> JNull);
          told = on_state (add_situation E Human_Answer None None [(''question'', q), (''answer'', JStr txt)]) d
      in case payload_job (de_payload rec) of
           None \<Rightarrow> told
         | Some jid \<Rightarrow>
             if jid = '''' then told
             else case find_job (dg_state d) jid of
               None \<Rightarrow> told
             | Some j \<Rightarrow> if job_active j then answer_job E j txt ''human'' (re_answers res) d else told)"

text \<open>One open decision, already marked resolved: the body of the loop of \<^verbatim>\<open>_resolve\<close>.\<close>

definition resolve_one :: "decider \<Rightarrow> env \<Rightarrow> resolution \<Rightarrow> decision \<Rightarrow> dag \<Rightarrow> string + dag" where
  "resolve_one decide E res rec d =
     (let (dec, sits) = (case de_payload rec of Meta_Payload dec sits \<Rightarrow> (dec, sits)
                         | _ \<Rightarrow> (\<lparr>md_summary = '''', md_actions = []\<rparr>, []))
      in if de_kind rec = D_Question then Inr (human_answered E rec res d)
         else if de_kind rec = D_Escalation
         then (if \<not> re_approved res
               then Inr (on_state (fail_run E (''escalation rejected: ''
                      @ (case re_reason res of Some r \<Rightarrow> if r = '''' then de_summary rec else r
                         | None \<Rightarrow> de_summary rec))) d)
               else case payload_job (de_payload rec) of
                 Some jid \<Rightarrow> Inr (on_state (on_job jid (\<lambda>j. j\<lparr>jb_status := Pending,
                               jb_pending_reason := Some ''retry''\<rparr>)) d)
               | None \<Rightarrow> apply_decision E False ''meta'' dec sits d)
         else if re_approved res
         then (case re_jobs res of
                 Inl err \<Rightarrow> Inl err
               | Inr [] \<Rightarrow> apply_decision E False ''meta'' dec sits d
               | Inr specs \<Rightarrow>
                   (let dec1 = corrected_jobs dec specs; errors = validate_decision E dec1 sits d
                    in if errors \<noteq> []
                       then reject_decision decide E rec
                              (''the edited plan breaks the rules: '' @ join ''; '' errors) sits d
                       else apply_decision E False ''human'' dec1 sits d))
         else reject_decision decide E rec
                (case re_reason res of Some r \<Rightarrow> if r = '''' then ''rejected without a reason'' else r
                 | None \<Rightarrow> ''rejected without a reason'') sits d)"

fun resolve_each :: "decider \<Rightarrow> env \<Rightarrow> resolution \<Rightarrow> nat list \<Rightarrow> dag \<Rightarrow> string + dag" where
  "resolve_each decide E res [] d = Inr d"
| "resolve_each decide E res (i # is) d =
     (let rec = st_decisions (dg_state d) ! i
      in bindE (resolve_one decide E res rec
                 (on_state (resolve_decision i (re_approved res) (re_reason res)) d))
           (resolve_each decide E res is))"

definition open_places :: "run_state \<Rightarrow> nat list" where
  "open_places s = filter (\<lambda>i. \<not> de_resolved (st_decisions s ! i)) [0..<length (st_decisions s)]"

definition resolve_all :: "decider \<Rightarrow> env \<Rightarrow> resolution \<Rightarrow> dag \<Rightarrow> string + dag" where
  "resolve_all decide E res d = resolve_each decide E res (open_places (dg_state d)) d"

section \<open>Launching\<close>

definition newlines2 :: string where
  "newlines2 = newline @ newline"

definition note_text :: "job_note \<Rightarrow> string" where
  "note_text n = ''['' @ jn_source n @ ''] '' @ jn_text n"

fun rstrip_slash :: "string \<Rightarrow> string" where
  "rstrip_slash s = rev (dropWhile (\<lambda>c. c = CHR ''/'') (rev s))"

definition upstream_of :: "run_state \<Rightarrow> job \<Rightarrow> jobj" where
  "upstream_of s j = fold (\<lambda>dep acc.
     case find_job s dep of
       None \<Rightarrow> acc
     | Some u \<Rightarrow>
         (case job_output u of
            None \<Rightarrow> acc
          | Some out \<Rightarrow> AList.update dep (JObj [(''agent'', JStr (jb_agent_id u)),
              (''category'', JStr (category_name (jb_category u))), (''title'', JStr (jb_title u)),
              (''output'', truncate_json 12000 (JObj out))]) acc)) (jb_depends_on j) []"

definition job_workspace :: "env \<Rightarrow> job \<Rightarrow> jobj" where
  "job_workspace E j =
     (let cf = en_config E;
          branch = ''carrier/'' @ take 8 (en_run_id E);
          ws1 = (case dc_repo cf of
             None \<Rightarrow> en_workspace E
           | Some r \<Rightarrow>
              (let w1 = AList.update ''base_branch'' (JStr (rc_base_branch r))
                     (AList.update ''integration_branch'' (JStr branch)
                       (AList.update ''repo'' (JStr (rc_url r)) (en_workspace E)));
                   mine = branch @ ''/'' @ jb_id j;
                   w2 = (if jb_category j = Execution
                     then AList.update ''git'' (JStr (''Branch '' @ mine @ '' from '' @ branch
                            @ '' if it exists, else from '' @ rc_base_branch r
                            @ ''. Commit and push your branch; report it as `branch`.''))
                          (AList.update ''job_branch'' (JStr mine) w1)
                     else w1)
               in if rc_verify r \<noteq> []
                  then AList.update ''verify'' (JList (map JStr (rc_verify r))) w2 else w2))
      in case dc_shared_volume cf of
           None \<Rightarrow> ws1
         | Some v \<Rightarrow>
             (let mount = rstrip_slash (sv_mount_point v)
              in AList.update ''volume_rules'' (JStr (''Read inputs anywhere under '' @ mount
                   @ ''; write only under '' @ mount @ ''/jobs/'' @ jb_id j
                   @ ''/. Report produced files as `artifacts`.''))
                 (AList.update ''output_dir'' (JStr (mount @ ''/jobs/'' @ jb_id j @ ''/out''))
                 (AList.update ''shared_volume'' (JStr mount) ws1))))"

text \<open>\<^verbatim>\<open>_job_input\<close>: what the agent of an attempt is given.\<close>

definition job_input :: "env \<Rightarrow> run_state \<Rightarrow> job \<Rightarrow> job_attempt \<Rightarrow> jobj" where
  "job_input E s j a =
     (let upstream = upstream_of s j;
          previous = find (\<lambda>x. (case at_output x of None \<Rightarrow> False | Some o' \<Rightarrow> o' \<noteq> []) \<or> truthy (at_error x))
                       (rev (jb_attempts j));
          ws = job_workspace E j
      in [(''request'', JStr (en_request E)), (''task'', JStr (jb_prompt j)),
          (''job'', JObj [(''id'', JStr (jb_id j)), (''category'', JStr (category_name (jb_category j))),
             (''title'', JStr (jb_title j)), (''attempt'', JInt (int (at_n a))),
             (''owns'', JList (map JStr (jb_owns j)))]),
          (''instructions'', JStr (en_instructions E (jb_category j)))] @
         (if upstream \<noteq> [] then [(''upstream'', JObj upstream)] else []) @
         (case at_feedback a of
            None \<Rightarrow> [] | Some f \<Rightarrow> if f \<noteq> '''' then [(''feedback'', JStr f)] else []) @
         (if jb_notes j \<noteq> []
          then [(''notes'', JList (map (\<lambda>n. JStr (note_text n)) (last_n 20 (jb_notes j))))] else []) @
         (case previous of
            None \<Rightarrow> []
          | Some x \<Rightarrow> [(''previous_attempt'', truncate_json 6000
              (JObj [(''output'', obj_json (at_output x)), (''error'', opt_json (at_error x))]))]) @
         (if jb_datasources j \<noteq> []
          then [(''datasources'', JList (List.map_filter (\<lambda>sid. map_option (\<lambda>d.
                  JObj [(''source_id'', JStr (sd_source_id d)),
                        (''operations'', JList (map JStr (sd_operations d))),
                        (''description'', JStr (sd_description d))])
                  (datasource_of (en_config E) sid)) (jb_datasources j)))] else []) @
         (if ws \<noteq> [] then [(''workspace'', JObj ws)] else []))"

definition job_ready :: "run_state \<Rightarrow> job \<Rightarrow> bool" where
  "job_ready s j \<longleftrightarrow> jb_status j = Pending \<and>
     list_all (\<lambda>dep. case find_job s dep of
        None \<Rightarrow> False | Some u \<Rightarrow> jb_status u = Finished \<or> jb_status u = Skipped) (jb_depends_on j)"

definition ready_jobs :: "run_state \<Rightarrow> job list" where
  "ready_jobs s = filter (job_ready s) (st_jobs s)"

definition agent_cap :: "dynamic_config \<Rightarrow> string \<Rightarrow> nat" where
  "agent_cap cf agent = (case pool_entry cf agent of None \<Rightarrow> 1 | Some p \<Rightarrow> pa_max_instances p)"

definition next_attempt :: "env \<Rightarrow> job \<Rightarrow> job_attempt" where
  "next_attempt E j =
     \<lparr>at_n = length (jb_attempts j) + 1, at_child = None, at_status = A_Running,
      at_started_at = en_now E, at_finished_at = None,
      at_reason = (case jb_pending_reason j of Some r \<Rightarrow> if r = '''' then ''initial'' else r
                   | None \<Rightarrow> ''initial''),
      at_feedback = (let t = join newlines2 (map note_text (new_notes j)) in if t = '''' then None else Some t),
      at_output = None, at_error = None, at_questions = []\<rparr>"

text \<open>The body of the loop of \<^verbatim>\<open>_launch_ready\<close>: one attempt started.\<close>

definition launch_job :: "env \<Rightarrow> job \<Rightarrow> dag \<Rightarrow> launch \<times> dag" where
  "launch_job E j d =
     (let a = next_attempt E j;
          payload = job_input E (dg_state d) j a @
            (case jb_pending_answers j of
               None \<Rightarrow> [] | Some ans \<Rightarrow> if ans \<noteq> [] then [(''clarification_context'', JObj ans)] else []);
          j1 = j\<lparr>jb_attempts := jb_attempts j @ [a], jb_status := Running,
                 jb_pending_reason := None, jb_pending_answers := None\<rparr>;
          l = \<lparr>la_job = j1, la_attempt = a, la_payload = payload\<rparr>
      in (l, d\<lparr>dg_state := log_event (en_now E) ''attempt_started'' (Some (jb_id j))
                  (''attempt '' @ nat_digits (at_n a) @ '' ('' @ at_reason a @ '')'')
                  ((on_job (jb_id j) (\<lambda>_. j1) (dg_state d))\<lparr>st_status := S_Running\<rparr>),
               dg_step := (dg_step d)\<lparr>sp_launches := sp_launches (dg_step d) @ [l]\<rparr>\<rparr>))"

fun launch_loop ::
    "env \<Rightarrow> job list \<Rightarrow> nat \<Rightarrow> (string \<Rightarrow> nat) \<Rightarrow> launch list \<Rightarrow> dag \<Rightarrow> launch list \<times> dag" where
  "launch_loop E [] busy per ls d = (ls, d)"
| "launch_loop E (j # js) busy per ls d =
     (if li_max_parallel (dc_limits (en_config E)) \<le> busy + length ls then (ls, d)
      else if agent_cap (en_config E) (jb_agent_id j) \<le> per (jb_agent_id j)
      then launch_loop E js busy per ls d
      else (let (l, d1) = launch_job E j d
            in launch_loop E js busy (per(jb_agent_id j := per (jb_agent_id j) + 1)) (ls @ [l]) d1))"

definition running_of :: "run_state \<Rightarrow> string \<Rightarrow> nat" where
  "running_of s agent = length (filter (\<lambda>j. jb_agent_id j = agent) (running_jobs s))"

definition launch_ready :: "env \<Rightarrow> dag \<Rightarrow> launch list \<times> dag" where
  "launch_ready E d =
     launch_loop E (ready_jobs (dg_state d)) (length (running_jobs (dg_state d)))
       (running_of (dg_state d)) [] d"

section \<open>One pass\<close>

definition start_authored :: "env \<Rightarrow> job_spec list \<Rightarrow> dag \<Rightarrow> dag" where
  "start_authored E specs d =
     (let errors = validate_jobs specs (en_config E) [] job_categories @
                   check_minimums (\<lambda>cat. count_specs cat specs) (en_config E)
      in if errors \<noteq> []
         then on_state (fail_run E (''the authored plan is invalid: '' @ join ''; '' errors)) d
         else on_state (\<lambda>s. log_event (en_now E) ''plan_authored'' None (nat_digits (length specs) @ '' job(s)'')
                (s\<lparr>st_jobs := st_jobs s @ map (job_of_spec ''author'') specs, st_status := S_Running\<rparr>)) d)"

definition phase_over :: "env \<Rightarrow> run_state \<Rightarrow> bool" where
  "phase_over E s \<longleftrightarrow>
     st_finished s \<or>
     dc_plan (en_config E) \<noteq> None \<and>
       list_all (\<lambda>j. jb_status j = Finished \<or> jb_status j = Skipped) (active_jobs s)"

text \<open>\<^verbatim>\<open>_load_live\<close>, over the situations waiting and those of gated decisions.\<close>

definition detail_child :: "jobj \<Rightarrow> string option" where
  "detail_child detail = (case jget detail ''child_run_id'' of JStr c \<Rightarrow> Some c | _ \<Rightarrow> None)"

definition load_live :: "dag \<Rightarrow> dag" where
  "load_live d =
     (let s = dg_state d;
          pending = st_situations s @
            List.maps (\<lambda>dc. case de_payload dc of Meta_Payload _ sits \<Rightarrow> sits | _ \<Rightarrow> []) (open_decisions s)
      in d\<lparr>dg_live := fold (\<lambda>x live.
            case si_job_id x of
              Some jid \<Rightarrow>
                if si_kind x = Live_Question \<and> jid \<noteq> ''''
                then live(jid := Some (case si_attempt x of None \<Rightarrow> 0 | Some n \<Rightarrow> n, detail_child (si_detail x)))
                else live
            | None \<Rightarrow> live) pending (dg_live d)\<rparr>)"

text \<open>
  The \<^verbatim>\<open>for _ in range(4)\<close> of \<^verbatim>\<open>_schedule\<close>: whether it was left by
  \<^verbatim>\<open>break\<close>, and what the DAG is then.
\<close>

definition settled_or_gated :: "run_state \<Rightarrow> bool" where
  "settled_or_gated s \<longleftrightarrow> st_status s = S_Failed \<or> open_decisions s \<noteq> []"

fun rounds :: "nat \<Rightarrow> decider \<Rightarrow> env \<Rightarrow> dag \<Rightarrow> string + (bool \<times> dag)" where
  "rounds 0 decide E d = Inr (False, d)"
| "rounds (Suc k) decide E d =
     (if settled_or_gated (dg_state d) then Inr (True, d)
      else if st_situations (dg_state d) \<noteq> []
      then bindE (consult decide E None d) (rounds k decide E)
      else (let (ls, d1) = launch_ready E d
            in if ls \<noteq> [] \<or> running_jobs (dg_state d1) \<noteq> [] \<or> phase_over E (dg_state d1)
               then Inr (True, d1)
               else rounds k decide E (on_state (add_situation E Phase_Done None None []) d1)))"

definition skip_blocked :: "env \<Rightarrow> job \<Rightarrow> run_state \<Rightarrow> run_state" where
  "skip_blocked E j s =
     (if jb_status j = Pending \<and>
         list_ex (\<lambda>dep. case find_job s dep of
            None \<Rightarrow> True
          | Some u \<Rightarrow> jb_status u \<in> {Failed, Cancelled, Removed}) (jb_depends_on j)
      then log_event (en_now E) ''skipped'' (Some (jb_id j)) ''a dependency failed or was removed''
             (on_job (jb_id j) (\<lambda>j. j\<lparr>jb_status := Skipped\<rparr>) s)
      else s)"

definition summary_line :: "job \<Rightarrow> string" where
  "summary_line j = ''- '' @ jb_id j @ '' ('' @ category_name (jb_category j) @ '', '' @ jb_agent_id j
     @ ''): '' @ take 500 (py_strip (output_summary (job_output j)))"

definition finish_or_fail :: "env \<Rightarrow> dag \<Rightarrow> step_status \<times> dag" where
  "finish_or_fail E d =
     (let s = fold (skip_blocked E) (st_jobs (dg_state d)) (dg_state d);
          active = active_jobs s;
          unfinished = filter (\<lambda>j. jb_status j \<noteq> Finished \<and> jb_status j \<noteq> Skipped) active;
          missing = check_minimums (\<lambda>cat. count_category cat active) (en_config E);
          report = join newline (map summary_line active)
      in if unfinished \<noteq> []
         then (Step_Failed, on_state (\<lambda>_. fail_run E (''unfinished jobs: '' @ join '', ''
                 (map (\<lambda>j. jb_id j @ '' ('' @ job_status_name (jb_status j) @ '')'') unfinished)) s) d)
         else if missing \<noteq> []
         then (Step_Failed, on_state (\<lambda>_. fail_run E (join ''; '' missing) s) d)
         else (Completed, on_state (\<lambda>_. log_event (en_now E) ''completed'' None ''''
                 (s\<lparr>st_status := S_Completed,
                    st_summary := Some (case st_summary s of
                        Some t \<Rightarrow> if t = '''' then report else t @ newlines2 @ report
                      | None \<Rightarrow> report)\<rparr>)) d))"

text \<open>The end of \<^verbatim>\<open>_schedule\<close>: the status, and what it does to the DAG.\<close>

definition conclude :: "env \<Rightarrow> dag \<Rightarrow> step_status \<times> dag" where
  "conclude E d =
     (let s = dg_state d
      in if st_status s = S_Failed then (Step_Failed, stop_all E d)
         else if open_decisions s \<noteq> []
         then (Gate, on_state (\<lambda>s. s\<lparr>st_status := S_Waiting_Approval\<rparr>) d)
         else if running_jobs s \<noteq> [] then (Run, on_state (\<lambda>s. s\<lparr>st_status := S_Running\<rparr>) d)
         else if st_situations s \<noteq> []
         then (Step_Failed, on_state (fail_run E (''the meta-agent did not settle: ''
                 @ join '', '' (map (\<lambda>x. situation_name (si_kind x)) (st_situations s)))) d)
         else finish_or_fail E d)"

text \<open>What has to be there before the rounds: the resolution taken in, and a first situation or plan.\<close>

definition first_work :: "env \<Rightarrow> dag \<Rightarrow> dag" where
  "first_work E d =
     (let s = dg_state d
      in if st_jobs s = [] \<and> st_situations s = [] \<and> st_status s = S_Planning
         then (case dc_plan (en_config E) of
                 Some specs \<Rightarrow> start_authored E specs d
               | None \<Rightarrow> on_state (add_situation E Start None None []) d)
         else d)"

definition settle_rounds :: "decider \<Rightarrow> env \<Rightarrow> dag \<Rightarrow> string + dag" where
  "settle_rounds decide E d =
     bindE (rounds 4 decide E d) (\<lambda>(broke, d1).
       Inr (if \<not> broke \<and> \<not> settled_or_gated (dg_state d1) \<and> st_situations (dg_state d1) = []
            then snd (launch_ready E d1) else d1))"

definition run_pass ::
    "decider \<Rightarrow> env \<Rightarrow> event list \<Rightarrow> resolution option \<Rightarrow> bool \<Rightarrow> dag \<Rightarrow> string + (step_status \<times> dag)" where
  "run_pass decide E events res stopped d =
     (case st_status (dg_state d) of
        S_Completed \<Rightarrow> Inr (Completed, d)
      | S_Failed \<Rightarrow> Inr (Step_Failed, d)
      | _ \<Rightarrow>
         (let d1 = fold (ingest E) events (load_live d)
          in if stopped then Inr (Step_Failed, on_state (fail_run E ''run was stopped'') (stop_all E d1))
             else bindE (case res of
                    Some r \<Rightarrow> if open_decisions (dg_state d1) \<noteq> [] then resolve_all decide E r d1 else Inr d1
                  | None \<Rightarrow> Inr d1) (\<lambda>d2.
                  bindE (settle_rounds decide E (first_work E d2)) (\<lambda>d3. Inr (conclude E d3)))))"

text \<open>\<^verbatim>\<open>_collect_usage\<close>.\<close>

definition collect_usage :: "dag \<Rightarrow> dag" where
  "collect_usage d =
     d\<lparr>dg_state := (dg_state d)\<lparr>st_usage := fold (\<lambda>(k, v) u.
           AList.update k ((case map_of u k of None \<Rightarrow> 0 | Some n \<Rightarrow> n) + v) u)
           (ms_usage (dg_meta d)) (st_usage (dg_state d))\<rparr>,
       dg_meta := (dg_meta d)\<lparr>ms_usage := []\<rparr>\<rparr>"

text \<open>\<^verbatim>\<open>schedule\<close>, on a \<^verbatim>\<open>JobDag\<close> built for the record: no live questions, an empty step.\<close>

definition new_dag :: "run_state \<Rightarrow> meta_state \<Rightarrow> dag" where
  "new_dag s m = \<lparr>dg_state = s, dg_step = empty_step, dg_live = (\<lambda>_. None), dg_meta = m\<rparr>"

definition schedule ::
    "decider \<Rightarrow> env \<Rightarrow> event list \<Rightarrow> resolution option \<Rightarrow> bool \<Rightarrow> dag \<Rightarrow> string + (step_status \<times> dag)" where
  "schedule decide E events res stopped d =
     bindE (run_pass decide E events res stopped (d\<lparr>dg_step := empty_step\<rparr>)) (\<lambda>(status, d1).
       Inr (status, collect_usage d1))"

section \<open>The record outside a pass\<close>

definition run_status_name :: "run_status \<Rightarrow> string" where
  "run_status_name r = (case r of
      S_Planning \<Rightarrow> ''planning'' | S_Running \<Rightarrow> ''running'' | S_Waiting_Approval \<Rightarrow> ''waiting_approval''
    | S_Completed \<Rightarrow> ''completed'' | S_Failed \<Rightarrow> ''failed'')"

definition result_of :: "run_state \<Rightarrow> jobj" where
  "result_of s =
     [(''status'', JStr (run_status_name (st_status s))), (''summary'', opt_json (st_summary s)),
      (''error'', opt_json (st_error s)),
      (''jobs'', JObj (fold (\<lambda>j. AList.update (jb_id j) (JObj
          [(''category'', JStr (category_name (jb_category j))), (''agent_id'', JStr (jb_agent_id j)),
           (''status'', JStr (job_status_name (jb_status j))), (''output'', obj_json (job_output j))]))
          (filter (\<lambda>j. jb_status j \<noteq> Removed) (st_jobs s)) []))]"

definition stuck :: "job_status \<Rightarrow> bool" where
  "stuck x \<longleftrightarrow> x \<in> {Failed, Skipped, Cancelled, Waiting, Running}"

definition retry_job :: "job \<Rightarrow> job" where
  "retry_job j =
     (if stuck (jb_status j)
      then (let j1 = (case last_attempt j of
               Some a \<Rightarrow> if at_status a = A_Running
                 then j\<lparr>jb_attempts := butlast (jb_attempts j) @ [(last (jb_attempts j))\<lparr>at_status := A_Cancelled\<rparr>]\<rparr>
                 else j
             | None \<Rightarrow> j)
            in j1\<lparr>jb_status := Pending, jb_awaiting := [], jb_pending_reason := Some ''retry''\<rparr>)
      else j)"

definition retry_grant :: "env \<Rightarrow> nat \<Rightarrow> job \<Rightarrow> decision" where
  "retry_grant E k j =
     \<lparr>de_id = en_uuid E k, de_kind = D_Escalation, de_summary = ''manual retry of '' @ jb_id j,
      de_payload = Retry_Payload (jb_id j), de_created_at = en_now E, de_resolved = True,
      de_approved = Some True, de_reason = Some ''manual retry''\<rparr>"

fun retry_grants :: "env \<Rightarrow> nat \<Rightarrow> job list \<Rightarrow> decision list" where
  "retry_grants E k [] = []"
| "retry_grants E k (j # js) =
     (if stuck (jb_status j) then retry_grant E k j # retry_grants E (Suc k) js else retry_grants E k js)"

text \<open>\<^verbatim>\<open>reset_for_retry\<close>.\<close>

definition reset_for_retry :: "env \<Rightarrow> run_state \<Rightarrow> run_state" where
  "reset_for_retry E s =
     log_event (en_now E) ''manual_retry'' None ''''
       (s\<lparr>st_decisions := map (\<lambda>dc. if de_resolved dc then dc
              else dc\<lparr>de_resolved := True, de_approved := Some False,
                      de_reason := Some ''superseded by a manual retry''\<rparr>) (st_decisions s)
            @ retry_grants E (length (st_decisions s)) (st_jobs s),
          st_jobs := map retry_job (st_jobs s),
          st_situations := filter (\<lambda>x. si_kind x \<noteq> Live_Question) (st_situations s),
          st_status := (if st_jobs s = [] then S_Planning else S_Running),
          st_finished := False, st_error := None\<rparr>)"

end
