(* ===== verification/JobInvariant.thy ===== *)
theory JobInvariant
  imports JobEngine
begin

text \<open>
  What every pass over a job DAG keeps: the record is well formed (\<open>state_ok\<close>), it only grows
  (\<open>append_only\<close>), and outside the launching loop no job starts running.  \<open>quiet\<close> bundles
  the three; it is reflexive and transitive, so that each operation needs one lemma.
\<close>

named_theorems quiet_intros \<open>operations that keep the record in order\<close>

section \<open>The record in order\<close>

text \<open>
  A job's attempts are numbered from 1, only the last can run, and it runs exactly while the job
  does; a retry is only pending while the budget allows it.
\<close>

definition retry_budget :: "dynamic_config \<Rightarrow> run_state \<Rightarrow> string \<Rightarrow> nat" where
  "retry_budget cf s jid = li_max_retries (dc_limits cf) + granted_retries s jid"

definition attempts_ok :: "job_attempt list \<Rightarrow> bool" where
  "attempts_ok as \<longleftrightarrow> map at_n as = [1..<Suc (length as)] \<and>
     (\<forall>a \<in> set (butlast as). at_status a \<noteq> A_Running)"

definition running_attempt :: "job_attempt list \<Rightarrow> bool" where
  "running_attempt as \<longleftrightarrow> as \<noteq> [] \<and> at_status (last as) = A_Running"

definition job_ok :: "dynamic_config \<Rightarrow> run_state \<Rightarrow> job \<Rightarrow> bool" where
  "job_ok cf s j \<longleftrightarrow>
     attempts_ok (jb_attempts j) \<and> (jb_status j = Running \<longleftrightarrow> running_attempt (jb_attempts j)) \<and>
     length (jb_notes j) \<le> 50 \<and> trailing_retries j \<le> retry_budget cf s (jb_id j) \<and>
     (jb_pending_reason j = Some ''retry'' \<longrightarrow> trailing_retries j < retry_budget cf s (jb_id j))"

definition decision_ok :: "decision \<Rightarrow> bool" where
  "decision_ok dc \<longleftrightarrow>
     (case de_payload dc of
        Meta_Payload _ _ \<Rightarrow> de_kind dc \<noteq> D_Question
      | Question_Payload _ _ \<Rightarrow> de_kind dc = D_Question
      | Retry_Payload _ \<Rightarrow> de_resolved dc)"

definition state_ok :: "dynamic_config \<Rightarrow> run_state \<Rightarrow> bool" where
  "state_ok cf s \<longleftrightarrow>
     distinct (map jb_id (st_jobs s)) \<and> (\<forall>j \<in> set (st_jobs s). job_ok cf s j) \<and>
     (\<forall>dc \<in> set (st_decisions s). decision_ok dc) \<and> length (st_events s) \<le> 500"

section \<open>The record only grows\<close>

definition attempt_kept :: "job_attempt \<Rightarrow> job_attempt \<Rightarrow> bool" where
  "attempt_kept a a' \<longleftrightarrow> at_n a' = at_n a \<and> at_reason a' = at_reason a \<and>
     (at_status a \<noteq> A_Running \<longrightarrow> a' = a)"

definition job_kept :: "job \<Rightarrow> job \<Rightarrow> bool" where
  "job_kept j j' \<longleftrightarrow> jb_id j' = jb_id j \<and> jb_category j' = jb_category j \<and>
     list_all2 attempt_kept (jb_attempts j) (take (length (jb_attempts j)) (jb_attempts j'))"

definition append_only :: "run_state \<Rightarrow> run_state \<Rightarrow> bool" where
  "append_only s s' \<longleftrightarrow>
     list_all2 job_kept (st_jobs s) (take (length (st_jobs s)) (st_jobs s'))"

lemma attempt_kept_refl [simp]: "attempt_kept a a"
  by (simp add: attempt_kept_def)

lemma attempt_kept_trans: "attempt_kept a b \<Longrightarrow> attempt_kept b c \<Longrightarrow> attempt_kept a c"
  by (auto simp: attempt_kept_def)

lemma prefix_all2_trans:
  assumes trans: "\<And>x y z. R x y \<Longrightarrow> R y z \<Longrightarrow> R x z"
    and "list_all2 R xs (take (length xs) ys)" and "list_all2 R ys (take (length ys) zs)"
  shows "list_all2 R xs (take (length xs) zs)"
proof -
  have len: "length xs \<le> length ys" "length ys \<le> length zs"
    using assms(2,3) by (auto dest!: list_all2_lengthD)
  have "list_all2 R (take (length xs) ys) (take (length xs) zs)"
    using list_all2_takeI [OF assms(3), of "length xs"] len by (simp add: min_def)
  with assms(2) show ?thesis by (rule list_all2_trans [rotated]) (rule trans)
qed

lemma job_kept_refl [simp]: "job_kept j j"
  by (simp add: job_kept_def list_all2_refl)

lemma job_kept_trans: "job_kept a b \<Longrightarrow> job_kept b c \<Longrightarrow> job_kept a c"
  unfolding job_kept_def
  by (intro conjI; (elim conjE)?; (rule prefix_all2_trans [of attempt_kept _ "jb_attempts b"])?)
    (simp_all add: attempt_kept_trans)

lemma append_only_refl [simp]: "append_only s s"
  by (simp add: append_only_def list_all2_refl)

lemma append_only_trans: "append_only s s' \<Longrightarrow> append_only s' s'' \<Longrightarrow> append_only s s''"
  unfolding append_only_def
  by (rule prefix_all2_trans [of job_kept _ "st_jobs s'"]) (simp_all add: job_kept_trans)

lemma job_keptD_id: "job_kept j j' \<Longrightarrow> jb_id j' = jb_id j"
  by (simp add: job_kept_def)

section \<open>Quiet operations\<close>

definition quiet :: "dynamic_config \<Rightarrow> run_state \<Rightarrow> run_state \<Rightarrow> bool" where
  "quiet cf s s' \<longleftrightarrow>
     (state_ok cf s \<longrightarrow>
        state_ok cf s' \<and> append_only s s' \<and>
        length (running_jobs s') \<le> length (running_jobs s) \<and>
        (\<exists>ds. st_decisions s' = st_decisions s @ ds))"

lemma quiet_refl [simp, quiet_intros]: "quiet cf s s"
  by (simp add: quiet_def)

lemma quiet_trans: "quiet cf s s' \<Longrightarrow> quiet cf s' s'' \<Longrightarrow> quiet cf s s''"
  unfolding quiet_def using append_only_trans by fastforce

lemma granted_retries_append:
  "st_decisions s' = st_decisions s @ ds \<Longrightarrow> granted_retries s jid \<le> granted_retries s' jid"
  by (simp add: granted_retries_def)

lemma job_ok_budget:
  "job_ok cf s j \<Longrightarrow> granted_retries s (jb_id j) \<le> granted_retries s' (jb_id j) \<Longrightarrow> job_ok cf s' j"
  by (auto simp: job_ok_def retry_budget_def)

text \<open>Whatever leaves the jobs alone and at most appends decisions of the right shape.\<close>

lemma quiet_fields:
  assumes jobs: "st_jobs s' = st_jobs s" and ds: "st_decisions s' = st_decisions s @ ds"
    and ok: "\<And>dc. dc \<in> set ds \<Longrightarrow> decision_ok dc"
    and events: "length (st_events s) \<le> 500 \<Longrightarrow> length (st_events s') \<le> 500"
  shows "quiet cf s s'"
proof -
  have "job_ok cf s' j" if "job_ok cf s j" for j
    using that granted_retries_append [OF ds] by (rule job_ok_budget)
  then show ?thesis
    using assms by (auto simp: quiet_def state_ok_def append_only_def running_jobs_def list_all2_refl)
qed

lemma log_event_simps [simp]:
  "st_jobs (log_event now k jid t s) = st_jobs s"
  "st_decisions (log_event now k jid t s) = st_decisions s"
  "st_situations (log_event now k jid t s) = st_situations s"
  "st_status (log_event now k jid t s) = st_status s"
  "st_rearrangements (log_event now k jid t s) = st_rearrangements s"
  "st_replans (log_event now k jid t s) = st_replans s"
  "st_finished (log_event now k jid t s) = st_finished s"
  "length (st_events (log_event now k jid t s)) \<le> 500"
  by (simp_all add: log_event_def)

lemma quiet_log: "quiet cf s s' \<Longrightarrow> quiet cf s (log_event now k jid t s')"
  by (rule quiet_trans) (auto intro: quiet_fields)

lemma find_jobD: "find_job s jid = Some j \<Longrightarrow> j \<in> set (st_jobs s) \<and> jb_id j = jid"
  unfolding find_job_def by (auto dest!: find_Some_iff [THEN iffD1] simp: in_set_conv_nth)

lemma find_job_unique:
  assumes "state_ok cf s" and "j \<in> set (st_jobs s)"
  shows "find_job s (jb_id j) = Some j"
proof -
  obtain j' where j': "find_job s (jb_id j) = Some j'"
    using assms(2) by (cases "find_job s (jb_id j)") (auto simp: find_job_def find_None_iff)
  have "inj_on jb_id (set (st_jobs s))" using assms(1) by (simp add: state_ok_def distinct_map)
  then have "j' = j" by (rule inj_onD) (use find_jobD [OF j'] assms(2) in auto)
  with j' show ?thesis by simp
qed

lemma same_job:
  "state_ok cf s \<Longrightarrow> find_job s jid = Some j \<Longrightarrow> j' \<in> set (st_jobs s) \<Longrightarrow> jb_id j' = jid \<Longrightarrow> j' = j"
  using find_job_unique [of cf s j'] by simp

lemma on_job_simps [simp]:
  "st_decisions (on_job jid f s) = st_decisions s" "st_events (on_job jid f s) = st_events s"
  "st_situations (on_job jid f s) = st_situations s" "st_status (on_job jid f s) = st_status s"
  "st_rearrangements (on_job jid f s) = st_rearrangements s" "st_replans (on_job jid f s) = st_replans s"
  "st_finished (on_job jid f s) = st_finished s"
  by (simp_all add: on_job_def)

lemma running_map_le:
  assumes "\<And>j. j \<in> set js \<Longrightarrow> jb_status (f j) = Running \<Longrightarrow> jb_status j = Running"
  shows "length (filter (\<lambda>j. jb_status j = Running) (map f js)) \<le>
         length (filter (\<lambda>j. jb_status j = Running) js)"
  using assms
proof (induction js)
  case (Cons j js)
  have IH: "length (filter (\<lambda>j. jb_status j = Running) (map f js)) \<le>
         length (filter (\<lambda>j. jb_status j = Running) js)"
    by (rule Cons.IH) (use Cons.prems in simp)
  have "jb_status (f j) = Running \<Longrightarrow> jb_status j = Running" by (rule Cons.prems) simp_all
  with IH show ?case by (cases "jb_status (f j) = Running") simp_all
qed simp

lemma quiet_map:
  assumes jobs: "st_jobs s' = map g (st_jobs s)" and ds: "st_decisions s' = st_decisions s"
    and events: "length (st_events s) \<le> 500 \<Longrightarrow> length (st_events s') \<le> 500"
    and each: "\<And>j. state_ok cf s \<Longrightarrow> j \<in> set (st_jobs s) \<Longrightarrow> job_ok cf s j \<Longrightarrow>
              job_ok cf s (g j) \<and> job_kept j (g j) \<and> (jb_status (g j) = Running \<longrightarrow> jb_status j = Running)"
  shows "quiet cf s s'"
  unfolding quiet_def
proof
  assume ok: "state_ok cf s"
  have g: "job_ok cf s (g j) \<and> job_kept j (g j) \<and> (jb_status (g j) = Running \<longrightarrow> jb_status j = Running)"
    if "j \<in> set (st_jobs s)" for j
    using that ok by (intro each) (simp_all add: state_ok_def)
  have "granted_retries s' = granted_retries s"
    by (simp add: granted_retries_def fun_eq_iff ds)
  then have same: "job_ok cf s' = job_ok cf s"
    by (simp add: fun_eq_iff job_ok_def retry_budget_def)
  have ids: "map jb_id (st_jobs s') = map jb_id (st_jobs s)"
    unfolding jobs map_map by (rule map_cong [OF refl]) (use g job_keptD_id in fastforce)
  have "job_ok cf s j" if "j \<in> set (st_jobs s')" for j
    using that g unfolding jobs set_map by blast
  then have "state_ok cf s'"
    using ok events unfolding state_ok_def same ids ds by blast
  moreover have "append_only s s'"
    unfolding append_only_def jobs
    by (simp only: length_map take_all order_refl list_all2_map2 list_all2_same) (use g in blast)
  moreover have "length (running_jobs s') \<le> length (running_jobs s)"
    unfolding running_jobs_def jobs by (rule running_map_le) (use g in blast)
  ultimately show "state_ok cf s' \<and> append_only s s' \<and>
      length (running_jobs s') \<le> length (running_jobs s) \<and> (\<exists>d. st_decisions s' = st_decisions s @ d)"
    by (simp add: ds)
qed

lemma quiet_on_job:
  assumes "\<And>j. state_ok cf s \<Longrightarrow> j \<in> set (st_jobs s) \<Longrightarrow> jb_id j = jid \<Longrightarrow> job_ok cf s j \<Longrightarrow>
              job_ok cf s (f j) \<and> job_kept j (f j) \<and> (jb_status (f j) = Running \<longrightarrow> jb_status j = Running)"
  shows "quiet cf s (on_job jid f s)"
  by (rule quiet_map [where g = "\<lambda>j. if jb_id j = jid then f j else j"])
    (use assms in \<open>simp_all add: on_job_def\<close>)

section \<open>Updates of one job in a row\<close>

named_theorems fuse \<open>updates of one job collected into one\<close>

lemma on_job_log [fuse]:
  "on_job jid f (log_event now k i t s) = log_event now k i t (on_job jid f s)"
  by (simp add: on_job_def log_event_def)

lemma on_job_situation [fuse]:
  "on_job jid f (add_situation E k i n dt s) = add_situation E k i n dt (on_job jid f s)"
  by (simp add: on_job_def add_situation_def log_event_def)

lemma on_job_drop [fuse]:
  "on_job jid f (drop_situations p s) = drop_situations p (on_job jid f s)"
  by (simp add: on_job_def drop_situations_def)

lemma on_job_fuse [fuse]:
  "(\<And>j. jb_id (g j) = jb_id j) \<Longrightarrow> on_job jid f (on_job jid g s) = on_job jid (\<lambda>j. f (g j)) s"
  by (simp add: on_job_def)

lemma drop_situations_simps [simp]:
  "st_jobs (drop_situations p s) = st_jobs s" "st_decisions (drop_situations p s) = st_decisions s"
  "st_events (drop_situations p s) = st_events s" "st_status (drop_situations p s) = st_status s"
  "st_rearrangements (drop_situations p s) = st_rearrangements s"
  "st_replans (drop_situations p s) = st_replans s" "st_finished (drop_situations p s) = st_finished s"
  by (simp_all add: drop_situations_def)

lemma add_situation_simps [simp]:
  "st_jobs (add_situation E k i n dt s) = st_jobs s"
  "st_decisions (add_situation E k i n dt s) = st_decisions s"
  "st_status (add_situation E k i n dt s) = st_status s"
  "st_rearrangements (add_situation E k i n dt s) = st_rearrangements s"
  "st_replans (add_situation E k i n dt s) = st_replans s"
  "st_finished (add_situation E k i n dt s) = st_finished s"
  "length (st_events (add_situation E k i n dt s)) \<le> 500"
  by (simp_all add: add_situation_def)

lemma fail_run_simps [simp]:
  "st_jobs (fail_run E m s) = st_jobs s" "st_decisions (fail_run E m s) = st_decisions s"
  "st_status (fail_run E m s) = S_Failed" "st_situations (fail_run E m s) = st_situations s"
  "st_rearrangements (fail_run E m s) = st_rearrangements s" "st_replans (fail_run E m s) = st_replans s"
  "length (st_events (fail_run E m s)) \<le> 500"
  by (simp_all add: fail_run_def)

lemma quiet_outer:
  "quiet cf s s' \<Longrightarrow> quiet cf s (drop_situations p s')"
  "quiet cf s s' \<Longrightarrow> quiet cf s (add_situation E k i n dt s')"
  "quiet cf s s' \<Longrightarrow> quiet cf s (fail_run E m s')"
  "quiet cf s s' \<Longrightarrow> quiet cf s (s'\<lparr>st_status := x\<rparr>)"
  "quiet cf s s' \<Longrightarrow> quiet cf s (s'\<lparr>st_situations := y\<rparr>)"
  "quiet cf s s' \<Longrightarrow> quiet cf s (s'\<lparr>st_rearrangements := r\<rparr>)"
  "quiet cf s s' \<Longrightarrow> quiet cf s (s'\<lparr>st_finished := b, st_summary := t\<rparr>)"
  "quiet cf s s' \<Longrightarrow> quiet cf s (s'\<lparr>st_replans := r, st_situations := y\<rparr>)"
  by (erule quiet_trans, rule quiet_fields [where ds = "[]"]; simp)+

declare quiet_log [quiet_intros] quiet_outer [quiet_intros]

lemma add_note_simps [simp]:
  "jb_id (add_note now src t j) = jb_id j" "jb_status (add_note now src t j) = jb_status j"
  "jb_category (add_note now src t j) = jb_category j"
  "jb_attempts (add_note now src t j) = jb_attempts j"
  "jb_depends_on (add_note now src t j) = jb_depends_on j"
  "jb_agent_id (add_note now src t j) = jb_agent_id j"
  "jb_datasources (add_note now src t j) = jb_datasources j"
  "jb_pending_reason (add_note now src t j) = jb_pending_reason j"
  "length (jb_notes (add_note now src t j)) \<le> 50"
  by (simp_all add: add_note_def)

lemma trailing_retries_cong: "jb_attempts j' = jb_attempts j \<Longrightarrow> trailing_retries j' = trailing_retries j"
  by (simp add: trailing_retries_def)

lemma job_ok_cong:
  assumes "job_ok cf s j" and "jb_attempts j' = jb_attempts j" and "jb_id j' = jb_id j"
    and "jb_status j' = Running \<longleftrightarrow> jb_status j = Running" and "length (jb_notes j') \<le> 50"
    and "jb_pending_reason j' = Some ''retry'' \<Longrightarrow> trailing_retries j < retry_budget cf s (jb_id j)"
  shows "job_ok cf s j'"
  using assms trailing_retries_cong [OF assms(2)] unfolding job_ok_def by metis

lemma job_okD:
  assumes "job_ok cf s j"
  shows "attempts_ok (jb_attempts j)" "jb_status j = Running \<longleftrightarrow> running_attempt (jb_attempts j)"
    "length (jb_notes j) \<le> 50" "trailing_retries j \<le> retry_budget cf s (jb_id j)"
    "jb_pending_reason j = Some ''retry'' \<Longrightarrow> trailing_retries j < retry_budget cf s (jb_id j)"
  using assms unfolding job_ok_def by blast+

lemma job_ok_note [simp]:
  assumes ok: "job_ok cf s j"
  shows "job_ok cf s (add_note now src t j)"
  by (rule job_ok_cong [OF ok]) (simp_all add: job_okD(5) [OF ok])

lemma job_kept_note [simp]: "job_kept j j' \<Longrightarrow> job_kept j (add_note now src t j')"
  by (simp add: job_kept_def)

text \<open>The last attempt of a job closed, and the job moved on.\<close>

definition close_last :: "(job_attempt \<Rightarrow> job_attempt) \<Rightarrow> job \<Rightarrow> job" where
  "close_last g j = j\<lparr>jb_attempts := butlast (jb_attempts j) @ [g (last (jb_attempts j))]\<rparr>"

lemma trailing_retries_reasons:
  "trailing_retries j = length (takeWhile (\<lambda>r. r = ''retry'') (rev (drop 1 (map at_reason (jb_attempts j)))))"
  by (simp only: trailing_retries_def drop_map rev_map takeWhile_map comp_def length_map)

lemma map_close_last:
  assumes "as \<noteq> []" and "h (g (last as)) = h (last as)"
  shows "map h (butlast as @ [g (last as)]) = map h as"
  using assms by (metis append_butlast_last_id list.simps(8) list.simps(9) map_append)

lemma close_last_ok:
  assumes ok: "job_ok cf s j" and run: "jb_status j = Running"
    and g: "\<And>a. at_n (g a) = at_n a" "\<And>a. at_reason (g a) = at_reason a"
      "\<And>a. at_status (g a) \<noteq> A_Running"
    and st: "st \<noteq> Running" and r: "r = Some ''retry'' \<Longrightarrow> trailing_retries j < retry_budget cf s (jb_id j)"
    and j': "j' = (close_last g j)\<lparr>jb_status := st, jb_pending_reason := r\<rparr>"
  shows "job_ok cf s j' \<and> job_kept j j'"
proof -
  let ?as = "jb_attempts j" and ?bs = "butlast (jb_attempts j) @ [g (last (jb_attempts j))]"
  from ok run have ne: "?as \<noteq> []" and last: "at_status (last ?as) = A_Running"
    by (simp_all add: job_ok_def running_attempt_def)
  have fields: "jb_id j' = jb_id j" "jb_status j' = st" "jb_pending_reason j' = r"
    "jb_attempts j' = ?bs" "jb_notes j' = jb_notes j"
    by (simp_all add: j' close_last_def)
  have "trailing_retries j' = trailing_retries j"
    unfolding trailing_retries_reasons j' close_last_def
    using map_close_last [where g = g and h = at_reason, OF ne g(2)] by simp
  moreover have "attempts_ok ?bs"
    using ok ne map_close_last [where g = g and h = at_n, OF ne g(1)]
    by (simp add: job_ok_def attempts_ok_def)
  moreover have "\<not> running_attempt ?bs" using g(3) by (simp add: running_attempt_def)
  ultimately have "job_ok cf s j'"
    using ok st r fields unfolding job_ok_def by simp
  note job_fine = this
  have "list_all2 attempt_kept ?as ?bs"
  proof -
    have "list_all2 attempt_kept (butlast ?as @ [last ?as]) ?bs"
      using last g by (intro list_all2_appendI) (simp_all add: list_all2_refl attempt_kept_def)
    then show ?thesis using ne by simp
  qed
  moreover have "take (length ?as) ?bs = ?bs" using ne by (intro take_all) simp
  ultimately have "list_all2 attempt_kept ?as (take (length ?as) ?bs)" by simp
  then have "job_kept j j'"
    unfolding job_kept_def fields by (simp add: j' close_last_def)
  with job_fine show ?thesis by simp
qed

text \<open>A job that does not run moved on.\<close>

lemma idle_ok:
  assumes "job_ok cf s j" and "jb_status j \<noteq> Running" and "st \<noteq> Running"
    and "r = Some ''retry'' \<Longrightarrow> trailing_retries j < retry_budget cf s (jb_id j)"
  shows "job_ok cf s (j\<lparr>jb_status := st, jb_pending_reason := r\<rparr>)"
  using assms(1) by (rule job_ok_cong) (use assms job_okD(3) in simp_all)

lemma job_kept_fields [simp]:
  "job_kept j (j'\<lparr>jb_status := st\<rparr>) = job_kept j j'"
  "job_kept j (j'\<lparr>jb_pending_reason := r\<rparr>) = job_kept j j'"
  "job_kept j (j'\<lparr>jb_pending_answers := p\<rparr>) = job_kept j j'"
  by (simp_all add: job_kept_def)

end
