(* ===== verification/JobPasses.thy ===== *)
theory JobPasses
  imports JobInvariant
begin

text \<open>
  Every operation of a job DAG is \<open>quiet\<close>: taking an event in, each action of a decision, a
  consultation of the meta-agent and a human's resolution.  Launching is the one that starts jobs:
  it starts ready ones, within the limits.
\<close>

section \<open>Stopping\<close>

definition halt :: "env \<Rightarrow> job \<Rightarrow> job" where
  "halt E j =
     (if jb_status j = Running \<and> running_attempt (jb_attempts j)
      then close_last (\<lambda>a. a\<lparr>at_status := A_Cancelled, at_finished_at := Some (en_now E)\<rparr>) j else j)"

lemma halt_simps [simp]:
  "jb_id (halt E j) = jb_id j" "jb_status (halt E j) = jb_status j"
  "jb_category (halt E j) = jb_category j" "jb_depends_on (halt E j) = jb_depends_on j"
  "jb_agent_id (halt E j) = jb_agent_id j" "jb_datasources (halt E j) = jb_datasources j"
  "jb_pending_reason (halt E j) = jb_pending_reason j" "jb_notes (halt E j) = jb_notes j"
  by (simp_all add: halt_def close_last_def)

lemma halted_ok:
  assumes ok: "job_ok cf s j" and st: "st \<noteq> Running"
    and r: "r = Some ''retry'' \<Longrightarrow> trailing_retries j < retry_budget cf s (jb_id j)"
  shows "job_ok cf s ((halt E j)\<lparr>jb_status := st, jb_pending_reason := r\<rparr>) \<and>
         job_kept j ((halt E j)\<lparr>jb_status := st, jb_pending_reason := r\<rparr>)"
proof (cases "jb_status j = Running")
  case True
  with ok have run: "running_attempt (jb_attempts j)" by (simp add: job_okD)
  let ?g = "\<lambda>a. a\<lparr>at_status := A_Cancelled, at_finished_at := Some (en_now E)\<rparr>"
  have "halt E j = close_last ?g j" using True run by (simp add: halt_def)
  then show ?thesis
    using close_last_ok [OF ok True _ _ _ st r refl, of ?g] by simp
next
  case False
  then have "halt E j = j" by (simp add: halt_def)
  then show ?thesis using idle_ok [OF ok False st r] by simp
qed

lemma halted_ok_same_reason:
  assumes "job_ok cf s j" and "st \<noteq> Running"
  shows "job_ok cf s ((halt E j)\<lparr>jb_status := st\<rparr>) \<and> job_kept j ((halt E j)\<lparr>jb_status := st\<rparr>)"
proof -
  have "(halt E j)\<lparr>jb_status := st\<rparr> = (halt E j)\<lparr>jb_status := st, jb_pending_reason := jb_pending_reason j\<rparr>"
    by simp
  then show ?thesis using halted_ok [OF assms, of "jb_pending_reason j"] job_okD(5) [OF assms(1)] by metis
qed

lemma quietI: "(state_ok cf s \<Longrightarrow> quiet cf s s') \<Longrightarrow> quiet cf s s'"
  by (simp add: quiet_def)

lemma on_job_absent: "(\<And>j. j \<in> set (st_jobs s) \<Longrightarrow> jb_id j = jid \<Longrightarrow> f j = j) \<Longrightarrow> on_job jid f s = s"
  unfolding on_job_def by (simp add: map_idI)

lemma find_job_None: "find_job s jid = None \<Longrightarrow> j \<in> set (st_jobs s) \<Longrightarrow> jb_id j \<noteq> jid"
  by (auto simp: find_job_def find_None_iff)

lemma on_job_cong:
  "(\<And>j. j \<in> set (st_jobs s) \<Longrightarrow> jb_id j = jid \<Longrightarrow> f j = g j) \<Longrightarrow> on_job jid f s = on_job jid g s"
  unfolding on_job_def by (simp cong: map_cong)

lemma stop_job_state:
  assumes ok: "state_ok cf (dg_state d)"
  shows "dg_state (stop_job E jid d) = on_job jid (halt E) (dg_state d)"
proof (cases "find_job (dg_state d) jid")
  case None
  then have "on_job jid (halt E) (dg_state d) = dg_state d"
    by (intro on_job_absent) (use find_job_None in blast)
  with None show ?thesis by (simp add: stop_job_def)
next
  case (Some j)
  let ?stop = "jb_status j = Running \<and> running_attempt (jb_attempts j)"
  have only: "j' = j" if "j' \<in> set (st_jobs (dg_state d))" "jb_id j' = jid" for j'
    using same_job [OF ok Some that] .
  show ?thesis
  proof (cases ?stop)
    case True
    then have "dg_state (stop_job E jid d) = on_job jid (\<lambda>j. j\<lparr>jb_attempts := butlast (jb_attempts j) @
        [(last (jb_attempts j))\<lparr>at_status := A_Cancelled, at_finished_at := Some (en_now E)\<rparr>]\<rparr>) (dg_state d)"
      using Some by (simp add: stop_job_def last_attempt_def running_attempt_def)
    also have "\<dots> = on_job jid (halt E) (dg_state d)"
    proof (rule on_job_cong)
      fix j' assume "j' \<in> set (st_jobs (dg_state d))" "jb_id j' = jid"
      then have "j' = j" by (rule only)
      with True show "j'\<lparr>jb_attempts := butlast (jb_attempts j') @
          [(last (jb_attempts j'))\<lparr>at_status := A_Cancelled, at_finished_at := Some (en_now E)\<rparr>]\<rparr> = halt E j'"
        by (simp add: halt_def close_last_def)
    qed
    finally show ?thesis .
  next
    case False
    then have "dg_state (stop_job E jid d) = dg_state d"
      using Some by (auto simp: stop_job_def last_attempt_def running_attempt_def split: option.split)
    moreover have "on_job jid (halt E) (dg_state d) = dg_state d"
    proof (rule on_job_absent)
      fix j' assume "j' \<in> set (st_jobs (dg_state d))" "jb_id j' = jid"
      then have "j' = j" by (rule only)
      with False show "halt E j' = j'" by (auto simp: halt_def)
    qed
    ultimately show ?thesis by simp
  qed
qed

text \<open>A job stopped and moved on, whatever else is done to it then.\<close>

lemma quiet_stopped:
  assumes st: "st \<noteq> Running" and reason: "reason \<noteq> Some ''retry''"
    and h: "\<And>j. jb_id (h j) = jb_id j" "\<And>j. jb_status (h j) = jb_status j"
      "\<And>j. job_ok cf (dg_state d) j \<Longrightarrow> job_ok cf (dg_state d) (h j)"
      "\<And>i j. job_kept i j \<Longrightarrow> job_kept i (h j)"
  shows "quiet cf (dg_state d)
     (on_job jid (\<lambda>j. h (j\<lparr>jb_status := st, jb_pending_reason := reason\<rparr>)) (dg_state (stop_job E jid d)))"
    and "quiet cf (dg_state d) (on_job jid (\<lambda>j. h (j\<lparr>jb_status := st\<rparr>)) (dg_state (stop_job E jid d)))"
proof -
  let ?s = "dg_state d"
  show "quiet cf ?s
     (on_job jid (\<lambda>j. h (j\<lparr>jb_status := st, jb_pending_reason := reason\<rparr>)) (dg_state (stop_job E jid d)))"
  proof (rule quietI)
    assume ok: "state_ok cf ?s"
    show ?thesis
      unfolding stop_job_state [OF ok]
    proof (subst on_job_fuse, simp, rule quiet_on_job)
      fix j assume j: "job_ok cf ?s j"
      let ?j = "(halt E j)\<lparr>jb_status := st, jb_pending_reason := reason\<rparr>"
      have "job_ok cf ?s ?j \<and> job_kept j ?j" by (rule halted_ok [OF j st]) (use reason in simp)
      then show "job_ok cf ?s (h ?j) \<and> job_kept j (h ?j) \<and> (jb_status (h ?j) = Running \<longrightarrow> jb_status j = Running)"
        using h st by simp
    qed
  qed
  show "quiet cf ?s (on_job jid (\<lambda>j. h (j\<lparr>jb_status := st\<rparr>)) (dg_state (stop_job E jid d)))"
  proof (rule quietI)
    assume ok: "state_ok cf ?s"
    show ?thesis
      unfolding stop_job_state [OF ok]
    proof (subst on_job_fuse, simp, rule quiet_on_job)
      fix j assume j: "job_ok cf ?s j"
      let ?j = "(halt E j)\<lparr>jb_status := st\<rparr>"
      have "job_ok cf ?s ?j \<and> job_kept j ?j" by (rule halted_ok_same_reason [OF j st])
      then show "job_ok cf ?s (h ?j) \<and> job_kept j (h ?j) \<and> (jb_status (h ?j) = Running \<longrightarrow> jb_status j = Running)"
        using h st by simp
    qed
  qed
qed

lemma quiet_reset:
  "reason \<noteq> ''retry'' \<Longrightarrow> quiet cf (dg_state d) (dg_state (reset_job E jid reason d))"
  using quiet_stopped(1) [where h = "\<lambda>j. j" and st = Pending and reason = "Some reason"]
  by (simp add: reset_job_def quiet_intros)

lemma quiet_reset_note:
  "reason \<noteq> ''retry'' \<Longrightarrow>
   quiet cf (dg_state d) (on_job jid (add_note now src t) (dg_state (reset_job E jid reason d)))"
  by (rule quiet_trans [OF quiet_reset]) (auto intro!: quiet_on_job)

section \<open>Events\<close>

text \<open>The attempt an event settles is the job's last one, and the job runs.\<close>

lemma running_is_last:
  assumes ok: "attempts_ok as" and a: "a \<in> set as" "at_status a = A_Running"
  shows "as \<noteq> [] \<and> a = last as" and "running_attempt as"
proof -
  have ne: "as \<noteq> []" using a by auto
  then have split: "as = butlast as @ [last as]" by simp
  have "a \<notin> set (butlast as)" using ok a(2) by (auto simp: attempts_ok_def)
  then have "a = last as" using a(1) by (subst (asm) split) simp
  with ne a(2) show "as \<noteq> [] \<and> a = last as" "running_attempt as" by (simp_all add: running_attempt_def)
qed

lemma on_attempt_last:
  assumes ok: "attempts_ok (jb_attempts j)" and ne: "jb_attempts j \<noteq> []"
  shows "on_attempt (at_n (last (jb_attempts j))) g j = close_last g j"
proof -
  let ?as = "jb_attempts j" and ?n = "at_n (last (jb_attempts j))"
  have "distinct (map at_n (butlast ?as @ [last ?as]))"
    using ok ne by (simp add: attempts_ok_def)
  then have others: "at_n a \<noteq> ?n" if "a \<in> set (butlast ?as)" for a
    using that by (simp add: image_iff) metis
  have "map (\<lambda>a. if at_n a = ?n then g a else a) (butlast ?as @ [last ?as]) = butlast ?as @ [g (last ?as)]"
    by (simp add: map_idI others)
  then show ?thesis using ne by (simp add: on_attempt_def close_last_def)
qed

lemma quiet_closing:
  assumes found: "find_job s jid = Some j" and a: "a \<in> set (jb_attempts j)" "at_status a = A_Running"
    and g: "\<And>a. at_n (g a) = at_n a" "\<And>a. at_reason (g a) = at_reason a" "\<And>a. at_status (g a) \<noteq> A_Running"
    and st: "st \<noteq> Running"
    and r: "state_ok cf s \<Longrightarrow> r = Some ''retry'' \<Longrightarrow> trailing_retries j < retry_budget cf s (jb_id j)"
    and h: "\<And>j'. state_ok cf s \<Longrightarrow> j' = j \<Longrightarrow>
        h j' = k ((on_attempt (at_n a) g j')\<lparr>jb_status := st, jb_pending_reason := r\<rparr>)"
    and k: "\<And>j. jb_status (k j) = jb_status j" "\<And>j. job_ok cf s j \<Longrightarrow> job_ok cf s (k j)"
      "\<And>i j. job_kept i j \<Longrightarrow> job_kept i (k j)"
  shows "quiet cf s (on_job jid h s)"
proof (rule quiet_on_job)
  fix j' assume ok: "state_ok cf s" and j': "j' \<in> set (st_jobs s)" "jb_id j' = jid" "job_ok cf s j'"
  have jj: "j' = j" by (rule same_job [OF ok found j'(1,2)])
  have as: "attempts_ok (jb_attempts j)" using j'(3) jj by (simp add: job_okD)
  note last = running_is_last [OF as a]
  then have run: "jb_status j = Running" using j'(3) jj by (simp add: job_okD)
  have "on_attempt (at_n a) g j = close_last g j"
    using on_attempt_last [OF as] last by simp
  then have "job_ok cf s ((on_attempt (at_n a) g j)\<lparr>jb_status := st, jb_pending_reason := r\<rparr>) \<and>
             job_kept j ((on_attempt (at_n a) g j)\<lparr>jb_status := st, jb_pending_reason := r\<rparr>)"
    using close_last_ok [OF _ run g st _ refl, of cf s r] j'(3) jj r [OF ok] by simp
  then show "job_ok cf s (h j') \<and> job_kept j' (h j') \<and> (jb_status (h j') = Running \<longrightarrow> jb_status j' = Running)"
    using h [OF ok jj] k jj st run by simp
qed

lemma on_attempt_simps [simp]:
  "jb_id (on_attempt n g j) = jb_id j" "jb_status (on_attempt n g j) = jb_status j"
  "jb_category (on_attempt n g j) = jb_category j"
  "jb_pending_reason (on_attempt n g j) = jb_pending_reason j"
  by (simp_all add: on_attempt_def)

lemma settle_attempt_simps [simp]:
  "at_n (settle_attempt E r a) = at_n a" "at_reason (settle_attempt E r a) = at_reason a"
  "at_status (settle_attempt E r a) \<noteq> A_Running"
  by (cases "ar_status r"; simp add: settle_attempt_def)+

lemma same_reason:
  assumes "state_ok cf s" and "find_job s jid = Some j"
  shows "jb_pending_reason j = Some ''retry'' \<Longrightarrow> trailing_retries j < retry_budget cf s (jb_id j)"
  using assms find_jobD [OF assms(2)] by (auto simp: state_ok_def job_okD)

lemma record_result_state:
  assumes run: "jb_status j = Running"
  shows "dg_state (record_result E r j d) =
    (let settled = drop_situations (\<lambda>x. si_kind x = Live_Question \<and> si_job_id x = Some (jb_id j))
           (on_job (jb_id j) (on_attempt (ar_attempt r) (settle_attempt E r)) (dg_state d))
     in case ar_status r of
       O_Needs_Input \<Rightarrow>
         add_situation E Question (Some (jb_id j)) (Some (ar_attempt r))
           [(''questions'', JList (map JStr (ar_questions r)))]
           (on_job (jb_id j) (\<lambda>j. j\<lparr>jb_status := Waiting\<rparr>) settled)
     | O_Failed \<Rightarrow>
         (let s1 = log_event (en_now E) ''attempt_failed'' (Some (jb_id j))
                (case ar_error r of None \<Rightarrow> '''' | Some e \<Rightarrow> e) settled
          in if retries_left E (dg_state d) j
             then on_job (jb_id j) (\<lambda>j. add_note (en_now E) ''system''
                     (''Your previous attempt failed: '' @ opt_str (ar_error r))
                     (j\<lparr>jb_status := Pending, jb_pending_reason := Some ''retry''\<rparr>)) s1
             else add_situation E Failure (Some (jb_id j)) (Some (ar_attempt r))
                    [(''error'', opt_json (ar_error r)), (''attempts'', JInt (int (length (jb_attempts j))))]
                    (on_job (jb_id j) (\<lambda>j. j\<lparr>jb_status := Waiting\<rparr>) s1))
     | O_Finished \<Rightarrow> record_finished E r j settled)"
  using run
  by (simp add: record_result_def Let_def retries_left_def granted_retries_def
      split: outcome_status.split)

lemma quiet_record:
  assumes found: "find_job (dg_state d) (ar_job_id r) = Some j"
    and a: "a \<in> set (jb_attempts j)" "at_status a = A_Running" and n: "ar_attempt r = at_n a"
  shows "quiet (en_config E) (dg_state d) (dg_state (record_result E r j d))"
proof (rule quietI)
  let ?s = "dg_state d" and ?cf = "en_config E"
  assume ok: "state_ok ?cf ?s"
  have jid: "jb_id j = ar_job_id r" and mem: "j \<in> set (st_jobs ?s)" using find_jobD [OF found] by auto
  then have "job_ok ?cf ?s j" using ok by (simp add: state_ok_def)
  then have run: "jb_status j = Running" using running_is_last(2) [OF _ a] by (simp add: job_okD)
  have closing: "quiet ?cf ?s (on_job (ar_job_id r) h ?s)"
    if "st \<noteq> Running" "rr = Some ''retry'' \<Longrightarrow> trailing_retries j < retry_budget ?cf ?s (jb_id j)"
      "h j = k ((on_attempt (at_n a) (settle_attempt E r) j)\<lparr>jb_status := st, jb_pending_reason := rr\<rparr>)"
      "k = id \<or> k = add_note now src t" for h st rr k now src t
    by (rule quiet_closing [OF found a settle_attempt_simps that(1), where r = rr and k = k])
      (use that in auto)
  have plain: "quiet ?cf ?s (on_job (ar_job_id r) h ?s)"
    if "st \<noteq> Running" "h j = (on_attempt (at_n a) (settle_attempt E r) j)\<lparr>jb_status := st\<rparr>" for h st
    by (rule closing [where st = st and rr = "jb_pending_reason j" and k = id])
      (use that same_reason [OF ok found] in simp_all)
  have finished: "quiet ?cf ?s (record_finished E r j (drop_situations p
      (on_job (ar_job_id r) (on_attempt (at_n a) (settle_attempt E r)) ?s)))" for p
    unfolding record_finished_def Let_def jid
    by (simp add: fuse, intro conjI impI quiet_intros)
      (rule closing [where st = Pending and rr = "Some ''message''" and k = id] plain; simp)+
  show "quiet ?cf ?s (dg_state (record_result E r j d))"
  proof (cases "ar_status r")
    case O_Finished
    then show ?thesis using finished by (simp add: record_result_state [OF run] jid n)
  next
    case O_Needs_Input
    then show ?thesis
      by (simp add: record_result_state [OF run] jid n Let_def fuse)
        (intro quiet_intros plain [where st = Waiting]; simp)
  next
    case O_Failed
    show ?thesis
    proof (cases "retries_left E ?s j")
      case True
      then have "trailing_retries j < retry_budget ?cf ?s (jb_id j)"
        by (simp add: retries_left_def retry_budget_def)
      with True O_Failed show ?thesis
        by (simp add: record_result_state [OF run] jid n Let_def fuse)
          (intro quiet_intros, rule closing [where st = Pending and rr = "Some ''retry''"
             and k = "add_note (en_now E) ''system'' (''Your previous attempt failed: '' @ opt_str (ar_error r))"];
           ((rule disjI2, rule refl) | simp add: jid))
    next
      case False
      with O_Failed show ?thesis
        by (simp add: record_result_state [OF run] jid n Let_def fuse)
          (intro quiet_intros plain [where st = Waiting]; simp)
    qed
  qed
qed

lemma quiet_lose:
  assumes found: "find_job s jid = Some j"
    and a: "a \<in> set (jb_attempts j)" "at_status a = A_Running" and n: "n = at_n a"
  shows "quiet (en_config E) s (lose_attempt E jid n s)"
proof (rule quietI)
  assume ok: "state_ok (en_config E) s"
  have "j \<in> set (st_jobs s)" using find_jobD [OF found] by simp
  then have "job_ok (en_config E) s j" using ok by (simp add: state_ok_def)
  then have run: "jb_status j = Running" using running_is_last(2) [OF _ a] by (simp add: job_okD)
  show "quiet (en_config E) s (lose_attempt E jid n s)"
    unfolding lose_attempt_def Let_def n
    by (intro quiet_intros, rule quiet_closing [OF found a, where st = Pending
          and g = "\<lambda>a. a\<lparr>at_status := A_Cancelled, at_finished_at := Some (en_now E)\<rparr>"
          and r = "Some ''restart''" and k = id])
      (simp_all add: run)
qed

lemma quiet_ingest: "quiet (en_config E) (dg_state d) (dg_state (ingest E e d))"
proof (cases "find_job (dg_state d) (event_job e)")
  case None
  then show ?thesis by (simp add: ingest_def)
next
  case (Some j)
  note found = this
  show ?thesis
  proof (cases "find (\<lambda>a. at_n a = event_attempt e) (jb_attempts j)")
    case None
    with found show ?thesis by (simp add: ingest_def)
  next
    case (Some a)
    then have a: "a \<in> set (jb_attempts j)" "at_n a = event_attempt e"
      by (auto simp: find_Some_iff in_set_conv_nth)
    have id: "jb_id j = event_job e" using find_jobD [OF found] by simp
    show ?thesis
    proof (cases "at_status a = A_Running \<and> \<not> (\<exists>jid n child q. e = Live_Question_Event jid n child q)")
      case True
      show ?thesis
      proof (cases "lost_event e")
        case lost: True
        with True found Some a id quiet_lose [OF found a(1), of "at_n a" E] show ?thesis
          by (cases e) (simp_all add: ingest_def)
      next
        case False
        then obtain r where r: "e = Attempt_Result r"
          using True by (cases e) (auto simp: lost_event_def)
        with False True found Some quiet_record [of d r j a E] a show ?thesis
          by (simp add: ingest_def)
      qed
    next
      case False
      with found Some show ?thesis
        by (cases e) (auto simp: ingest_def intro!: quiet_intros)
    qed
  qed
qed

lemma quiet_events: "quiet (en_config E) (dg_state d) (dg_state (fold (ingest E) es d))"
proof (induction es arbitrary: d)
  case (Cons e es)
  show ?case using quiet_trans [OF quiet_ingest Cons.IH] by simp
qed simp

section \<open>Actions\<close>

lemma check_specs_fresh:
  "check_specs allowed cf existing seen sps = [] \<Longrightarrow>
   distinct (map js_id sps) \<and> (\<forall>sp \<in> set sps. js_id sp \<notin> existing \<and> js_id sp \<notin> set seen)"
proof (induction sps arbitrary: seen)
  case (Cons a sps)
  then have "check_specs allowed cf existing (seen @ [js_id a]) sps = []"
    and "js_id a \<notin> existing \<and> js_id a \<notin> set seen"
    by (auto split: if_splits)
  with Cons.IH [of "seen @ [js_id a]"] show ?case by auto
qed simp

lemma validate_jobs_fresh:
  assumes "validate_jobs sps cf js allowed = []"
  shows "distinct (map js_id sps) \<and> jb_id ` set js \<inter> js_id ` set sps = {}"
  using assms check_specs_fresh [of allowed cf "jb_id ` set js" "[]" sps]
  unfolding validate_jobs_def Let_def by (simp add: disjoint_iff) blast

lemma job_of_spec_simps [simp]:
  "jb_id (job_of_spec by sp) = js_id sp" "jb_attempts (job_of_spec by sp) = []"
  "jb_status (job_of_spec by sp) = Pending" "jb_notes (job_of_spec by sp) = []"
  "jb_pending_reason (job_of_spec by sp) = None" "jb_depends_on (job_of_spec by sp) = js_depends_on sp"
  "jb_category (job_of_spec by sp) = js_category sp" "jb_agent_id (job_of_spec by sp) = js_agent_id sp"
  "jb_datasources (job_of_spec by sp) = js_datasources sp"
  by (simp_all add: job_of_spec_def)

lemma job_of_spec_ok [simp]: "job_ok cf s (job_of_spec by sp)"
  by (simp add: job_ok_def attempts_ok_def running_attempt_def trailing_retries_def)

lemma fold_add_spec:
  "st_jobs (fold (add_spec E by) sps s) = st_jobs s @ map (job_of_spec by) sps"
  "st_decisions (fold (add_spec E by) sps s) = st_decisions s"
  "st_situations (fold (add_spec E by) sps s) = st_situations s"
  "st_status (fold (add_spec E by) sps s) = st_status s"
  "st_rearrangements (fold (add_spec E by) sps s) = st_rearrangements s"
  "length (st_events s) \<le> 500 \<Longrightarrow> length (st_events (fold (add_spec E by) sps s)) \<le> 500"
  by (induction sps arbitrary: s) (simp_all add: add_spec_def)

lemma quiet_new_jobs:
  assumes jobs: "st_jobs s' = st_jobs s @ map (job_of_spec by) sps"
    and ds: "st_decisions s' = st_decisions s"
    and events: "length (st_events s) \<le> 500 \<Longrightarrow> length (st_events s') \<le> 500"
    and valid: "validate_jobs sps cf (st_jobs s) job_categories = []"
  shows "quiet cf s s'"
  unfolding quiet_def
proof
  assume ok: "state_ok cf s"
  have "granted_retries s' = granted_retries s"
    by (simp add: granted_retries_def fun_eq_iff ds)
  then have same: "job_ok cf s' = job_ok cf s"
    by (simp add: fun_eq_iff job_ok_def retry_budget_def)
  have "distinct (map jb_id (st_jobs s'))"
    using ok validate_jobs_fresh [OF valid] by (auto simp: state_ok_def jobs comp_def)
  moreover have "\<forall>j \<in> set (st_jobs s'). job_ok cf s' j"
    using ok unfolding same by (auto simp: state_ok_def jobs)
  ultimately have "state_ok cf s'" using ok events by (simp add: state_ok_def ds)
  moreover have "append_only s s'" by (simp add: append_only_def jobs list_all2_refl)
  moreover have "running_jobs s' = running_jobs s" by (simp add: running_jobs_def jobs filter_map comp_def)
  ultimately show "state_ok cf s' \<and> append_only s s' \<and> length (running_jobs s') \<le> length (running_jobs s)
      \<and> (\<exists>dd. st_decisions s' = st_decisions s @ dd)"
    by (simp add: ds)
qed

lemma quiet_add_jobs:
  assumes "do_add_jobs E by a d = Inr d'"
  shows "quiet (en_config E) (dg_state d) (dg_state d')"
proof -
  from assms have valid: "validate_jobs (ma_jobs a) (en_config E) (st_jobs (dg_state d)) job_categories = []"
    and d': "dg_state d' = fold (add_spec E by) (ma_jobs a) (dg_state d)"
    by (auto simp: do_add_jobs_def Let_def split: if_splits)
  show ?thesis unfolding d'
    by (rule quiet_new_jobs [OF fold_add_spec(1,2) _ valid]) (rule fold_add_spec(6))
qed

lemma get_jobD:
  "get_job jid s = Inr j \<Longrightarrow> find_job s (case jid of None \<Rightarrow> '''' | Some x \<Rightarrow> x) = Some j"
  by (auto simp: get_job_def split: option.splits)

text \<open>What an update of a job's fields leaves alone.\<close>

definition same_run :: "job \<Rightarrow> job \<Rightarrow> bool" where
  "same_run j j' \<longleftrightarrow> jb_id j' = jb_id j \<and> jb_category j' = jb_category j \<and>
     jb_status j' = jb_status j \<and> jb_attempts j' = jb_attempts j \<and> jb_notes j' = jb_notes j \<and>
     jb_pending_reason j' = jb_pending_reason j"

lemma set_field_same: "set_field kv j = Inr j' \<Longrightarrow> same_run j j'"
  by (auto simp: set_field_def Let_def same_run_def split: json.splits if_splits option.splits)

lemma set_fields_same: "set_fields kvs j = Inr j' \<Longrightarrow> same_run j j'"
proof (induction kvs arbitrary: j)
  case (Cons kv kvs)
  then obtain j1 where "set_field kv j = Inr j1" "set_fields kvs j1 = Inr j'"
    by (auto simp: bindE_Inr_iff)
  with Cons.IH set_field_same show ?case by (fastforce simp: same_run_def)
qed (simp add: same_run_def)

lemma quiet_update_job:
  assumes "do_update_job E a d = Inr d'"
  shows "quiet cf (dg_state d) (dg_state d')"
proof -
  let ?s = "dg_state d"
  from assms obtain j j1 where get: "get_job (ma_job_id a) ?s = Inr j"
    and set: "set_fields (ma_changes a) j = Inr j1"
    by (auto simp: do_update_job_def bindE_Inr_iff)
  let ?moved = "jb_status j1 \<in> {Finished, Failed, Skipped, Waiting}"
  let ?j2 = "if ?moved then j1\<lparr>jb_status := Pending,
      jb_pending_reason := py_or (jb_pending_reason j1) (Some ''rewind'')\<rparr> else j1"
  have d': "dg_state d' = log_event (en_now E) ''job_updated'' (Some (jb_id j))
       (join '', '' (map fst (ma_changes a))) (on_job (jb_id j) (\<lambda>_. ?j2) ?s)"
    using assms get set by (auto simp: do_update_job_def Let_def)
  have same: "same_run j j1" by (rule set_fields_same [OF set])
  note found = get_jobD [OF get]
  have id: "find_job ?s (jb_id j) = Some j" using found find_jobD [OF found] by simp
  show ?thesis unfolding d'
  proof (intro quiet_intros quiet_on_job)
    fix j' assume ok: "state_ok cf ?s" and j': "j' \<in> set (st_jobs ?s)" "jb_id j' = jb_id j" "job_ok cf ?s j'"
    have jj: "j' = j" by (rule same_job [OF ok id j'(1,2)])
    have j1: "job_ok cf ?s j1"
      using j'(3) unfolding jj by (rule job_ok_cong)
        (use same j'(3) jj job_okD in \<open>auto simp: same_run_def\<close>)
    have "job_ok cf ?s ?j2"
    proof (cases ?moved)
      case True
      have "job_ok cf ?s (j1\<lparr>jb_status := Pending,
          jb_pending_reason := py_or (jb_pending_reason j1) (Some ''rewind'')\<rparr>)"
        by (rule idle_ok [OF j1]) (use True job_okD(5) [OF j1] in \<open>auto simp: py_or_def split: if_splits\<close>)
      with True show ?thesis by simp
    qed (use j1 in simp)
    moreover have "job_kept j ?j2"
      using same by (simp add: job_kept_def same_run_def list_all2_refl)
    moreover have "jb_status ?j2 = Running \<longrightarrow> jb_status j = Running"
      using same by (simp add: same_run_def)
    ultimately show "job_ok cf ?s ?j2 \<and> job_kept j' ?j2 \<and> (jb_status ?j2 = Running \<longrightarrow> jb_status j' = Running)"
      using jj by simp
  qed
qed

lemma quiet_redo: "quiet cf (dg_state d) (dg_state (redo_dependents E jid rewound txt deps d))"
proof (induction deps arbitrary: d)
  case (Cons dep deps)
  have "quiet cf (dg_state d) (dg_state (if dep \<in> set rewound then d
        else case find_job (dg_state d) dep of
               None \<Rightarrow> d
             | Some j \<Rightarrow>
                 if jb_status j \<in> {Finished, Failed, Skipped, Waiting, Running}
                 then on_state (on_job dep (add_note (en_now E) ''system''
                        (''Upstream job '' @ jid @ '' is being redone: '' @ txt)))
                        (reset_job E dep ''upstream_changed'' d)
                 else d))"
    by (auto split: option.splits intro!: quiet_reset_note)
  from quiet_trans [OF this Cons.IH] show ?case by simp
qed simp

lemma quiet_for_jobs:
  assumes "\<And>jid d d'. f jid d = Inr d' \<Longrightarrow> quiet cf (dg_state d) (dg_state d')"
    and "for_jobs f jids d = Inr d'"
  shows "quiet cf (dg_state d) (dg_state d')"
  using assms(2)
proof (induction jids arbitrary: d)
  case (Cons jid jids)
  then obtain d1 where "f jid d = Inr d1" "for_jobs f jids d1 = Inr d'"
    by (auto simp: bindE_Inr_iff)
  with assms(1) Cons.IH show ?case by (blast intro: quiet_trans)
qed simp

lemma quiet_rewind:
  assumes "do_rewind E a d = Inr d'"
  shows "quiet cf (dg_state d) (dg_state d')"
proof -
  have one: "quiet cf (dg_state d) (dg_state d')" if "rewind_one E ids t jid d = Inr d'" for ids t jid d d'
  proof -
    let ?d1 = "on_state (on_job jid (add_note (en_now E) ''meta''
                  (if t = '''' then ''Do this part again.'' else t))) (reset_job E jid ''rewind'' d)"
    have d': "d' = redo_dependents E jid ids t (dependents (dg_state ?d1) jid) ?d1"
      using that by (auto simp: rewind_one_def Let_def bindE_Inr_iff)
    have "quiet cf (dg_state d) (dg_state ?d1)" by (simp add: quiet_reset_note)
    then show ?thesis unfolding d' by (rule quiet_trans [OF _ quiet_redo])
  qed
  from assms obtain d1 where d1: "for_jobs (rewind_one E (ma_job_ids a) (ma_text a)) (ma_job_ids a) d = Inr d1"
    and d': "dg_state d' = log_event (en_now E) ''rewind'' (Some (join '','' (ma_job_ids a))) (ma_text a) (dg_state d1)"
    by (auto simp: do_rewind_def bindE_Inr_iff)
  show ?thesis unfolding d' by (intro quiet_intros quiet_for_jobs [OF one d1])
qed

lemma quiet_drop:
  "quiet cf (dg_state d) (on_job jid (\<lambda>j. add_note now src t (j\<lparr>jb_status := Removed\<rparr>))
     (dg_state (stop_job E jid d)))"
  by (rule quiet_stopped(2) [where h = "add_note now src t" and reason = None]) simp_all

lemma quiet_remove:
  assumes "do_remove E a d = Inr d'"
  shows "quiet cf (dg_state d) (dg_state d')"
proof -
  have one: "quiet cf (dg_state d) (dg_state d')" if "remove_one E t jid d = Inr d'" for t jid d d'
    using that by (auto simp: remove_one_def bindE_Inr_iff intro!: quiet_drop)
  from assms obtain d1 where d1: "for_jobs (remove_one E (ma_text a)) (ma_job_ids a) d = Inr d1"
    and d': "dg_state d' = log_event (en_now E) ''removed'' (Some (join '','' (ma_job_ids a))) (ma_text a) (dg_state d1)"
    by (auto simp: do_remove_def bindE_Inr_iff)
  show ?thesis unfolding d' by (intro quiet_intros quiet_for_jobs [OF one d1])
qed

lemma quiet_finish:
  assumes "do_finish E a d = Inr d'"
  shows "quiet cf (dg_state d) (dg_state d')"
proof -
  have many: "quiet cf (dg_state d) (dg_state (fold (drop_unfinished E) ids d))" for ids d
  proof (induction ids arbitrary: d)
    case (Cons jid ids)
    have "quiet cf (dg_state d) (dg_state (drop_unfinished E jid d))"
      by (simp add: drop_unfinished_def quiet_drop)
    from quiet_trans [OF this Cons.IH] show ?case by simp
  qed simp
  from assms show ?thesis
    by (auto simp: do_finish_def Let_def intro!: quiet_intros many)
qed

text \<open>Whatever a job that does not run is given to wait for its next attempt.\<close>

lemma quiet_pending:
  assumes found: "find_job s jid = Some j" and idle: "jb_status j \<noteq> Running" and r: "reason \<noteq> ''retry''"
    and h: "\<And>j. h j = j\<lparr>jb_status := Pending, jb_pending_reason := Some reason\<rparr> \<or>
                 h j = j\<lparr>jb_pending_answers := ans, jb_status := Pending, jb_pending_reason := Some reason\<rparr>"
  shows "quiet cf s (on_job jid (\<lambda>j. h (add_note now src t j)) s)"
proof (rule quiet_on_job)
  fix j' assume ok: "state_ok cf s" and j': "j' \<in> set (st_jobs s)" "jb_id j' = jid" "job_ok cf s j'"
  have jj: "j' = j" by (rule same_job [OF ok found j'(1,2)])
  let ?n = "add_note now src t j'"
  have "job_ok cf s (?n\<lparr>jb_status := Pending, jb_pending_reason := Some reason\<rparr>)"
    by (rule idle_ok) (use j'(3) idle jj r in simp_all)
  then have "job_ok cf s (h ?n)"
  proof -
    assume ok1: "job_ok cf s (?n\<lparr>jb_status := Pending, jb_pending_reason := Some reason\<rparr>)"
    have "job_ok cf s (?n\<lparr>jb_pending_answers := ans, jb_status := Pending, jb_pending_reason := Some reason\<rparr>)"
      by (rule job_ok_cong [OF ok1]) (use r in simp_all)
    with ok1 h [of ?n] show ?thesis by auto
  qed
  moreover have "job_kept j' (h ?n)" "jb_status (h ?n) = Pending" using h [of ?n] by auto
  ultimately show "job_ok cf s (h ?n) \<and> job_kept j' (h ?n) \<and> (jb_status (h ?n) = Running \<longrightarrow> jb_status j' = Running)"
    by simp
qed

lemma quiet_note: "quiet cf s (on_job jid (add_note now src t) s)"
  by (auto intro!: quiet_on_job)

lemma quiet_deliver: "quiet cf s (dg_state d) \<Longrightarrow> quiet cf s (dg_state (deliver_answer jid t d))"
  by (auto simp: deliver_answer_def split: option.split intro: quiet_intros)

lemma quiet_answer:
  assumes "find_job (dg_state d) (jb_id j) = Some j"
  shows "quiet cf (dg_state d) (dg_state (answer_job E j t src ans d))"
proof -
  have "quiet cf (dg_state d) (on_job (jb_id j) (\<lambda>j. j\<lparr>jb_pending_answers := given, jb_status := Pending,
          jb_pending_reason := Some ''answer''\<rparr>)
          (on_job (jb_id j) (add_note (en_now E) src (''Answer: '' @ t)) (dg_state d)))"
    if "jb_status j \<noteq> Running" for given
    by (subst on_job_fuse, simp, rule quiet_pending [OF assms that, where reason = "''answer''" and ans = given])
      simp_all
  then show ?thesis
    unfolding answer_job_def Let_def by (auto intro!: quiet_deliver quiet_note)
qed

lemma quiet_message:
  assumes "do_message E a d = Inr d'"
  shows "quiet cf (dg_state d) (dg_state d')"
proof -
  let ?s = "dg_state d"
  from assms obtain j where get: "get_job (ma_job_id a) ?s = Inr j"
    by (auto simp: do_message_def bindE_Inr_iff)
  have id: "find_job ?s (jb_id j) = Some j"
    using get_jobD [OF get] find_jobD [OF get_jobD [OF get]] by simp
  let ?d1 = "on_state (on_job (jb_id j) (add_note (en_now E) ''meta'' (ma_text a))) d"
  have d1: "quiet cf ?s (dg_state ?d1)" by (simp add: quiet_note)
  have reset: "quiet cf ?s (dg_state (reset_job E (jb_id j) ''restart'' ?d1))"
    by (rule quiet_trans [OF d1 quiet_reset]) simp
  have pend: "quiet cf ?s (on_job (jb_id j) (\<lambda>j. j\<lparr>jb_status := Pending, jb_pending_reason := Some ''message''\<rparr>)
        (on_job (jb_id j) (add_note (en_now E) ''meta'' (ma_text a)) ?s))" if "jb_status j = Waiting"
    by (subst on_job_fuse, simp, rule quiet_pending [OF id, where reason = "''message''"]) (simp_all add: that)
  show ?thesis
    using assms get d1
    by (auto simp: do_message_def Let_def split: option.splits
        intro!: quiet_log quiet_deliver reset pend)
qed

lemma quiet_decision: "decision_ok dc \<Longrightarrow> quiet cf s (s\<lparr>st_decisions := st_decisions s @ [dc]\<rparr>)"
  by (rule quiet_fields [where ds = "[dc]"]) simp_all

lemma quiet_ask:
  assumes "do_ask_human E a d = Inr d'"
  shows "quiet cf (dg_state d) (dg_state d')"
  using assms by (auto simp: do_ask_human_def decision_ok_def intro!: quiet_log quiet_decision)

lemma quiet_action:
  assumes "do_action E by a d = Inr d'"
  shows "quiet (en_config E) (dg_state d) (dg_state d')"
proof (cases "ma_kind a")
  case Answer
  with assms obtain j where get: "get_job (ma_job_id a) (dg_state d) = Inr j"
    and d': "d' = answer_job E j (ma_text a) ''meta'' [] d"
    by (auto simp: do_answer_def bindE_Inr_iff)
  then show ?thesis
    using get_jobD [OF get] find_jobD [OF get_jobD [OF get]] by (auto intro: quiet_answer)
next
  case Fail
  with assms show ?thesis by (auto simp: do_fail_def intro!: quiet_intros)
qed (use assms quiet_add_jobs quiet_update_job quiet_rewind quiet_remove quiet_message quiet_ask
       quiet_finish in simp_all)

lemma quiet_actions:
  "do_actions E by as d = Inr d' \<Longrightarrow> quiet (en_config E) (dg_state d) (dg_state d')"
proof (induction as arbitrary: d)
  case (Cons a as)
  then obtain d1 where "do_action E by a d = Inr d1" "do_actions E by as d1 = Inr d'"
    by (auto simp: bindE_Inr_iff simp del: do_action.simps)
  then show ?case using quiet_trans [OF quiet_action Cons.IH] by blast
qed simp

lemma quiet_apply:
  assumes "apply_decision E dry by dec sits d = Inr d'"
  shows "quiet (en_config E) (dg_state d) (dg_state d')"
proof -
  let ?d0 = "if \<not> dry \<and> kind_of (dg_state d) dec sits = Some D_Rearrange
             then on_state (\<lambda>s. s\<lparr>st_rearrangements := st_rearrangements s + 1\<rparr>) d else d"
  from assms obtain d1 where d1: "do_actions E by (md_actions dec) ?d0 = Inr d1"
    and d': "d' = (if st_status (dg_state d1) = S_Planning \<and> st_jobs (dg_state d1) \<noteq> []
                  then on_state (\<lambda>s. s\<lparr>st_status := S_Running\<rparr>) d1 else d1)"
    by (auto simp: apply_decision_def Let_def bindE_Inr_iff)
  have "quiet (en_config E) (dg_state d) (dg_state ?d0)" by (auto intro!: quiet_intros)
  then have "quiet (en_config E) (dg_state d) (dg_state d1)"
    using quiet_actions [OF d1] by (rule quiet_trans)
  then show ?thesis unfolding d' by (auto intro!: quiet_intros)
qed

end
