(* ===== verification/JobSchedule.thy ===== *)
theory JobSchedule
  imports JobPasses
begin

text \<open>
  A whole pass over a job DAG, whatever the meta-agent answers: a consultation, a human's resolution,
  the launching loop and the rounds of \<^verbatim>\<open>_schedule\<close>, and what holds of the record and of
  the step after it.
\<close>

section \<open>Consulting\<close>

lemma record_decision_simps [simp]:
  "st_jobs (record_decision E k sm dec sits s) = st_jobs s"
  "st_status (record_decision E k sm dec sits s) = st_status s"
  "st_situations (record_decision E k sm dec sits s) = st_situations s"
  "length (st_events (record_decision E k sm dec sits s)) \<le> 500"
  by (simp_all add: record_decision_def)

lemma resolve_decision_simps [simp]:
  "st_jobs (resolve_decision i ok r s) = st_jobs s"
  "st_events (resolve_decision i ok r s) = st_events s"
  "st_status (resolve_decision i ok r s) = st_status s"
  "st_situations (resolve_decision i ok r s) = st_situations s"
  by (simp_all add: resolve_decision_def)

lemma quiet_recorded: "k \<noteq> D_Question \<Longrightarrow> quiet cf s (record_decision E k sm dec sits s)"
  unfolding record_decision_def by (intro quiet_log quiet_decision) (simp add: decision_ok_def)

lemma quiet_auto_recorded:
  assumes "k \<noteq> D_Question"
  shows "quiet cf s (resolve_decision (length (st_decisions s)) True r (record_decision E k sm dec sits s))"
proof -
  let ?dc = "\<lparr>de_id = en_uuid E (length (st_decisions s)), de_kind = k, de_summary = take 2000 sm,
      de_payload = Meta_Payload dec sits, de_created_at = en_now E, de_resolved = True,
      de_approved = Some True, de_reason = r\<rparr>"
  have "st_decisions (resolve_decision (length (st_decisions s)) True r (record_decision E k sm dec sits s))
        = st_decisions s @ [?dc]"
    by (simp add: resolve_decision_def record_decision_def)
  then show ?thesis
    by (intro quiet_fields [where ds = "[?dc]"]) (use assms in \<open>simp_all add: decision_ok_def\<close>)
qed

lemma kind_of_not_question: "kind_of s dec sits \<noteq> Some D_Question"
  by (simp add: kind_of_def Let_def)

definition auto_record ::
    "env \<Rightarrow> decision_kind \<Rightarrow> string \<Rightarrow> meta_decision \<Rightarrow> situation list \<Rightarrow> dag \<Rightarrow> dag" where
  "auto_record E k sm dec sits d =
     on_state (\<lambda>s. resolve_decision (length (st_decisions s)) True
         (Some (''auto ('' @ automation_name (dc_automation (en_config E)) @ '')''))
         (record_decision E k sm dec sits s)) d"

lemma take_decision_cases:
  assumes take: "take_decision E dec sits d = Inr d'"
    and d1: "d1 = on_state (\<lambda>s. s\<lparr>st_situations := []\<rparr>) d"
  obtains m where "d' = on_state (fail_run E m) d1"
  | k sm where "k \<noteq> D_Question" "d' = on_state (record_decision E k sm dec sits) d1"
      "k = D_Escalation \<or> kind_of (dg_state d) dec sits = Some k \<and> needs_approval (en_config E) k"
  | k sm where "k \<noteq> D_Question" "kind_of (dg_state d) dec sits = None \<and> k = D_Answer \<or>
        kind_of (dg_state d) dec sits = Some k \<and> \<not> needs_approval (en_config E) k"
      "apply_decision E False ''meta'' dec sits (auto_record E k sm dec sits d1) = Inr d'"
proof -
  have kind: "kind_of (dg_state d1) dec sits = kind_of (dg_state d) dec sits"
    by (simp add: kind_of_def active_jobs_def d1)
  note take = take [unfolded take_decision_def Let_def, folded d1, unfolded kind]
  let ?over = "kind_of (dg_state d) dec sits = Some D_Rearrange \<and>
      li_max_rearrangements (dc_limits (en_config E)) + granted_rearrangements E (dg_state d1)
        \<le> st_rearrangements (dg_state d1)"
  show thesis
  proof (cases ?over)
    case True
    with take show thesis by (auto split: if_splits intro: that(1) that(2) [of D_Escalation])
  next
    case over: False
    note take = take [unfolded if_not_P [OF over]]
    show thesis
    proof (cases "kind_of (dg_state d) dec sits")
      case None
      with take show thesis by (intro that(3) [of D_Answer]) (auto simp: auto_record_def)
    next
      case (Some k)
      then have k: "k \<noteq> D_Question" using kind_of_not_question by metis
      show thesis
      proof (cases "needs_approval (en_config E) k")
        case True
        with take Some k show thesis by (intro that(2) [of k]) auto
      next
        case False
        with take Some k show thesis by (intro that(3) [of k]) (auto simp: auto_record_def)
      qed
    qed
  qed
qed

lemma quiet_take:
  assumes take: "take_decision E dec sits d = Inr d'"
  shows "quiet (en_config E) (dg_state d) (dg_state d')"
proof -
  define d1 where "d1 = on_state (\<lambda>s. s\<lparr>st_situations := []\<rparr>) d"
  have clear: "quiet (en_config E) (dg_state d) (dg_state d1)" by (simp add: d1_def quiet_intros)
  from take d1_def have "quiet (en_config E) (dg_state d1) (dg_state d')"
  proof (cases rule: take_decision_cases)
    case 1
    then show ?thesis by (simp add: quiet_intros)
  next
    case (2 k sm)
    then show ?thesis by (simp add: quiet_recorded)
  next
    case (3 k sm)
    have "quiet (en_config E) (dg_state d1) (dg_state (auto_record E k sm dec sits d1))"
      using 3(1) by (simp add: auto_record_def quiet_auto_recorded)
    then show ?thesis by (rule quiet_trans) (rule quiet_apply [OF 3(3)])
  qed
  with clear show ?thesis by (rule quiet_trans)
qed

lemma consult_cases:
  assumes "consult decide E rejection d = Inr d'"
  obtains msg m where "d' = on_state (fail_run E msg) (d\<lparr>dg_meta := m\<rparr>)"
  | dec sits m where "take_decision E dec sits (d\<lparr>dg_meta := m\<rparr>) = Inr d'"
      "\<exists>view m0. decide view (\<lambda>dec. validate_decision E dec sits d) m0 = (Inr dec, m)"
proof -
  define sits where "sits = st_situations (dg_state d) @
      (case rejection of None \<Rightarrow> []
       | Some detail \<Rightarrow> [\<lparr>si_kind = Rejected, si_job_id = None, si_attempt = None,
                          si_detail = detail, si_ts = en_now E\<rparr>])"
  define view where "view = \<lparr>vw_request = en_request E, vw_config = en_config E, vw_roster = en_roster E,
                  vw_dag = dg_state d, vw_situations = sits\<rparr>"
  obtain answer m where ask: "decide view (\<lambda>dec. validate_decision E dec sits d) (dg_meta d) = (answer, m)"
    by fastforce
  note run = assms [unfolded consult_def, folded sits_def, unfolded Let_def, folded view_def,
      unfolded ask, simplified]
  show thesis
  proof (cases answer)
    case (Inl e)
    with run show thesis by (cases e) (auto intro: that(1))
  next
    case (Inr dec)
    with run ask show thesis by (intro that(2)) auto
  qed
qed

lemma quiet_consult:
  assumes "consult decide E rejection d = Inr d'"
  shows "quiet (en_config E) (dg_state d) (dg_state d')"
  using assms
proof (cases rule: consult_cases)
  case 1
  then show ?thesis by (simp add: quiet_intros)
next
  case 2
  then show ?thesis using quiet_take by fastforce
qed

section \<open>Resolving\<close>

lemma quiet_reject:
  assumes "reject_decision decide E rec reason sits d = Inr d'"
  shows "quiet (en_config E) (dg_state d) (dg_state d')"
proof (cases "li_max_replans (dc_limits (en_config E)) \<le> st_replans (dg_state d)")
  case True
  with assms show ?thesis by (auto simp: reject_decision_def Let_def intro!: quiet_intros)
next
  case False
  let ?d1 = "on_state (\<lambda>s. s\<lparr>st_replans := st_replans s + 1, st_situations := sits\<rparr>) d"
  from False assms obtain rj where "consult decide E rj ?d1 = Inr d'"
    unfolding reject_decision_def Let_def by auto
  from quiet_consult [OF this] have "quiet (en_config E) (dg_state ?d1) (dg_state d')" .
  moreover have "quiet (en_config E) (dg_state d) (dg_state ?d1)" by (simp add: quiet_intros)
  ultimately show ?thesis by (rule quiet_trans [rotated])
qed

lemma quiet_human: "quiet cf (dg_state d) (dg_state (human_answered E rec res d))"
proof -
  have "quiet cf (dg_state d) (dg_state (answer_job E j t src ans d))"
    if "find_job (dg_state d) jid = Some j" for jid j t src ans
    using find_jobD [OF that] that by (intro quiet_answer) simp
  then show ?thesis
    unfolding human_answered_def Let_def by (auto split: option.splits intro!: quiet_intros)
qed

lemma quiet_resolve_one:
  assumes run: "resolve_one decide E res rec d = Inr d'" and rec: "decision_ok rec" "\<not> de_resolved rec"
  shows "quiet (en_config E) (dg_state d) (dg_state d')"
proof (cases "de_kind rec = D_Question")
  case True
  with run show ?thesis by (auto simp: resolve_one_def Let_def split: prod.splits intro: quiet_human)
next
  case no_question: False
  with rec obtain dec sits where payload: "de_payload rec = Meta_Payload dec sits"
    by (cases "de_payload rec") (auto simp: decision_ok_def)
  show ?thesis
    using run no_question payload
    by (auto simp: resolve_one_def Let_def
        split: if_splits sum.splits list.splits intro!: quiet_outer(3) quiet_refl
        intro: quiet_apply quiet_reject)
qed

text \<open>Marking a decision resolved changes it in place; \<open>calm\<close> is \<open>quiet\<close> without the list of decisions.\<close>

definition calm :: "dynamic_config \<Rightarrow> run_state \<Rightarrow> run_state \<Rightarrow> bool" where
  "calm cf s s' \<longleftrightarrow>
     (state_ok cf s \<longrightarrow> state_ok cf s' \<and> append_only s s' \<and>
        length (running_jobs s') \<le> length (running_jobs s))"

lemma quiet_calm: "quiet cf s s' \<Longrightarrow> calm cf s s'"
  by (simp add: quiet_def calm_def)

lemma calm_trans: "calm cf s s' \<Longrightarrow> calm cf s' s'' \<Longrightarrow> calm cf s s''"
  unfolding calm_def using append_only_trans by fastforce

lemma calm_refl [simp]: "calm cf s s"
  by (simp add: calm_def)

lemma filter_update_irrelevant:
  "i < length xs \<Longrightarrow> \<not> P (xs ! i) \<Longrightarrow> \<not> P y \<Longrightarrow> filter P (xs[i := y]) = filter P xs"
proof (induction xs arbitrary: i)
  case (Cons x xs)
  then show ?case by (cases i) auto
qed simp

definition open_at :: "run_state \<Rightarrow> nat \<Rightarrow> bool" where
  "open_at s i \<longleftrightarrow> i < length (st_decisions s) \<and> \<not> de_resolved (st_decisions s ! i)"

lemma calm_resolved:
  assumes open_i: "open_at s i"
  shows "calm cf s (resolve_decision i ok r s)"
  unfolding calm_def
proof
  assume st: "state_ok cf s"
  let ?s = "resolve_decision i ok r s" and ?dc = "st_decisions s ! i"
  let ?new = "?dc\<lparr>de_resolved := True, de_approved := Some ok, de_reason := r\<rparr>"
  have mem: "?dc \<in> set (st_decisions s)" and dc: "\<not> de_resolved ?dc" and len: "i < length (st_decisions s)"
    using open_i by (simp_all add: open_at_def)
  have dok: "decision_ok ?dc" using st mem unfolding state_ok_def by blast
  have not_grant: "\<not> (de_kind ?dc = D_Escalation \<and> payload_job (de_payload ?dc) = Some jid)" for jid
    using dok dc by (cases "de_payload ?dc") (auto simp: decision_ok_def)
  have "granted_retries ?s jid = granted_retries s jid" for jid
    unfolding granted_retries_def resolve_decision_def
    by simp (subst filter_update_irrelevant, use len not_grant [of jid] in auto)
  then have same: "job_ok cf ?s = job_ok cf s"
    by (simp add: fun_eq_iff job_ok_def retry_budget_def)
  have "decision_ok ?new" using dok dc by (simp add: decision_ok_def split: payload.splits)
  moreover have "set (st_decisions ?s) \<subseteq> insert ?new (set (st_decisions s))"
    unfolding resolve_decision_def by (simp add: set_update_subset_insert)
  ultimately have "\<forall>dc \<in> set (st_decisions ?s). decision_ok dc"
    using st unfolding state_ok_def by blast
  then have "state_ok cf ?s" using st unfolding state_ok_def same by simp
  then show "state_ok cf ?s \<and> append_only s ?s \<and> length (running_jobs ?s) \<le> length (running_jobs s)"
    by (simp add: append_only_def list_all2_refl running_jobs_def)
qed

lemma open_at_later:
  assumes "open_at s k" and "k \<noteq> i" and "quiet cf (resolve_decision i ok r s) s'"
    and "state_ok cf (resolve_decision i ok r s)"
  shows "open_at s' k"
proof -
  obtain ds where "st_decisions s' = st_decisions (resolve_decision i ok r s) @ ds"
    using assms(3,4) by (auto simp: quiet_def)
  then show ?thesis using assms(1,2) by (simp add: open_at_def resolve_decision_def nth_append)
qed

lemma calm_resolve_each:
  assumes "resolve_each decide E res is d = Inr d'"
    and "distinct is" and "\<And>i. i \<in> set is \<Longrightarrow> open_at (dg_state d) i"
  shows "calm (en_config E) (dg_state d) (dg_state d')"
  using assms
proof (induction "is" arbitrary: d)
  case (Cons i "is")
  let ?cf = "en_config E" and ?s = "dg_state d"
  let ?rec = "st_decisions ?s ! i"
  let ?d1 = "on_state (resolve_decision i (re_approved res) (re_reason res)) d"
  from Cons.prems(1) obtain d2 where d2: "resolve_one decide E res ?rec ?d1 = Inr d2"
    and rest: "resolve_each decide E res is d2 = Inr d'"
    by (auto simp: Let_def bindE_Inr_iff)
  have open_i: "open_at ?s i" using Cons.prems(3) by simp
  show ?case unfolding calm_def
  proof
    assume ok: "state_ok ?cf ?s"
    have c1: "calm ?cf ?s (dg_state ?d1)" using calm_resolved [OF open_i] by simp
    then have ok1: "state_ok ?cf (dg_state ?d1)" using ok by (simp add: calm_def)
    have mem: "?rec \<in> set (st_decisions ?s)" and rec: "\<not> de_resolved ?rec"
      using open_i by (simp_all add: open_at_def)
    have "decision_ok ?rec" using ok mem unfolding state_ok_def by blast
    then have q: "quiet ?cf (dg_state ?d1) (dg_state d2)" using rec by (rule quiet_resolve_one [OF d2])
    have "calm ?cf (dg_state d2) (dg_state d')"
    proof (rule Cons.IH [OF rest])
      show "distinct is" using Cons.prems(2) by simp
      show "open_at (dg_state d2) k" if "k \<in> set is" for k
        by (rule open_at_later [of ?s k i])
          (use that Cons.prems(2,3) q ok1 in auto)
    qed
    with c1 quiet_calm [OF q] have "calm ?cf ?s (dg_state d')" by (blast intro: calm_trans)
    then show "state_ok ?cf (dg_state d') \<and> append_only ?s (dg_state d') \<and>
        length (running_jobs (dg_state d')) \<le> length (running_jobs ?s)"
      using ok by (simp add: calm_def)
  qed
qed simp

lemma calm_resolve_all:
  assumes "resolve_all decide E res d = Inr d'"
  shows "calm (en_config E) (dg_state d) (dg_state d')"
  using assms unfolding resolve_all_def
  by (rule calm_resolve_each) (auto simp: open_places_def open_at_def)

section \<open>Launching\<close>

text \<open>A launch the record knows: its attempt runs, and what its job waits for is done.\<close>

definition launch_fine :: "run_state \<Rightarrow> launch \<Rightarrow> bool" where
  "launch_fine s l \<longleftrightarrow>
     la_job l \<in> set (st_jobs s) \<and> jb_status (la_job l) = Running \<and>
     last_attempt (la_job l) = Some (la_attempt l) \<and>
     (\<forall>dep \<in> set (jb_depends_on (la_job l)). \<exists>u. find_job s dep = Some u \<and>
        (jb_status u = Finished \<or> jb_status u = Skipped))"

definition started :: "env \<Rightarrow> job \<Rightarrow> job" where
  "started E j = j\<lparr>jb_attempts := jb_attempts j @ [next_attempt E j], jb_status := Running,
     jb_pending_reason := None, jb_pending_answers := None\<rparr>"

lemma launch_job_state:
  assumes "launch_job E j d = (l, d')"
  shows "st_jobs (dg_state d') = map (\<lambda>x. if jb_id x = jb_id j then started E j else x) (st_jobs (dg_state d))"
    "st_decisions (dg_state d') = st_decisions (dg_state d)"
    "st_situations (dg_state d') = st_situations (dg_state d)"
    "st_status (dg_state d') = S_Running"
    "length (st_events (dg_state d')) \<le> 500"
    "sp_launches (dg_step d') = sp_launches (dg_step d) @ [l]"
    "la_job l = started E j" "la_attempt l = next_attempt E j"
  using assms by (auto simp: launch_job_def Let_def on_job_def started_def)

lemma started_ok:
  assumes ok: "job_ok cf s j" and pending: "jb_status j = Pending"
  shows "job_ok cf s (started E j) \<and> job_kept j (started E j)"
proof -
  let ?as = "jb_attempts j" and ?a = "next_attempt E j"
  have as: "attempts_ok ?as" and idle: "\<not> running_attempt ?as"
    using job_okD(1,2) [OF ok] pending by simp_all
  have none: "at_status a \<noteq> A_Running" if "a \<in> set ?as" for a
    using running_is_last(2) [OF as that] idle by blast
  have "attempts_ok (?as @ [?a])"
    using as none by (simp add: attempts_ok_def next_attempt_def)
  moreover have "running_attempt (?as @ [?a])" by (simp add: running_attempt_def next_attempt_def)
  moreover have "trailing_retries (started E j) \<le> retry_budget cf s (jb_id j)"
  proof (cases "?as")
    case Nil
    then show ?thesis by (simp add: trailing_retries_def started_def)
  next
    case (Cons b bs)
    then have "trailing_retries (started E j) =
        (if at_reason ?a = ''retry'' then Suc (trailing_retries j) else 0)"
      by (simp add: trailing_retries_def started_def)
    moreover have "at_reason ?a = ''retry'' \<Longrightarrow> jb_pending_reason j = Some ''retry''"
      by (auto simp: next_attempt_def split: option.splits if_splits)
    ultimately show ?thesis using job_okD(5) [OF ok] by auto
  qed
  ultimately have "job_ok cf s (started E j)"
    using ok unfolding job_ok_def by (simp add: started_def)
  moreover have "job_kept j (started E j)"
    by (simp add: job_kept_def started_def list_all2_refl)
  ultimately show ?thesis by simp
qed

lemma filter_replaced:
  assumes "distinct (map jb_id js)" and "j \<in> set js" and "\<not> P j"
  shows "length (filter P (map (\<lambda>x. if jb_id x = jb_id j then y else x) js)) =
         length (filter P js) + (if P y then 1 else 0)"
  using assms
proof (induction js)
  case (Cons x js)
  let ?g = "\<lambda>x. if jb_id x = jb_id j then y else x"
  show ?case
  proof (cases "jb_id x = jb_id j")
    case True
    then have "x = j" and "jb_id j \<notin> jb_id ` set js" using Cons.prems(1,2) by (auto simp: image_iff)
    moreover from this have "map ?g js = js" by (intro map_idI) (auto simp: image_iff)
    ultimately show ?thesis using Cons.prems(3) by simp
  next
    case False
    with Cons show ?thesis by auto
  qed
qed simp

lemma launch_job_ok:
  assumes launch: "launch_job E j d = (l, d')" and ok: "state_ok cf (dg_state d)"
    and j: "j \<in> set (st_jobs (dg_state d))" "jb_status j = Pending"
  shows "state_ok cf (dg_state d') \<and> append_only (dg_state d) (dg_state d')"
    and "length (running_jobs (dg_state d')) = length (running_jobs (dg_state d)) + 1"
    and "running_of (dg_state d') a = running_of (dg_state d) a + (if jb_agent_id j = a then 1 else 0)"
proof -
  let ?s = "dg_state d" and ?s' = "dg_state d'"
  let ?g = "\<lambda>x. if jb_id x = jb_id j then started E j else x"
  note st = launch_job_state [OF launch]
  have dist: "distinct (map jb_id (st_jobs ?s))" using ok by (simp add: state_ok_def)
  have only: "x = j" if "x \<in> set (st_jobs ?s)" "jb_id x = jb_id j" for x
    using same_job [OF ok find_job_unique [OF ok j(1)] that] .
  have jok: "job_ok cf ?s x" if "x \<in> set (st_jobs ?s)" for x using ok that by (simp add: state_ok_def)
  have g: "job_ok cf ?s (?g x) \<and> job_kept x (?g x)" if "x \<in> set (st_jobs ?s)" for x
    using started_ok [OF jok [OF j(1)] j(2)] jok [OF that] only [OF that] by auto
  have "granted_retries ?s' = granted_retries ?s" by (simp add: granted_retries_def fun_eq_iff st(2))
  then have same: "job_ok cf ?s' = job_ok cf ?s" by (simp add: fun_eq_iff job_ok_def retry_budget_def)
  have ids: "map jb_id (st_jobs ?s') = map jb_id (st_jobs ?s)"
    unfolding st(1) map_map by (rule map_cong [OF refl]) (use g job_keptD_id in fastforce)
  have "\<forall>x \<in> set (st_jobs ?s'). job_ok cf ?s' x" unfolding same st(1) set_map using g by blast
  then have "state_ok cf ?s'" using ok st(5) unfolding state_ok_def ids st(2) by blast
  moreover have "append_only ?s ?s'"
    unfolding append_only_def st(1)
    by (simp only: length_map take_all order_refl list_all2_map2 list_all2_same) (use g in blast)
  ultimately show "state_ok cf ?s' \<and> append_only ?s ?s'" by simp
  have status: "jb_status (started E j) = Running" "jb_agent_id (started E j) = jb_agent_id j"
    by (simp_all add: started_def)
  show "length (running_jobs ?s') = length (running_jobs ?s) + 1"
    unfolding running_jobs_def st(1) by (subst filter_replaced [OF dist j(1)]) (simp_all add: j status)
  show "running_of ?s' a = running_of ?s a + (if jb_agent_id j = a then 1 else 0)"
    unfolding running_of_def running_jobs_def st(1) filter_filter
    by (subst filter_replaced [OF dist j(1)]) (simp_all add: j status)
qed

lemma launch_fine_kept:
  assumes launch: "launch_job E j d = (l, d')" and ok: "state_ok cf (dg_state d)"
    and j: "j \<in> set (st_jobs (dg_state d))" "jb_status j = Pending"
    and fine: "launch_fine (dg_state d) l'"
  shows "launch_fine (dg_state d') l'"
proof -
  let ?s = "dg_state d" and ?s' = "dg_state d'"
  note st = launch_job_state [OF launch]
  have only: "x = j" if "x \<in> set (st_jobs ?s)" "jb_id x = jb_id j" for x
    using same_job [OF ok find_job_unique [OF ok j(1)] that] .
  have deps: "\<forall>dep \<in> set (jb_depends_on (la_job l')). \<exists>u. find_job ?s dep = Some u \<and>
      (jb_status u = Finished \<or> jb_status u = Skipped)"
    using fine unfolding launch_fine_def by (elim conjE)
  have stay: "x \<in> set (st_jobs ?s')" if "x \<in> set (st_jobs ?s)" "jb_status x \<noteq> Pending" for x
  proof -
    have "jb_id x \<noteq> jb_id j" using only [OF that(1)] that(2) j(2) by metis
    with that(1) show ?thesis unfolding st(1) set_map by (intro image_eqI [where x = x]) simp_all
  qed
  have ok': "state_ok cf ?s'" using launch_job_ok(1) [OF launch ok j] by simp
  have "\<exists>u. find_job ?s' dep = Some u \<and> (jb_status u = Finished \<or> jb_status u = Skipped)"
    if dep: "dep \<in> set (jb_depends_on (la_job l'))" for dep
  proof -
    obtain u where u: "find_job ?s dep = Some u" "jb_status u = Finished \<or> jb_status u = Skipped"
      using bspec [OF deps dep] by blast
    have mem: "u \<in> set (st_jobs ?s)" and id: "jb_id u = dep" using find_jobD [OF u(1)] by simp_all
    have "u \<in> set (st_jobs ?s')" by (rule stay [OF mem]) (use u(2) in \<open>elim disjE; simp\<close>)
    from find_job_unique [OF ok' this] have "find_job ?s' dep = Some u" by (simp only: id)
    with u(2) show ?thesis by blast
  qed
  moreover have "la_job l' \<in> set (st_jobs ?s')"
    using fine unfolding launch_fine_def by (intro stay) simp_all
  moreover have "jb_status (la_job l') = Running" "last_attempt (la_job l') = Some (la_attempt l')"
    using fine by (simp_all add: launch_fine_def)
  ultimately show ?thesis unfolding launch_fine_def by (intro conjI ballI)
qed

lemma job_readyD:
  assumes "job_ready s j" and "dep \<in> set (jb_depends_on j)"
  shows "\<exists>u. find_job s dep = Some u \<and> (jb_status u = Finished \<or> jb_status u = Skipped)"
  using assms by (auto simp: job_ready_def list_all_iff split: option.splits)

lemma launch_fine_new:
  assumes launch: "launch_job E j d = (l, d')" and ok: "state_ok cf (dg_state d)"
    and j: "j \<in> set (st_jobs (dg_state d))" and ready: "job_ready (dg_state d) j"
  shows "launch_fine (dg_state d') l"
proof -
  let ?s = "dg_state d" and ?s' = "dg_state d'"
  note st = launch_job_state [OF launch]
  have pending: "jb_status j = Pending" using ready by (simp add: job_ready_def)
  have ok': "state_ok cf ?s'" using launch_job_ok(1) [OF launch ok j pending] by simp
  have "\<exists>u. find_job ?s' dep = Some u \<and> (jb_status u = Finished \<or> jb_status u = Skipped)"
    if dep: "dep \<in> set (jb_depends_on (la_job l))" for dep
  proof -
    obtain u where u: "find_job ?s dep = Some u" "jb_status u = Finished \<or> jb_status u = Skipped"
      using job_readyD [OF ready] dep by (auto simp: st(7) started_def)
    have "u \<in> set (st_jobs ?s)" "jb_id u = dep" using find_jobD [OF u(1)] by auto
    moreover from this have "jb_id u \<noteq> jb_id j"
      using same_job [OF ok find_job_unique [OF ok j], of u] u(2) pending by auto
    ultimately have "u \<in> set (st_jobs ?s')"
      unfolding st(1) set_map by (intro image_eqI [where x = u]) simp_all
    from find_job_unique [OF ok' this] have "find_job ?s' dep = Some u"
      by (simp only: \<open>jb_id u = dep\<close>)
    with u(2) show ?thesis by blast
  qed
  moreover have "started E j \<in> set (st_jobs ?s')"
    unfolding st(1) set_map by (intro image_eqI [where x = j]) (simp_all add: j)
  ultimately show ?thesis
    by (simp add: launch_fine_def st(7,8)) (simp add: started_def last_attempt_def)
qed

text \<open>The launching loop, from any point of it.\<close>

lemma launch_loop_ok:
  assumes "launch_loop E js busy per ls d = (ls', d')" and "state_ok (en_config E) (dg_state d)"
    and "distinct (map jb_id js)" and "\<And>j. j \<in> set js \<Longrightarrow> j \<in> set (st_jobs (dg_state d)) \<and> job_ready (dg_state d) j"
    and "busy + length ls = length (running_jobs (dg_state d))"
    and "\<And>a. per a = running_of (dg_state d) a"
    and "\<And>l. l \<in> set (sp_launches (dg_step d)) \<Longrightarrow> launch_fine (dg_state d) l"
  shows "state_ok (en_config E) (dg_state d') \<and> append_only (dg_state d) (dg_state d') \<and>
     busy + length ls' = length (running_jobs (dg_state d')) \<and>
     length (running_jobs (dg_state d')) \<le>
       max (length (running_jobs (dg_state d))) (li_max_parallel (dc_limits (en_config E))) \<and>
     (\<forall>a. running_of (dg_state d') a \<le> max (running_of (dg_state d) a) (agent_cap (en_config E) a)) \<and>
     (\<forall>l \<in> set (sp_launches (dg_step d')). launch_fine (dg_state d') l) \<and>
     st_decisions (dg_state d') = st_decisions (dg_state d) \<and>
     st_situations (dg_state d') = st_situations (dg_state d) \<and>
     (st_status (dg_state d') = st_status (dg_state d) \<or> st_status (dg_state d') = S_Running)"
  using assms
proof (induction js arbitrary: per ls d)
  case Nil
  then show ?case by auto
next
  case (Cons j js)
  let ?cf = "en_config E"
  consider "li_max_parallel (dc_limits ?cf) \<le> busy + length ls"
    | "busy + length ls < li_max_parallel (dc_limits ?cf)" "agent_cap ?cf (jb_agent_id j) \<le> per (jb_agent_id j)"
    | "busy + length ls < li_max_parallel (dc_limits ?cf)" "per (jb_agent_id j) < agent_cap ?cf (jb_agent_id j)"
    by linarith
  then show ?case
  proof cases
    case 1
    with Cons.prems show ?thesis by auto
  next
    case 2
    then have "launch_loop E js busy per ls d = (ls', d')" using Cons.prems(1) by simp
    then show ?thesis by (rule Cons.IH) (use Cons.prems in auto)
  next
    case 3
    obtain l d1 where launch: "launch_job E j d = (l, d1)" by fastforce
    have rest: "launch_loop E js busy (per(jb_agent_id j := per (jb_agent_id j) + 1)) (ls @ [l]) d1 = (ls', d')"
      using Cons.prems(1) 3 launch by simp
    note ok = Cons.prems(2)
    have j: "j \<in> set (st_jobs (dg_state d))" and ready: "job_ready (dg_state d) j"
      using Cons.prems(4) by auto
    then have pending: "jb_status j = Pending" by (simp add: job_ready_def)
    note st = launch_job_state [OF launch]
    note kept = launch_job_ok [OF launch ok j pending]
    have ok1: "state_ok ?cf (dg_state d1)" using kept(1) by simp
    have later: "x \<in> set (st_jobs (dg_state d1)) \<and> job_ready (dg_state d1) x" if x: "x \<in> set js" for x
    proof
      have mem: "x \<in> set (st_jobs (dg_state d))" and rx: "job_ready (dg_state d) x"
        using Cons.prems(4) [of x] x by auto
      have ne: "jb_id x \<noteq> jb_id j" using Cons.prems(3) x by (auto simp: image_iff)
      show "x \<in> set (st_jobs (dg_state d1))"
        unfolding st(1) set_map by (intro image_eqI [where x = x]) (simp_all add: ne mem)
      have "\<exists>u. find_job (dg_state d1) dep = Some u \<and> (jb_status u = Finished \<or> jb_status u = Skipped)"
        if dep: "dep \<in> set (jb_depends_on x)" for dep
      proof -
        obtain u where u: "find_job (dg_state d) dep = Some u" "jb_status u = Finished \<or> jb_status u = Skipped"
          using job_readyD [OF rx dep] by blast
        have umem: "u \<in> set (st_jobs (dg_state d))" and uid: "jb_id u = dep" using find_jobD [OF u(1)] by simp_all
        have "jb_id u \<noteq> jb_id j"
          using same_job [OF ok find_job_unique [OF ok j] umem] u(2) pending by auto
        then have "u \<in> set (st_jobs (dg_state d1))"
          unfolding st(1) set_map by (intro image_eqI [where x = u]) (simp_all add: umem)
        from find_job_unique [OF ok1 this] have "find_job (dg_state d1) dep = Some u" by (simp only: uid)
        with u(2) show ?thesis by blast
      qed
      then show "job_ready (dg_state d1) x"
        using rx unfolding job_ready_def list_all_iff by fastforce
    qed
    have "\<And>l'. l' \<in> set (sp_launches (dg_step d1)) \<Longrightarrow> launch_fine (dg_state d1) l'"
      using launch_fine_kept [OF launch ok j pending] launch_fine_new [OF launch ok j ready]
        Cons.prems(7) by (auto simp: st(6))
    from Cons.IH [OF rest ok1 _ later _ _ this]
    have IH: "state_ok ?cf (dg_state d') \<and> append_only (dg_state d1) (dg_state d') \<and>
      busy + length ls' = length (running_jobs (dg_state d')) \<and>
      length (running_jobs (dg_state d')) \<le>
        max (length (running_jobs (dg_state d1))) (li_max_parallel (dc_limits ?cf)) \<and>
      (\<forall>a. running_of (dg_state d') a \<le> max (running_of (dg_state d1) a) (agent_cap ?cf a)) \<and>
      (\<forall>l \<in> set (sp_launches (dg_step d')). launch_fine (dg_state d') l) \<and>
      st_decisions (dg_state d') = st_decisions (dg_state d1) \<and>
      st_situations (dg_state d') = st_situations (dg_state d1) \<and>
      (st_status (dg_state d') = st_status (dg_state d1) \<or> st_status (dg_state d') = S_Running)"
      using Cons.prems(3,5,6) kept(2,3) by simp
    have "running_of (dg_state d') a \<le> max (running_of (dg_state d) a) (agent_cap ?cf a)" for a
    proof -
      have "running_of (dg_state d') a \<le> max (running_of (dg_state d1) a) (agent_cap ?cf a)"
        using IH by blast
      then show ?thesis using kept(3) [of a] 3(2) Cons.prems(6) [of a] by (auto split: if_splits)
    qed
    moreover have "length (running_jobs (dg_state d')) \<le>
        max (length (running_jobs (dg_state d))) (li_max_parallel (dc_limits ?cf))"
    proof -
      have "length (running_jobs (dg_state d')) \<le>
          max (length (running_jobs (dg_state d1))) (li_max_parallel (dc_limits ?cf))"
        using IH by blast
      then show ?thesis using kept(2) 3(1) Cons.prems(5) by linarith
    qed
    moreover have "append_only (dg_state d) (dg_state d')"
      using kept(1) IH append_only_trans by blast
    ultimately show ?thesis using IH st(2,3,4) by auto
  qed
qed

lemma launch_ready_ok:
  assumes run: "launch_ready E d = (ls, d')" and ok: "state_ok (en_config E) (dg_state d)"
    and fine: "\<forall>l \<in> set (sp_launches (dg_step d)). launch_fine (dg_state d) l"
  shows "state_ok (en_config E) (dg_state d') \<and> append_only (dg_state d) (dg_state d') \<and>
     length (running_jobs (dg_state d)) + length ls = length (running_jobs (dg_state d')) \<and>
     length (running_jobs (dg_state d')) \<le>
       max (length (running_jobs (dg_state d))) (li_max_parallel (dc_limits (en_config E))) \<and>
     (\<forall>a. running_of (dg_state d') a \<le> max (running_of (dg_state d) a) (agent_cap (en_config E) a)) \<and>
     (\<forall>l \<in> set (sp_launches (dg_step d')). launch_fine (dg_state d') l) \<and>
     st_decisions (dg_state d') = st_decisions (dg_state d) \<and>
     st_situations (dg_state d') = st_situations (dg_state d) \<and>
     (st_status (dg_state d') = st_status (dg_state d) \<or> st_status (dg_state d') = S_Running)"
proof -
  have "distinct (map jb_id (ready_jobs (dg_state d)))"
    using ok unfolding state_ok_def ready_jobs_def by (simp add: distinct_map_filter)
  moreover have "j \<in> set (st_jobs (dg_state d)) \<and> job_ready (dg_state d) j"
    if "j \<in> set (ready_jobs (dg_state d))" for j
    using that by (simp add: ready_jobs_def)
  ultimately show ?thesis
    by (rule launch_loop_ok [OF run [unfolded launch_ready_def] ok]) (simp_all add: bspec [OF fine])
qed

section \<open>Only launching launches\<close>

named_theorems launch_free \<open>operations that leave the launches of the step alone\<close>

lemma launches_stop [launch_free]: "sp_launches (dg_step (stop_job E jid d)) = sp_launches (dg_step d)"
  by (simp add: stop_job_def split: option.split)

lemma launches_reset [launch_free]:
  "sp_launches (dg_step (reset_job E jid r d)) = sp_launches (dg_step d)"
  by (simp add: reset_job_def launch_free)

lemma launches_deliver [launch_free]:
  "sp_launches (dg_step (deliver_answer jid t d)) = sp_launches (dg_step d)"
  by (auto simp: deliver_answer_def split: option.split)

lemma launches_answer [launch_free]:
  "sp_launches (dg_step (answer_job E j t src ans d)) = sp_launches (dg_step d)"
  by (simp add: answer_job_def Let_def launch_free)

lemma launches_redo [launch_free]:
  "sp_launches (dg_step (redo_dependents E jid rw t deps d)) = sp_launches (dg_step d)"
  by (induction deps arbitrary: d) (simp_all add: launch_free split: option.split)

lemma launches_for_jobs:
  assumes "\<And>jid d d'. f jid d = Inr d' \<Longrightarrow> sp_launches (dg_step d') = sp_launches (dg_step d)"
  shows "for_jobs f jids d = Inr d' \<Longrightarrow> sp_launches (dg_step d') = sp_launches (dg_step d)"
proof (induction jids arbitrary: d)
  case (Cons jid jids)
  then obtain d1 where "f jid d = Inr d1" "for_jobs f jids d1 = Inr d'"
    by (auto simp: bindE_Inr_iff)
  with assms Cons.IH show ?case by simp
qed simp

lemma launches_drop_unfinished [launch_free]:
  "sp_launches (dg_step (fold (drop_unfinished E) ids d)) = sp_launches (dg_step d)"
  by (induction ids arbitrary: d) (simp_all add: drop_unfinished_def launch_free)

lemma launches_rewind_one:
  assumes "rewind_one E ids t jid d = Inr d'"
  shows "sp_launches (dg_step d') = sp_launches (dg_step d)"
proof -
  obtain d1 deps where "d' = redo_dependents E jid ids t deps d1"
    and "dg_step d1 = dg_step (reset_job E jid ''rewind'' d)"
    using assms by (auto simp: rewind_one_def Let_def bindE_Inr_iff)
  then show ?thesis by (simp add: launches_redo launches_reset)
qed

lemma launches_remove_one:
  assumes "remove_one E t jid d = Inr d'"
  shows "sp_launches (dg_step d') = sp_launches (dg_step d)"
  using assms by (auto simp: remove_one_def bindE_Inr_iff launches_stop)

lemma launches_message:
  assumes "do_message E a d = Inr d'"
  shows "sp_launches (dg_step d') = sp_launches (dg_step d)"
  using assms
  by (auto simp: do_message_def bindE_Inr_iff Let_def launches_deliver launches_reset split: option.splits)

lemma launches_action:
  assumes "do_action E by a d = Inr d'"
  shows "sp_launches (dg_step d') = sp_launches (dg_step d)"
proof (cases "ma_kind a")
  case Rewind
  with assms obtain d1 where "for_jobs (rewind_one E (ma_job_ids a) (ma_text a)) (ma_job_ids a) d = Inr d1"
    "dg_step d' = dg_step d1"
    by (auto simp: do_rewind_def bindE_Inr_iff)
  then show ?thesis using launches_for_jobs [OF launches_rewind_one] by simp
next
  case Remove
  with assms obtain d1 where "for_jobs (remove_one E (ma_text a)) (ma_job_ids a) d = Inr d1"
    "dg_step d' = dg_step d1"
    by (auto simp: do_remove_def bindE_Inr_iff)
  then show ?thesis using launches_for_jobs [OF launches_remove_one] by simp
next
  case Add_Jobs
  with assms show ?thesis by (auto simp: do_add_jobs_def Let_def split: if_splits)
next
  case Update_Job
  with assms show ?thesis by (auto simp: do_update_job_def Let_def bindE_Inr_iff)
next
  case Answer
  with assms show ?thesis by (auto simp: do_answer_def bindE_Inr_iff launches_answer)
next
  case Finish
  with assms show ?thesis by (auto simp: do_finish_def Let_def launches_drop_unfinished)
qed (use assms launches_message in \<open>auto simp: do_ask_human_def do_fail_def\<close>)

lemma launches_apply:
  assumes "apply_decision E dry by dec sits d = Inr d'"
  shows "sp_launches (dg_step d') = sp_launches (dg_step d)"
proof -
  have many: "do_actions E by as d = Inr d' \<Longrightarrow> sp_launches (dg_step d') = sp_launches (dg_step d)" for as d d'
  proof (induction as arbitrary: d)
    case (Cons a as)
    then obtain d1 where "do_action E by a d = Inr d1" "do_actions E by as d1 = Inr d'"
      by (auto simp: bindE_Inr_iff simp del: do_action.simps)
    with launches_action Cons.IH show ?case by metis
  qed simp
  from assms show ?thesis
    by (auto simp: apply_decision_def Let_def bindE_Inr_iff dest!: many split: if_splits)
qed

lemma launches_consult:
  assumes "consult decide E rj d = Inr d'"
  shows "sp_launches (dg_step d') = sp_launches (dg_step d)"
  using assms
proof (cases rule: consult_cases)
  case 1
  then show ?thesis by simp
next
  case (2 dec sits m)
  define d1 where "d1 = on_state (\<lambda>s. s\<lparr>st_situations := []\<rparr>) (d\<lparr>dg_meta := m\<rparr>)"
  from 2(1) d1_def show ?thesis
    by (cases rule: take_decision_cases) (simp_all add: d1_def launches_apply auto_record_def)
qed

lemma launches_reject:
  "reject_decision decide E rec reason sits d = Inr d' \<Longrightarrow> sp_launches (dg_step d') = sp_launches (dg_step d)"
  by (auto simp: reject_decision_def Let_def split: if_splits dest!: launches_consult)

lemma launches_human [launch_free]:
  "sp_launches (dg_step (human_answered E rec res d)) = sp_launches (dg_step d)"
  by (simp add: human_answered_def Let_def launch_free split: option.split)

lemma launches_resolve_one:
  assumes "resolve_one decide E res rec d = Inr d'"
  shows "sp_launches (dg_step d') = sp_launches (dg_step d)"
  using assms
  by (auto simp: resolve_one_def Let_def launch_free split: prod.splits if_splits sum.splits
      list.splits option.splits dest: launches_apply launches_reject)

lemma launches_resolve_each:
  "resolve_each decide E res is d = Inr d' \<Longrightarrow> sp_launches (dg_step d') = sp_launches (dg_step d)"
proof (induction "is" arbitrary: d)
  case (Cons i "is")
  then obtain d1 where "resolve_one decide E res (st_decisions (dg_state d) ! i)
      (on_state (resolve_decision i (re_approved res) (re_reason res)) d) = Inr d1"
    "resolve_each decide E res is d1 = Inr d'"
    by (auto simp: Let_def bindE_Inr_iff)
  with launches_resolve_one Cons.IH show ?case by fastforce
qed simp

lemma launches_record [launch_free]: "dg_step (record_result E r j d) = dg_step d"
  by (cases "ar_status r") (simp_all add: record_result_def Let_def)

lemma launches_ingest [launch_free]: "dg_step (ingest E e d) = dg_step d"
  by (cases e) (simp_all add: ingest_def launch_free split: option.split)

lemma launches_events [launch_free]: "dg_step (fold (ingest E) es d) = dg_step d"
  by (induction es arbitrary: d) (simp_all add: launch_free)

section \<open>Stopping everything\<close>

definition over :: "job_status \<Rightarrow> bool" where
  "over x \<longleftrightarrow> x \<notin> {Running, Pending, Waiting}"

lemma stop_all_loop:
  assumes "state_ok cf (dg_state d)" and "distinct (map jb_id js)"
    and "\<And>j. j \<in> set js \<Longrightarrow> j \<in> set (st_jobs (dg_state d))"
    and "d' = fold (\<lambda>j d.
       if jb_status j = Running
       then on_state (on_job (jb_id j) (\<lambda>j. j\<lparr>jb_status := Cancelled\<rparr>)) (stop_job E (jb_id j) d)
       else if jb_status j = Pending \<or> jb_status j = Waiting
       then on_state (on_job (jb_id j) (\<lambda>j. j\<lparr>jb_status := Cancelled\<rparr>)) d
       else d) js d"
  shows "quiet cf (dg_state d) (dg_state d') \<and>
    (\<forall>x \<in> set (st_jobs (dg_state d')).
       over (jb_status x) \<or> x \<in> set (st_jobs (dg_state d)) \<and> jb_id x \<notin> jb_id ` set js)"
  using assms
proof (induction js arbitrary: d)
  case Nil
  then show ?case by simp
next
  case (Cons j js)
  let ?s = "dg_state d"
  let ?off = "\<lambda>j. j\<lparr>jb_status := Cancelled\<rparr>"
  define d1 where "d1 = (if jb_status j = Running
       then on_state (on_job (jb_id j) ?off) (stop_job E (jb_id j) d)
       else if jb_status j = Pending \<or> jb_status j = Waiting
       then on_state (on_job (jb_id j) ?off) d else d)"
  note ok = Cons.prems(1)
  have j: "j \<in> set (st_jobs ?s)" using Cons.prems(3) by simp
  have jok: "job_ok cf ?s j" using ok j by (simp add: state_ok_def)
  have only: "x = j" if "x \<in> set (st_jobs ?s)" "jb_id x = jb_id j" for x
    using same_job [OF ok find_job_unique [OF ok j] that] .
  have idle: "quiet cf ?s (on_job (jb_id j) ?off ?s)" if "jb_status j \<noteq> Running"
  proof (rule quiet_on_job)
    fix x assume "x \<in> set (st_jobs ?s)" "jb_id x = jb_id j"
    then have "x = j" by (rule only)
    moreover have "job_ok cf ?s (j\<lparr>jb_status := Cancelled\<rparr>)"
      by (rule job_ok_cong [OF jok]) (use that jok in \<open>simp_all add: job_okD\<close>)
    ultimately show "job_ok cf ?s (?off x) \<and> job_kept x (?off x) \<and> (jb_status (?off x) = Running \<longrightarrow> jb_status x = Running)"
      by simp
  qed
  have q1: "quiet cf ?s (dg_state d1)"
    using quiet_stopped(2) [where h = "\<lambda>j. j" and st = Cancelled and d = d and E = E and jid = "jb_id j" and cf = cf and reason = None] idle
    by (simp add: d1_def)
  have jobs1: "x \<in> set (st_jobs ?s) \<and> jb_id x \<noteq> jb_id j \<or> over (jb_status x)"
    if x: "x \<in> set (st_jobs (dg_state d1))" for x
  proof -
    have "\<exists>g. dg_state d1 = on_job (jb_id j) g ?s \<and> over (jb_status (g j))"
    proof (cases "over (jb_status j)")
      case True
      then have "dg_state d1 = on_job (jb_id j) (\<lambda>j. j) ?s"
        using on_job_absent [of ?s "jb_id j" "\<lambda>j. j"] by (simp add: d1_def over_def)
      with True show ?thesis by (intro exI [of _ "\<lambda>j. j"]) simp
    next
      case False
      show ?thesis
      proof (cases "jb_status j = Running")
        case True
        then show ?thesis
          by (intro exI [of _ "\<lambda>x. ?off (halt E x)"])
            (simp add: d1_def over_def stop_job_state [OF ok] fuse)
      next
        case not_running: False
        with False have "jb_status j = Pending \<or> jb_status j = Waiting" by (auto simp: over_def)
        with not_running show ?thesis
          by (intro exI [of _ ?off]) (simp add: d1_def over_def)
      qed
    qed
    then obtain g where g: "dg_state d1 = on_job (jb_id j) g ?s" "over (jb_status (g j))" by blast
    obtain y where y: "y \<in> set (st_jobs ?s)" "x = (if jb_id y = jb_id j then g y else y)"
      using x by (auto simp: g(1) on_job_def)
    show ?thesis
    proof (cases "jb_id y = jb_id j")
      case True
      then have "y = j" using y(1) by (intro only)
      with True y(2) g(2) show ?thesis by simp
    next
      case False
      with y show ?thesis by simp
    qed
  qed
  have ok1: "state_ok cf (dg_state d1)" using q1 ok by (simp add: quiet_def)
  have mem1: "x \<in> set (st_jobs (dg_state d1))" if x: "x \<in> set js" for x
  proof -
    have ne: "jb_id x \<noteq> jb_id j" using Cons.prems(2) x by (auto simp: image_iff)
    have "x \<in> set (st_jobs ?s)" using Cons.prems(3) x by simp
    with ne show ?thesis
      by (auto simp: d1_def stop_job_state [OF ok] on_job_def intro!: image_eqI [where x = x])
  qed
  have dist: "distinct (map jb_id js)" using Cons.prems(2) by simp
  have d': "d' = fold (\<lambda>j d.
       if jb_status j = Running
       then on_state (on_job (jb_id j) ?off) (stop_job E (jb_id j) d)
       else if jb_status j = Pending \<or> jb_status j = Waiting
       then on_state (on_job (jb_id j) ?off) d
       else d) js d1"
    using Cons.prems(4) by (simp add: d1_def)
  note IH = Cons.IH [OF ok1 dist mem1 d']
  have "quiet cf ?s (dg_state d')" using q1 IH quiet_trans by blast
  moreover have "over (jb_status x) \<or> x \<in> set (st_jobs ?s) \<and> jb_id x \<notin> jb_id ` set (j # js)"
    if "x \<in> set (st_jobs (dg_state d'))" for x
    using IH that jobs1 by fastforce
  ultimately show ?case by blast
qed

lemma stop_all_ok:
  assumes "state_ok cf (dg_state d)"
  shows "quiet cf (dg_state d) (dg_state (stop_all E d))"
    and "x \<in> set (st_jobs (dg_state (stop_all E d))) \<Longrightarrow> over (jb_status x)"
proof -
  have "distinct (map jb_id (st_jobs (dg_state d)))" using assms by (simp add: state_ok_def)
  note all = stop_all_loop [OF assms this _ stop_all_def]
  then show q: "quiet cf (dg_state d) (dg_state (stop_all E d))" by simp
  have "\<forall>x \<in> set (st_jobs (dg_state (stop_all E d))). over (jb_status x) \<or>
      x \<in> set (st_jobs (dg_state d)) \<and> jb_id x \<notin> jb_id ` set (st_jobs (dg_state d))"
    using all by blast
  then show "x \<in> set (st_jobs (dg_state (stop_all E d))) \<Longrightarrow> over (jb_status x)" by blast
qed

end
