(* ===== verification/JobGuarantees.thy ===== *)
theory JobGuarantees
  imports JobSchedule
begin

text \<open>
  What a pass over a job DAG guarantees, whatever events arrive and whatever the meta-agent and the
  human answer: the invariant and the limits hold, and the graph that carries the step out always
  has something to wait for or is told to end.
\<close>

section \<open>The rounds\<close>

definition pass_ok :: "dynamic_config \<Rightarrow> run_state \<Rightarrow> run_state \<Rightarrow> bool" where
  "pass_ok cf s s' \<longleftrightarrow>
     (state_ok cf s \<longrightarrow> state_ok cf s' \<and> append_only s s' \<and>
        length (running_jobs s') \<le> max (length (running_jobs s)) (li_max_parallel (dc_limits cf)))"

lemma calm_pass: "calm cf s s' \<Longrightarrow> pass_ok cf s s'"
  by (auto simp: calm_def pass_ok_def)

lemmas quiet_pass = calm_pass [OF quiet_calm]

lemma pass_ok_trans: "pass_ok cf s s' \<Longrightarrow> pass_ok cf s' s'' \<Longrightarrow> pass_ok cf s s''"
  unfolding pass_ok_def using append_only_trans by fastforce

lemma pass_okD: "pass_ok cf s s' \<Longrightarrow> state_ok cf s \<Longrightarrow> state_ok cf s'"
  by (simp add: pass_ok_def)

definition launches_fine :: "dag \<Rightarrow> bool" where
  "launches_fine d \<longleftrightarrow> (\<forall>l \<in> set (sp_launches (dg_step d)). launch_fine (dg_state d) l)"

definition no_launches :: "dag \<Rightarrow> bool" where
  "no_launches d \<longleftrightarrow> sp_launches (dg_step d) = []"

lemma no_launches_fine [simp]: "no_launches d \<Longrightarrow> launches_fine d"
  by (simp add: no_launches_def launches_fine_def)

lemma launch_ready_pass:
  assumes "launch_ready E d = (ls, d')" and "state_ok (en_config E) (dg_state d)" and "launches_fine d"
  shows "pass_ok (en_config E) (dg_state d) (dg_state d')" and "launches_fine d'"
proof -
  note all = launch_ready_ok [OF assms(1,2) assms(3) [unfolded launches_fine_def]]
  from all show "pass_ok (en_config E) (dg_state d) (dg_state d')"
    unfolding pass_ok_def by (elim conjE) (intro impI conjI)
  from all show "launches_fine d'" unfolding launches_fine_def by (elim conjE)
qed

lemma launch_loop_launches:
  "launch_loop E js busy per ls d = (ls', d') \<Longrightarrow>
   \<exists>new. ls' = ls @ new \<and> sp_launches (dg_step d') = sp_launches (dg_step d) @ new"
proof (induction js arbitrary: per ls d)
  case (Cons j js)
  obtain l d1 where launch: "launch_job E j d = (l, d1)" by fastforce
  show ?case
  proof (cases "li_max_parallel (dc_limits (en_config E)) \<le> busy + length ls")
    case True
    with Cons.prems show ?thesis by simp
  next
    case room: False
    show ?thesis
    proof (cases "agent_cap (en_config E) (jb_agent_id j) \<le> per (jb_agent_id j)")
      case True
      with room Cons.prems show ?thesis by (intro Cons.IH) simp
    next
      case False
      with room launch Cons.prems
      have "launch_loop E js busy (per(jb_agent_id j := per (jb_agent_id j) + 1)) (ls @ [l]) d1 = (ls', d')"
        by simp
      from Cons.IH [OF this] show ?thesis by (auto simp: launch_job_state(6) [OF launch])
    qed
  qed
qed simp

lemma launch_ready_none: "launch_ready E d = ([], d') \<Longrightarrow> no_launches d \<Longrightarrow> no_launches d'"
  using launch_loop_launches [of E "ready_jobs (dg_state d)"] unfolding launch_ready_def no_launches_def
  by fastforce

lemma rounds_ok:
  "\<lbrakk>rounds k decide E d = Inr (broke, d'); state_ok (en_config E) (dg_state d); no_launches d\<rbrakk> \<Longrightarrow>
   pass_ok (en_config E) (dg_state d) (dg_state d') \<and> launches_fine d' \<and> (\<not> broke \<longrightarrow> no_launches d')"
proof (induction k arbitrary: d)
  case 0
  then show ?case by (auto simp: pass_ok_def)
next
  case (Suc k)
  let ?s = "dg_state d" and ?cf = "en_config E"
  note run = Suc.prems(1) and ok = Suc.prems(2) and none = Suc.prems(3)
  show ?case
  proof (cases "settled_or_gated ?s")
    case True
    with run none show ?thesis by (auto simp: pass_ok_def)
  next
    case open_s: False
    show ?thesis
    proof (cases "st_situations ?s = []")
      case False
      with run open_s obtain d1 where d1: "consult decide E None d = Inr d1"
        and rest: "rounds k decide E d1 = Inr (broke, d')"
        by (auto simp: bindE_Inr_iff)
      have p: "pass_ok ?cf ?s (dg_state d1)" by (rule quiet_pass [OF quiet_consult [OF d1]])
      have n: "no_launches d1" using none launches_consult [OF d1] by (simp add: no_launches_def)
      from Suc.IH [OF rest pass_okD [OF p ok] n] p show ?thesis using pass_ok_trans by blast
    next
      case True
      obtain ls d1 where d1: "launch_ready E d = (ls, d1)" by fastforce
      have p: "pass_ok ?cf ?s (dg_state d1)" and fine: "launches_fine d1"
        using launch_ready_pass [OF d1 ok no_launches_fine [OF none]] by auto
      show ?thesis
      proof (cases "ls \<noteq> [] \<or> running_jobs (dg_state d1) \<noteq> [] \<or> phase_over E (dg_state d1)")
        case True
        with run open_s \<open>st_situations ?s = []\<close> d1 have "broke \<and> d' = d1" by simp
        with p fine show ?thesis by simp
      next
        case False
        let ?d2 = "on_state (add_situation E Phase_Done None None []) d1"
        from False run open_s \<open>st_situations ?s = []\<close> d1 have rest: "rounds k decide E ?d2 = Inr (broke, d')"
          by simp
        have "pass_ok ?cf (dg_state d1) (dg_state ?d2)"
          by (rule quiet_pass) (simp add: quiet_intros)
        with p have p2: "pass_ok ?cf ?s (dg_state ?d2)" by (rule pass_ok_trans)
        have "no_launches ?d2" using False d1 none launch_ready_none by (simp add: no_launches_def)
        from Suc.IH [OF rest pass_okD [OF p2 ok] this] p2 show ?thesis using pass_ok_trans by blast
      qed
    qed
  qed
qed

section \<open>The end of a pass\<close>

lemma quiet_skip:
  assumes "running_jobs s = []"
  shows "quiet cf s (skip_blocked E j s)"
proof -
  have "quiet cf s (on_job (jb_id j) (\<lambda>j. j\<lparr>jb_status := Skipped\<rparr>) s)"
  proof (rule quiet_on_job)
    fix x assume x: "x \<in> set (st_jobs s)" "job_ok cf s x"
    then have idle: "jb_status x \<noteq> Running"
      using assms by (auto simp: running_jobs_def filter_empty_conv)
    have "job_ok cf s (x\<lparr>jb_status := Skipped\<rparr>)"
      by (rule job_ok_cong [OF x(2)]) (use idle job_okD [OF x(2)] in simp_all)
    then show "job_ok cf s (x\<lparr>jb_status := Skipped\<rparr>) \<and> job_kept x (x\<lparr>jb_status := Skipped\<rparr>) \<and>
        (jb_status (x\<lparr>jb_status := Skipped\<rparr>) = Running \<longrightarrow> jb_status x = Running)" by simp
  qed
  then show ?thesis by (simp add: skip_blocked_def quiet_intros)
qed

lemma skip_all_ok:
  "state_ok cf s \<Longrightarrow> running_jobs s = [] \<Longrightarrow>
   quiet cf s (fold (skip_blocked E) js s) \<and> running_jobs (fold (skip_blocked E) js s) = []"
proof (induction js arbitrary: s)
  case (Cons j js)
  have q: "quiet cf s (skip_blocked E j s)" by (rule quiet_skip [OF Cons.prems(2)])
  then have "state_ok cf (skip_blocked E j s)" "running_jobs (skip_blocked E j s) = []"
    using Cons.prems by (simp_all add: quiet_def)
  from Cons.IH [OF this] q show ?case using quiet_trans by auto
qed simp

text \<open>What the status a pass returns tells about the record.\<close>

definition all_done :: "env \<Rightarrow> run_state \<Rightarrow> bool" where
  "all_done E s \<longleftrightarrow>
     list_all (\<lambda>j. jb_status j = Finished \<or> jb_status j = Skipped) (active_jobs s) \<and>
     (\<forall>cat. sl_min (dc_jobs (en_config E) cat) \<le> count_category cat (st_jobs s))"

fun outcome_ok :: "env \<Rightarrow> step_status \<Rightarrow> run_state \<Rightarrow> bool" where
  "outcome_ok E Run s = (running_jobs s \<noteq> [] \<and> open_decisions s = [] \<and> st_status s = S_Running)"
| "outcome_ok E Gate s = (open_decisions s \<noteq> [] \<and> st_status s = S_Waiting_Approval)"
| "outcome_ok E Completed s = (running_jobs s = [] \<and> all_done E s \<and> st_status s = S_Completed)"
| "outcome_ok E Step_Failed s = (running_jobs s = [] \<and> st_status s = S_Failed)"

lemma if_single_Nil: "(if c then [x] else []) = [] \<longleftrightarrow> \<not> c"
  by simp

lemma concat_map_Nil: "concat (map f xs) = [] \<longleftrightarrow> (\<forall>x \<in> set xs. f x = [])"
  by (induction xs) auto

lemma check_minimums_Nil:
  "check_minimums count cf = [] \<longleftrightarrow> (\<forall>cat. sl_min (dc_jobs cf cat) \<le> count cat)"
proof -
  have "check_minimums count cf = [] \<longleftrightarrow> (\<forall>cat \<in> set job_categories. sl_min (dc_jobs cf cat) \<le> count cat)"
    unfolding check_minimums_def List.maps_eq concat_map_Nil if_single_Nil not_less by (rule refl)
  then show ?thesis by (simp add: Ball_def)
qed

lemma count_category_active [simp]: "count_category cat (active_jobs s) = count_category cat (st_jobs s)"
  by (simp add: count_category_def active_jobs_def conj_ac)

lemma running_cong: "st_jobs s' = st_jobs s \<Longrightarrow> running_jobs s' = running_jobs s"
  by (simp add: running_jobs_def)

lemma all_done_cong: "st_jobs s' = st_jobs s \<Longrightarrow> all_done E s' = all_done E s"
  unfolding all_done_def active_jobs_def by (rule arg_cong2 [where f = conj]; simp only:)

lemma jobs_simps: "st_jobs (s\<lparr>st_status := x, st_summary := t\<rparr>) = st_jobs s"
  by simp

lemma finish_or_fail_cases:
  assumes run: "finish_or_fail E d = (status, d')"
    and s: "s = fold (skip_blocked E) (st_jobs (dg_state d)) (dg_state d)"
  obtains m where "status = Step_Failed" "d' = on_state (\<lambda>_. fail_run E m s) d"
  | t where "all_done E s" "status = Completed"
      "d' = on_state (\<lambda>_. log_event (en_now E) ''completed'' None ''''
            (s\<lparr>st_status := S_Completed, st_summary := t\<rparr>)) d"
proof -
  let ?unfinished = "filter (\<lambda>j. jb_status j \<noteq> Finished \<and> jb_status j \<noteq> Skipped) (active_jobs s)"
  let ?missing = "check_minimums (\<lambda>cat. count_category cat (active_jobs s)) (en_config E)"
  note run = run [unfolded finish_or_fail_def Let_def, folded s]
  show thesis
  proof (cases "?unfinished = []")
    case False
    from run [unfolded if_P [OF False]] show thesis
      by (elim Pair_inject) (rule that(1); erule sym)
  next
    case all_over: True
    note run = run [unfolded if_not_P [OF iffD2 [OF not_not all_over]]]
    show thesis
    proof (cases "?missing = []")
      case False
      from run [unfolded if_P [OF False]] show thesis
        by (elim Pair_inject) (rule that(1); erule sym)
    next
      case True
      have "list_all (\<lambda>j. jb_status j = Finished \<or> jb_status j = Skipped) (active_jobs s)"
        using all_over unfolding list_all_iff filter_empty_conv by blast
      moreover have "\<forall>cat. sl_min (dc_jobs (en_config E) cat) \<le> count_category cat (st_jobs s)"
        using True unfolding check_minimums_Nil count_category_active .
      ultimately have fin: "all_done E s" unfolding all_done_def by (rule conjI)
      from run [unfolded if_not_P [OF iffD2 [OF not_not True]]] show thesis
        by (elim Pair_inject) (rule that(2) [OF fin]; erule sym)
    qed
  qed
qed

lemma finish_or_fail_ok:
  assumes run: "finish_or_fail E d = (status, d')" and ok: "state_ok cf (dg_state d)"
    and idle: "running_jobs (dg_state d) = []"
  shows "quiet cf (dg_state d) (dg_state d') \<and> outcome_ok E status (dg_state d') \<and>
    dg_step d' = dg_step d \<and> status \<noteq> Run"
proof -
  define s where "s = fold (skip_blocked E) (st_jobs (dg_state d)) (dg_state d)"
  have "quiet cf (dg_state d) s \<and> running_jobs s = []"
    unfolding s_def by (rule skip_all_ok [OF ok idle])
  then have s: "quiet cf (dg_state d) s" "running_jobs s = []" by simp_all
  from run s_def show ?thesis
  proof (cases rule: finish_or_fail_cases)
    case (1 m)
    have "running_jobs (fail_run E m s) = []" using s(2) by (simp add: running_jobs_def)
    then show ?thesis using 1 s(1) by (simp add: quiet_outer(3))
  next
    case (2 t)
    let ?s' = "s\<lparr>st_status := S_Completed, st_summary := t\<rparr>"
    let ?s'' = "log_event (en_now E) ''completed'' None '''' ?s'"
    have "quiet cf s ?s'" by (rule quiet_fields [where ds = "[]"]) simp_all
    with s(1) have "quiet cf (dg_state d) ?s'" by (rule quiet_trans)
    then have "quiet cf (dg_state d) ?s''" by (rule quiet_log)
    moreover have "all_done E ?s''" using 2(1) by (simp only: all_done_cong [of ?s'' s] log_event_simps jobs_simps)
    moreover have "running_jobs ?s'' = []" using s(2) by (simp add: running_jobs_def)
    ultimately show ?thesis using 2(2,3) by simp
  qed
qed

lemma stop_all_fields:
  "st_status (dg_state (stop_job E jid d)) = st_status (dg_state d)"
  "dg_step (stop_job E jid d) = (dg_step d)\<lparr>sp_cancels := sp_cancels (dg_step (stop_job E jid d))\<rparr>"
  by (auto simp: stop_job_def split: option.split)

lemma stop_all_status [simp]: "st_status (dg_state (stop_all E d)) = st_status (dg_state d)"
  unfolding stop_all_def by (rule fold_invariant [where Q = "\<lambda>_. True"]) (simp_all add: stop_all_fields)

lemma stop_all_launches: "sp_launches (dg_step (stop_all E d)) = sp_launches (dg_step d)"
  unfolding stop_all_def by (rule fold_invariant [where Q = "\<lambda>_. True"]) (simp_all add: launches_stop)

lemma stop_all_idle:
  assumes "state_ok cf (dg_state d)"
  shows "running_jobs (dg_state (stop_all E d)) = []"
  using stop_all_ok(2) [OF assms] by (auto simp: running_jobs_def over_def filter_empty_conv)

lemma conclude_ok:
  assumes run: "conclude E d = (status, d')" and ok: "state_ok cf (dg_state d)"
  shows "quiet cf (dg_state d) (dg_state d')" and "outcome_ok E status (dg_state d')"
    and "sp_launches (dg_step d') = sp_launches (dg_step d)"
    and "status = Run \<Longrightarrow> st_jobs (dg_state d') = st_jobs (dg_state d)"
proof -
  let ?s = "dg_state d"
  have "quiet cf ?s (dg_state d') \<and> outcome_ok E status (dg_state d') \<and>
      sp_launches (dg_step d') = sp_launches (dg_step d) \<and> (status = Run \<longrightarrow> st_jobs (dg_state d') = st_jobs ?s)"
  proof (cases "st_status ?s = S_Failed")
    case True
    then show ?thesis
      using run stop_all_ok(1) [OF ok] stop_all_idle [OF ok] by (auto simp: conclude_def Let_def stop_all_launches)
  next
    case alive: False
    show ?thesis
    proof (cases "open_decisions ?s = []")
      case False
      with alive run show ?thesis
        by (auto simp: conclude_def Let_def open_decisions_def intro!: quiet_intros)
    next
      case no_gate: True
      show ?thesis
      proof (cases "running_jobs ?s = []")
        case False
        with alive no_gate run show ?thesis
          by (auto simp: conclude_def Let_def open_decisions_def running_jobs_def intro!: quiet_intros)
      next
        case idle: True
        show ?thesis
        proof (cases "st_situations ?s = []")
          case False
          with alive no_gate idle run show ?thesis
            by (auto simp: conclude_def Let_def running_jobs_def intro!: quiet_intros)
        next
          case True
          with alive no_gate idle run have fin: "finish_or_fail E d = (status, d')"
            by (simp add: conclude_def Let_def)
          then show ?thesis using finish_or_fail_ok [OF fin ok idle] by simp
        qed
      qed
    qed
  qed
  then show "quiet cf ?s (dg_state d')" "outcome_ok E status (dg_state d')"
    "sp_launches (dg_step d') = sp_launches (dg_step d)"
    "status = Run \<Longrightarrow> st_jobs (dg_state d') = st_jobs ?s" by simp_all
qed

section \<open>A pass\<close>

definition ended :: "run_state \<Rightarrow> bool" where
  "ended s \<longleftrightarrow> st_status s = S_Completed \<or> st_status s = S_Failed"

lemma load_live_simps [simp]: "dg_state (load_live d) = dg_state d" "dg_step (load_live d) = dg_step d"
  by (simp_all add: load_live_def Let_def)

lemma first_work_ok:
  "quiet (en_config E) (dg_state d) (dg_state (first_work E d)) \<and> dg_step (first_work E d) = dg_step d"
proof (cases "st_jobs (dg_state d) = [] \<and> st_situations (dg_state d) = [] \<and>
    st_status (dg_state d) = S_Planning")
  case True
  show ?thesis
  proof (cases "dc_plan (en_config E)")
    case None
    with True show ?thesis by (simp add: first_work_def Let_def quiet_intros)
  next
    case (Some specs)
    let ?errors = "validate_jobs specs (en_config E) [] job_categories @
        check_minimums (\<lambda>cat. count_specs cat specs) (en_config E)"
    have start: "first_work E d = start_authored E specs d"
      using True Some by (simp add: first_work_def Let_def)
    show ?thesis
    proof (cases "?errors = []")
      case False
      then obtain m where "start_authored E specs d = on_state (fail_run E m) d"
        unfolding start_authored_def Let_def by (simp only: if_True not_False_eq_True)
      then show ?thesis unfolding start by (simp add: quiet_intros)
    next
      case errors: True
      then have valid: "validate_jobs specs (en_config E) (st_jobs (dg_state d)) job_categories = []"
        using True by simp
      have "start_authored E specs d = on_state (\<lambda>s. log_event (en_now E) ''plan_authored'' None
          (nat_digits (length specs) @ '' job(s)'')
          (s\<lparr>st_jobs := st_jobs s @ map (job_of_spec ''author'') specs, st_status := S_Running\<rparr>)) d"
        unfolding start_authored_def Let_def using errors by (simp only: if_False not_not simp_thms)
      then show ?thesis
        unfolding start
        by (auto intro!: quiet_log quiet_new_jobs [OF _ _ _ valid])
    qed
  qed
next
  case False
  then show ?thesis by (auto simp: first_work_def Let_def)
qed

lemma settle_rounds_ok:
  assumes run: "settle_rounds decide E d = Inr d'" and ok: "state_ok (en_config E) (dg_state d)"
    and none: "no_launches d"
  shows "pass_ok (en_config E) (dg_state d) (dg_state d') \<and> launches_fine d'"
proof -
  from run obtain broke d1 where rounds: "rounds 4 decide E d = Inr (broke, d1)"
    and d': "d' = (if \<not> broke \<and> \<not> settled_or_gated (dg_state d1) \<and> st_situations (dg_state d1) = []
                  then snd (launch_ready E d1) else d1)"
    unfolding settle_rounds_def bindE_Inr_iff by auto
  note r = rounds_ok [OF rounds ok none]
  then have p: "pass_ok (en_config E) (dg_state d) (dg_state d1)" and fine: "launches_fine d1" by simp_all
  obtain ls d2 where d2: "launch_ready E d1 = (ls, d2)" by fastforce
  note l = launch_ready_pass [OF d2 pass_okD [OF p ok] fine]
  show ?thesis using p fine l pass_ok_trans [OF p l(1)] by (simp add: d' d2)
qed

lemma run_pass_ok:
  assumes run: "run_pass decide E events res stopped d = Inr (status, d')"
    and ok: "state_ok (en_config E) (dg_state d)" and none: "no_launches d"
    and live: "\<not> ended (dg_state d)"
  shows "pass_ok (en_config E) (dg_state d) (dg_state d') \<and> outcome_ok E status (dg_state d') \<and>
     (status = Run \<longrightarrow> launches_fine d')"
proof -
  let ?cf = "en_config E" and ?s = "dg_state d"
  have False: "st_status ?s \<noteq> S_Completed" "st_status ?s \<noteq> S_Failed" using live by (simp_all add: ended_def)
  define d1 where "d1 = fold (ingest E) events (load_live d)"
  have q1: "quiet ?cf ?s (dg_state d1)"
    using quiet_events [of E "load_live d" events] by (simp add: d1_def)
  have n1: "no_launches d1" using none by (simp add: d1_def no_launches_def launch_free)
  have ok1: "state_ok ?cf (dg_state d1)" using q1 ok by (simp add: quiet_def)
  let ?resolve = "case res of
        Some r \<Rightarrow> if open_decisions (dg_state d1) \<noteq> [] then resolve_all decide E r d1 else Inr d1
      | None \<Rightarrow> Inr d1"
  have pass: "run_pass decide E events res stopped d =
      (if stopped then Inr (Step_Failed, on_state (fail_run E ''run was stopped'') (stop_all E d1))
       else bindE ?resolve (\<lambda>d2. bindE (settle_rounds decide E (first_work E d2)) (\<lambda>d3. Inr (conclude E d3))))"
    using False by (cases "st_status ?s") (simp_all add: run_pass_def Let_def flip: d1_def)
  show ?thesis
  proof (cases stopped)
    case True
    then have "status = Step_Failed" and d': "d' = on_state (fail_run E ''run was stopped'') (stop_all E d1)"
      using run [unfolded pass] by auto
    moreover have "quiet ?cf ?s (dg_state d')"
      unfolding d' using quiet_trans [OF q1 stop_all_ok(1) [OF ok1]] by (simp add: quiet_outer(3))
    moreover have "running_jobs (dg_state d') = []"
      unfolding d' using stop_all_idle [OF ok1] by (simp add: running_jobs_def)
    ultimately show ?thesis using quiet_pass by (simp add: d')
  next
    case on: False
    from run [unfolded pass] on obtain d2 d3 where d2: "?resolve = Inr d2"
      and d3: "settle_rounds decide E (first_work E d2) = Inr d3"
      and d': "conclude E d3 = (status, d')"
      by (auto simp: bindE_Inr_iff)
    have p2: "pass_ok ?cf (dg_state d1) (dg_state d2)" and n2: "no_launches d2"
      using d2 n1 calm_pass [OF calm_resolve_all] launches_resolve_each
      by (auto simp: pass_ok_def no_launches_def resolve_all_def split: option.splits if_splits)
    let ?d2 = "first_work E d2"
    have p2': "pass_ok ?cf ?s (dg_state ?d2)" and n2': "no_launches ?d2"
      using pass_ok_trans [OF quiet_pass [OF q1] pass_ok_trans [OF p2 quiet_pass]] first_work_ok [of E d2] n2
      by (auto simp: no_launches_def)
    note p3 = settle_rounds_ok [OF d3 pass_okD [OF p2' ok] n2']
    then have s3: "pass_ok ?cf ?s (dg_state d3)" and f3: "launches_fine d3" using pass_ok_trans [OF p2'] by auto
    note end_ = conclude_ok [OF d' pass_okD [OF s3 ok]]
    have "launches_fine d'" if "status = Run"
    proof -
      have jobs: "st_jobs (dg_state d') = st_jobs (dg_state d3)" by (rule end_(4) [OF that])
      then have "launch_fine (dg_state d') l = launch_fine (dg_state d3) l" for l
        by (simp add: launch_fine_def find_job_def)
      then show ?thesis using f3 by (simp add: launches_fine_def end_(3))
    qed
    then show ?thesis using pass_ok_trans [OF s3 quiet_pass [OF end_(1)]] end_(2) by simp
  qed
qed

lemma collect_usage_simps [simp]:
  "st_jobs (dg_state (collect_usage d)) = st_jobs (dg_state d)"
  "st_decisions (dg_state (collect_usage d)) = st_decisions (dg_state d)"
  "st_events (dg_state (collect_usage d)) = st_events (dg_state d)"
  "st_status (dg_state (collect_usage d)) = st_status (dg_state d)"
  "dg_step (collect_usage d) = dg_step d"
  by (simp_all add: collect_usage_def)

lemma quiet_usage: "quiet cf (dg_state d) (dg_state (collect_usage d))"
  by (rule quiet_fields [where ds = "[]"]) simp_all

lemma outcome_usage: "outcome_ok E status (dg_state (collect_usage d)) = outcome_ok E status (dg_state d)"
proof -
  have "all_done E (dg_state (collect_usage d)) = all_done E (dg_state d)" by (rule all_done_cong) simp
  then show ?thesis by (cases status) (simp_all add: running_jobs_def open_decisions_def)
qed

lemma schedule_ok:
  assumes run: "schedule decide E events res stopped (new_dag s m) = Inr (status, d')"
    and ok: "state_ok (en_config E) s" and live: "\<not> ended s"
  shows "pass_ok (en_config E) s (dg_state d') \<and> outcome_ok E status (dg_state d') \<and>
     (status = Run \<longrightarrow> launches_fine d')"
proof -
  let ?d = "new_dag s m"
  from run obtain d1 where d1: "run_pass decide E events res stopped (?d\<lparr>dg_step := empty_step\<rparr>) = Inr (status, d1)"
    and d': "d' = collect_usage d1"
    by (auto simp: schedule_def bindE_Inr_iff)
  have start: "dg_state (?d\<lparr>dg_step := empty_step\<rparr>) = s" by (simp add: new_dag_def)
  have "pass_ok (en_config E) s (dg_state d1) \<and> outcome_ok E status (dg_state d1) \<and> (status = Run \<longrightarrow> launches_fine d1)"
    using run_pass_ok [OF d1] ok live by (simp add: new_dag_def no_launches_def empty_step_def)
  moreover have "launches_fine d' = launches_fine d1"
    by (simp add: launches_fine_def launch_fine_def find_job_def d')
  ultimately show ?thesis
    using pass_ok_trans [OF _ quiet_pass [OF quiet_usage]] by (simp add: d' outcome_usage)
qed

lemma schedule_ended:
  assumes "schedule decide E events res stopped (new_dag s m) = Inr (status, d')" and "ended s"
  shows "quiet cf s (dg_state d')"
proof -
  from assms obtain d1 where "run_pass decide E events res stopped ((new_dag s m)\<lparr>dg_step := empty_step\<rparr>)
      = Inr (status, d1)" and d': "d' = collect_usage d1"
    by (auto simp: schedule_def bindE_Inr_iff)
  then have "dg_state d1 = s" using assms(2) by (auto simp: run_pass_def new_dag_def ended_def)
  with quiet_usage [of cf d1] show ?thesis by (simp add: d')
qed

section \<open>A manual retry\<close>

text \<open>
  A record mirrored on the run may already hold results the DAG has not taken in: an attempt settled
  while its job is still marked running.  \<open>mirror_ok\<close> is \<open>state_ok\<close> for such records.
\<close>

definition mirror_job_ok :: "dynamic_config \<Rightarrow> run_state \<Rightarrow> job \<Rightarrow> bool" where
  "mirror_job_ok cf s j \<longleftrightarrow>
     attempts_ok (jb_attempts j) \<and> (running_attempt (jb_attempts j) \<longrightarrow> jb_status j = Running) \<and>
     length (jb_notes j) \<le> 50 \<and> trailing_retries j \<le> retry_budget cf s (jb_id j) \<and>
     (jb_pending_reason j = Some ''retry'' \<longrightarrow> trailing_retries j < retry_budget cf s (jb_id j))"

definition mirror_ok :: "dynamic_config \<Rightarrow> run_state \<Rightarrow> bool" where
  "mirror_ok cf s \<longleftrightarrow>
     distinct (map jb_id (st_jobs s)) \<and> (\<forall>j \<in> set (st_jobs s). mirror_job_ok cf s j) \<and>
     (\<forall>dc \<in> set (st_decisions s). decision_ok dc) \<and> length (st_events s) \<le> 500"

lemma state_mirror_ok: "state_ok cf s \<Longrightarrow> mirror_ok cf s"
  by (auto simp: state_ok_def mirror_ok_def job_ok_def mirror_job_ok_def)

lemma retry_grants_decisions: "dc \<in> set (retry_grants E k js) \<Longrightarrow> decision_ok dc"
  by (induction E k js rule: retry_grants.induct) (auto simp: decision_ok_def retry_grant_def split: if_splits)

lemma retry_grants_count:
  assumes "distinct (map jb_id js)" and "j \<in> set js"
  shows "length (filter (\<lambda>dc. de_kind dc = D_Escalation \<and> de_approved dc = Some True \<and>
           payload_job (de_payload dc) = Some (jb_id j)) (retry_grants E k js)) =
         (if stuck (jb_status j) then 1 else 0)"
  using assms
proof (induction E k js rule: retry_grants.induct)
  case (2 E k x js)
  have other: "filter (\<lambda>dc. de_kind dc = D_Escalation \<and> de_approved dc = Some True \<and>
      payload_job (de_payload dc) = Some i) (retry_grants E k' js) = []" if "i \<notin> jb_id ` set js" for i k'
    using that by (induction E k' js rule: retry_grants.induct) (auto simp: retry_grant_def)
  show ?case
  proof (cases "j \<in> set js")
    case True
    then have "jb_id x \<noteq> jb_id j" using "2.prems"(1) by (auto simp: image_iff)
    then show ?thesis
      using 2 True by (cases "stuck (jb_status x)"; cases "stuck (jb_status j)") (simp_all add: retry_grant_def)
  next
    case False
    then have "x = j" using "2.prems"(2) by simp
    moreover have "jb_id j \<notin> jb_id ` set js" using "2.prems"(1) \<open>x = j\<close> by simp
    ultimately show ?thesis using other by (simp add: retry_grant_def)
  qed
qed simp

lemma granted_superseded:
  "length (filter (\<lambda>dc. de_kind dc = D_Escalation \<and> de_approved dc = Some True \<and>
       payload_job (de_payload dc) = Some jid)
     (map (\<lambda>dc. if de_resolved dc then dc
        else dc\<lparr>de_resolved := True, de_approved := Some False, de_reason := r\<rparr>) ds)) =
   length (filter (\<lambda>dc. de_kind dc = D_Escalation \<and> de_approved dc = Some True \<and>
       payload_job (de_payload dc) = Some jid) ds)"
  if "\<forall>dc \<in> set ds. decision_ok dc"
  using that
proof (induction ds)
  case (Cons dc ds)
  have "\<not> de_resolved dc \<Longrightarrow> \<not> (de_kind dc = D_Escalation \<and> payload_job (de_payload dc) = Some jid)"
    using Cons.prems by (cases "de_payload dc") (auto simp: decision_ok_def)
  with Cons show ?case by auto
qed simp

lemma granted_reset:
  assumes "mirror_ok cf s" and "j \<in> set (st_jobs s)"
  shows "granted_retries (reset_for_retry E s) (jb_id j) =
         granted_retries s (jb_id j) + (if stuck (jb_status j) then 1 else 0)"
proof -
  have ds: "\<forall>dc \<in> set (st_decisions s). decision_ok dc" and dist: "distinct (map jb_id (st_jobs s))"
    using assms(1) by (simp_all add: mirror_ok_def)
  have "st_decisions (reset_for_retry E s) = map (\<lambda>dc. if de_resolved dc then dc
      else dc\<lparr>de_resolved := True, de_approved := Some False,
              de_reason := Some ''superseded by a manual retry''\<rparr>) (st_decisions s)
      @ retry_grants E (length (st_decisions s)) (st_jobs s)"
    by (simp add: reset_for_retry_def)
  then show ?thesis
    unfolding granted_retries_def
    by (simp only: filter_append length_append granted_superseded [OF ds] retry_grants_count [OF dist assms(2)])
qed

lemma retry_job_simps [simp]:
  "jb_id (retry_job j) = jb_id j" "jb_notes (retry_job j) = jb_notes j"
  "jb_category (retry_job j) = jb_category j" "jb_depends_on (retry_job j) = jb_depends_on j"
  by (simp_all add: retry_job_def Let_def split: option.split)

lemma retry_job_attempts:
  "jb_attempts (retry_job j) =
     (if stuck (jb_status j) \<and> running_attempt (jb_attempts j)
      then butlast (jb_attempts j) @ [(last (jb_attempts j))\<lparr>at_status := A_Cancelled\<rparr>]
      else jb_attempts j)"
  by (simp add: retry_job_def last_attempt_def running_attempt_def Let_def)

lemma retry_grants_resolved: "dc \<in> set (retry_grants E k js) \<Longrightarrow> de_resolved dc"
  by (induction E k js rule: retry_grants.induct) (auto simp: retry_grant_def split: if_splits)

lemma reset_for_retry_simps [simp]:
  "st_jobs (reset_for_retry E s) = map retry_job (st_jobs s)"
  "open_decisions (reset_for_retry E s) = []"
  "st_status (reset_for_retry E s) = (if st_jobs s = [] then S_Planning else S_Running)"
  "length (st_events (reset_for_retry E s)) \<le> 500"
  using retry_grants_resolved
  by (auto simp: reset_for_retry_def open_decisions_def filter_empty_conv log_event_def)

lemma trailing_retries_last:
  assumes "jb_attempts j' = butlast (jb_attempts j) @ [g (last (jb_attempts j))]" and "jb_attempts j \<noteq> []"
    and "\<And>a. at_reason (g a) = at_reason a"
  shows "trailing_retries j' = trailing_retries j"
  unfolding trailing_retries_reasons assms(1) using map_close_last [of "jb_attempts j" at_reason g] assms(2,3) by simp

lemma retried_ok:
  assumes ok: "mirror_ok cf s" and j: "j \<in> set (st_jobs s)"
  shows "job_ok cf (reset_for_retry E s) (retry_job j)"
proof -
  let ?s = "reset_for_retry E s" and ?j = "retry_job j"
  have jok: "mirror_job_ok cf s j" using ok j by (simp add: mirror_ok_def)
  have budget: "retry_budget cf ?s (jb_id j) = retry_budget cf s (jb_id j) + (if stuck (jb_status j) then 1 else 0)"
    by (simp add: retry_budget_def granted_reset [OF ok j])
  show ?thesis
  proof (cases "stuck (jb_status j)")
    case False
    then have same: "?j = j" by (simp add: retry_job_def)
    have "jb_status j \<noteq> Running" using False by (auto simp: stuck_def)
    then show ?thesis
      using jok budget False unfolding same job_ok_def mirror_job_ok_def by simp
  next
    case True
    then have status: "jb_status ?j = Pending" and reason: "jb_pending_reason ?j = Some ''retry''"
      by (simp_all add: retry_job_def Let_def)
    have "attempts_ok (jb_attempts ?j) \<and> \<not> running_attempt (jb_attempts ?j) \<and>
        trailing_retries ?j = trailing_retries j"
    proof (cases "running_attempt (jb_attempts j)")
      case running: True
      let ?g = "\<lambda>a. a\<lparr>at_status := A_Cancelled\<rparr>"
      have as: "jb_attempts ?j = butlast (jb_attempts j) @ [?g (last (jb_attempts j))]" and ne: "jb_attempts j \<noteq> []"
        using True running by (simp_all add: retry_job_attempts running_attempt_def)
      have "map at_n (jb_attempts ?j) = map at_n (jb_attempts j)"
        unfolding as by (rule map_close_last [OF ne]) simp
      then have "attempts_ok (jb_attempts ?j)"
        using jok ne by (simp add: mirror_job_ok_def attempts_ok_def as)
      moreover have "trailing_retries ?j = trailing_retries j"
        by (rule trailing_retries_last [where g = ?g, OF as ne]) simp
      ultimately show ?thesis by (simp add: as running_attempt_def)
    next
      case idle: False
      then have "jb_attempts ?j = jb_attempts j" by (simp add: retry_job_attempts)
      then show ?thesis using jok idle by (simp add: mirror_job_ok_def trailing_retries_def)
    qed
    then show ?thesis
      using jok budget True status reason unfolding job_ok_def mirror_job_ok_def by simp
  qed
qed

lemma reset_for_retry_ok:
  assumes ok: "mirror_ok cf s"
  shows "state_ok cf (reset_for_retry E s)" and "running_jobs (reset_for_retry E s) = []"
proof -
  let ?s = "reset_for_retry E s"
  have "distinct (map jb_id (st_jobs ?s))" using ok by (simp add: mirror_ok_def comp_def)
  moreover have "\<forall>j \<in> set (st_jobs ?s). job_ok cf ?s j" using retried_ok [OF ok] by simp
  moreover have "decision_ok dc" if "dc \<in> set (st_decisions ?s)" for dc
  proof -
    from that consider dc' where "dc' \<in> set (st_decisions s)" "dc = (if de_resolved dc' then dc'
        else dc'\<lparr>de_resolved := True, de_approved := Some False,
                 de_reason := Some ''superseded by a manual retry''\<rparr>)"
      | "dc \<in> set (retry_grants E (length (st_decisions s)) (st_jobs s))"
      by (auto simp: reset_for_retry_def)
    then show ?thesis
    proof cases
      case 1
      then have "decision_ok dc'" using ok by (simp add: mirror_ok_def)
      with 1(2) show ?thesis by (simp add: decision_ok_def split: payload.splits)
    qed (rule retry_grants_decisions)
  qed
  ultimately show "state_ok cf ?s" unfolding state_ok_def by simp
  show "running_jobs ?s = []"
    by (auto simp: running_jobs_def filter_empty_conv retry_job_def stuck_def Let_def)
qed

section \<open>Histories\<close>

text \<open>
  The record of a run under one configuration: it starts empty, passes fold events and resolutions in
  whatever the meta-agent and the clock say, results are noted on the mirrored copy, and a
  manual retry starts over from the mirror.
\<close>

definition note_result :: "env \<Rightarrow> attempt_result \<Rightarrow> run_state \<Rightarrow> run_state" where
  "note_result E r s = on_job (ar_job_id r) (on_attempt (ar_attempt r) (settle_attempt E r)) s"

inductive dag_history :: "dynamic_config \<Rightarrow> run_state \<Rightarrow> bool" for cf :: dynamic_config where
  start: "dag_history cf (empty_run_state step_id)"
| pass: "dag_history cf s \<Longrightarrow> en_config E = cf \<Longrightarrow>
    schedule decide E events res stopped (new_dag s m) = Inr (status, d') \<Longrightarrow> dag_history cf (dg_state d')"
| retry: "dag_history cf s \<Longrightarrow> en_config E = cf \<Longrightarrow>
    dag_history cf (reset_for_retry E (fold (note_result E) results s))"

lemma note_result_ok:
  assumes ok: "mirror_ok cf s"
  shows "mirror_ok cf (note_result E r s)"
proof -
  let ?h = "on_attempt (ar_attempt r) (settle_attempt E r)"
  let ?s = "note_result E r s"
  let ?g = "\<lambda>j. if jb_id j = ar_job_id r then ?h j else j"
  have jobs: "st_jobs ?s = map ?g (st_jobs s)" by (simp add: note_result_def on_job_def)
  have ds: "st_decisions ?s = st_decisions s" "st_events ?s = st_events s"
    by (simp_all add: note_result_def)
  have "granted_retries ?s = granted_retries s" by (simp add: granted_retries_def fun_eq_iff ds)
  then have same: "mirror_job_ok cf ?s = mirror_job_ok cf s"
    by (simp add: fun_eq_iff mirror_job_ok_def retry_budget_def)
  have settled: "mirror_job_ok cf s (?h j)" if j: "mirror_job_ok cf s j" for j
  proof -
    let ?f = "\<lambda>a. if at_n a = ar_attempt r then settle_attempt E r a else a"
    have as: "jb_attempts (?h j) = map ?f (jb_attempts j)" by (simp add: on_attempt_def)
    have ns: "map at_n (map ?f (jb_attempts j)) = map at_n (jb_attempts j)"
      and rs: "map at_reason (map ?f (jb_attempts j)) = map at_reason (jb_attempts j)" by simp_all
    have stat: "at_status (?f a) = A_Running \<Longrightarrow> at_status a = A_Running" for a by (auto split: if_splits)
    have old: "attempts_ok (jb_attempts j)" using j by (simp add: mirror_job_ok_def)
    have "at_status a \<noteq> A_Running" if "a \<in> set (butlast (map ?f (jb_attempts j)))" for a
    proof -
      from that obtain b where "b \<in> set (butlast (jb_attempts j))" "a = ?f b"
        unfolding map_butlast [symmetric] set_map by blast
      then show ?thesis using old stat [of b] unfolding attempts_ok_def by blast
    qed
    then have "attempts_ok (map ?f (jb_attempts j))"
      using old unfolding attempts_ok_def ns length_map by blast
    moreover have "running_attempt (map ?f (jb_attempts j)) \<Longrightarrow> running_attempt (jb_attempts j)"
    proof -
      assume r: "running_attempt (map ?f (jb_attempts j))"
      then have ne: "jb_attempts j \<noteq> []" unfolding running_attempt_def by (elim conjE) simp
      from r have "at_status (?f (last (jb_attempts j))) = A_Running"
        unfolding running_attempt_def last_map [OF ne] by (rule conjunct2)
      then have "at_status (last (jb_attempts j)) = A_Running" by (rule stat)
      with ne show ?thesis unfolding running_attempt_def by (rule conjI)
    qed
    moreover have "trailing_retries (?h j) = trailing_retries j"
      unfolding trailing_retries_reasons as rs ..
    moreover have "jb_notes (?h j) = jb_notes j" by (simp add: on_attempt_def)
    ultimately show ?thesis using j unfolding mirror_job_ok_def as by simp
  qed
  have "map jb_id (st_jobs ?s) = map jb_id (st_jobs s)" by (simp add: jobs)
  moreover have "\<forall>j \<in> set (st_jobs ?s). mirror_job_ok cf ?s j"
    using ok settled unfolding same jobs mirror_ok_def set_map by (intro ballI) (elim imageE, simp)
  ultimately show ?thesis using ok unfolding mirror_ok_def ds by simp
qed

lemma note_results_ok: "mirror_ok cf s \<Longrightarrow> mirror_ok cf (fold (note_result E) rs s)"
  by (induction rs arbitrary: s) (simp_all add: note_result_ok)

lemma dag_history_ok: "dag_history cf s \<Longrightarrow> state_ok cf s"
proof (induction rule: dag_history.induct)
  case (start step_id)
  then show ?case by (simp add: state_ok_def empty_run_state_def)
next
  case (pass s E decide events res stopped m status d')
  show ?case
  proof (cases "ended s")
    case True
    from schedule_ended [OF pass(3) True, of cf] pass(4) show ?thesis by (simp add: quiet_def)
  next
    case False
    from schedule_ok [OF pass(3) _ False] pass(2,4) show ?thesis by (simp add: pass_ok_def)
  qed
next
  case (retry s E results)
  then show ?case by (intro reset_for_retry_ok note_results_ok state_mirror_ok)
qed

lemma dag_history_parallel: "dag_history cf s \<Longrightarrow> length (running_jobs s) \<le> li_max_parallel (dc_limits cf)"
proof (induction rule: dag_history.induct)
  case (start step_id)
  then show ?case by (simp add: running_jobs_def empty_run_state_def)
next
  case (pass s E decide events res stopped m status d')
  have ok: "state_ok cf s" by (rule dag_history_ok [OF pass(1)])
  show ?case
  proof (cases "ended s")
    case True
    from schedule_ended [OF pass(3) True, of cf] pass(4) ok show ?thesis by (simp add: quiet_def)
  next
    case False
    from schedule_ok [OF pass(3) _ False] pass(2,4) ok show ?thesis by (simp add: pass_ok_def)
  qed
next
  case (retry s E results)
  then have "mirror_ok cf (fold (note_result E) results s)"
    by (intro note_results_ok state_mirror_ok dag_history_ok)
  then show ?case by (simp add: reset_for_retry_ok(2))
qed

end
