(* ===== verification/MetaAgent.thy ===== *)
theory MetaAgent
  imports JobGuarantees
begin

text \<open>
  The meta-agent: what it is shown and how the meta-LLM implementation answers
  (\<^verbatim>\<open>app/infrastructure/orchestration/dynamic/meta_agent.py\<close>), and the interface the job
  graph relies on, as a locale: a decision is one its \<^verbatim>\<open>validate\<close> accepted.  Inside it,
  a consultation never leaves the DAG with a broken structure.
\<close>

section \<open>The view as text\<close>

definition truncate_text :: "nat \<Rightarrow> json \<Rightarrow> string" where
  "truncate_text cap v =
     (let txt = (case v of JStr s \<Rightarrow> s | _ \<Rightarrow> dumps v)
      in if length txt \<le> cap then txt
         else take cap txt @ ''... [truncated '' @ nat_digits (length txt - cap) @ '' chars]'')"

fun situation_text :: "situation_kind \<Rightarrow> string" where
  "situation_text Start = ''A new request. Plan it, or start by gathering information.''"
| "situation_text Phase_Done = ''Nothing is running or waiting. Plan the next phase from the results, or finish.''"
| "situation_text Change_Request = ''A validator failed its check.''"
| "situation_text Question = ''An agent stopped and asks questions; its job waits for you.''"
| "situation_text Live_Question = ''A running agent asks a question and is waiting for the answer.''"
| "situation_text Needs_Help = ''A job asks for information or help; it waits for you.''"
| "situation_text Failure = ''A job keeps failing; it waits for you.''"
| "situation_text Rejected = ''A human rejected your last decision. Decide again, addressing their reason.''"
| "situation_text Human_Answer = ''A human answered your question.''"

fun attempt_status_name :: "attempt_status \<Rightarrow> string" where
  "attempt_status_name A_Running = ''running''"
| "attempt_status_name A_Finished = ''finished''"
| "attempt_status_name A_Failed = ''failed''"
| "attempt_status_name A_Cancelled = ''cancelled''"
| "attempt_status_name A_Needs_Input = ''needs_input''"

definition job_line :: "job \<Rightarrow> string" where
  "job_line j =
     (let listed = (\<lambda>name xs. if xs = [] then '''' else '' '' @ name @ ''='' @ repr_list xs);
          head = ''- '' @ jb_id j @ '' ['' @ category_name (jb_category j) @ ''] agent='' @ jb_agent_id j
            @ '' status='' @ job_status_name (jb_status j) @ '' attempts='' @ nat_digits (length (jb_attempts j))
            @ listed ''depends_on'' (jb_depends_on j) @ listed ''datasources'' (jb_datasources j)
            @ listed ''owns'' (jb_owns j);
          out = (case job_output j of None \<Rightarrow> []
                 | Some o' \<Rightarrow> [''  output: '' @ truncate_text 1500 (JObj o')]);
          last = (case last_attempt j of None \<Rightarrow> []
             | Some a \<Rightarrow> if at_status a = A_Failed \<or> at_status a = A_Needs_Input
                 then [''  last attempt '' @ attempt_status_name (at_status a) @ '': ''
                       @ truncate_text 600 (if truthy (at_error a) then opt_json (at_error a)
                                            else JList (map JStr (at_questions a)))]
                 else [])
      in join newline ([head, ''  brief: '' @ truncate_text 600 (JStr (jb_prompt j))] @ out @ last
           @ map (\<lambda>n. ''  note ('' @ jn_source n @ ''): '' @ truncate_text 400 (JStr (jn_text n)))
               (last_n 3 (jb_notes j))))"

definition render_context :: "dynamic_config \<Rightarrow> string list" where
  "render_context cf =
     (case dc_repo cf of None \<Rightarrow> []
      | Some r \<Rightarrow> [''Repository: '' @ rc_url r @ '' (base branch '' @ rc_base_branch r @ ''; verify: ''
          @ (if rc_verify r = [] then ''none configured'' else join ''; '' (rc_verify r)) @ '')'']) @
     (case dc_shared_volume cf of None \<Rightarrow> []
      | Some v \<Rightarrow> [''All jobs share a volume at '' @ sv_mount_point v @ ''.'']) @
     (if py_strip (dc_instructions cf) = '''' then []
      else [''Author's instructions:'' @ newline @ py_strip (dc_instructions cf)])"

definition situation_line :: "situation \<Rightarrow> string" where
  "situation_line x =
     ''- '' @ situation_name (si_kind x)
     @ (case si_job_id x of None \<Rightarrow> '''' | Some jid \<Rightarrow> if jid = '''' then '''' else '' (job '' @ jid @ '')'')
     @ '': '' @ situation_text (si_kind x)
     @ (if si_detail x = [] then '''' else newline @ ''  '' @ truncate_text 3000 (JObj (si_detail x)))"

text \<open>\<^verbatim>\<open>render_view\<close>; \<open>actions_help\<close> is the constant \<^verbatim>\<open>_ACTIONS\<close>.\<close>

definition render_view :: "string \<Rightarrow> meta_view \<Rightarrow> string" where
  "render_view actions_help v =
     (let cf = vw_config v; s = vw_dag v; limits = dc_limits cf;
          jobs = filter (\<lambda>j. jb_status j \<noteq> Removed) (st_jobs s);
          removed = map jb_id (filter (\<lambda>j. jb_status j = Removed) (st_jobs s));
          context = render_context cf
      in ''Request:'' @ newline @ vw_request v @ newlines2
         @ ''Roster:'' @ newline @ vw_roster v @ newlines2
         @ ''Data sources you may grant:'' @ newline @ describe_datasources cf @ newlines2
         @ ''Job slots (min-max): ''
         @ join '', '' (map (\<lambda>c. category_name c @ '': '' @ nat_digits (sl_min (dc_jobs cf c)) @ ''-''
             @ nat_digits (sl_max (dc_jobs cf c))) job_categories)
         @ ''. Max total jobs: '' @ nat_digits (li_max_total_jobs limits)
         @ ''. Max parallel jobs: '' @ nat_digits (li_max_parallel limits)
         @ ''. Rearrangements used: '' @ nat_digits (st_rearrangements s) @ '' of ''
         @ nat_digits (li_max_rearrangements limits) @ ''.'' @ newline
         @ (if context = [] then '''' else join newline context @ newline)
         @ newline @ ''Job DAG:'' @ newline
         @ (if jobs = [] then ''(no jobs yet)'' else join newline (map job_line jobs)) @ newline
         @ (if removed = [] then '''' else ''Removed jobs (ids may not be reused): '' @ repr_list removed @ newline)
         @ newline @ ''Decide about:'' @ newline
         @ join newline (map situation_line (vw_situations v)) @ newlines2 @ actions_help)"

section \<open>The meta-LLM\<close>

text \<open>
  \<open>ask k prompt\<close> is the answer to the \<open>k\<close>-th call (the text and its token usage, or an
  exception); \<open>parse\<close> is \<^verbatim>\<open>MetaDecision.model_validate(_extract_json(text))\<close>, \<open>Inl\<close>
  its error.
\<close>

record llm =
  lm_ask :: "nat \<Rightarrow> string \<Rightarrow> string + (string \<times> nat dict)"
  lm_parse :: "string \<Rightarrow> string + meta_decision"
  lm_actions_help :: string

definition count_usage :: "nat dict \<Rightarrow> meta_state \<Rightarrow> meta_state" where
  "count_usage used m =
     m\<lparr>ms_usage := fold (\<lambda>(k, v) u. AList.update k ((case map_of u k of None \<Rightarrow> 0 | Some n \<Rightarrow> n) + v) u)
         used (ms_usage m), ms_calls := ms_calls m + 1\<rparr>"

text \<open>\<^verbatim>\<open>_ask\<close>.\<close>

definition ask_llm :: "llm \<Rightarrow> string \<Rightarrow> meta_state \<Rightarrow> (string + string) \<times> meta_state" where
  "ask_llm L prompt m =
     (case lm_ask L (ms_calls m) prompt of
        Inl e \<Rightarrow> (Inl e, m\<lparr>ms_calls := ms_calls m + 1\<rparr>)
      | Inr (txt, used) \<Rightarrow> (Inr txt, count_usage used m))"

definition answer_errors :: "llm \<Rightarrow> (meta_decision \<Rightarrow> string list) \<Rightarrow> string \<Rightarrow> string list" where
  "answer_errors L check txt =
     (case lm_parse L txt of
        Inl e \<Rightarrow> [''answer is not valid JSON for the schema: '' @ e]
      | Inr dec \<Rightarrow> check dec)"

definition repair_prompt :: "string \<Rightarrow> string \<Rightarrow> string list \<Rightarrow> string" where
  "repair_prompt user txt errors =
     user @ newlines2 @ ''Your previous answer:'' @ newline @ truncate_text 8000 (JStr txt) @ newlines2
     @ ''It was rejected for these reasons:'' @ newline @ ''- '' @ join (newline @ ''- '') errors @ newlines2
     @ ''Answer again, fixing every problem.''"

text \<open>
  \<^verbatim>\<open>decide\<close>: an answer, repaired once.  An accepted answer parses (its errors would be the
  parser's otherwise), so the last case is not reached.
\<close>

definition accepted :: "llm \<Rightarrow> string \<Rightarrow> meta_failure + meta_decision" where
  "accepted L txt =
     (case lm_parse L txt of Inr dec \<Rightarrow> Inr dec | Inl e \<Rightarrow> Inl (Dispatcher_Error ''unreachable''))"

definition llm_decide :: "llm \<Rightarrow> decider" where
  "llm_decide L view check m =
     (let user = render_view (lm_actions_help L) view
      in case ask_llm L user m of
           (Inl e, m1) \<Rightarrow> (Inl (Other_Error e), m1)
         | (Inr txt, m1) \<Rightarrow>
             (let errors = answer_errors L check txt
              in if errors = [] then (accepted L txt, m1)
                 else case ask_llm L (repair_prompt user txt errors) m1 of
                   (Inl e, m2) \<Rightarrow> (Inl (Other_Error e), m2)
                 | (Inr txt2, m2) \<Rightarrow>
                     (let errors2 = answer_errors L check txt2
                      in if errors2 = [] then (accepted L txt2, m2)
                         else (Inl (Dispatcher_Error (''meta-agent answer still invalid after repair: ''
                                 @ join ''; '' errors2)), m2))))"

section \<open>What an action depends on\<close>

text \<open>
  An action reads the jobs and the live questions, nothing else: on the copy a decision is tried on
  it does what it does on the DAG.
\<close>

definition core :: "dag \<Rightarrow> job list \<times> (string \<Rightarrow> (nat \<times> string option) option)" where
  "core d = (st_jobs (dg_state d), dg_live d)"

definition core_only :: "(dag \<Rightarrow> dag) \<Rightarrow> bool" where
  "core_only f \<longleftrightarrow> (\<forall>d1 d2. core d1 = core d2 \<longrightarrow> core (f d1) = core (f d2))"

definition core_onlyE :: "(dag \<Rightarrow> string + dag) \<Rightarrow> bool" where
  "core_onlyE f \<longleftrightarrow> (\<forall>d1 d2. core d1 = core d2 \<longrightarrow> map_sum id core (f d1) = map_sum id core (f d2))"

lemma core_onlyI: "(\<And>d1 d2. core d1 = core d2 \<Longrightarrow> core (f d1) = core (f d2)) \<Longrightarrow> core_only f"
  unfolding core_only_def by blast

lemma core_onlyD: "core_only f \<Longrightarrow> core d1 = core d2 \<Longrightarrow> core (f d1) = core (f d2)"
  unfolding core_only_def by blast

lemma core_only_comp: "core_only f \<Longrightarrow> core_only g \<Longrightarrow> core_only (\<lambda>d. f (g d))"
  by (rule core_onlyI) (rule core_onlyD, assumption, rule core_onlyD)

lemma core_only_state:
  assumes "\<And>s1 s2. st_jobs s1 = st_jobs s2 \<Longrightarrow> st_jobs (f s1) = st_jobs (f s2)"
  shows "core_only (on_state f)"
proof (rule core_onlyI)
  fix d1 d2 assume "core d1 = core d2"
  then have "st_jobs (dg_state d1) = st_jobs (dg_state d2)" and "dg_live d1 = dg_live d2"
    by (simp_all add: core_def)
  with assms [OF this(1)] show "core (on_state f d1) = core (on_state f d2)" by (simp add: core_def)
qed

lemma core_only_fold:
  assumes "\<And>x. core_only (f x)"
  shows "core_only (fold f xs)"
proof (rule core_onlyI)
  fix d1 d2 assume "core d1 = core d2"
  then show "core (fold f xs d1) = core (fold f xs d2)"
  proof (induction xs arbitrary: d1 d2)
    case (Cons x xs)
    from Cons.IH [OF core_onlyD [OF assms Cons.prems]] show ?case by simp
  qed simp
qed

lemma find_job_cong: "st_jobs s1 = st_jobs s2 \<Longrightarrow> find_job s1 = find_job s2"
  by (simp add: find_job_def fun_eq_iff)

lemma core_findD: "core d1 = core d2 \<Longrightarrow> find_job (dg_state d1) = find_job (dg_state d2) \<and> dg_live d1 = dg_live d2"
  by (simp add: core_def find_job_def fun_eq_iff)

lemma core_stop: "core_only (stop_job E jid)"
proof (rule core_onlyI)
  fix d1 d2 assume c: "core d1 = core d2"
  then show "core (stop_job E jid d1) = core (stop_job E jid d2)"
    using core_findD [OF c] by (simp add: stop_job_def core_def on_job_def split: option.split)
qed

lemma core_on_job: "core_only (on_state (on_job jid f))"
  by (rule core_only_state) (simp add: on_job_def)

lemma core_reset: "core_only (reset_job E jid r)"
proof -
  have "core_only (on_state (\<lambda>s. drop_situations (\<lambda>x. si_job_id x = Some jid)
      (on_job jid (\<lambda>j. j\<lparr>jb_status := Pending, jb_pending_reason := Some r\<rparr>) s)))"
    by (rule core_only_state) (simp add: on_job_def)
  from core_only_comp [OF this core_stop] show ?thesis by (simp add: reset_job_def [abs_def])
qed

lemma core_deliver: "core_only (deliver_answer jid t)"
  by (rule core_onlyI) (auto simp: deliver_answer_def core_def split: option.split)

lemma core_only_if:
  assumes P: "\<And>d1 d2. core d1 = core d2 \<Longrightarrow> P d1 = P d2" and f: "core_only f" and g: "core_only g"
  shows "core_only (\<lambda>d. if P d then f d else g d)"
proof (rule core_onlyI)
  fix d1 d2 assume c: "core d1 = core d2"
  show "core (if P d1 then f d1 else g d1) = core (if P d2 then f d2 else g d2)"
    using core_onlyD [OF f c] core_onlyD [OF g c] P [OF c] by (cases "P d2") simp_all
qed

lemma core_answer: "core_only (answer_job E j t src ans)"
proof -
  define n where "n = on_state (on_job (jb_id j) (add_note (en_now E) src (''Answer: '' @ t)))"
  define given where "given = (if ans \<noteq> [] then ans
      else if (case last_attempt j of None \<Rightarrow> [] | Some a \<Rightarrow> at_questions a) \<noteq> []
      then fold (\<lambda>q. AList.update q (JStr t)) (case last_attempt j of None \<Rightarrow> [] | Some a \<Rightarrow> at_questions a) []
      else [(''answer'', JStr t)])"
  have n: "core_only n" unfolding n_def by (rule core_on_job)
  have eq: "answer_job E j t src ans = (\<lambda>d.
      if jb_status j = Running \<and> dg_live d (jb_id j) \<noteq> None then deliver_answer (jb_id j) t (n d)
      else if jb_status j = Waiting \<or> jb_status j = Pending
      then on_state (on_job (jb_id j) (\<lambda>j. j\<lparr>jb_pending_answers := Some given, jb_status := Pending,
              jb_pending_reason := Some ''answer''\<rparr>)) (n d)
      else n d)"
    by (rule ext) (simp only: answer_job_def Let_def n_def given_def)
  show ?thesis
    unfolding eq
  proof (intro core_only_if)
    show "core_only (\<lambda>d. deliver_answer (jb_id j) t (n d))" by (rule core_only_comp [OF core_deliver n])
    show "core_only (\<lambda>d. on_state (on_job (jb_id j) (\<lambda>j. j\<lparr>jb_pending_answers := Some given,
        jb_status := Pending, jb_pending_reason := Some ''answer''\<rparr>)) (n d))"
      by (rule core_only_comp [OF core_on_job n])
    show "core_only n" by (rule n)
  qed (auto dest: core_findD)
qed

lemma core_redo: "core_only (redo_dependents E jid rw t deps)"
proof (rule core_onlyI)
  fix d1 d2 assume "core d1 = core d2"
  then show "core (redo_dependents E jid rw t deps d1) = core (redo_dependents E jid rw t deps d2)"
  proof (induction deps arbitrary: d1 d2)
    case (Cons dep deps)
    let ?f = "\<lambda>d. if dep \<in> set rw then d
        else case find_job (dg_state d) dep of
               None \<Rightarrow> d
             | Some j \<Rightarrow>
                 if jb_status j \<in> {Finished, Failed, Skipped, Waiting, Running}
                 then on_state (on_job dep (add_note (en_now E) ''system''
                        (''Upstream job '' @ jid @ '' is being redone: '' @ t)))
                        (reset_job E dep ''upstream_changed'' d)
                 else d"
    have "core (?f d1) = core (?f d2)"
      using Cons.prems core_findD [OF Cons.prems]
        core_onlyD [OF core_only_comp [OF core_on_job core_reset] Cons.prems]
      by (simp split: option.split)
    from Cons.IH [OF this] show ?case by simp
  qed simp
qed

lemma core_onlyE_intro:
  "(\<And>d1 d2. core d1 = core d2 \<Longrightarrow> map_sum id core (f d1) = map_sum id core (f d2)) \<Longrightarrow> core_onlyE f"
  unfolding core_onlyE_def by (intro allI impI)

lemma core_onlyE_D: "core_onlyE f \<Longrightarrow> core d1 = core d2 \<Longrightarrow> map_sum id core (f d1) = map_sum id core (f d2)"
  unfolding core_onlyE_def by (elim allE impE)

lemma core_onlyE_I: "core_only f \<Longrightarrow> core_onlyE (\<lambda>d. Inr (f d))"
  by (rule core_onlyE_intro) (simp only: map_sum.simps, drule (1) core_onlyD, simp only:)

lemma core_onlyE_bind:
  assumes f: "core_onlyE f" and g: "core_onlyE g"
  shows "core_onlyE (\<lambda>d. bindE (f d) g)"
proof (rule core_onlyE_intro)
  fix d1 d2 assume "core d1 = core d2"
  then have eq: "map_sum id core (f d1) = map_sum id core (f d2)" by (rule core_onlyE_D [OF f])
  show "map_sum id core (bindE (f d1) g) = map_sum id core (bindE (f d2) g)"
  proof (cases "f d1")
    case (Inl e)
    with eq show ?thesis by (cases "f d2") simp_all
  next
    case (Inr e1)
    with eq obtain e2 where e2: "f d2 = Inr e2" "core e1 = core e2" by (cases "f d2") simp_all
    with Inr core_onlyE_D [OF g e2(2)] show ?thesis by simp
  qed
qed

lemma core_onlyE_get:
  assumes "\<And>j. core_onlyE (g j)"
  shows "core_onlyE (\<lambda>d. bindE (get_job jid (dg_state d)) (\<lambda>j. g j d))"
proof (rule core_onlyE_intro)
  fix d1 d2 assume c: "core d1 = core d2"
  then have same: "get_job jid (dg_state d1) = get_job jid (dg_state d2)"
    using core_findD [OF c] by (simp add: get_job_def)
  show "map_sum id core (bindE (get_job jid (dg_state d1)) (\<lambda>j. g j d1)) =
      map_sum id core (bindE (get_job jid (dg_state d2)) (\<lambda>j. g j d2))"
    unfolding same using core_onlyE_D [OF assms c] by (cases "get_job jid (dg_state d2)") simp_all
qed

lemma core_for_jobs:
  assumes "\<And>jid. core_onlyE (f jid)"
  shows "core_onlyE (for_jobs f jids)"
proof (induction jids)
  case Nil
  show ?case by (rule core_onlyE_intro) simp
next
  case (Cons jid jids)
  have "for_jobs f (jid # jids) = (\<lambda>d. bindE (f jid d) (for_jobs f jids))" by (simp add: fun_eq_iff)
  then show ?case using core_onlyE_bind [OF assms Cons.IH] by simp
qed

lemma core_same: "core d1 = core d2 \<Longrightarrow> st_jobs (dg_state d1) = st_jobs (dg_state d2)"
  by (simp add: core_def)

lemma core_log: "core_only (on_state (\<lambda>s. log_event now k i t s))"
  by (rule core_only_state) simp

lemma core_add_jobs: "core_onlyE (do_add_jobs E by a)"
proof (rule core_onlyE_intro)
  fix d1 d2 assume c: "core d1 = core d2"
  then have jobs: "st_jobs (dg_state d1) = st_jobs (dg_state d2)" and live: "dg_live d1 = dg_live d2"
    by (simp_all add: core_def)
  show "map_sum id core (do_add_jobs E by a d1) = map_sum id core (do_add_jobs E by a d2)"
    unfolding do_add_jobs_def Let_def jobs by (simp add: core_def fold_add_spec jobs live)
qed

lemma core_update_job: "core_onlyE (do_update_job E a)"
  unfolding do_update_job_def [abs_def]
proof (rule core_onlyE_get)
  fix j
  show "core_onlyE (\<lambda>d. bindE (set_fields (ma_changes a) j) (\<lambda>j1.
       let j2 = (if jb_status j1 \<in> {Finished, Failed, Skipped, Waiting}
                 then j1\<lparr>jb_status := Pending, jb_pending_reason := py_or (jb_pending_reason j1) (Some ''rewind'')\<rparr>
                 else j1)
       in Inr (on_state (\<lambda>s. log_event (en_now E) ''job_updated'' (Some (jb_id j))
                 (join '', '' (map fst (ma_changes a))) (on_job (jb_id j) (\<lambda>_. j2) s)) d)))"
  proof (cases "set_fields (ma_changes a) j")
    case (Inl e)
    show ?thesis by (rule core_onlyE_intro) (simp add: Inl)
  next
    case (Inr j1)
    show ?thesis unfolding Inr bindE.simps Let_def
      by (rule core_onlyE_I, rule core_only_state) (simp add: on_job_def)
  qed
qed

lemma core_rewind: "core_onlyE (do_rewind E a)"
proof -
  have "core_onlyE (rewind_one E ids t jid)" for ids t jid
    unfolding rewind_one_def [abs_def]
  proof (rule core_onlyE_get)
    fix j
    let ?n = "\<lambda>d. on_state (on_job jid (add_note (en_now E) ''meta''
        (if t = '''' then ''Do this part again.'' else t))) d"
    have n: "core_only (\<lambda>d. ?n (reset_job E jid ''rewind'' d))"
      by (rule core_only_comp [OF core_on_job core_reset])
    show "core_onlyE (\<lambda>d. let d1 = on_state (on_job jid (add_note (en_now E) ''meta''
            (if t = '''' then ''Do this part again.'' else t))) (reset_job E jid ''rewind'' d)
        in Inr (redo_dependents E jid ids t (dependents (dg_state d1) jid) d1))"
      unfolding Let_def
    proof (intro core_onlyE_I core_onlyI)
      fix d1 d2 assume "core d1 = core d2"
      then have c: "core (?n (reset_job E jid ''rewind'' d1)) = core (?n (reset_job E jid ''rewind'' d2))"
        by (rule core_onlyD [OF n])
      have deps: "dependents (dg_state (?n (reset_job E jid ''rewind'' d1))) jid =
          dependents (dg_state (?n (reset_job E jid ''rewind'' d2))) jid"
        unfolding dependents_def core_same [OF c] by (rule refl)
      show "core (redo_dependents E jid ids t (dependents (dg_state (?n (reset_job E jid ''rewind'' d1))) jid)
            (?n (reset_job E jid ''rewind'' d1))) =
          core (redo_dependents E jid ids t (dependents (dg_state (?n (reset_job E jid ''rewind'' d2))) jid)
            (?n (reset_job E jid ''rewind'' d2)))"
        unfolding deps by (rule core_onlyD [OF core_redo c])
    qed
  qed
  then have "core_onlyE (for_jobs (rewind_one E (ma_job_ids a) (ma_text a)) (ma_job_ids a))"
    by (rule core_for_jobs)
  then show ?thesis
    unfolding do_rewind_def [abs_def] by (rule core_onlyE_bind) (rule core_onlyE_I [OF core_log])
qed

lemma core_remove: "core_onlyE (do_remove E a)"
proof -
  have "core_onlyE (remove_one E t jid)" for t jid
    unfolding remove_one_def [abs_def]
    by (rule core_onlyE_get) (rule core_onlyE_I [OF core_only_comp [OF core_on_job core_stop]])
  then have "core_onlyE (for_jobs (remove_one E (ma_text a)) (ma_job_ids a))" by (rule core_for_jobs)
  then show ?thesis
    unfolding do_remove_def [abs_def] by (rule core_onlyE_bind) (rule core_onlyE_I [OF core_log])
qed

lemma core_answer_action: "core_onlyE (do_answer E a)"
  unfolding do_answer_def [abs_def] by (rule core_onlyE_get) (rule core_onlyE_I [OF core_answer])

lemma core_message: "core_onlyE (do_message E a)"
  unfolding do_message_def [abs_def]
proof (rule core_onlyE_get)
  fix j :: job
  define n :: "dag \<Rightarrow> dag" where "n = on_state (on_job (jb_id j) (add_note (en_now E) ''meta'' (ma_text a)))"
  define pend :: "dag \<Rightarrow> dag" where "pend = on_state (on_job (jb_id j) (\<lambda>j. j\<lparr>jb_status := Pending,
      jb_pending_reason := Some ''message''\<rparr>))"
  have n: "core_only n" unfolding n_def by (rule core_on_job)
  have pend: "core_only (\<lambda>d. pend (n d))" unfolding pend_def by (rule core_only_comp [OF core_on_job n])
  have told: "core_only (\<lambda>d. (n d)\<lparr>dg_step := f (n d)\<rparr>)" for f
    by (rule core_onlyI, drule core_onlyD [OF n]) (simp add: core_def)
  have tail: "core_only (\<lambda>d. case last_attempt j of
        Some at' \<Rightarrow> if jb_status j = Running
          then (n d)\<lparr>dg_step := (dg_step (n d))\<lparr>sp_messages := sp_messages (dg_step (n d)) @
                 [\<lparr>am_job_id = jb_id j, am_attempt = at_n at', am_text = ma_text a,
                   am_interrupt = ma_interrupt a\<rparr>]\<rparr>\<rparr>
          else if jb_status j = Waiting then pend (n d) else n d
      | None \<Rightarrow> if jb_status j = Waiting then pend (n d) else n d)"
    using told pend n by (cases "last_attempt j"; cases "jb_status j") simp_all
  let ?do = "\<lambda>d. if jb_status j = Running \<and> ma_restart a then reset_job E (jb_id j) ''restart'' (n d)
      else if jb_status j = Running \<and> dg_live d (jb_id j) \<noteq> None then deliver_answer (jb_id j) (ma_text a) (n d)
      else case last_attempt j of
        Some at' \<Rightarrow> if jb_status j = Running
          then (n d)\<lparr>dg_step := (dg_step (n d))\<lparr>sp_messages := sp_messages (dg_step (n d)) @
                 [\<lparr>am_job_id = jb_id j, am_attempt = at_n at', am_text = ma_text a,
                   am_interrupt = ma_interrupt a\<rparr>]\<rparr>\<rparr>
          else if jb_status j = Waiting then pend (n d) else n d
      | None \<Rightarrow> if jb_status j = Waiting then pend (n d) else n d"
  have "core_only ?do"
  proof (intro core_only_if)
    show "core_only (\<lambda>d. reset_job E (jb_id j) ''restart'' (n d))" by (rule core_only_comp [OF core_reset n])
    show "core_only (\<lambda>d. deliver_answer (jb_id j) (ma_text a) (n d))" by (rule core_only_comp [OF core_deliver n])
  qed (use tail in \<open>auto dest: core_findD\<close>)
  from core_onlyE_I [OF core_only_comp [OF core_log this]]
  show "core_onlyE (\<lambda>d. let jid = jb_id j;
           d1 = on_state (on_job jid (add_note (en_now E) ''meta'' (ma_text a))) d;
           d2 = (if jb_status j = Running \<and> ma_restart a then reset_job E jid ''restart'' d1
                 else if jb_status j = Running \<and> dg_live d jid \<noteq> None
                 then deliver_answer jid (ma_text a) d1
                 else case last_attempt j of
                   Some at' \<Rightarrow>
                     if jb_status j = Running
                     then d1\<lparr>dg_step := (dg_step d1)\<lparr>sp_messages := sp_messages (dg_step d1) @
                            [\<lparr>am_job_id = jid, am_attempt = at_n at', am_text = ma_text a,
                              am_interrupt = ma_interrupt a\<rparr>]\<rparr>\<rparr>
                     else if jb_status j = Waiting
                     then on_state (on_job jid (\<lambda>j. j\<lparr>jb_status := Pending,
                            jb_pending_reason := Some ''message''\<rparr>)) d1
                     else d1
                 | None \<Rightarrow>
                     if jb_status j = Waiting
                     then on_state (on_job jid (\<lambda>j. j\<lparr>jb_status := Pending,
                            jb_pending_reason := Some ''message''\<rparr>)) d1
                     else d1)
       in Inr (on_state (log_event (en_now E) ''message'' (Some jid) (ma_text a)) d2))"
    unfolding Let_def n_def pend_def .
qed

lemma core_finish: "core_onlyE (do_finish E a)"
proof -
  have drop: "core_only (fold (drop_unfinished E) ids)" for ids
    unfolding drop_unfinished_def [abs_def]
    by (rule core_only_fold) (rule core_only_comp [OF core_on_job core_stop])
  show ?thesis
    unfolding do_finish_def [abs_def] Let_def
  proof (rule core_onlyE_I, rule core_onlyI)
    fix d1 d2 assume c: "core d1 = core d2"
    have same: "active_jobs (dg_state d1) = active_jobs (dg_state d2)"
      by (simp add: active_jobs_def core_same [OF c])
    show "core (on_state (\<lambda>s. log_event (en_now E) ''finish'' None (ma_text a)
           (s\<lparr>st_finished := True, st_summary := (if ma_text a = '''' then None else Some (ma_text a))\<rparr>))
           (fold (drop_unfinished E) (map jb_id (filter (\<lambda>j. jb_status j \<noteq> Finished) (active_jobs (dg_state d1)))) d1)) =
         core (on_state (\<lambda>s. log_event (en_now E) ''finish'' None (ma_text a)
           (s\<lparr>st_finished := True, st_summary := (if ma_text a = '''' then None else Some (ma_text a))\<rparr>))
           (fold (drop_unfinished E) (map jb_id (filter (\<lambda>j. jb_status j \<noteq> Finished) (active_jobs (dg_state d2)))) d2))"
      unfolding same by (rule core_onlyD [OF core_only_state core_onlyD [OF drop c]]) simp
  qed
qed

lemma core_action: "core_onlyE (do_action E by a)"
proof -
  have ask: "core_onlyE (do_ask_human E a)"
    unfolding do_ask_human_def [abs_def] by (rule core_onlyE_I, rule core_only_state) simp
  have fail: "core_onlyE (do_fail E a)"
    unfolding do_fail_def [abs_def] by (rule core_onlyE_I, rule core_only_state) simp
  have "do_action E by a = (case ma_kind a of
        Add_Jobs \<Rightarrow> do_add_jobs E by a | Update_Job \<Rightarrow> do_update_job E a | Rewind \<Rightarrow> do_rewind E a
      | Remove \<Rightarrow> do_remove E a | Answer \<Rightarrow> do_answer E a | Message \<Rightarrow> do_message E a
      | Ask_Human \<Rightarrow> do_ask_human E a | Finish \<Rightarrow> do_finish E a | Fail \<Rightarrow> do_fail E a)"
    by (rule ext) (simp split: action_kind.split)
  then show ?thesis
    by (simp add: core_add_jobs core_update_job core_rewind core_remove core_answer_action core_message
        ask core_finish fail split: action_kind.split)
qed

lemma core_actions: "core_onlyE (do_actions E by as)"
proof (induction as)
  case Nil
  show ?case by (rule core_onlyE_intro) simp
next
  case (Cons a as)
  have "do_actions E by (a # as) = (\<lambda>d. bindE (do_action E by a d) (do_actions E by as))"
    by (rule ext) simp
  then show ?case using core_onlyE_bind [OF core_action Cons.IH] by simp
qed

definition rearranged :: "bool \<Rightarrow> dag \<Rightarrow> dag" where
  "rearranged b d = (if b then on_state (\<lambda>s. s\<lparr>st_rearrangements := st_rearrangements s + 1\<rparr>) d else d)"

definition begun :: "dag \<Rightarrow> dag" where
  "begun x = (if st_status (dg_state x) = S_Planning \<and> st_jobs (dg_state x) \<noteq> []
              then on_state (\<lambda>s. s\<lparr>st_status := S_Running\<rparr>) x else x)"

lemma apply_decision_parts:
  "apply_decision E dry by dec sits d =
     bindE (do_actions E by (md_actions dec)
       (rearranged (\<not> dry \<and> kind_of (dg_state d) dec sits = Some D_Rearrange) d)) (\<lambda>x. Inr (begun x))"
  unfolding apply_decision_def rearranged_def begun_def Let_def ..

lemma core_rearranged: "core (rearranged b d) = core d"
  by (simp add: rearranged_def core_def)

lemma core_begun: "core (begun x) = core x"
  by (simp add: begun_def core_def)

lemma core_only_applied:
  assumes "core d1 = core d2" and "apply_decision E dry1 by dec sits1 d1 = Inr d1'"
    and "apply_decision E dry2 by dec sits2 d2 = Inr d2'"
  shows "core d1' = core d2'"
proof -
  define e1 where "e1 = rearranged (\<not> dry1 \<and> kind_of (dg_state d1) dec sits1 = Some D_Rearrange) d1"
  define e2 where "e2 = rearranged (\<not> dry2 \<and> kind_of (dg_state d2) dec sits2 = Some D_Rearrange) d2"
  have c: "core e1 = core e2" unfolding e1_def e2_def core_rearranged by (rule assms(1))
  from assms(2) obtain x1 where 1: "do_actions E by (md_actions dec) e1 = Inr x1" "d1' = begun x1"
    unfolding apply_decision_parts e1_def [symmetric] bindE_Inr_iff by (elim exE conjE) (simp only: sum.inject)
  from assms(3) obtain x2 where 2: "do_actions E by (md_actions dec) e2 = Inr x2" "d2' = begun x2"
    unfolding apply_decision_parts e2_def [symmetric] bindE_Inr_iff by (elim exE conjE) (simp only: sum.inject)
  have "map_sum id core (do_actions E by (md_actions dec) e1) = map_sum id core (do_actions E by (md_actions dec) e2)"
    by (rule core_onlyE_D [OF core_actions c])
  then have "core x1 = core x2" unfolding 1(1) 2(1) map_sum.simps sum.inject .
  then show ?thesis unfolding 1(2) 2(2) core_begun .
qed

lemma core_apply:
  assumes "core d1 = core d2" and "apply_decision E dry1 by dec sits1 d1 = Inr d1'"
    and "apply_decision E dry2 by dec sits2 d2 = Inr d2'"
  shows "st_jobs (dg_state d1') = st_jobs (dg_state d2')"
  by (rule core_same [OF core_only_applied [OF assms]])

section \<open>Decisions on the DAG\<close>

lemma structure_errors_cong: "st_jobs s1 = st_jobs s2 \<Longrightarrow> structure_errors E s1 = structure_errors E s2"
  by (simp add: structure_errors_def active_jobs_def Let_def)

lemma validate_trial:
  assumes "validate_decision E dec sits d = []"
  obtains trial where "apply_decision E True ''meta'' dec sits (d\<lparr>dg_step := empty_step\<rparr>) = Inr trial"
    "structure_errors E (dg_state trial) = []"
proof (cases "apply_decision E True ''meta'' dec sits (d\<lparr>dg_step := empty_step\<rparr>)")
  case (Inl e)
  with assms show ?thesis by (simp add: validate_decision_def Let_def split: if_splits)
next
  case (Inr trial)
  have "structure_errors E (dg_state trial) = []"
  proof (rule ccontr)
    assume bad: "structure_errors E (dg_state trial) \<noteq> []"
    show False
      using assms Inr bad unfolding validate_decision_def Let_def
      by (simp split: if_splits)
  qed
  with Inr show ?thesis by (rule that)
qed

section \<open>The interface\<close>

locale meta_agent =
  fixes decide :: decider
  assumes decided_valid: "decide view check m = (Inr dec, m') \<Longrightarrow> check dec = []"

lemma accepted_valid: "answer_errors L check txt = [] \<Longrightarrow> accepted L txt = Inr dec \<Longrightarrow> check dec = []"
  by (auto simp: answer_errors_def accepted_def split: sum.splits)

interpretation llm: meta_agent "llm_decide L" for L
proof
  fix view check m dec m'
  assume run: "llm_decide L view check m = (Inr dec, m')"
  obtain r1 m1 where first: "ask_llm L (render_view (lm_actions_help L) view) m = (r1, m1)" by fastforce
  show "check dec = []"
  proof (cases r1)
    case (Inl e)
    with run first show ?thesis by (simp add: llm_decide_def Let_def)
  next
    case (Inr reply)
    show ?thesis
    proof (cases "answer_errors L check reply = []")
      case True
      with run first Inr show ?thesis by (auto simp: llm_decide_def Let_def intro: accepted_valid)
    next
      case False
      obtain r2 m2 where second: "ask_llm L (repair_prompt (render_view (lm_actions_help L) view) reply
          (answer_errors L check reply)) m1 = (r2, m2)" by fastforce
      with run first Inr False show ?thesis
        by (cases r2) (auto simp: llm_decide_def Let_def intro: accepted_valid split: if_splits)
    qed
  qed
qed


section \<open>What a consultation keeps\<close>

context meta_agent
begin

text \<open>
  Whatever is decided, the DAG's structure is in order afterwards when it was before: every
  dependency is on a job still there, agents may fill their categories, no cycle, no slot exceeded.
\<close>

lemma consult_keeps_structure:
  assumes run: "consult decide E rejection d = Inr d'" and ok: "structure_errors E (dg_state d) = []"
  shows "structure_errors E (dg_state d') = []"
  using run
proof (cases rule: consult_cases)
  case (1 msg m)
  have "st_jobs (dg_state d') = st_jobs (dg_state d)" by (simp add: 1)
  then show ?thesis using ok structure_errors_cong by metis
next
  case (2 dec sits m)
  then have valid: "validate_decision E dec sits d = []" using decided_valid by blast
  define d1 where "d1 = on_state (\<lambda>s. s\<lparr>st_situations := []\<rparr>) (d\<lparr>dg_meta := m\<rparr>)"
  have jobs1: "st_jobs (dg_state d1) = st_jobs (dg_state d)" by (simp add: d1_def)
  from 2(1) d1_def show ?thesis
  proof (cases rule: take_decision_cases)
    case (1 m)
    then have "st_jobs (dg_state d') = st_jobs (dg_state d)" by (simp add: jobs1)
    then show ?thesis using ok structure_errors_cong by metis
  next
    case (2 k sm)
    then have "st_jobs (dg_state d') = st_jobs (dg_state d)" by (simp add: jobs1)
    then show ?thesis using ok structure_errors_cong by metis
  next
    case (3 k sm)
    obtain trial where trial: "apply_decision E True ''meta'' dec sits (d\<lparr>dg_step := empty_step\<rparr>) = Inr trial"
      "structure_errors E (dg_state trial) = []" using validate_trial [OF valid] .
    have "core (auto_record E k sm dec sits d1) = core (d\<lparr>dg_step := empty_step\<rparr>)"
      by (simp add: core_def auto_record_def d1_def)
    from core_apply [OF this 3(3) trial(1)] have "st_jobs (dg_state d') = st_jobs (dg_state trial)" .
    then show ?thesis using trial(2) structure_errors_cong by metis
  qed
qed

end

end
