(* ===== verification/JobDownstream.thy ===== *)
theory JobDownstream
  imports MetaAgent
begin

text \<open>
  What lies downstream of a job, and what a rewind does to it: \<^verbatim>\<open>_dependents\<close> finds exactly the
  jobs that rest on the given one, directly or through others, and rewinding a job leaves none of
  them with a result of the work being redone.  Also: an attempt's first event settles it.
\<close>

section \<open>The downstream jobs\<close>

definition feeds :: "job list \<Rightarrow> (string \<times> string) set" where
  "feeds js = {(c, jb_id j) | c j. j \<in> set js \<and> job_active j \<and> c \<in> set (jb_depends_on j)}"

lemma depends_pass_feeds: "set (depends_pass c js seen) = {x. (c, x) \<in> feeds js} - seen"
  unfolding depends_pass_set feeds_def by auto

text \<open>The loop: what has been seen is closed except at the frontier.\<close>

definition search_ok :: "job list \<Rightarrow> string \<Rightarrow> string list \<Rightarrow> string set \<Rightarrow> string list \<Rightarrow> bool" where
  "search_ok js jid frontier seen out \<longleftrightarrow>
     seen = insert jid (set out) \<and> jid \<notin> set out \<and> distinct out \<and> set frontier \<subseteq> seen \<and>
     seen \<subseteq> {x. (jid, x) \<in> (feeds js)\<^sup>*} \<and>
     (\<forall>c x. (c, x) \<in> feeds js \<longrightarrow> c \<in> seen \<longrightarrow> c \<in> set frontier \<or> x \<in> seen)"

lemma search_step:
  assumes ok: "search_ok js jid frontier seen out" and ne: "frontier \<noteq> []"
    and found: "found = depends_pass (last frontier) js seen"
  shows "search_ok js jid (butlast frontier @ found) (seen \<union> set found) (out @ found)"
proof -
  have new: "set found = {x. (last frontier, x) \<in> feeds js} - seen"
    unfolding found by (rule depends_pass_feeds)
  have reached: "(jid, last frontier) \<in> (feeds js)\<^sup>*"
    using ok ne last_in_set [OF ne] unfolding search_ok_def by blast
  have parts: "set frontier = insert (last frontier) (set (butlast frontier))"
    using ne by (metis append_butlast_last_id list.set(2) set_append Un_insert_right list.set(1) sup_bot.right_neutral)
  have "distinct found" unfolding found by (rule depends_pass_distinct)
  moreover have "x \<in> {x. (jid, x) \<in> (feeds js)\<^sup>*}" if "x \<in> set found" for x
    using that reached unfolding new by (auto intro: rtrancl_into_rtrancl)
  moreover have "c \<in> set (butlast frontier @ found) \<or> x \<in> seen \<union> set found"
    if "(c, x) \<in> feeds js" "c \<in> seen \<union> set found" for c x
  proof (cases "c \<in> seen")
    case True
    then have "c \<in> set frontier \<or> x \<in> seen" using that(1) ok unfolding search_ok_def by blast
    then show ?thesis using that(1) unfolding parts new set_append by blast
  next
    case False
    then show ?thesis using that(2) by simp
  qed
  ultimately show ?thesis
    using ok unfolding search_ok_def parts by (auto simp: new)
qed

lemma dependents_loop_ok:
  "search_ok js jid frontier seen out \<Longrightarrow>
   \<exists>seen'. search_ok js jid [] seen' (dependents_loop js frontier seen out)"
proof (induction js frontier seen out rule: dependents_loop.induct)
  case (1 js frontier seen out)
  show ?case
  proof (cases "frontier = []")
    case True
    with 1(2) show ?thesis by (subst dependents_loop.simps) auto
  next
    case False
    then show ?thesis
      using 1(1) [OF False refl search_step [OF 1(2) False refl]]
      by (subst dependents_loop.simps) (simp add: Let_def)
  qed
qed

lemma search_done:
  assumes "search_ok js jid [] seen out"
  shows "set out = {x. (jid, x) \<in> (feeds js)\<^sup>*} - {jid}"
proof -
  have closed: "x \<in> seen" if "(jid, x) \<in> (feeds js)\<^sup>*" for x
    using that assms by (induction rule: rtrancl_induct) (auto simp: search_ok_def)
  then show ?thesis using assms unfolding search_ok_def by blast
qed

lemma dependents_found:
  "distinct (dependents s jid) \<and>
   set (dependents s jid) = {x. (jid, x) \<in> (feeds (st_jobs s))\<^sup>+} - {jid}"
proof -
  have "search_ok (st_jobs s) jid [jid] {jid} []" by (auto simp: search_ok_def)
  then obtain seen where seen: "search_ok (st_jobs s) jid [] seen (dependents s jid)"
    unfolding dependents_def using dependents_loop_ok by blast
  have "set (dependents s jid) = {x. (jid, x) \<in> (feeds (st_jobs s))\<^sup>*} - {jid}"
    using seen by (rule search_done)
  moreover have "distinct (dependents s jid)" using seen by (simp add: search_ok_def)
  ultimately show ?thesis by (auto simp: rtrancl_eq_or_trancl)
qed

lemmas downstream_set = dependents_found [THEN conjunct2]

section \<open>Rewinding\<close>

text \<open>What a rewind does to the jobs: each keeps its place, and its status or is pending.\<close>

definition restart_of :: "job \<Rightarrow> job \<Rightarrow> bool" where
  "restart_of j j' \<longleftrightarrow> jb_id j' = jb_id j \<and> jb_depends_on j' = jb_depends_on j \<and>
     (jb_status j' = jb_status j \<or> jb_status j' = Pending)"

definition restarted :: "run_state \<Rightarrow> run_state \<Rightarrow> bool" where
  "restarted s s' \<longleftrightarrow> list_all2 restart_of (st_jobs s) (st_jobs s')"

definition pend :: "string \<Rightarrow> run_state \<Rightarrow> bool" where
  "pend x s \<longleftrightarrow> (\<forall>j \<in> set (st_jobs s). jb_id j = x \<longrightarrow> jb_status j = Pending)"

lemma restarted_refl [simp]: "restarted s s"
  by (simp add: restarted_def restart_of_def list_all2_refl)

lemma restarted_trans: "restarted s s' \<Longrightarrow> restarted s' s'' \<Longrightarrow> restarted s s''"
  unfolding restarted_def by (erule (1) list_all2_trans [rotated]) (auto simp: restart_of_def)

lemma restarted_map:
  "st_jobs s' = map g (st_jobs s) \<Longrightarrow> (\<And>j. restart_of j (g j)) \<Longrightarrow> restarted s s'"
  by (simp add: restarted_def list_all2_map2 list_all2_refl)

lemma restarted_on_job: "(\<And>j. restart_of j (f j)) \<Longrightarrow> restarted s (on_job jid f s)"
  by (rule restarted_map [where g = "\<lambda>j. if jb_id j = jid then f j else j"])
    (auto simp: on_job_def restart_of_def)

lemma restarted_memD:
  assumes "restarted s s'" and "j' \<in> set (st_jobs s')"
  obtains j where "j \<in> set (st_jobs s)" "restart_of j j'"
  using assms unfolding restarted_def by (metis in_set_conv_nth list_all2_conv_all_nth)

lemma restarted_memI:
  assumes "restarted s s'" and "j \<in> set (st_jobs s)"
  obtains j' where "j' \<in> set (st_jobs s')" "restart_of j j'"
  using assms unfolding restarted_def by (metis in_set_conv_nth list_all2_conv_all_nth)

lemma restarted_pend:
  assumes r: "restarted s s'" and p: "pend x s"
  shows "pend x s'"
  unfolding pend_def
proof (intro ballI impI)
  fix j' assume j': "j' \<in> set (st_jobs s')" "jb_id j' = x"
  from r j'(1) obtain j where j: "j \<in> set (st_jobs s)" "restart_of j j'" by (rule restarted_memD)
  then have "jb_id j = x" using j'(2) by (simp add: restart_of_def)
  then have "jb_status j = Pending" using p j(1) by (simp add: pend_def)
  then show "jb_status j' = Pending" using j(2) by (simp add: restart_of_def)
qed

lemma restarted_ids: "restarted s s' \<Longrightarrow> map jb_id (st_jobs s') = map jb_id (st_jobs s)"
  unfolding restarted_def by (induction rule: list_all2_induct) (simp_all add: restart_of_def)

lemma restart_active: "restart_of j j' \<Longrightarrow> job_active j \<Longrightarrow> job_active j'"
  by (auto simp: restart_of_def job_active_def)

lemma restarted_feeds:
  assumes "restarted s s'"
  shows "feeds (st_jobs s) \<subseteq> feeds (st_jobs s')"
proof (rule subrelI)
  fix c x assume "(c, x) \<in> feeds (st_jobs s)"
  then obtain j where j: "j \<in> set (st_jobs s)" "job_active j" "c \<in> set (jb_depends_on j)" "x = jb_id j"
    by (auto simp: feeds_def)
  from assms j(1) obtain j' where j': "j' \<in> set (st_jobs s')" "restart_of j j'" by (rule restarted_memI)
  then have "job_active j'" "c \<in> set (jb_depends_on j')" "x = jb_id j'"
    using j restart_active by (auto simp: restart_of_def)
  with j'(1) show "(c, x) \<in> feeds (st_jobs s')" by (auto simp: feeds_def)
qed

lemma restarted_stop: "restarted (dg_state d) (dg_state (stop_job E jid d))"
proof (cases "find_job (dg_state d) jid")
  case None
  then show ?thesis by (simp add: stop_job_def)
next
  case (Some j)
  have "restarted (dg_state d) (on_job jid (\<lambda>j. j\<lparr>jb_attempts := f j\<rparr>) (dg_state d))" for f
    by (rule restarted_on_job) (simp add: restart_of_def)
  then show ?thesis using Some by (cases "last_attempt j") (simp_all add: stop_job_def)
qed

lemma restarted_reset: "restarted (dg_state d) (dg_state (reset_job E jid r d))"
proof -
  have "restarted (dg_state (stop_job E jid d)) (dg_state (reset_job E jid r d))"
    by (rule restarted_map [where g = "\<lambda>j. if jb_id j = jid then j\<lparr>jb_status := Pending, jb_pending_reason := Some r\<rparr> else j"])
      (auto simp: reset_job_def drop_situations_def on_job_def restart_of_def)
  with restarted_stop show ?thesis by (rule restarted_trans)
qed

lemma restarted_note: "restarted s (on_job jid (add_note now src t) s)"
  by (rule restarted_on_job) (simp add: restart_of_def add_note_def)

lemmas restarted_reset_note = restarted_trans [OF restarted_reset restarted_note]

lemma state_of_on_state: "dg_state (on_state f d) = f (dg_state d)"
  by simp

lemma jobs_of_reset:
  "st_jobs (dg_state (reset_job E jid r d)) =
     map (\<lambda>j. if jb_id j = jid then j\<lparr>jb_status := Pending, jb_pending_reason := Some r\<rparr> else j)
       (st_jobs (dg_state (stop_job E jid d)))"
  by (simp add: reset_job_def drop_situations_def on_job_def)

lemma pend_reset: "pend jid (on_job jid (add_note now src t) (dg_state (reset_job E jid r d)))"
proof (rule restarted_pend [OF restarted_note])
  show "pend jid (dg_state (reset_job E jid r d))"
    unfolding pend_def jobs_of_reset set_map by (rule ballI, erule imageE) simp
qed

definition redo_one :: "env \<Rightarrow> string \<Rightarrow> string list \<Rightarrow> string \<Rightarrow> string \<Rightarrow> dag \<Rightarrow> dag" where
  "redo_one E jid rewound t dep d =
     (if dep \<in> set rewound then d
      else case find_job (dg_state d) dep of
             None \<Rightarrow> d
           | Some j \<Rightarrow>
               if jb_status j \<in> {Finished, Failed, Skipped, Waiting, Running}
               then on_state (on_job dep (add_note (en_now E) ''system''
                      (''Upstream job '' @ jid @ '' is being redone: '' @ t)))
                      (reset_job E dep ''upstream_changed'' d)
               else d)"

lemma redo_Cons:
  "redo_dependents E jid rewound t (dep # deps) d =
     redo_dependents E jid rewound t deps (redo_one E jid rewound t dep d)"
  unfolding redo_one_def by (rule redo_dependents.simps)

lemma redo_one_known:
  assumes "dep \<notin> set rewound" and "find_job (dg_state d) dep = Some j"
    and "jb_status j \<in> {Finished, Failed, Skipped, Waiting, Running}"
  shows "redo_one E jid rewound t dep d = on_state (on_job dep (add_note (en_now E) ''system''
       (''Upstream job '' @ jid @ '' is being redone: '' @ t))) (reset_job E dep ''upstream_changed'' d)"
  unfolding redo_one_def assms(2) option.case if_not_P [OF assms(1)] if_P [OF assms(3)] ..

lemma redo_one_fresh:
  assumes "\<And>j. dep \<notin> set rewound \<Longrightarrow> find_job (dg_state d) dep = Some j \<Longrightarrow>
      jb_status j \<notin> {Finished, Failed, Skipped, Waiting, Running}"
  shows "redo_one E jid rewound t dep d = d"
proof (cases "dep \<in> set rewound")
  case True
  show ?thesis unfolding redo_one_def if_P [OF True] ..
next
  case False
  show ?thesis
  proof (cases "find_job (dg_state d) dep")
    case None
    show ?thesis unfolding redo_one_def None option.case if_cancel ..
  next
    case (Some j)
    show ?thesis
      unfolding redo_one_def Some option.case if_not_P [OF False] if_not_P [OF assms [OF False Some]] ..
  qed
qed

lemma restarted_redo_one: "restarted (dg_state d) (dg_state (redo_one E jid rewound t dep d))"
proof (cases "dep \<notin> set rewound \<and> (\<exists>j. find_job (dg_state d) dep = Some j \<and>
    jb_status j \<in> {Finished, Failed, Skipped, Waiting, Running})")
  case True
  then obtain j where "dep \<notin> set rewound" "find_job (dg_state d) dep = Some j"
    "jb_status j \<in> {Finished, Failed, Skipped, Waiting, Running}" by (elim conjE exE)
  note known = redo_one_known [OF this]
  show ?thesis unfolding known unfolding state_of_on_state by (rule restarted_reset_note)
next
  case False
  then have "redo_one E jid rewound t dep d = d" by (intro redo_one_fresh) blast
  then show ?thesis by (simp only: restarted_refl)
qed

lemma restarted_redo: "restarted (dg_state d) (dg_state (redo_dependents E jid ids t deps d))"
proof (induction deps arbitrary: d)
  case (Cons dep deps)
  show ?case unfolding redo_Cons by (rule restarted_trans [OF restarted_redo_one Cons.IH])
qed simp

lemma active_status: "job_active j \<Longrightarrow> jb_status j = Pending \<or>
    jb_status j \<in> {Finished, Failed, Skipped, Waiting, Running}"
  by (cases "jb_status j") (simp_all add: job_active_def)

lemma redo_pends:
  assumes "distinct (map jb_id (st_jobs (dg_state d)))" and "x \<in> set deps" and "x \<notin> set ids"
    and "\<exists>j \<in> set (st_jobs (dg_state d)). jb_id j = x \<and> job_active j"
  shows "pend x (dg_state (redo_dependents E jid ids t deps d))"
  using assms
proof (induction deps arbitrary: d)
  case (Cons dep deps)
  define d1 where "d1 = redo_one E jid ids t dep d"
  have r: "restarted (dg_state d) (dg_state d1)" unfolding d1_def by (rule restarted_redo_one)
  from Cons.prems(4) obtain j where j: "j \<in> set (st_jobs (dg_state d))" "jb_id j = x" "job_active j" by blast
  show ?case
  proof (cases "x = dep")
    case True
    have inj: "inj_on jb_id (set (st_jobs (dg_state d)))" using Cons.prems(1) by (simp add: distinct_map)
    obtain j' where j': "find_job (dg_state d) x = Some j'"
      using j by (cases "find_job (dg_state d) x") (auto simp: find_job_def find_None_iff)
    have "j' = j" by (rule inj_onD [OF inj]) (use find_jobD [OF j'] j in auto)
    then have found: "find_job (dg_state d) dep = Some j" using j' True by simp
    have "pend x (dg_state d1)"
    proof (cases "jb_status j = Pending")
      case True
      then have "d1 = d" unfolding d1_def by (intro redo_one_fresh) (simp add: found)
      moreover have "k = j" if "k \<in> set (st_jobs (dg_state d))" "jb_id k = x" for k
        by (rule inj_onD [OF inj]) (use that j in auto)
      ultimately show ?thesis using True by (auto simp: pend_def)
    next
      case False
      then have stale: "jb_status j \<in> {Finished, Failed, Skipped, Waiting, Running}"
        using active_status [OF j(3)] by blast
      have "dep \<notin> set ids" using Cons.prems(3) \<open>x = dep\<close> by simp
      note known = redo_one_known [OF this found stale]
      show ?thesis
        unfolding d1_def known \<open>x = dep\<close> unfolding state_of_on_state by (rule pend_reset)
    qed
    then show ?thesis unfolding redo_Cons d1_def by (rule restarted_pend [OF restarted_redo])
  next
    case False
    from r j(1) obtain j' where j': "j' \<in> set (st_jobs (dg_state d1))" "restart_of j j'" by (rule restarted_memI)
    have "jb_id j' = x" "job_active j'"
      using j'(2) j(2,3) restart_active [OF j'(2)] by (simp_all add: restart_of_def)
    then show ?thesis
      unfolding redo_Cons d1_def [symmetric] using Cons.prems j'(1) False restarted_ids [OF r]
      by (intro Cons.IH) auto
  qed
qed simp

lemma rewind_one_ok:
  assumes run: "rewind_one E ids t jid d = Inr d'"
  shows "restarted (dg_state d) (dg_state d')" and "pend jid (dg_state d')"
    and "distinct (map jb_id (st_jobs (dg_state d))) \<Longrightarrow> (jid, x) \<in> (feeds (st_jobs (dg_state d)))\<^sup>+ \<Longrightarrow>
         x \<noteq> jid \<Longrightarrow> x \<notin> set ids \<Longrightarrow> pend x (dg_state d')"
proof -
  define d1 where "d1 = on_state (on_job jid (add_note (en_now E) ''meta''
      (if t = '''' then ''Do this part again.'' else t))) (reset_job E jid ''rewind'' d)"
  have d': "d' = redo_dependents E jid ids t (dependents (dg_state d1) jid) d1"
    using run unfolding rewind_one_def Let_def d1_def [symmetric] by (auto simp: bindE_Inr_iff)
  have r1: "restarted (dg_state d) (dg_state d1)"
    unfolding d1_def state_of_on_state by (rule restarted_reset_note)
  have p1: "pend jid (dg_state d1)" unfolding d1_def state_of_on_state by (rule pend_reset)
  have r2: "restarted (dg_state d1) (dg_state d')" unfolding d' by (rule restarted_redo)
  show "restarted (dg_state d) (dg_state d')" by (rule restarted_trans [OF r1 r2])
  show "pend jid (dg_state d')" by (rule restarted_pend [OF r2 p1])
  assume ids: "distinct (map jb_id (st_jobs (dg_state d)))" and x: "(jid, x) \<in> (feeds (st_jobs (dg_state d)))\<^sup>+"
    "x \<noteq> jid" "x \<notin> set ids"
  have down: "(jid, x) \<in> (feeds (st_jobs (dg_state d1)))\<^sup>+"
    by (rule trancl_mono [OF x(1) restarted_feeds [OF r1]])
  then have "x \<in> {x. (jid, x) \<in> (feeds (st_jobs (dg_state d1)))\<^sup>+} - {jid}" using x(2) by simp
  then have found: "x \<in> set (dependents (dg_state d1) jid)" using downstream_set by simp
  have "\<exists>j \<in> set (st_jobs (dg_state d1)). jb_id j = x \<and> job_active j"
    using down by (cases rule: trancl.cases) (auto simp: feeds_def)
  with ids show "pend x (dg_state d')"
    unfolding d' restarted_ids [OF r1, symmetric] by (intro redo_pends found x(3)) auto
qed

lemma rewind_all_ok:
  assumes "for_jobs (rewind_one E ids t) jids d = Inr d'" and "distinct (map jb_id (st_jobs (dg_state d)))"
    and "jid \<in> set jids"
  shows "restarted (dg_state d) (dg_state d') \<and> pend jid (dg_state d') \<and>
    ((jid, x) \<in> (feeds (st_jobs (dg_state d)))\<^sup>+ \<longrightarrow> x \<notin> set ids \<longrightarrow> x \<noteq> jid \<longrightarrow> pend x (dg_state d'))"
  using assms
proof (induction jids arbitrary: d)
  case (Cons y jids)
  from Cons.prems(1) obtain d1 where one: "rewind_one E ids t y d = Inr d1"
    and rest: "for_jobs (rewind_one E ids t) jids d1 = Inr d'" by (auto simp: bindE_Inr_iff)
  note step = rewind_one_ok [OF one]
  have r: "restarted (dg_state d1) (dg_state d')"
    using rest
  proof (induction jids arbitrary: d1)
    case (Cons z zs)
    then obtain d2 where z: "rewind_one E ids t z d1 = Inr d2"
      and zs: "for_jobs (rewind_one E ids t) zs d2 = Inr d'" by (auto simp: bindE_Inr_iff)
    show ?case by (rule restarted_trans [OF rewind_one_ok(1) [OF z] Cons.IH [OF zs]])
  qed simp
  have all: "restarted (dg_state d) (dg_state d')" by (rule restarted_trans [OF step(1) r])
  show ?case
  proof (cases "jid = y")
    case True
    then show ?thesis using all restarted_pend [OF r] step(2) step(3) [OF Cons.prems(2)] by blast
  next
    case False
    have "distinct (map jb_id (st_jobs (dg_state d1)))" using Cons.prems(2) restarted_ids [OF step(1)] by simp
    from Cons.IH [OF rest this] False Cons.prems(3)
    have "pend jid (dg_state d') \<and> ((jid, x) \<in> (feeds (st_jobs (dg_state d1)))\<^sup>+ \<longrightarrow>
        x \<notin> set ids \<longrightarrow> x \<noteq> jid \<longrightarrow> pend x (dg_state d'))" by simp
    then show ?thesis using all trancl_mono [OF _ restarted_feeds [OF step(1)]] by blast
  qed
qed simp

lemma rewind_pends:
  assumes run: "do_rewind E a d = Inr d'" and ids: "distinct (map jb_id (st_jobs (dg_state d)))"
    and jid: "jid \<in> set (ma_job_ids a)" and x: "(jid, x) \<in> (feeds (st_jobs (dg_state d)))\<^sup>*"
  shows "pend x (dg_state d')"
proof -
  from run obtain d1 where d1: "for_jobs (rewind_one E (ma_job_ids a) (ma_text a)) (ma_job_ids a) d = Inr d1"
    and d': "st_jobs (dg_state d') = st_jobs (dg_state d1)"
    unfolding do_rewind_def by (auto simp: bindE_Inr_iff)
  note after = rewind_all_ok [OF d1 ids]
  have "pend x (dg_state d1)"
  proof (cases "x \<in> set (ma_job_ids a)")
    case True
    then show ?thesis using after by blast
  next
    case False
    then have "x \<noteq> jid" using jid by blast
    then show ?thesis using after [OF jid] False x by (auto simp: rtrancl_eq_or_trancl)
  qed
  then show ?thesis using d' by (simp add: pend_def)
qed

section \<open>The first event of an attempt\<close>

definition asks_live :: "event \<Rightarrow> bool" where
  "asks_live e \<longleftrightarrow> (case e of Live_Question_Event _ _ _ _ \<Rightarrow> True | _ \<Rightarrow> False)"

definition settled :: "run_state \<Rightarrow> string \<Rightarrow> nat \<Rightarrow> bool" where
  "settled s jid n \<longleftrightarrow>
     (\<forall>j a. find_job s jid = Some j \<longrightarrow> find (\<lambda>a. at_n a = n) (jb_attempts j) = Some a \<longrightarrow>
        at_status a \<noteq> A_Running)"

lemma ingest_settled:
  assumes "settled (dg_state d) (event_job e) (event_attempt e)"
  shows "ingest E e d = d"
  using assms unfolding settled_def ingest_def by (auto split: option.split event.split)

lemma find_on_job:
  assumes "\<And>j. jb_id (f j) = jb_id j"
  shows "find_job (on_job jid f s) jid = map_option f (find_job s jid)"
proof -
  have "find (\<lambda>j. jb_id j = jid) (map (\<lambda>j. if jb_id j = jid then f j else j) js) =
      map_option f (find (\<lambda>j. jb_id j = jid) js)" for js
    by (induction js) (simp_all add: assms)
  then show ?thesis by (simp add: find_job_def on_job_def)
qed

lemma find_attempt:
  assumes "\<And>a. at_n (f a) = at_n a"
  shows "find (\<lambda>a. at_n a = n) (jb_attempts (on_attempt n f j)) =
    map_option f (find (\<lambda>a. at_n a = n) (jb_attempts j))"
proof -
  have "find (\<lambda>a. at_n a = n) (map (\<lambda>a. if at_n a = n then f a else a) as) =
      map_option f (find (\<lambda>a. at_n a = n) as)" for as
    by (induction as) (simp_all add: assms)
  then show ?thesis by (simp add: on_attempt_def)
qed

lemma settledI:
  "(\<And>j. find_job s jid = Some j \<Longrightarrow>
      case find (\<lambda>a. at_n a = n) (jb_attempts j) of None \<Rightarrow> True | Some a \<Rightarrow> at_status a \<noteq> A_Running) \<Longrightarrow>
   settled s jid n"
  unfolding settled_def by fastforce

lemma settled_jobs: "st_jobs s' = st_jobs s \<Longrightarrow> settled s' jid n = settled s jid n"
  by (simp add: settled_def find_job_def)

text \<open>Whatever changes a job's status only keeps its attempts settled.\<close>

lemma settled_on_job:
  assumes "settled s jid n" and "\<And>j. jb_id (f j) = jb_id j" and "\<And>j. jb_attempts (f j) = jb_attempts j"
  shows "settled (on_job jid f s) jid n"
proof (rule settledI)
  fix j assume "find_job (on_job jid f s) jid = Some j"
  then obtain j0 where j0: "find_job s jid = Some j0" "j = f j0"
    unfolding find_on_job [of f, OF assms(2)] by blast
  then show "case find (\<lambda>a. at_n a = n) (jb_attempts j) of None \<Rightarrow> True | Some a \<Rightarrow> at_status a \<noteq> A_Running"
    using assms(1) unfolding settled_def by (simp add: assms(3) split: option.split)
qed

lemma settled_attempt:
  assumes "\<And>a. at_n (f a) = at_n a" and "\<And>a. at_status (f a) \<noteq> A_Running"
    and "\<And>j. jb_id (g j) = jb_id j" and "\<And>j. jb_attempts (g j) = jb_attempts (on_attempt n f j)"
  shows "settled (on_job jid g s) jid n"
proof (rule settledI)
  fix j assume "find_job (on_job jid g s) jid = Some j"
  then obtain j0 where "find_job s jid = Some j0" "j = g j0"
    unfolding find_on_job [of g, OF assms(3)] by blast
  then show "case find (\<lambda>a. at_n a = n) (jb_attempts j) of None \<Rightarrow> True | Some a \<Rightarrow> at_status a \<noteq> A_Running"
    by (simp add: assms(2,4) find_attempt [of f, OF assms(1)] split: option.split)
qed

lemma settle_attempt_ended: "at_status (settle_attempt E r a) \<noteq> A_Running"
  by (cases "ar_status r") (simp_all add: settle_attempt_def)

lemma settled_drop: "settled (drop_situations p s) jid n = settled s jid n"
  by (rule settled_jobs) (simp add: drop_situations_def)

lemma settled_log: "settled (log_event now k i t s) jid n = settled s jid n"
  by (rule settled_jobs) simp

lemma settled_situation: "settled (add_situation E k i m det s) jid n = settled s jid n"
  by (rule settled_jobs) (simp add: add_situation_def)

lemmas settled_simps = settled_drop settled_log settled_situation

lemma settled_finished:
  assumes "settled s (jb_id j) n"
  shows "settled (record_finished E r j s) (jb_id j) n"
proof -
  have "settled (on_job (jb_id j) (\<lambda>j. j\<lparr>jb_status := Finished\<rparr>) s) (jb_id j) n"
    by (rule settled_on_job [OF assms]) simp_all
  moreover have "settled (on_job (jb_id j) f s') (jb_id j) n"
    if "settled s' (jb_id j) n" "f = (\<lambda>j. j\<lparr>jb_status := Pending, jb_pending_reason := Some ''message''\<rparr>)
      \<or> f = (\<lambda>j. j\<lparr>jb_status := Waiting\<rparr>)" for f s'
    by (rule settled_on_job [OF that(1)]) (use that(2) in auto)
  ultimately show ?thesis
    unfolding record_finished_def Let_def by (simp add: settled_simps del: on_job_simps)
qed

lemma settled_result:
  assumes "jb_id j = ar_job_id r"
  shows "settled (dg_state (record_result E r j d)) (ar_job_id r) (ar_attempt r)"
proof -
  define s1 where "s1 = drop_situations (\<lambda>x. si_kind x = Live_Question \<and> si_job_id x = Some (ar_job_id r))
      (on_job (ar_job_id r) (on_attempt (ar_attempt r) (settle_attempt E r)) (dg_state d))"
  have s1: "settled s1 (ar_job_id r) (ar_attempt r)"
    unfolding s1_def settled_drop
  proof (rule settled_attempt [where f = "settle_attempt E r"])
    show "at_n (settle_attempt E r a) = at_n a" for a by (simp add: settle_attempt_def)
    show "at_status (settle_attempt E r a) \<noteq> A_Running" for a by (rule settle_attempt_ended)
    show "jb_id (on_attempt (ar_attempt r) (settle_attempt E r) j) = jb_id j" for j
      by (simp add: on_attempt_def)
  qed (rule refl)
  have waits: "settled (on_job (ar_job_id r) (\<lambda>j. j\<lparr>jb_status := Waiting\<rparr>) s) (ar_job_id r) (ar_attempt r)"
    if "settled s (ar_job_id r) (ar_attempt r)" for s
    by (rule settled_on_job [OF that]) simp_all
  have again: "settled (on_job (ar_job_id r) (\<lambda>j. add_note (en_now E) ''system'' t
        (j\<lparr>jb_status := Pending, jb_pending_reason := Some ''retry''\<rparr>)) s) (ar_job_id r) (ar_attempt r)"
    if "settled s (ar_job_id r) (ar_attempt r)" for s t
    by (rule settled_on_job [OF that]) (simp_all add: add_note_def)
  show ?thesis
  proof (cases "jb_status j = Running")
    case False
    then show ?thesis using s1 assms by (simp add: record_result_def Let_def s1_def)
  next
    case True
    show ?thesis
      using s1 waits again settled_finished [of s1 j] True assms
      by (cases "ar_status r") (simp_all add: record_result_def Let_def s1_def [symmetric] settled_simps)
  qed
qed

lemma settled_lost: "settled (lose_attempt E jid n s) jid n"
  unfolding lose_attempt_def settled_log
  by (rule settled_attempt [where f = "\<lambda>a. a\<lparr>at_status := A_Cancelled, at_finished_at := Some (en_now E)\<rparr>"])
    (simp_all add: Let_def on_attempt_def)

lemma ingest_settles:
  assumes "\<not> asks_live e"
  shows "settled (dg_state (ingest E e d)) (event_job e) (event_attempt e)"
proof (cases "settled (dg_state d) (event_job e) (event_attempt e)")
  case True
  then show ?thesis by (simp add: ingest_settled)
next
  case False
  then obtain j a where j: "find_job (dg_state d) (event_job e) = Some j"
    and a: "find (\<lambda>a. at_n a = event_attempt e) (jb_attempts j) = Some a" "at_status a = A_Running"
    unfolding settled_def by blast
  have id: "jb_id j = event_job e" using find_jobD [OF j] by simp
  have n: "at_n a = event_attempt e" using a(1) by (auto dest: find_Some_iff [THEN iffD1])
  show ?thesis
  proof (cases "lost_event e")
    case True
    then have "ingest E e d = on_state (lose_attempt E (event_job e) (event_attempt e)) d"
      using assms j a id n by (cases e) (simp_all add: ingest_def asks_live_def)
    then show ?thesis by (simp add: settled_lost)
  next
    case False
    then obtain r where r: "e = Attempt_Result r"
      using assms by (cases e) (simp_all add: asks_live_def lost_event_def)
    then have "ingest E e d = record_result E r j d" using False j a by (simp add: ingest_def)
    then show ?thesis using settled_result id r by simp
  qed
qed

end
