(* ===== verification/JobStructure.thy ===== *)
theory JobStructure
  imports JobDownstream
begin

text \<open>
  What a job DAG without structure errors is: its dependencies stay inside the work, have no cycle
  and respect the slots, and there is always a next job to start unless something is under way or
  waits for a decision.
\<close>

lemma find_SomeD: "find P xs = Some x \<Longrightarrow> x \<in> set xs \<and> P x"
  by (induction xs) (auto split: if_splits)

lemma map_of_fold_update:
  "distinct (map f xs) \<Longrightarrow>
   map_of (fold (\<lambda>x. AList.update (f x) (g x)) xs al) k =
     (case find (\<lambda>x. f x = k) xs of Some x \<Rightarrow> Some (g x) | None \<Rightarrow> map_of al k)"
proof (induction xs arbitrary: al)
  case (Cons x xs)
  have "find (\<lambda>y. f y = k) xs = None" if "f x = k"
    using Cons.prems that by (simp add: find_None_iff image_iff) metis
  then show ?case using Cons by (auto simp: update_conv' split: option.split)
qed simp

lemma map_of_job_graph:
  assumes "distinct (map jb_id js)"
  shows "map_of (job_graph js) v = Some ws \<longleftrightarrow>
    (\<exists>j \<in> set js. job_active j \<and> jb_id j = v \<and> ws = jb_depends_on j)"
proof -
  let ?act = "filter job_active js"
  have dist: "distinct (map jb_id ?act)" using assms by (simp add: distinct_map_filter)
  have inj: "inj_on jb_id (set js)" using assms by (simp add: distinct_map)
  have "map_of (job_graph js) v = Some ws \<longleftrightarrow>
      (\<exists>j. find (\<lambda>j. jb_id j = v) ?act = Some j \<and> ws = jb_depends_on j)"
    unfolding job_graph_def map_of_fold_update [OF dist] by (auto split: option.split)
  moreover have "find (\<lambda>j. jb_id j = v) ?act = Some j \<longleftrightarrow> j \<in> set js \<and> job_active j \<and> jb_id j = v" for j
  proof
    assume "find (\<lambda>j. jb_id j = v) ?act = Some j"
    from find_SomeD [OF this] show "j \<in> set js \<and> job_active j \<and> jb_id j = v" by simp
  next
    assume j: "j \<in> set js \<and> job_active j \<and> jb_id j = v"
    then obtain j' where j': "find (\<lambda>j. jb_id j = v) ?act = Some j'"
      by (cases "find (\<lambda>j. jb_id j = v) ?act") (auto simp: find_None_iff)
    from find_SomeD [OF j'] have "j' \<in> set ?act" "jb_id j' = v" by simp_all
    then have "j' = j" using j inj_onD [OF inj, of j' j] by simp
    with j' show "find (\<lambda>j. jb_id j = v) ?act = Some j" by simp
  qed
  ultimately show ?thesis by blast
qed

text \<open>\<open>rests_on s\<close>: job \<open>x\<close> waits for job \<open>c\<close>, both part of the work.\<close>

definition rests_on :: "run_state \<Rightarrow> (string \<times> string) set" where
  "rests_on s = {(jb_id j, c) | j c. j \<in> set (st_jobs s) \<and> job_active j \<and> c \<in> set (jb_depends_on j) \<and>
     c \<in> jb_id ` set (active_jobs s)}"

lemma graph_edges_jobs:
  assumes "distinct (map jb_id (st_jobs s))"
  shows "graph_edges (job_graph (st_jobs s)) = rests_on s"
proof -
  have "map_of (job_graph (st_jobs s)) c \<noteq> None \<longleftrightarrow> c \<in> jb_id ` set (active_jobs s)" for c
    using map_of_job_graph [OF assms, of c] unfolding active_jobs_def by (auto simp: image_iff)
  then show ?thesis
    unfolding graph_edges_def rests_on_def map_of_job_graph [OF assms] by blast
qed

lemma map_filter_Nil: "List.map_filter f xs = [] \<longleftrightarrow> (\<forall>x \<in> set xs. f x = None)"
  by (induction xs) (auto simp: List.map_filter_simps split: option.split)

lemma structure_errors_parts:
  assumes "structure_errors E s = []"
  shows "\<not> has_cycle (job_graph (st_jobs s))"
    and "j \<in> set (active_jobs s) \<Longrightarrow> dep \<in> set (jb_depends_on j) \<Longrightarrow> dep \<in> jb_id ` set (active_jobs s)"
    and "j \<in> set (active_jobs s) \<Longrightarrow>
      check_assignment (jb_id j) (jb_category j) (jb_agent_id j) (jb_datasources j) (en_config E) = []"
    and "count_category cat (st_jobs s) \<le> sl_max (dc_jobs (en_config E) cat)"
    and "length (st_jobs s) \<le> li_max_total_jobs (dc_limits (en_config E))"
proof -
  note none = assms [unfolded structure_errors_def Let_def append_is_Nil_conv List.maps_eq concat_map_Nil]
  show "\<not> has_cycle (job_graph (st_jobs s))" using none by (auto split: if_splits)
  show "length (st_jobs s) \<le> li_max_total_jobs (dc_limits (en_config E))"
    using none by (auto simp: too_many_total_def split: if_splits)
  have "too_many cat (count_category cat (st_jobs s)) (en_config E) = []" using none by simp
  then show "count_category cat (st_jobs s) \<le> sl_max (dc_jobs (en_config E) cat)"
    by (simp add: too_many_def split: if_splits)
  assume j: "j \<in> set (active_jobs s)"
  then show "check_assignment (jb_id j) (jb_category j) (jb_agent_id j) (jb_datasources j) (en_config E) = []"
    using none by blast
  assume dep: "dep \<in> set (jb_depends_on j)"
  show "dep \<in> jb_id ` set (active_jobs s)"
  proof (rule ccontr)
    assume out: "dep \<notin> jb_id ` set (active_jobs s)"
    have "List.map_filter (\<lambda>dep. if dep \<in> jb_id ` set (active_jobs s) then None
             else Some (''job '' @ repr_str (jb_id j) @ '' depends on '' @ repr_str dep
                        @ '', which is removed or unknown; rewire it with update_job'')) (jb_depends_on j) = []"
      using none j by blast
    then show False using dep out unfolding map_filter_Nil by auto
  qed
qed

text \<open>The meaning of a DAG without structure errors.\<close>

definition well_structured :: "dynamic_config \<Rightarrow> run_state \<Rightarrow> bool" where
  "well_structured cf s \<longleftrightarrow>
     acyclic (rests_on s) \<and>
     (\<forall>j \<in> set (active_jobs s). set (jb_depends_on j) \<subseteq> jb_id ` set (active_jobs s)) \<and>
     (\<forall>j \<in> set (active_jobs s). \<exists>p \<in> set (dc_agent_pool cf). pa_agent_id p = jb_agent_id j \<and>
        (pa_categories p = [] \<or> jb_category j \<in> set (pa_categories p))) \<and>
     (\<forall>cat. count_category cat (st_jobs s) \<le> sl_max (dc_jobs cf cat)) \<and>
     length (st_jobs s) \<le> li_max_total_jobs (dc_limits cf)"

lemma check_assignment_agent:
  assumes "check_assignment jid cat agent sources cf = []"
  shows "\<exists>p \<in> set (dc_agent_pool cf). pa_agent_id p = agent \<and> (pa_categories p = [] \<or> cat \<in> set (pa_categories p))"
proof (cases "pool_entry cf agent")
  case None
  with assms show ?thesis by (simp add: check_assignment_def)
next
  case (Some p)
  then have "p \<in> set (dc_agent_pool cf)" "pa_agent_id p = agent"
    by (auto simp: pool_entry_def dest: find_SomeD)
  moreover have "pa_categories p = [] \<or> cat \<in> set (pa_categories p)"
    using assms Some by (simp add: check_assignment_def split: if_splits)
  ultimately show ?thesis by blast
qed

lemma structure_sound:
  assumes ok: "structure_errors E s = []" and ids: "distinct (map jb_id (st_jobs s))"
  shows "well_structured (en_config E) s"
proof -
  note parts = structure_errors_parts [OF ok]
  have "acyclic (rests_on s)" using parts(1) by (simp add: has_cycle_cyclic graph_edges_jobs [OF ids])
  moreover have "set (jb_depends_on j) \<subseteq> jb_id ` set (active_jobs s)" if "j \<in> set (active_jobs s)" for j
    using parts(2) [OF that] by blast
  moreover have "\<exists>p \<in> set (dc_agent_pool (en_config E)). pa_agent_id p = jb_agent_id j \<and>
        (pa_categories p = [] \<or> jb_category j \<in> set (pa_categories p))" if "j \<in> set (active_jobs s)" for j
    by (rule check_assignment_agent [OF parts(3) [OF that]])
  ultimately show ?thesis unfolding well_structured_def using parts(4,5) by blast
qed

section \<open>A job to start\<close>

lemma finite_rests_on: "finite (rests_on s)"
proof -
  have "rests_on s \<subseteq> jb_id ` set (st_jobs s) \<times> jb_id ` set (active_jobs s)" by (auto simp: rests_on_def)
  then show ?thesis by (rule finite_subset) simp
qed

lemma some_job_ready:
  assumes ws: "well_structured cf s" and ids: "distinct (map jb_id (st_jobs s))"
    and pending: "j \<in> set (st_jobs s)" "jb_status j = Pending"
    and calm: "\<forall>j \<in> set (active_jobs s). jb_status j \<in> {Pending, Finished, Skipped}"
  shows "ready_jobs s \<noteq> []"
proof -
  have inj: "inj_on jb_id (set (st_jobs s))" using ids by (simp add: distinct_map)
  let ?P = "{j \<in> set (st_jobs s). jb_status j = Pending}"
  have "wf ((rests_on s)\<inverse>)"
    using ws finite_rests_on by (intro finite_acyclic_wf_converse) (simp_all add: well_structured_def)
  moreover have "jb_id j \<in> jb_id ` ?P" using pending by blast
  ultimately obtain v where v: "v \<in> jb_id ` ?P" and min: "\<And>u. (u, v) \<in> (rests_on s)\<inverse> \<Longrightarrow> u \<notin> jb_id ` ?P"
    by (rule wfE_min) blast
  from v obtain k where k: "k \<in> set (st_jobs s)" "jb_status k = Pending" "jb_id k = v" by blast
  then have active: "k \<in> set (active_jobs s)" by (simp add: active_jobs_def job_active_def)
  have "\<exists>u. find_job s dep = Some u \<and> (jb_status u = Finished \<or> jb_status u = Skipped)"
    if dep: "dep \<in> set (jb_depends_on k)" for dep
  proof -
    have "dep \<in> jb_id ` set (active_jobs s)" using ws active dep unfolding well_structured_def by blast
    then obtain u where u: "u \<in> set (active_jobs s)" "jb_id u = dep" by blast
    then have us: "u \<in> set (st_jobs s)" by (simp add: active_jobs_def)
    obtain u' where u': "find_job s dep = Some u'"
      using us u(2) by (cases "find_job s dep") (auto simp: find_job_def find_None_iff)
    then have "u' = u" using find_jobD [OF u'] us u(2) by (intro inj_onD [OF inj]) auto
    have "(v, dep) \<in> rests_on s"
      using k active dep u unfolding rests_on_def active_jobs_def by auto
    then have "dep \<notin> jb_id ` ?P" using min by blast
    then have "jb_status u \<noteq> Pending" using us u(2) by blast
    then have "jb_status u = Finished \<or> jb_status u = Skipped" using calm u(1) by blast
    then show ?thesis using u' \<open>u' = u\<close> by blast
  qed
  then have "job_ready s k"
    using k(2) unfolding job_ready_def list_all_iff by fastforce
  then show ?thesis using k(1) by (auto simp: ready_jobs_def filter_empty_conv)
qed

section \<open>Authored plans\<close>

lemma job_graph_specs: "job_graph (map (job_of_spec by) specs) = spec_graph [] specs"
proof -
  have "filter job_active (map (job_of_spec by) specs) = map (job_of_spec by) specs"
    by (simp add: filter_id_conv job_active_def)
  then show ?thesis by (simp add: job_graph_def spec_graph_def fold_map comp_def)
qed

lemma check_specs_agent:
  "check_specs allowed cf existing seen specs = [] \<Longrightarrow> sp \<in> set specs \<Longrightarrow>
   check_assignment (js_id sp) (js_category sp) (js_agent_id sp) (js_datasources sp) cf = []"
  by (induction specs arbitrary: seen) auto

lemma count_specs_jobs: "count_category cat (map (job_of_spec by) specs) = count_specs cat specs"
  by (induction specs) (simp_all add: count_category_def count_specs_def job_active_def)

lemma check_depsD:
  assumes "check_deps known sp = []" and "dep \<in> set (js_depends_on sp)"
  shows "dep \<in> known"
proof (rule ccontr)
  assume "dep \<notin> known"
  with assms show False unfolding check_deps_def map_filter_Nil by (auto split: if_splits)
qed

lemma authored_structure:
  assumes valid: "validate_jobs specs cf [] cats = []" and jobs: "st_jobs s = map (job_of_spec by) specs"
  shows "well_structured cf s"
proof -
  note none = valid [unfolded validate_jobs_def Let_def append_is_Nil_conv List.maps_eq concat_map_Nil]
  have active: "active_jobs s = st_jobs s"
    by (simp add: active_jobs_def jobs filter_id_conv job_active_def)
  have ids: "distinct (map jb_id (st_jobs s))"
    using validate_jobs_fresh [OF valid] by (simp add: jobs comp_def)
  have "\<not> has_cycle (job_graph (st_jobs s))" using none by (auto simp: jobs job_graph_specs split: if_splits)
  then have "acyclic (rests_on s)" by (simp add: has_cycle_cyclic graph_edges_jobs [OF ids])
  moreover have "set (jb_depends_on j) \<subseteq> jb_id ` set (active_jobs s)" if j: "j \<in> set (active_jobs s)" for j
  proof
    fix dep assume dep: "dep \<in> set (jb_depends_on j)"
    obtain sp where sp: "sp \<in> set specs" "j = job_of_spec by sp" using j unfolding active jobs by auto
    have "check_deps (jb_id ` set (filter job_active []) \<union> js_id ` set specs) sp = []"
      using none sp(1) by blast
    from check_depsD [OF this] dep have "dep \<in> js_id ` set specs" by (simp add: sp(2))
    then show "dep \<in> jb_id ` set (active_jobs s)" by (auto simp: active jobs image_image)
  qed
  moreover have "\<exists>p \<in> set (dc_agent_pool cf). pa_agent_id p = jb_agent_id j \<and>
        (pa_categories p = [] \<or> jb_category j \<in> set (pa_categories p))" if j: "j \<in> set (active_jobs s)" for j
  proof -
    obtain sp where sp: "sp \<in> set specs" "j = job_of_spec by sp" using j unfolding active jobs by auto
    have "check_assignment (js_id sp) (js_category sp) (js_agent_id sp) (js_datasources sp) cf = []"
      using none sp(1) check_specs_agent by blast
    from check_assignment_agent [OF this] show ?thesis by (simp add: sp(2))
  qed
  moreover have "count_category cat (st_jobs s) \<le> sl_max (dc_jobs cf cat)" for cat
  proof -
    have "too_many cat (count_category cat [] + count_specs cat specs) cf = []" using none by simp
    then have "count_specs cat specs \<le> sl_max (dc_jobs cf cat)"
      by (simp add: too_many_def count_category_def split: if_splits)
    then show ?thesis unfolding jobs count_specs_jobs .
  qed
  moreover have "length (st_jobs s) \<le> li_max_total_jobs (dc_limits cf)"
    using none by (auto simp: jobs too_many_total_def split: if_splits)
  ultimately show ?thesis unfolding well_structured_def by blast
qed

end
