(* ===== verification/JobProperties.thy ===== *)
theory JobProperties
  imports JobStructure
begin

text \<open>
  What the rules of \<^verbatim>\<open>dynamic/engine.py\<close> guarantee of a job workflow, with concrete workflows:
  a plan of three jobs for one agent, authored or decided by a model.
\<close>

section \<open>Concrete workflows\<close>

definition example_spec :: "string \<Rightarrow> string list \<Rightarrow> job_spec" where
  "example_spec jid deps =
     \<lparr>js_id = jid, js_category = Execution, js_agent_id = ''dev'', js_title = jid, js_prompt = ''work'',
      js_depends_on = deps, js_owns = [], js_datasources = []\<rparr>"

definition example_plan :: "job_spec list" where
  "example_plan = [example_spec ''a'' [], example_spec ''b'' [''a''], example_spec ''c'' []]"

definition example_config :: "automation \<Rightarrow> job_spec list option \<Rightarrow> dynamic_config" where
  "example_config mode plan =
     \<lparr>dc_agent_pool = [\<lparr>pa_agent_id = ''dev'', pa_max_instances = 1, pa_categories = [Execution]\<rparr>],
      dc_jobs = default_slots, dc_plan = plan, dc_datasources = [], dc_automation = mode,
      dc_limits = default_limits, dc_instructions = '''', dc_shared_volume = None, dc_repo = None\<rparr>"

definition example_env :: "automation \<Rightarrow> job_spec list option \<Rightarrow> env" where
  "example_env mode plan =
     \<lparr>en_config = example_config mode plan, en_roster = ''dev'', en_request = ''do it'', en_run_id = ''run'',
      en_workspace = [], en_now = 0, en_uuid = (\<lambda>k. nat_digits k), en_instructions = (\<lambda>_. '''')\<rparr>"

definition no_meta :: meta_state where
  "no_meta = \<lparr>ms_usage = [], ms_calls = 0\<rparr>"

definition idle_meta :: decider where
  "idle_meta view check m = (Inl (Dispatcher_Error ''nothing to decide''), m)"

definition example_action :: "action_kind \<Rightarrow> meta_action" where
  "example_action k =
     \<lparr>ma_kind = k, ma_jobs = [], ma_job_id = None, ma_job_ids = [], ma_text = '''', ma_interrupt = False,
      ma_restart = False, ma_changes = []\<rparr>"

definition example_decision :: meta_decision where
  "example_decision =
     \<lparr>md_summary = ''plan'', md_actions = [(example_action Add_Jobs)\<lparr>ma_jobs := example_plan\<rparr>]\<rparr>"

definition example_result :: "string \<Rightarrow> outcome_status \<Rightarrow> event" where
  "example_result jid st = Attempt_Result
     \<lparr>ar_status = st, ar_output = Some [(''summary'', JStr ''ok'')], ar_error = None, ar_questions = [],
      ar_unread = [], ar_job_id = jid, ar_attempt = 1, ar_child = None\<rparr>"

abbreviation "example_authored \<equiv> example_env Auto (Some example_plan)"

definition example_pass :: "event list \<Rightarrow> run_state \<Rightarrow> string + (step_status \<times> dag)" where
  "example_pass es s = schedule idle_meta example_authored es None False (new_dag s no_meta)"

definition state_after :: "string + (step_status \<times> dag) \<Rightarrow> run_state" where
  "state_after r = (case r of Inl _ \<Rightarrow> empty_run_state '''' | Inr (st, d) \<Rightarrow> dg_state d)"

definition example_running :: run_state where
  "example_running = state_after (example_pass [] (empty_run_state ''step''))"

text \<open>A pass that goes on with \<open>d\<close>, as a check that evaluates.\<close>

definition goes_on :: "string + (step_status \<times> dag) \<Rightarrow> (dag \<Rightarrow> bool) \<Rightarrow> bool" where
  "goes_on r P = (case r of Inl _ \<Rightarrow> False | Inr (st, d) \<Rightarrow> st = Run \<and> P d)"

lemma goes_onE:
  assumes "goes_on r P"
  obtains d where "r = Inr (Run, d)" "P d"
  using assms by (cases r) (auto simp: goes_on_def)

definition succeeds :: "string + dag \<Rightarrow> (dag \<Rightarrow> bool) \<Rightarrow> bool" where
  "succeeds r P = (case r of Inl _ \<Rightarrow> False | Inr d \<Rightarrow> P d)"

lemma succeedsE:
  assumes "succeeds r P"
  obtains d where "r = Inr d" "P d"
  using assms by (cases r) (auto simp: succeeds_def)

lemma feeds_ex: "list_ex (\<lambda>j. jb_id j = x \<and> job_active j \<and> c \<in> set (jb_depends_on j)) js \<Longrightarrow> (c, x) \<in> feeds js"
  by (auto simp: feeds_def list_ex_iff)

lemma example_first:
  "\<exists>d. example_pass [] (empty_run_state ''step'') = Inr (Run, d) \<and> dg_state d = example_running \<and>
     map (jb_id \<circ> la_job) (sp_launches (dg_step d)) = [''a'']"
proof -
  have "goes_on (example_pass [] (empty_run_state ''step''))
      (\<lambda>d. map (jb_id \<circ> la_job) (sp_launches (dg_step d)) = [''a''])"
    by code_simp
  then obtain d where d: "example_pass [] (empty_run_state ''step'') = Inr (Run, d)"
    "map (jb_id \<circ> la_job) (sp_launches (dg_step d)) = [''a'']" by (rule goes_onE)
  have "dg_state d = example_running"
    unfolding example_running_def d(1) by (simp only: state_after_def sum.case prod.case)
  with d show ?thesis by (intro exI conjI)
qed

lemma example_history: "dag_history (example_config Auto (Some example_plan)) example_running"
proof -
  obtain d where d: "example_pass [] (empty_run_state ''step'') = Inr (Run, d)" "dg_state d = example_running"
    using example_first by blast
  have "en_config example_authored = example_config Auto (Some example_plan)" by (simp add: example_env_def)
  from dag_history.pass [OF dag_history.start this d(1) [unfolded example_pass_def]] d(2)
  show ?thesis by simp
qed

lemma example_running_facts:
  "map jb_status (st_jobs example_running) = [Running, Pending, Pending]"
  "\<not> ended example_running" "map (length \<circ> jb_attempts) (st_jobs example_running) = [1, 0, 0]"
  unfolding ended_def by code_simp+

lemma example_second:
  "\<exists>d. example_pass [example_result ''a'' O_Finished] example_running = Inr (Run, d) \<and>
     map jb_status (st_jobs (dg_state d)) = [Finished, Running, Pending]"
proof -
  have "goes_on (example_pass [example_result ''a'' O_Finished] example_running)
      (\<lambda>d. map jb_status (st_jobs (dg_state d)) = [Finished, Running, Pending])"
    by code_simp
  then show ?thesis by (rule goes_onE) (intro exI conjI)
qed

section \<open>The record of a run\<close>

text \<open>
  C21: Whatever sequence of passes, events, human resolutions and manual retries a run goes through, its
  record stays in order: job ids are unique, attempts are numbered from 1 and only the last of a
  running job runs, retries stay within their budget, notes and events within their bounds.
\<close>

theorem dag_record_in_order:
  assumes "dag_history cf s"
  shows "state_ok cf s"
  using assms by (rule dag_history_ok)

theorem dag_record_in_order_witness:
  "state_ok (example_config Auto (Some example_plan)) example_running \<and> running_jobs example_running \<noteq> []"
proof
  show "state_ok (example_config Auto (Some example_plan)) example_running"
    by (rule dag_record_in_order [OF example_history])
  show "running_jobs example_running \<noteq> []" by code_simp
qed

text \<open>
  C26: At every point of a run at most \<open>max_parallel\<close> jobs are running.
\<close>

theorem never_over_parallel:
  assumes "dag_history cf s"
  shows "length (running_jobs s) \<le> li_max_parallel (dc_limits cf)"
  using assms by (rule dag_history_parallel)

theorem never_over_parallel_witness:
  "length (running_jobs example_running) \<le> 4 \<and> length (ready_jobs example_running) = 1"
proof
  show "length (running_jobs example_running) \<le> 4"
    using never_over_parallel [OF example_history]
    by (simp add: example_config_def default_limits_def)
  show "length (ready_jobs example_running) = 1" by code_simp
qed

text \<open>
  C22: A pass never leaves a run stranded: it ends with work running and nothing to decide, at a gate
  with an open decision, completed with every job finished or skipped, or failed with
  nothing running.
\<close>

theorem pass_never_strands:
  assumes "schedule decide E events res stopped (new_dag s m) = Inr (status, d')"
    and "dag_history (en_config E) s" and "\<not> ended s"
  shows "outcome_ok E status (dg_state d')"
  using schedule_ok [OF assms(1) dag_history_ok [OF assms(2)] assms(3)] by blast

theorem pass_never_strands_witness:
  "\<exists>d. example_pass [example_result ''a'' O_Finished] example_running = Inr (Run, d) \<and>
     outcome_ok example_authored Run (dg_state d)"
proof -
  obtain d where d: "example_pass [example_result ''a'' O_Finished] example_running = Inr (Run, d)"
    using example_second by blast
  have "dag_history (en_config example_authored) example_running"
    using example_history by (simp add: example_env_def)
  from pass_never_strands [OF d [unfolded example_pass_def] this example_running_facts(2)] d
  show ?thesis by blast
qed

text \<open>
  C29: The history of a run is never rewritten: a pass keeps every job at its place with its
  category, keeps every attempt that is over as it is, and only appends jobs and attempts.
\<close>

theorem pass_appends_only:
  assumes "schedule decide E events res stopped (new_dag s m) = Inr (status, d')"
    and "dag_history (en_config E) s"
  shows "append_only s (dg_state d')"
proof (cases "ended s")
  case True
  show ?thesis using schedule_ended [OF assms(1) True] dag_history_ok [OF assms(2)] by (simp add: quiet_def)
next
  case False
  show ?thesis
    using schedule_ok [OF assms(1) dag_history_ok [OF assms(2)] False] dag_history_ok [OF assms(2)]
    by (simp add: pass_ok_def)
qed

theorem pass_appends_only_witness:
  "\<exists>d. example_pass [example_result ''a'' O_Finished] example_running = Inr (Run, d) \<and>
     append_only example_running (dg_state d)"
proof -
  obtain d where d: "example_pass [example_result ''a'' O_Finished] example_running = Inr (Run, d)"
    using example_second by blast
  have "dag_history (en_config example_authored) example_running"
    using example_history by (simp add: example_env_def)
  from pass_appends_only [OF d [unfolded example_pass_def] this] d show ?thesis by blast
qed

text \<open>
  C27: What a pass launches is the running last attempt of a job of the record, and every job
  it depends on is finished or skipped.
\<close>

theorem launches_wait_for_upstream:
  assumes "schedule decide E events res stopped (new_dag s m) = Inr (Run, d')"
    and "dag_history (en_config E) s" and "\<not> ended s" and "l \<in> set (sp_launches (dg_step d'))"
  shows "launch_fine (dg_state d') l"
  using schedule_ok [OF assms(1) dag_history_ok [OF assms(2)] assms(3)] assms(4)
  unfolding launches_fine_def by simp

theorem launches_wait_for_upstream_witness:
  "\<exists>d. example_pass [example_result ''a'' O_Finished] example_running = Inr (Run, d) \<and>
     (\<exists>l. l \<in> set (sp_launches (dg_step d)) \<and> jb_depends_on (la_job l) = [''a''] \<and> launch_fine (dg_state d) l)"
proof -
  have "goes_on (example_pass [example_result ''a'' O_Finished] example_running)
      (\<lambda>d. sp_launches (dg_step d) \<noteq> [] \<and> jb_depends_on (la_job (hd (sp_launches (dg_step d)))) = [''a''])"
    by code_simp
  then obtain d where d: "example_pass [example_result ''a'' O_Finished] example_running = Inr (Run, d)"
    "sp_launches (dg_step d) \<noteq> []" "jb_depends_on (la_job (hd (sp_launches (dg_step d)))) = [''a'']"
    by (rule goes_onE) simp
  have "dag_history (en_config example_authored) example_running"
    using example_history by (simp add: example_env_def)
  from launches_wait_for_upstream [OF d(1) [unfolded example_pass_def] this example_running_facts(2)
      hd_in_set [OF d(2)]] d show ?thesis using hd_in_set by blast
qed

section \<open>Events\<close>

text \<open>
  C30: The first event that settles an attempt counts: a result delivered twice, a loss reported after
  the result, a question of an attempt that is over, all of them change nothing.
\<close>

theorem first_event_wins:
  assumes "\<not> asks_live e" and "event_job e' = event_job e" and "event_attempt e' = event_attempt e"
  shows "ingest E e' (ingest E e d) = ingest E e d"
  by (rule ingest_settled) (simp add: assms ingest_settles)

theorem first_event_wins_witness:
  "ingest example_authored (Lost_Attempt ''a'' 1)
     (ingest example_authored (example_result ''a'' O_Finished) (new_dag example_running no_meta)) =
   ingest example_authored (example_result ''a'' O_Finished) (new_dag example_running no_meta)"
  by (rule first_event_wins) (simp_all add: asks_live_def example_result_def)

section \<open>Downstream work\<close>

text \<open>
  The jobs found downstream of a job are exactly those that depend on it through any number
  of others that are still part of the work, each once.
\<close>

theorem dependents_exact:
  "distinct (dependents s jid) \<and>
   set (dependents s jid) = {x. (jid, x) \<in> (feeds (st_jobs s))\<^sup>+} - {jid}"
  by (rule dependents_found)

text \<open>
  C28: After a rewind, the rewound jobs and everything that rests on them are pending: no result of the
  work being redone is kept as current.
\<close>

theorem rewind_restarts_downstream:
  assumes "do_rewind E a d = Inr d'" and "state_ok cf (dg_state d)" and "jid \<in> set (ma_job_ids a)"
    and "(jid, jb_id j) \<in> (feeds (st_jobs (dg_state d)))\<^sup>*" and "j \<in> set (st_jobs (dg_state d'))"
  shows "jb_status j = Pending"
proof -
  have "distinct (map jb_id (st_jobs (dg_state d)))" using assms(2) by (simp add: state_ok_def)
  from rewind_pends [OF assms(1) this assms(3,4)] show ?thesis using assms(5) by (simp add: pend_def)
qed

theorem rewind_restarts_downstream_witness:
  "\<exists>d' j. do_rewind example_authored ((example_action Rewind)\<lparr>ma_job_ids := [''a'']\<rparr>)
        (new_dag example_running no_meta) = Inr d' \<and> j \<in> set (st_jobs (dg_state d')) \<and>
     jb_id j = ''b'' \<and> jb_status j = Pending"
proof -
  let ?a = "(example_action Rewind)\<lparr>ma_job_ids := [''a'']\<rparr>"
  have "succeeds (do_rewind example_authored ?a (new_dag example_running no_meta))
      (\<lambda>d. list_ex (\<lambda>j. jb_id j = ''b'') (st_jobs (dg_state d)))"
    by code_simp
  then obtain d' where d': "do_rewind example_authored ?a (new_dag example_running no_meta) = Inr d'"
    and "list_ex (\<lambda>j. jb_id j = ''b'') (st_jobs (dg_state d'))" by (rule succeedsE)
  from this(2) obtain j where j: "j \<in> set (st_jobs (dg_state d'))" "jb_id j = ''b''"
    unfolding list_ex_iff by (elim bexE)
  have "list_ex (\<lambda>j. jb_id j = ''b'' \<and> job_active j \<and> ''a'' \<in> set (jb_depends_on j)) (st_jobs example_running)"
    by code_simp
  then have "(''a'', ''b'') \<in> feeds (st_jobs example_running)" by (rule feeds_ex)
  then have "(''a'', jb_id j) \<in> (feeds (st_jobs example_running))\<^sup>*" unfolding j(2) by (rule r_into_rtrancl)
  then have b: "(''a'', jb_id j) \<in> (feeds (st_jobs (dg_state (new_dag example_running no_meta))))\<^sup>*"
    unfolding new_dag_def dag.select_convs .
  have ok: "state_ok (example_config Auto (Some example_plan)) (dg_state (new_dag example_running no_meta))"
    unfolding new_dag_def dag.select_convs by (rule dag_history_ok [OF example_history])
  have "jb_status j = Pending" by (rule rewind_restarts_downstream [OF d' ok _ b j(1)]) simp
  with d' j show ?thesis by (intro exI conjI)
qed

section \<open>Retries\<close>

text \<open>
  A manual retry gives every job that had stopped another attempt and an automatic retry of its own,
  whatever the results that came in meanwhile: it is pending again and within its retry budget.
\<close>

theorem manual_retry_granted:
  assumes "dag_history (en_config E) s" and "s' = fold (note_result E) results s"
    and "j \<in> set (st_jobs s')" and "stuck (jb_status j)"
  shows "jb_status (retry_job j) = Pending \<and> retry_job j \<in> set (st_jobs (reset_for_retry E s')) \<and>
    retries_left E (reset_for_retry E s') (retry_job j)"
proof -
  have "mirror_ok (en_config E) s'"
    unfolding assms(2) by (rule note_results_ok [OF state_mirror_ok [OF dag_history_ok [OF assms(1)]]])
  from retried_ok [OF this assms(3)] have ok: "job_ok (en_config E) (reset_for_retry E s') (retry_job j)" .
  have "jb_status (retry_job j) = Pending" "jb_pending_reason (retry_job j) = Some ''retry''"
    using assms(4) by (simp_all add: retry_job_def Let_def)
  with ok assms(3) show ?thesis by (simp add: job_ok_def retries_left_def retry_budget_def)
qed

theorem manual_retry_granted_witness:
  "jb_status (retry_job (hd (st_jobs example_running))) = Pending \<and>
   retry_job (hd (st_jobs example_running)) \<in> set (st_jobs (reset_for_retry example_authored example_running)) \<and>
   retries_left example_authored (reset_for_retry example_authored example_running)
     (retry_job (hd (st_jobs example_running)))"
proof (rule manual_retry_granted [where results = "[]"])
  show "dag_history (en_config example_authored) example_running"
    using example_history by (simp add: example_env_def)
  show "hd (st_jobs example_running) \<in> set (st_jobs example_running)"
    by (rule hd_in_set) code_simp
  show "stuck (jb_status (hd (st_jobs example_running)))" by code_simp
qed simp

section \<open>Decisions\<close>

text \<open>
  C31: A decision that needs a human's approval changes nothing yet: no job is touched, nothing is
  launched or stopped, and the decision stands open with all it would do.
\<close>

theorem gated_decision_waits:
  assumes "take_decision E dec sits d = Inr d'" and "kind_of (dg_state d) dec sits = Some k"
    and "needs_approval (en_config E) k"
  shows "st_jobs (dg_state d') = st_jobs (dg_state d) \<and> dg_step d' = dg_step d \<and>
    (\<exists>dc \<in> set (open_decisions (dg_state d')). de_payload dc = Meta_Payload dec sits)"
proof -
  have not_bypass: "dc_automation (en_config E) \<noteq> Bypass" using assms(3) by (auto simp: needs_approval_def)
  have kind: "kind_of ((dg_state d)\<lparr>st_situations := []\<rparr>) dec sits = Some k"
    using assms(2) by (simp add: kind_of_def active_jobs_def)
  have opened: "\<exists>dc \<in> set (open_decisions (record_decision E k' sm dec sits s)). de_payload dc = Meta_Payload dec sits"
    for k' sm s
    by (auto simp: record_decision_def open_decisions_def log_event_def)
  from assms(1) not_bypass kind assms(3) have "\<exists>k' sm.
    d' = on_state (record_decision E k' sm dec sits) (on_state (\<lambda>s. s\<lparr>st_situations := []\<rparr>) d)"
    unfolding take_decision_def Let_def by (simp only: state_of_on_state option.case)
      (simp split: if_splits; intro exI; erule sym)
  then obtain k' sm where
    d': "d' = on_state (record_decision E k' sm dec sits) (on_state (\<lambda>s. s\<lparr>st_situations := []\<rparr>) d)"
    by (elim exE)
  have "st_jobs (record_decision E k' sm dec sits s) = st_jobs s" for s
    unfolding record_decision_def log_event_simps by simp
  then show ?thesis unfolding d' using opened by simp
qed

definition planned :: dag where
  "planned = on_state (add_situation (example_env Ask None) Start None None []) (new_dag (empty_run_state ''step'') no_meta)"

theorem gated_decision_waits_witness:
  "\<exists>d'. take_decision (example_env Ask None) example_decision (st_situations (dg_state planned)) planned = Inr d' \<and>
     st_jobs (dg_state d') = [] \<and> (\<exists>dc. dc \<in> set (open_decisions (dg_state d')))"
proof -
  have "succeeds (take_decision (example_env Ask None) example_decision (st_situations (dg_state planned)) planned)
      (\<lambda>_. True)" by code_simp
  then obtain d' where d': "take_decision (example_env Ask None) example_decision
      (st_situations (dg_state planned)) planned = Inr d'" by (rule succeedsE)
  have "kind_of (dg_state planned) example_decision (st_situations (dg_state planned)) = Some D_Plan" by code_simp
  moreover have "needs_approval (en_config (example_env Ask None)) D_Plan" by code_simp
  ultimately have "st_jobs (dg_state d') = st_jobs (dg_state planned) \<and>
      (\<exists>dc \<in> set (open_decisions (dg_state d')). True)"
    using gated_decision_waits [OF d'] by blast
  moreover have "st_jobs (dg_state planned) = []" by code_simp
  ultimately show ?thesis using d' by auto
qed

section \<open>The model's answers\<close>

lemma ask_llm_calls: "ms_calls (snd (ask_llm L prompt m)) = ms_calls m + 1"
  by (auto simp: ask_llm_def count_usage_def split: sum.split prod.split)

lemma ask_llm_calls_eq: "ask_llm L prompt m = (r, m') \<Longrightarrow> ms_calls m' = ms_calls m + 1"
  using ask_llm_calls [of L prompt m] by simp

text \<open>
  The model is asked at most twice for a decision, and a decision it gives has passed every check.
\<close>

theorem model_answer_checked:
  assumes "llm_decide L view check m = (answer, m')"
  shows "ms_calls m' \<le> ms_calls m + 2 \<and> (\<forall>dec. answer = Inr dec \<longrightarrow> check dec = [])"
proof -
  have "ms_calls m' \<le> ms_calls m + 2"
  proof -
    obtain r1 m1 where first: "ask_llm L (render_view (lm_actions_help L) view) m = (r1, m1)" by fastforce
    note one = ask_llm_calls_eq [OF first]
    show ?thesis
    proof (cases r1)
      case (Inl e)
      with assms first one show ?thesis by (simp add: llm_decide_def Let_def)
    next
      case (Inr reply)
      obtain r2 m2 where second: "ask_llm L (repair_prompt (render_view (lm_actions_help L) view) reply
          (answer_errors L check reply)) m1 = (r2, m2)" by fastforce
      note two = ask_llm_calls_eq [OF second]
      show ?thesis
        using assms first second one two Inr
        by (cases r2) (auto simp: llm_decide_def Let_def split: if_splits)
    qed
  qed
  then show ?thesis using llm.decided_valid assms by blast
qed

definition example_llm :: llm where
  "example_llm =
     \<lparr>lm_ask = (\<lambda>k prompt. Inr (if k = 0 then ''?'' else ''plan'', [(''input_tokens'', 1)])),
      lm_parse = (\<lambda>t. if t = ''plan'' then Inr example_decision else Inl ''no JSON''),
      lm_actions_help = ''add_jobs''\<rparr>"

definition example_view :: meta_view where
  "example_view =
     \<lparr>vw_request = ''do it'', vw_config = example_config Auto None, vw_roster = ''dev'',
      vw_dag = empty_run_state ''step'', vw_situations = []\<rparr>"

theorem model_answer_checked_witness:
  "\<exists>m'. llm_decide example_llm example_view (\<lambda>dec. if md_actions dec = [] then [''no actions''] else []) no_meta =
      (Inr example_decision, m') \<and> ms_calls m' = 2 \<and> ms_calls m' \<le> ms_calls no_meta + 2"
proof -
  let ?run = "llm_decide example_llm example_view (\<lambda>dec. if md_actions dec = [] then [''no actions''] else []) no_meta"
  obtain answer m' where run: "?run = (answer, m')" by fastforce
  have "ms_calls (snd ?run) = 2 \<and> map_sum (\<lambda>_. ()) md_summary (fst ?run) = Inr ''plan''" by code_simp
  moreover have "fst ?run = Inr example_decision \<or> (\<exists>e. fst ?run = Inl e)"
    by (auto simp: llm_decide_def Let_def accepted_def ask_llm_def example_llm_def answer_errors_def split: sum.split)
  ultimately have "answer = Inr example_decision" "ms_calls m' = 2" unfolding run by auto
  moreover have "ms_calls m' \<le> ms_calls no_meta + 2" using model_answer_checked [OF run] by blast
  ultimately show ?thesis using run by blast
qed

section \<open>The structure of the work\<close>

text \<open>
  C24: Whatever the model decides about work in order, the work is in order afterwards: its
  dependencies stay inside it and have no cycle, every job is assigned to an agent of the pool that
  may do it, and neither a category's slots nor the total are exceeded.
\<close>

theorem model_keeps_structure:
  assumes "consult (llm_decide L) E rejection d = Inr d'" and "structure_errors E (dg_state d) = []"
    and "state_ok (en_config E) (dg_state d)"
  shows "well_structured (en_config E) (dg_state d')"
proof -
  have "quiet (en_config E) (dg_state d) (dg_state d')" by (rule quiet_consult [OF assms(1)])
  then have "distinct (map jb_id (st_jobs (dg_state d')))" using assms(3) by (simp add: quiet_def state_ok_def)
  with llm.consult_keeps_structure [OF assms(1,2)] show ?thesis by (rule structure_sound)
qed

theorem model_keeps_structure_witness:
  "\<exists>d'. consult (llm_decide example_llm) (example_env Auto None) None planned = Inr d' \<and>
     length (st_jobs (dg_state d')) = 3 \<and> well_structured (en_config (example_env Auto None)) (dg_state d')"
proof -
  have "succeeds (consult (llm_decide example_llm) (example_env Auto None) None planned)
      (\<lambda>d. length (st_jobs (dg_state d)) = 3)" by code_simp
  then obtain d' where d': "consult (llm_decide example_llm) (example_env Auto None) None planned = Inr d'"
    "length (st_jobs (dg_state d')) = 3" by (rule succeedsE)
  have "structure_errors (example_env Auto None) (dg_state planned) = []" by code_simp
  moreover have "state_ok (en_config (example_env Auto None)) (dg_state planned)"
    by (simp add: planned_def new_dag_def add_situation_def state_ok_def empty_run_state_def log_event_def)
  ultimately have "well_structured (en_config (example_env Auto None)) (dg_state d')"
    by (rule model_keeps_structure [OF d'(1)])
  with d' show ?thesis by blast
qed

text \<open>
  An authored plan that is started is in order in the same sense.
\<close>

theorem authored_plan_sound:
  assumes "st_jobs (dg_state d) = []" and "st_status (dg_state (start_authored E specs d)) \<noteq> S_Failed"
  shows "well_structured (en_config E) (dg_state (start_authored E specs d))"
proof -
  define errors where "errors = validate_jobs specs (en_config E) [] job_categories @
      check_minimums (\<lambda>cat. count_specs cat specs) (en_config E)"
  have none: "errors = []"
  proof (rule ccontr)
    assume "errors \<noteq> []"
    then have "st_status (dg_state (start_authored E specs d)) = S_Failed"
      unfolding start_authored_def Let_def errors_def [symmetric] by (simp add: fail_run_def)
    with assms(2) show False by simp
  qed
  then have jobs: "st_jobs (dg_state (start_authored E specs d)) = map (job_of_spec ''author'') specs"
    unfolding start_authored_def Let_def errors_def [symmetric] by (simp add: assms(1))
  from none have "validate_jobs specs (en_config E) [] job_categories = []" by (simp add: errors_def)
  from authored_structure [OF this jobs] show ?thesis .
qed

theorem authored_plan_sound_witness:
  "well_structured (en_config example_authored)
     (dg_state (start_authored example_authored example_plan (new_dag (empty_run_state ''step'') no_meta)))"
proof (rule authored_plan_sound)
  show "st_jobs (dg_state (new_dag (empty_run_state ''step'') no_meta)) = []" by code_simp
  show "st_status (dg_state (start_authored example_authored example_plan
      (new_dag (empty_run_state ''step'') no_meta))) \<noteq> S_Failed" by code_simp
qed

text \<open>
  C25: Work in order is never stuck: while a job is pending and nothing is running, waiting or failed,
  some job can start.
\<close>

theorem dag_never_deadlocks:
  assumes "dag_history cf s" and "well_structured cf s"
    and "j \<in> set (st_jobs s)" and "jb_status j = Pending"
    and "\<forall>j \<in> set (active_jobs s). jb_status j \<in> {Pending, Finished, Skipped}"
  shows "ready_jobs s \<noteq> []"
proof -
  have "distinct (map jb_id (st_jobs s))" using dag_history_ok [OF assms(1)] by (simp add: state_ok_def)
  from some_job_ready [OF assms(2) this assms(3-5)] show ?thesis .
qed

definition example_retried :: run_state where
  "example_retried = reset_for_retry example_authored example_running"

theorem dag_never_deadlocks_witness:
  "ready_jobs example_retried \<noteq> [] \<and> length (st_jobs example_retried) = 3"
proof
  have history: "dag_history (example_config Auto (Some example_plan)) example_retried"
    using dag_history.retry [OF example_history, of example_authored "[]"]
    by (simp add: example_retried_def example_env_def)
  have "structure_errors example_authored example_retried = []" by code_simp
  from structure_sound [OF this] dag_history_ok [OF history]
  have "well_structured (example_config Auto (Some example_plan)) example_retried"
    by (simp add: state_ok_def example_env_def)
  moreover have "hd (st_jobs example_retried) \<in> set (st_jobs example_retried)" by (rule hd_in_set) code_simp
  moreover have "jb_status (hd (st_jobs example_retried)) = Pending" by code_simp
  moreover have "\<forall>j \<in> set (active_jobs example_retried). jb_status j \<in> {Pending, Finished, Skipped}"
    by code_simp
  ultimately show "ready_jobs example_retried \<noteq> []" by (rule dag_never_deadlocks [OF history])
  show "length (st_jobs example_retried) = 3" by code_simp
qed

text \<open>
  A job is retried without anyone being asked at most \<open>max_retries\<close> times in a row beyond the
  retries a human granted.
\<close>

theorem automatic_retries_bounded:
  assumes "dag_history cf s" and "j \<in> set (st_jobs s)"
  shows "trailing_retries j \<le> li_max_retries (dc_limits cf) + granted_retries s (jb_id j)"
  using dag_history_ok [OF assms(1)] assms(2) by (simp add: state_ok_def job_ok_def retry_budget_def)

theorem automatic_retries_bounded_witness:
  "trailing_retries (hd (st_jobs example_running)) \<le>
     2 + granted_retries example_running (jb_id (hd (st_jobs example_running)))"
proof -
  have "hd (st_jobs example_running) \<in> set (st_jobs example_running)" by (rule hd_in_set) code_simp
  from automatic_retries_bounded [OF example_history this] show ?thesis
    by (simp add: example_config_def default_limits_def)
qed

end
