(* ===== verification/JobHub.thy ===== *)
theory JobHub
  imports JobStructure
begin

text \<open>
  The attempts a dynamic step has in flight (\<^verbatim>\<open>JobHub\<close> of \<^verbatim>\<open>dynamic/hub.py\<close>, with the message
  queues of \<^verbatim>\<open>app/services/agent_inbox.py\<close>) and the nodes of the job graph that use it
  (\<^verbatim>\<open>dynamic/graph.py\<close>).  \<^verbatim>\<open>_run\<close> is cut where it waits: its begin, the call of
  \<^verbatim>\<open>started\<close>, the end of the agent up to the recording of the result, and what follows.
  Missing keys of \<^verbatim>\<open>_early\<close> and \<^verbatim>\<open>messages\<close> read as empty lists.
\<close>

section \<open>The hub\<close>

type_synonym attempt_key = "string \<times> nat"

record inbox_message =
  im_text :: string
  im_interrupt :: bool

text \<open>
  \<open>jh_tasks k\<close>: no task, one that runs, or one that is done; \<open>jh_cancels\<close>: those told to stop.
\<close>

record job_hub =
  jh_queue :: "event list"
  jh_tasks :: "attempt_key \<Rightarrow> bool option"
  jh_queued :: "attempt_key list"
  jh_cancels :: "attempt_key list"
  jh_children :: "(string \<times> attempt_key) list"
  jh_early :: "attempt_key \<Rightarrow> agent_message list"
  jh_inbox :: "string \<Rightarrow> inbox_message list"

definition empty_hub_of :: job_hub where
  "empty_hub_of = \<lparr>jh_queue = [], jh_tasks = (\<lambda>_. None), jh_queued = [], jh_cancels = [], jh_children = [],
     jh_early = (\<lambda>_. []), jh_inbox = (\<lambda>_. [])\<rparr>"

definition launch_key :: "launch \<Rightarrow> attempt_key" where
  "launch_key l = (jb_id (la_job l), at_n (la_attempt l))"

definition event_key :: "event \<Rightarrow> attempt_key" where
  "event_key e = (event_job e, event_attempt e)"

definition hub_launch :: "launch \<Rightarrow> job_hub \<Rightarrow> job_hub" where
  "hub_launch l h =
     (if jh_tasks h (launch_key l) = Some True then h
      else h\<lparr>jh_tasks := (jh_tasks h)(launch_key l := Some True)\<rparr>)"

definition hub_cancel :: "attempt_ref \<Rightarrow> job_hub \<Rightarrow> job_hub" where
  "hub_cancel rf h =
     (if jh_tasks h (rf_job_id rf, rf_attempt rf) = Some True
      then h\<lparr>jh_cancels := (rf_job_id rf, rf_attempt rf) # jh_cancels h\<rparr> else h)"

text \<open>\<^verbatim>\<open>alive\<close>: the attempt runs here, or its result waits to be taken.\<close>

definition hub_alive :: "job_hub \<Rightarrow> attempt_key \<Rightarrow> bool" where
  "hub_alive h k \<longleftrightarrow> jh_tasks h k = Some True \<or> k \<in> set (jh_queued h)"

definition put_result :: "attempt_result \<Rightarrow> job_hub \<Rightarrow> job_hub" where
  "put_result r h =
     h\<lparr>jh_queued := List.insert (ar_job_id r, ar_attempt r) (jh_queued h),
       jh_queue := jh_queue h @ [Attempt_Result r]\<rparr>"

text \<open>The end of a task: its result is put and it is done.\<close>

definition task_done :: "attempt_key \<Rightarrow> attempt_result \<Rightarrow> job_hub \<Rightarrow> job_hub" where
  "task_done k r h =
     (let h1 = put_result r h in h1\<lparr>jh_tasks := (jh_tasks h1)(k := Some False)\<rparr>)"

text \<open>\<^verbatim>\<open>agent_inbox.push_message\<close>, \<^verbatim>\<open>take_messages\<close> and \<^verbatim>\<open>discard\<close>.\<close>

definition push_message :: "string \<Rightarrow> string \<Rightarrow> bool \<Rightarrow> job_hub \<Rightarrow> job_hub" where
  "push_message child t urgent h =
     h\<lparr>jh_inbox := (jh_inbox h)(child := jh_inbox h child @ [\<lparr>im_text = t, im_interrupt = urgent\<rparr>])\<rparr>"

definition take_messages :: "string \<Rightarrow> job_hub \<Rightarrow> inbox_message list \<times> job_hub" where
  "take_messages child h = (jh_inbox h child, h\<lparr>jh_inbox := (jh_inbox h)(child := [])\<rparr>)"

definition has_urgent_message :: "string \<Rightarrow> job_hub \<Rightarrow> bool" where
  "has_urgent_message child h \<longleftrightarrow> list_ex im_interrupt (jh_inbox h child)"

text \<open>\<^verbatim>\<open>started\<close>: the agent has a child run; what came before is pushed to it.\<close>

definition hub_started :: "attempt_key \<Rightarrow> string \<Rightarrow> job_hub \<Rightarrow> job_hub" where
  "hub_started k child h =
     fold (\<lambda>m. push_message child (am_text m) (am_interrupt m)) (jh_early h k)
       (h\<lparr>jh_children := AList.update child k (jh_children h), jh_early := (jh_early h)(k := [])\<rparr>)"

record job_outcome =
  jo_status :: outcome_status
  jo_output :: "jobj option"
  jo_error :: "string option"
  jo_questions :: "string list"

text \<open>
  The agent ended with \<open>out\<close> (\<open>child\<close> empty: it never had a child run): what it did not read is
  collected, and the result formed.
\<close>

definition hub_ended :: "attempt_key \<Rightarrow> string option \<Rightarrow> job_outcome \<Rightarrow> job_hub \<Rightarrow> attempt_result \<times> job_hub" where
  "hub_ended k child out h =
     (let (inbox, h1) = (case child of
            Some c \<Rightarrow> if c \<noteq> '''' then take_messages c h else ([], h) | None \<Rightarrow> ([], h));
          unread = map im_text inbox @ map am_text (jh_early h1 k);
          r = \<lparr>ar_status = jo_status out, ar_output = jo_output out, ar_error = jo_error out,
               ar_questions = jo_questions out,
               ar_unread = (if jo_status out = O_Finished then unread else []),
               ar_job_id = fst k, ar_attempt = snd k, ar_child = child\<rparr>
      in (r, h1\<lparr>jh_early := (jh_early h1)(k := [])\<rparr>))"

text \<open>What follows once the result is recorded on the run.\<close>

definition hub_closed :: "attempt_key \<Rightarrow> attempt_result \<Rightarrow> job_hub \<Rightarrow> job_hub" where
  "hub_closed k r h =
     task_done k r (h\<lparr>jh_children := AList.delete (case ar_child r of None \<Rightarrow> '''' | Some c \<Rightarrow> c) (jh_children h)\<rparr>)"

text \<open>A task told to stop while its result is being recorded ends without putting it.\<close>

definition hub_dropped :: "attempt_key \<Rightarrow> job_hub \<Rightarrow> job_hub" where
  "hub_dropped k h =
     (if k \<in> set (jh_cancels h) then h\<lparr>jh_tasks := (jh_tasks h)(k := Some False)\<rparr> else h)"

definition owns_child :: "string \<Rightarrow> job_hub \<Rightarrow> bool" where
  "owns_child child h \<longleftrightarrow> map_of (jh_children h) child \<noteq> None"

definition hub_ask :: "string \<Rightarrow> string \<Rightarrow> job_hub \<Rightarrow> bool \<times> job_hub" where
  "hub_ask child q h =
     (case map_of (jh_children h) child of
        None \<Rightarrow> (False, h)
      | Some (jid, n) \<Rightarrow>
          (True, h\<lparr>jh_queue := jh_queue h @ [Live_Question_Event jid n (Some child) q]\<rparr>))"

definition send_message :: "agent_message \<Rightarrow> job_hub \<Rightarrow> job_hub" where
  "send_message m h =
     (let k = (am_job_id m, am_attempt m)
      in case find (\<lambda>(c, k'). k' = k) (jh_children h) of
           None \<Rightarrow> h\<lparr>jh_early := (jh_early h)(k := jh_early h k @ [m])\<rparr>
         | Some (c, _) \<Rightarrow> push_message c (am_text m) (am_interrupt m) h)"

definition is_result :: "event \<Rightarrow> bool" where
  "is_result e = (case e of Attempt_Result _ \<Rightarrow> True | _ \<Rightarrow> False)"

text \<open>\<^verbatim>\<open>next_events\<close> once there is one (a timeout gives \<open>[]\<close> and leaves the hub alone).\<close>

definition next_events :: "job_hub \<Rightarrow> event list \<times> job_hub" where
  "next_events h =
     (jh_queue h,
      h\<lparr>jh_queue := [],
        jh_queued := filter (\<lambda>k. k \<notin> event_key ` set (filter is_result (jh_queue h))) (jh_queued h)\<rparr>)"

text \<open>
  \<^verbatim>\<open>close\<close> without the registry: the tasks are dropped (cancelling them is their own end); the queue is
  not emptied.
\<close>

definition hub_close :: "job_hub \<Rightarrow> job_hub" where
  "hub_close h =
     h\<lparr>jh_tasks := (\<lambda>_. None), jh_queued := [],
       jh_inbox := fold (\<lambda>c f. f(c := [])) (map fst (jh_children h)) (jh_inbox h),
       jh_children := [], jh_early := (\<lambda>_. [])\<rparr>"

section \<open>The nodes of the job graph\<close>

text \<open>
  \<^verbatim>\<open>wait\<close>, before it waits: \<open>recorded k\<close> is the result the run's record holds.  \<open>None\<close>: it goes on
  to wait for the next events.
\<close>

definition running_attempts :: "run_state \<Rightarrow> attempt_key list" where
  "running_attempts s = List.map_filter (\<lambda>j. map_option (\<lambda>a. (jb_id j, at_n a)) (last_attempt j)) (running_jobs s)"

definition orphan_event :: "(attempt_key \<Rightarrow> attempt_result option) \<Rightarrow> attempt_key \<Rightarrow> event" where
  "orphan_event recorded k =
     (case recorded k of Some r \<Rightarrow> Attempt_Result r | None \<Rightarrow> Lost_Attempt (fst k) (snd k))"

definition orphans :: "(attempt_key \<Rightarrow> attempt_result option) \<Rightarrow> job_hub \<Rightarrow> run_state \<Rightarrow> event list" where
  "orphans recorded h s = map (orphan_event recorded) (filter (\<lambda>k. \<not> hub_alive h k) (running_attempts s))"

definition wait_first :: "(attempt_key \<Rightarrow> attempt_result option) \<Rightarrow> job_hub \<Rightarrow> run_state \<Rightarrow> event list option" where
  "wait_first recorded h s =
     (if orphans recorded h s \<noteq> [] \<or> running_attempts s = [] then Some (orphans recorded h s) else None)"

text \<open>\<^verbatim>\<open>schedule\<close>'s effects on the hub; deliveries go to the agents themselves.\<close>

definition carry_out :: "dag_step \<Rightarrow> job_hub \<Rightarrow> job_hub" where
  "carry_out st h =
     fold hub_launch (sp_launches st) (fold send_message (sp_messages st) (fold hub_cancel (sp_cancels st) h))"

datatype node = At_Schedule | At_Wait | At_Gate | At_End

fun next_node :: "step_status \<Rightarrow> node" where
  "next_node Gate = At_Gate"
| "next_node Run = At_Wait"
| "next_node Completed = At_End"
| "next_node Step_Failed = At_End"

text \<open>The reducers of \<^verbatim>\<open>JobGraphState\<close>: \<open>None\<close> clears the events.\<close>

definition collect_events :: "event list option \<Rightarrow> event list option \<Rightarrow> event list" where
  "collect_events left right =
     (case right of None \<Rightarrow> [] | Some es \<Rightarrow> (case left of None \<Rightarrow> [] | Some xs \<Rightarrow> xs) @ es)"

definition gate_plan :: "run_state \<Rightarrow> string" where
  "gate_plan s = join newline (map (\<lambda>dc. ''['' @ decision_name (de_kind dc) @ ''] '' @ de_summary dc) (open_decisions s))"

section \<open>What the hub keeps\<close>

text \<open>
  The attempts whose result waits are those with a result in the queue, and a task that
  is done has put its result (it waits, or it was taken), or was told to stop.
\<close>

definition hub_ok :: "event list \<Rightarrow> job_hub \<Rightarrow> bool" where
  "hub_ok taken h \<longleftrightarrow>
     set (jh_queued h) = event_key ` {e \<in> set (jh_queue h). is_result e} \<and>
     (\<forall>k. jh_tasks h k = Some False \<longrightarrow>
        k \<in> set (jh_queued h) \<or> (\<exists>e \<in> set taken. is_result e \<and> event_key e = k) \<or>
        k \<in> set (jh_cancels h))"

datatype hub_act =
    H_Launch launch
  | H_Adopt attempt_key attempt_result
  | H_Started attempt_key string
  | H_Ended attempt_key "string option" job_outcome
  | H_Closed attempt_key attempt_result
  | H_Cancel attempt_ref
  | H_Dropped attempt_key
  | H_Ask string string
  | H_Send agent_message
  | H_Read string
  | H_Take

text \<open>\<open>hub_do\<close>: one step, with the events taken so far.\<close>

fun hub_do :: "hub_act \<Rightarrow> event list \<times> job_hub \<Rightarrow> event list \<times> job_hub" where
  "hub_do (H_Launch l) (taken, h) = (taken, hub_launch l h)"
| "hub_do (H_Adopt k r) (taken, h) = (taken, task_done k r h)"
| "hub_do (H_Started k c) (taken, h) = (taken, hub_started k c h)"
| "hub_do (H_Ended k c out) (taken, h) = (taken, snd (hub_ended k c out h))"
| "hub_do (H_Closed k r) (taken, h) = (taken, hub_closed k r h)"
| "hub_do (H_Cancel rf) (taken, h) = (taken, hub_cancel rf h)"
| "hub_do (H_Dropped k) (taken, h) = (taken, hub_dropped k h)"
| "hub_do (H_Ask c q) (taken, h) = (taken, snd (hub_ask c q h))"
| "hub_do (H_Send m) (taken, h) = (taken, send_message m h)"
| "hub_do (H_Read c) (taken, h) = (taken, snd (take_messages c h))"
| "hub_do H_Take (taken, h) = (taken @ fst (next_events h), snd (next_events h))"

text \<open>A task only ends with the result of its own attempt.\<close>

fun own_result :: "hub_act \<Rightarrow> bool" where
  "own_result (H_Adopt k r) = ((ar_job_id r, ar_attempt r) = k)"
| "own_result (H_Closed k r) = ((ar_job_id r, ar_attempt r) = k)"
| "own_result x = True"

inductive hub_history :: "event list \<Rightarrow> job_hub \<Rightarrow> bool" where
  fresh: "hub_history [] empty_hub_of"
| act: "hub_history taken h \<Longrightarrow> own_result x \<Longrightarrow> hub_do x (taken, h) = (taken', h') \<Longrightarrow> hub_history taken' h'"

lemma fold_push_fields:
  "jh_queue (fold (\<lambda>m. push_message c (f m) (g m)) ms h) = jh_queue h"
  "jh_queued (fold (\<lambda>m. push_message c (f m) (g m)) ms h) = jh_queued h"
  "jh_tasks (fold (\<lambda>m. push_message c (f m) (g m)) ms h) = jh_tasks h"
  "jh_cancels (fold (\<lambda>m. push_message c (f m) (g m)) ms h) = jh_cancels h"
  by (induction ms arbitrary: h) (simp_all add: push_message_def)

lemma hub_ok_cong:
  "jh_queue h' = jh_queue h \<Longrightarrow> jh_queued h' = jh_queued h \<Longrightarrow> jh_tasks h' = jh_tasks h \<Longrightarrow>
   jh_cancels h' = jh_cancels h \<Longrightarrow> hub_ok taken h' = hub_ok taken h"
  by (simp add: hub_ok_def)

lemma hub_ended_fields:
  "jh_queue (snd (hub_ended k c out h)) = jh_queue h"
  "jh_queued (snd (hub_ended k c out h)) = jh_queued h"
  "jh_tasks (snd (hub_ended k c out h)) = jh_tasks h"
  "jh_cancels (snd (hub_ended k c out h)) = jh_cancels h"
  by (simp_all add: hub_ended_def take_messages_def Let_def split: option.split)

lemma send_message_fields:
  "jh_queue (send_message m h) = jh_queue h"
  "jh_queued (send_message m h) = jh_queued h"
  "jh_tasks (send_message m h) = jh_tasks h"
  "jh_cancels (send_message m h) = jh_cancels h"
  by (simp_all add: send_message_def push_message_def Let_def split: option.split prod.split)

lemma hub_started_fields:
  "jh_queue (hub_started k c h) = jh_queue h"
  "jh_queued (hub_started k c h) = jh_queued h"
  "jh_tasks (hub_started k c h) = jh_tasks h"
  "jh_cancels (hub_started k c h) = jh_cancels h"
  by (simp_all add: hub_started_def fold_push_fields)

lemma hub_ok_queue:
  assumes "{e \<in> set q. is_result e} = {e \<in> set (jh_queue h). is_result e}" and "hub_ok taken h"
  shows "hub_ok taken (h\<lparr>jh_queue := q\<rparr>)"
  using assms(2) unfolding hub_ok_def
  by (elim conjE, intro conjI) (simp_all add: assms(1) del: split_paired_All)

lemma hub_ok_done:
  assumes ok: "hub_ok taken h" and own: "(ar_job_id r, ar_attempt r) = k"
  shows "hub_ok taken (task_done k r h)"
proof -
  have "{e \<in> set (jh_queue h @ [Attempt_Result r]). is_result e} =
      insert (Attempt_Result r) {e \<in> set (jh_queue h). is_result e}"
    by (auto simp: is_result_def)
  moreover have "event_key (Attempt_Result r) = k" using own by (simp add: event_key_def)
  ultimately have "event_key ` {e \<in> set (jh_queue h @ [Attempt_Result r]). is_result e} =
      insert k (event_key ` {e \<in> set (jh_queue h). is_result e})" by simp
  then show ?thesis using ok own unfolding hub_ok_def task_done_def put_result_def Let_def
    by (auto simp del: split_paired_All)
qed

lemma hub_ok_step:
  assumes "hub_ok taken h" and "own_result x" and "hub_do x (taken, h) = (taken', h')"
  shows "hub_ok taken' h'"
proof (cases x)
  case (H_Launch l)
  with assms have "h' = hub_launch l h" "taken' = taken" by auto
  then show ?thesis using assms(1) by (auto simp: hub_ok_def hub_launch_def simp del: split_paired_All)
next
  case (H_Cancel rf)
  with assms have "h' = hub_cancel rf h" "taken' = taken" by auto
  then show ?thesis using assms(1) by (auto simp: hub_ok_def hub_cancel_def simp del: split_paired_All)
next
  case (H_Dropped k)
  with assms have "h' = hub_dropped k h" "taken' = taken" by auto
  then show ?thesis using assms(1) by (auto simp: hub_ok_def hub_dropped_def simp del: split_paired_All)
next
  case (H_Adopt k r)
  with assms show ?thesis using hub_ok_done by auto
next
  case (H_Started k c)
  with assms have "h' = hub_started k c h" "taken' = taken" by auto
  then show ?thesis using assms(1) hub_ok_cong [OF hub_started_fields] by simp
next
  case (H_Ended k c out)
  with assms have "h' = snd (hub_ended k c out h)" "taken' = taken" by auto
  then show ?thesis using iffD2 [OF hub_ok_cong [OF hub_ended_fields] assms(1)] by simp
next
  case (H_Closed k r)
  with assms have "h' = task_done k r (h\<lparr>jh_children := AList.delete
      (case ar_child r of None \<Rightarrow> '''' | Some c \<Rightarrow> c) (jh_children h)\<rparr>)" "taken' = taken"
    by (auto simp: hub_closed_def)
  moreover have "hub_ok taken (h\<lparr>jh_children := AList.delete
      (case ar_child r of None \<Rightarrow> '''' | Some c \<Rightarrow> c) (jh_children h)\<rparr>)"
    by (rule iffD2 [OF hub_ok_cong assms(1)]) simp_all
  ultimately show ?thesis using hub_ok_done assms(2) H_Closed by simp
next
  case (H_Ask c q)
  have "hub_ok taken (snd (hub_ask c q h))"
  proof (cases "map_of (jh_children h) c")
    case None
    then show ?thesis using assms(1) by (simp add: hub_ask_def)
  next
    case (Some k)
    have "{e \<in> set (jh_queue h @ [Live_Question_Event (fst k) (snd k) (Some c) q]). is_result e} =
        {e \<in> set (jh_queue h). is_result e}" by (auto simp: is_result_def)
    moreover have "snd (hub_ask c q h) =
        h\<lparr>jh_queue := jh_queue h @ [Live_Question_Event (fst k) (snd k) (Some c) q]\<rparr>"
      using Some by (simp add: hub_ask_def split: prod.split)
    ultimately show ?thesis using hub_ok_queue [OF _ assms(1)] by presburger
  qed
  with assms(3) H_Ask show ?thesis by auto
next
  case (H_Send m)
  with assms show ?thesis using hub_ok_cong [OF send_message_fields] by auto
next
  case (H_Read c)
  with assms have h': "h' = h\<lparr>jh_inbox := (jh_inbox h)(c := [])\<rparr>" "taken' = taken"
    by (auto simp: take_messages_def)
  have "hub_ok taken (h\<lparr>jh_inbox := (jh_inbox h)(c := [])\<rparr>)"
    by (rule iffD2 [OF hub_ok_cong assms(1)]) simp_all
  then show ?thesis unfolding h' .
next
  case H_Take
  have "hub_ok (taken @ jh_queue h) (snd (next_events h))"
    unfolding hub_ok_def
  proof (intro conjI allI impI)
    show "set (jh_queued (snd (next_events h))) = event_key ` {e \<in> set (jh_queue (snd (next_events h))). is_result e}"
      using assms(1) by (auto simp: hub_ok_def next_events_def)
    fix k assume "jh_tasks (snd (next_events h)) k = Some False"
    then have "jh_tasks h k = Some False" by (simp add: next_events_def)
    then consider "k \<in> event_key ` {e \<in> set (jh_queue h). is_result e}"
      | "\<exists>e \<in> set taken. is_result e \<and> event_key e = k" | "k \<in> set (jh_cancels h)"
      using assms(1) unfolding hub_ok_def by blast
    then show "k \<in> set (jh_queued (snd (next_events h))) \<or>
        (\<exists>e \<in> set (taken @ jh_queue h). is_result e \<and> event_key e = k) \<or> k \<in> set (jh_cancels (snd (next_events h)))"
      by cases (auto simp: next_events_def)
  qed
  with assms(3) H_Take show ?thesis by (auto simp: next_events_def)
qed

lemma hub_history_ok: "hub_history taken h \<Longrightarrow> hub_ok taken h"
proof (induction rule: hub_history.induct)
  case fresh
  show ?case by (simp add: hub_ok_def empty_hub_of_def)
next
  case (act taken h x taken' h')
  then show ?case using hub_ok_step by blast
qed

section \<open>Nothing is forgotten\<close>

text \<open>
  C35: No attempt is forgotten: whatever the order of launches, questions, messages, ends and
  stops, an attempt that was launched runs, or its result waits in the queue, or it has been
  taken, or the attempt had been told to stop.
\<close>

theorem no_attempt_forgotten:
  assumes "hub_history taken h" and "jh_tasks h k \<noteq> None"
  shows "hub_alive h k \<or> (\<exists>e \<in> set taken. is_result e \<and> event_key e = k) \<or> k \<in> set (jh_cancels h)"
proof (cases "jh_tasks h k = Some True")
  case True
  then show ?thesis by (simp add: hub_alive_def)
next
  case False
  then have "jh_tasks h k = Some False" using assms(2) by (cases "jh_tasks h k") auto
  then show ?thesis using hub_history_ok [OF assms(1)] unfolding hub_ok_def hub_alive_def by blast
qed

definition example_job :: job where
  "example_job = job_of_spec ''author''
     \<lparr>js_id = ''a'', js_category = Execution, js_agent_id = ''dev'', js_title = ''a'', js_prompt = ''work'',
      js_depends_on = [], js_owns = [], js_datasources = []\<rparr>"

definition example_attempt :: job_attempt where
  "example_attempt =
     \<lparr>at_n = 1, at_child = None, at_status = A_Running, at_started_at = 0, at_finished_at = None,
      at_reason = ''initial'', at_feedback = None, at_output = None, at_error = None, at_questions = []\<rparr>"

definition example_launch :: launch where
  "example_launch = \<lparr>la_job = example_job, la_attempt = example_attempt, la_payload = []\<rparr>"

definition example_outcome :: job_outcome where
  "example_outcome = \<lparr>jo_status = O_Finished, jo_output = Some [], jo_error = None, jo_questions = []\<rparr>"

definition example_message :: agent_message where
  "example_message = \<lparr>am_job_id = ''a'', am_attempt = 1, am_text = ''use the new API'', am_interrupt = False\<rparr>"

definition example_ended :: attempt_result where
  "example_ended = \<lparr>ar_status = O_Finished, ar_output = Some [], ar_error = None, ar_questions = [],
     ar_unread = [], ar_job_id = ''a'', ar_attempt = 1, ar_child = Some ''child''\<rparr>"

text \<open>The agent ended, its result waits, and only then the message is sent.\<close>

definition example_steps :: "hub_act list" where
  "example_steps = [H_Launch example_launch, H_Started (''a'', 1) ''child'',
     H_Ended (''a'', 1) (Some ''child'') example_outcome, H_Closed (''a'', 1) example_ended,
     H_Send example_message]"

definition example_hub :: "event list \<times> job_hub" where
  "example_hub = fold hub_do example_steps ([], empty_hub_of)"

lemma hub_history_fold:
  "hub_history (fst st) (snd st) \<Longrightarrow> list_all own_result xs \<Longrightarrow>
   hub_history (fst (fold hub_do xs st)) (snd (fold hub_do xs st))"
proof (induction xs arbitrary: st)
  case (Cons x xs)
  have "hub_history (fst (hub_do x st)) (snd (hub_do x st))"
    by (rule hub_history.act [OF Cons.prems(1), of x]) (use Cons.prems(2) in simp_all)
  then show ?case using Cons by simp
qed simp

lemma example_hub_history: "hub_history (fst example_hub) (snd example_hub)"
  unfolding example_hub_def
  by (rule hub_history_fold) (simp_all add: hub_history.fresh example_steps_def example_ended_def)

theorem no_attempt_forgotten_witness:
  "\<exists>h. hub_history [] h \<and> jh_tasks h (''a'', 1) = Some False \<and> hub_alive h (''a'', 1)"
proof -
  have taken: "fst example_hub = []" by code_simp
  have cancels: "jh_cancels (snd example_hub) = []" by code_simp
  have task: "jh_tasks (snd example_hub) (''a'', 1) = Some False" by code_simp
  have history: "hub_history [] (snd example_hub)" using example_hub_history taken by simp
  have "hub_alive (snd example_hub) (''a'', 1)"
  proof -
    have "jh_tasks (snd example_hub) (''a'', 1) \<noteq> None" using task by simp
    from no_attempt_forgotten [OF history this] show ?thesis using cancels by simp
  qed
  with history task show ?thesis by blast
qed

text \<open>
  A message sent after the agent ended and before its result is taken reaches nobody: the result
  says nothing was left unread, so the job is not run again with it.
\<close>

lemma late_message_lost:
  "jh_queue (snd example_hub) = [Attempt_Result example_ended] \<and> ar_unread example_ended = [] \<and>
   fst (hub_ended (''a'', 1) (Some ''child'') example_outcome
     (snd (fold hub_do (take 2 example_steps) ([], empty_hub_of)))) = example_ended \<and>
   jh_early (snd example_hub) (''a'', 1) = [example_message] \<and> jh_tasks (snd example_hub) (''a'', 1) = Some False"
  by code_simp

section \<open>The graph goes on\<close>

lemma running_attempts_all:
  assumes ok: "state_ok cf s" and some: "running_jobs s \<noteq> []"
  shows "running_attempts s \<noteq> []"
proof -
  obtain j where j: "j \<in> set (running_jobs s)" using some by (cases "running_jobs s") auto
  then have mem: "j \<in> set (st_jobs s)" "jb_status j = Running" by (simp_all add: running_jobs_def)
  then have "running_attempt (jb_attempts j)" using ok by (simp add: state_ok_def job_ok_def)
  then have "last_attempt j \<noteq> None" by (simp add: running_attempt_def last_attempt_def)
  then show ?thesis
    unfolding running_attempts_def map_filter_Nil using j by auto
qed

end
