(* ===== verification/JobMirror.thy ===== *)
theory JobMirror
  imports JobProperties JobHub
begin

text \<open>
  A dynamic step in its workflow: the mirror of its record on the run (\<^verbatim>\<open>_RunStore\<close> of
  \<^verbatim>\<open>dynamic/node.py\<close>), what the node writes into the workflow's state, and the check of dynamic steps
  when a workflow is saved.  Writes of the run document that fail are logged and change nothing
  here; the lock makes each operation one step.
\<close>

section \<open>The mirror\<close>

type_synonym mirror = "run_state option"

definition mirror_load :: "string \<Rightarrow> mirror \<Rightarrow> run_state" where
  "mirror_load step_id m = (case m of None \<Rightarrow> empty_run_state step_id | Some s \<Rightarrow> s)"

definition mirror_save :: "run_state \<Rightarrow> mirror \<Rightarrow> mirror" where
  "mirror_save s m = Some s"

definition note_attempt :: "time \<Rightarrow> string option \<Rightarrow> attempt_result option \<Rightarrow> job_attempt \<Rightarrow> job_attempt" where
  "note_attempt now child res a =
     (let a1 = a\<lparr>at_child := py_or child (at_child a)\<rparr>
      in case res of
           None \<Rightarrow> a1
         | Some r \<Rightarrow> a1\<lparr>at_status := attempt_status_of (ar_status r), at_output := ar_output r,
                       at_error := ar_error r, at_questions := ar_questions r, at_finished_at := Some now\<rparr>)"

definition record_attempt ::
    "time \<Rightarrow> string \<Rightarrow> nat \<Rightarrow> string option \<Rightarrow> attempt_result option \<Rightarrow> mirror \<Rightarrow> mirror" where
  "record_attempt now jid n child res m =
     map_option (on_job jid (on_attempt n (note_attempt now child res))) m"

fun outcome_of :: "attempt_status \<Rightarrow> outcome_status option" where
  "outcome_of A_Finished = Some O_Finished"
| "outcome_of A_Failed = Some O_Failed"
| "outcome_of A_Needs_Input = Some O_Needs_Input"
| "outcome_of A_Running = None"
| "outcome_of A_Cancelled = None"

definition recorded :: "string \<Rightarrow> nat \<Rightarrow> mirror \<Rightarrow> attempt_result option" where
  "recorded jid n m =
     (case Option.bind m (\<lambda>s. Option.bind (find_job s jid) (\<lambda>j. find (\<lambda>a. at_n a = n) (jb_attempts j))) of
        None \<Rightarrow> None
      | Some a \<Rightarrow>
          if at_finished_at a = None then None
          else map_option (\<lambda>st. \<lparr>ar_status = st, ar_output = at_output a, ar_error = at_error a,
                  ar_questions = at_questions a, ar_unread = [], ar_job_id = jid, ar_attempt = n,
                  ar_child = at_child a\<rparr>) (outcome_of (at_status a)))"

section \<open>The node\<close>

definition output_key :: "string option \<Rightarrow> string \<Rightarrow> string" where
  "output_key key step_id = (case key of Some k \<Rightarrow> if k = '''' then step_id else k | None \<Rightarrow> step_id)"

text \<open>
  What the node writes once the job graph ended: the result under the step's key, the approvals taken,
  and the failed step.
\<close>

definition node_update :: "string \<Rightarrow> string \<Rightarrow> json list \<Rightarrow> json list \<Rightarrow> run_state \<Rightarrow> jobj" where
  "node_update out_key step_id history approvals s =
     (let u = [(out_key, JObj (result_of s))];
          u1 = (if approvals \<noteq> []
                then AList.update ''approval_history'' (JList (history @ approvals)) u else u)
      in if st_status s = S_Failed
         then AList.update ''error'' (opt_json (st_error s))
                (AList.update ''__failed_step__'' (JStr step_id) u1)
         else u1)"

section \<open>Checking dynamic steps\<close>

text \<open>
  \<^verbatim>\<open>validate_dynamic_steps\<close>; \<open>parse\<close> is \<^verbatim>\<open>DynamicConfig.model_validate\<close>, \<open>Inl\<close> the locations and messages
  of its errors.  The dash of the message on an empty pool is a hyphen here.
\<close>

definition from_step :: "(jobj \<Rightarrow> 'e + dynamic_config) \<Rightarrow> jobj \<Rightarrow> 'e + dynamic_config" where
  "from_step parse step =
     parse (filter (\<lambda>(k, v). k \<notin> set [''id'', ''type'', ''next'', ''routes'', ''when'', ''name'', ''label'']) step)"

definition can_fill :: "category \<Rightarrow> pool_agent \<Rightarrow> bool" where
  "can_fill cat a \<longleftrightarrow> pa_categories a = [] \<or> cat \<in> set (pa_categories a)"

definition config_errors :: "string \<Rightarrow> dynamic_config \<Rightarrow> string list" where
  "config_errors sid cf =
     (let head = ''step '' @ [CHR 0x27] @ sid @ [CHR 0x27] @ '': ''
      in (if dc_agent_pool cf = []
          then [head @ ''agent_pool is empty - select the agents this workflow may use''] else []) @
         List.maps (\<lambda>cat.
           if dc_agent_pool cf \<noteq> [] \<and> 0 < sl_min (dc_jobs cf cat) \<and> \<not> list_ex (can_fill cat) (dc_agent_pool cf)
           then [head @ ''no agent in the pool may fill '' @ category_name cat @ '' jobs (jobs.''
                 @ category_name cat @ ''.min is '' @ nat_digits (sl_min (dc_jobs cf cat)) @ '')''] else [])
           job_categories @
         (case dc_plan cf of
            Some specs \<Rightarrow> if dc_agent_pool cf \<noteq> []
              then map (\<lambda>e. head @ ''plan: '' @ e) (validate_jobs specs cf [] job_categories) else []
          | None \<Rightarrow> []))"

definition step_errors ::
    "(jobj \<Rightarrow> (string \<times> string) list + dynamic_config) \<Rightarrow> json \<Rightarrow> string list" where
  "step_errors parse step =
     (case step of
        JObj o' \<Rightarrow>
          if jget o' ''type'' \<noteq> JStr ''dynamic'' then []
          else (let sid = (case map_of o' ''id'' of None \<Rightarrow> ''?'' | Some v \<Rightarrow> py_str v)
                in case from_step parse o' of
                     Inl errs \<Rightarrow> map (\<lambda>(loc, msg). ''step '' @ [CHR 0x27] @ sid @ [CHR 0x27] @ '': ''
                         @ (if loc = '''' then '''' else loc @ '': '') @ msg) errs
                   | Inr cf \<Rightarrow> config_errors sid cf)
      | _ \<Rightarrow> [])"

definition validate_dynamic_steps ::
    "(jobj \<Rightarrow> (string \<times> string) list + dynamic_config) \<Rightarrow> json \<Rightarrow> string list" where
  "validate_dynamic_steps parse steps =
     (case steps of JList xs \<Rightarrow> List.maps (step_errors parse) xs | _ \<Rightarrow> [])"

section \<open>What the mirror gives back\<close>

definition attempt_of :: "string \<Rightarrow> nat \<Rightarrow> run_state \<Rightarrow> job_attempt option" where
  "attempt_of jid n s = Option.bind (find_job s jid) (\<lambda>j. find (\<lambda>a. at_n a = n) (jb_attempts j))"

lemma recorded_attempt_of:
  "recorded jid n (Some s) =
     (case attempt_of jid n s of
        None \<Rightarrow> None
      | Some a \<Rightarrow>
          if at_finished_at a = None then None
          else map_option (\<lambda>st. \<lparr>ar_status = st, ar_output = at_output a, ar_error = at_error a,
                  ar_questions = at_questions a, ar_unread = [], ar_job_id = jid, ar_attempt = n,
                  ar_child = at_child a\<rparr>) (outcome_of (at_status a)))"
  by (simp add: recorded_def attempt_of_def)

lemma attempt_of_noted:
  assumes "attempt_of jid n s = Some a"
  shows "attempt_of jid n (on_job jid (on_attempt n (note_attempt now child res)) s) =
    Some (note_attempt now child res a)"
proof -
  from assms obtain j where j: "find_job s jid = Some j" "find (\<lambda>a. at_n a = n) (jb_attempts j) = Some a"
    by (auto simp: attempt_of_def Option.bind_eq_Some_conv)
  have "find_job (on_job jid (on_attempt n (note_attempt now child res)) s) jid =
      Some (on_attempt n (note_attempt now child res) j)"
    using find_on_job [of "on_attempt n (note_attempt now child res)"] j(1) by (simp add: on_attempt_def)
  moreover have "find (\<lambda>a. at_n a = n) (jb_attempts (on_attempt n (note_attempt now child res) j)) =
      Some (note_attempt now child res a)"
    using find_attempt [of "note_attempt now child res"] j(2)
    by (simp add: note_attempt_def Let_def split: option.split)
  ultimately show ?thesis by (simp add: attempt_of_def)
qed

lemma outcome_of_status [simp]: "outcome_of (attempt_status_of st) = Some st"
  by (cases st) simp_all



text \<open>
  The job graph saves its own record over the mirror: a result recorded since that record was read is
  gone, and after a restart the attempt counts as lost although its result had been recorded.
\<close>

lemma save_drops_result:
  assumes "attempt_of jid n s = Some a" and "at_finished_at a = None"
  shows "orphan_event (\<lambda>(jid, n). recorded jid n (mirror_save s
      (record_attempt now jid n child (Some r) (Some s)))) (jid, n) = Lost_Attempt jid n"
  using assms by (simp add: mirror_save_def recorded_attempt_of orphan_event_def)

text \<open>Saving also forgets the child run of an attempt that still runs.\<close>

lemma save_drops_child:
  "attempt_of ''a'' 1 (the (record_attempt 0 ''a'' 1 (Some ''child'') None (Some example_running))) =
     map_option (\<lambda>a. a\<lparr>at_child := Some ''child''\<rparr>) (attempt_of ''a'' 1 example_running) \<and>
   map_option at_child (attempt_of ''a'' 1 (the (mirror_save example_running
     (record_attempt 0 ''a'' 1 (Some ''child'') None (Some example_running))))) = Some None"
  by code_simp

section \<open>The graph goes on\<close>



section \<open>Accepted plans\<close>

text \<open>
  A plan that passes the check when its workflow is saved starts, if it has the jobs its categories
  ask for at least: nothing else can refuse it at run time.
\<close>

theorem accepted_plan_starts:
  assumes "step_errors parse (JObj step) = []" and "jget step ''type'' = JStr ''dynamic''"
    and "from_step parse step = Inr (en_config E)" and "dc_plan (en_config E) = Some specs"
    and "check_minimums (\<lambda>cat. count_specs cat specs) (en_config E) = []"
  shows "st_status (dg_state (start_authored E specs d)) = S_Running"
proof -
  let ?cf = "en_config E"
  have none: "config_errors sid ?cf = []" if "sid = (case map_of step ''id'' of None \<Rightarrow> ''?'' | Some v \<Rightarrow> py_str v)" for sid
    using assms(1,2,3) that by (simp add: step_errors_def Let_def)
  define sid where "sid = (case map_of step ''id'' of None \<Rightarrow> ''?'' | Some v \<Rightarrow> py_str v)"
  have all: "config_errors sid ?cf = []" by (rule none) (rule sid_def)
  then have pool: "dc_agent_pool ?cf \<noteq> []" by (simp add: config_errors_def Let_def split: if_splits)
  have "validate_jobs specs ?cf [] job_categories = []"
    using all pool assms(4) by (simp add: config_errors_def Let_def)
  then show ?thesis using assms(5) by (simp add: start_authored_def)
qed

definition example_parse :: "jobj \<Rightarrow> (string \<times> string) list + dynamic_config" where
  "example_parse body = (if map_of body ''agent_pool'' = None then Inl [(''agent_pool'', ''missing'')]
     else Inr (example_config Auto (Some example_plan)))"

definition example_step :: jobj where
  "example_step = [(''id'', JStr ''build''), (''type'', JStr ''dynamic''), (''agent_pool'', JList [])]"

theorem accepted_plan_starts_witness:
  "st_status (dg_state (start_authored example_authored example_plan
     (new_dag (empty_run_state ''build'') no_meta))) = S_Running"
proof (rule accepted_plan_starts [where parse = example_parse and step = example_step])
  show "step_errors example_parse (JObj example_step) = []" by code_simp
  show "jget example_step ''type'' = JStr ''dynamic''" by code_simp
  show "from_step example_parse example_step = Inr (en_config example_authored)"
    by (simp add: from_step_def example_parse_def example_step_def example_env_def)
  show "dc_plan (en_config example_authored) = Some example_plan"
    by (simp add: example_env_def example_config_def)
  show "check_minimums (\<lambda>cat. count_specs cat example_plan) (en_config example_authored) = []" by code_simp
qed

text \<open>The minimums themselves are not part of that check: such a plan is saved, and every run of it fails.\<close>

definition example_short :: dynamic_config where
  "example_short = (example_config Auto (Some example_plan))
     \<lparr>dc_jobs := (\<lambda>cat. if cat = Execution then \<lparr>sl_min = 4, sl_max = 8\<rparr> else default_slots cat)\<rparr>"

lemma short_plan_accepted:
  "config_errors ''build'' example_short = [] \<and>
   st_status (dg_state (start_authored ((example_authored)\<lparr>en_config := example_short\<rparr>) example_plan
     (new_dag (empty_run_state ''build'') no_meta))) = S_Failed"
  by code_simp

end
