(* ===== verification/RunModel.thy ===== *)
theory RunModel
  imports JobEngine ApprovalStore "HOL-Library.Multiset"
begin

text \<open>
  A run of a workflow and where runs are kept: \<^verbatim>\<open>app/domain/models/graph_run.py\<close> and
  \<^verbatim>\<open>MongoGraphRunRepository\<close> of \<^verbatim>\<open>app/infrastructure/persistence/mongo.py\<close>, each of whose
  operations is one atomic operation of MongoDB on a collection, a dictionary from ids to documents.
\<close>

section \<open>Runs\<close>

datatype graph_status =
    R_Running | R_Waiting_Approval | R_Waiting_Agent | R_Completed | R_Failed | R_Cancelled | R_Rejected

datatype step_mark =
    Mark_Pending | Mark_Running | Mark_Finished | Mark_Skipped | Mark_Failed
  | Mark_Waiting_Clarification | Mark_Waiting_Approval

datatype route_kind = Route | Node_Start

record routing_event =
  re_at :: time
  re_event :: route_kind
  re_node :: string
  re_target :: string
  re_condition :: string
  re_iteration :: nat

text \<open>
  \<open>gr_job\<close> is \<^verbatim>\<open>kind == "job"\<close>, \<open>gr_definition\<close> the snapshot taken when the run started, \<open>gr_dynamic\<close> the
  records of its dynamic steps.  The trace, the LangSmith id and the waiting transition, which no code
  here reads, are left out.
\<close>

record graph_run =
  gr_id :: string
  gr_graph :: string
  gr_request :: string
  gr_status :: graph_status
  gr_parent :: "string option"
  gr_job :: bool
  gr_agent_url :: "string option"
  gr_definition :: "jobj option"
  gr_state :: jobj
  gr_step :: "string option"
  gr_statuses :: "step_mark dict"
  gr_inputs :: "json dict"
  gr_outputs :: "json dict"
  gr_routing :: "routing_event list"
  gr_dynamic :: "run_state dict"
  gr_recovery :: nat
  gr_recovered_at :: "time option"
  gr_created :: time
  gr_updated :: time

definition touch :: "time \<Rightarrow> graph_run \<Rightarrow> graph_run" where
  "touch now r = r\<lparr>gr_updated := now\<rparr>"

definition run_over :: "graph_status \<Rightarrow> bool" where
  "run_over st \<longleftrightarrow> st \<in> set [R_Completed, R_Failed, R_Cancelled, R_Rejected]"

definition run_incomplete :: "graph_status \<Rightarrow> bool" where
  "run_incomplete st \<longleftrightarrow> st \<in> set [R_Running, R_Waiting_Approval, R_Waiting_Agent]"

section \<open>The repository\<close>

type_synonym runs = "graph_run dict"

definition get_run :: "string \<Rightarrow> runs \<Rightarrow> graph_run option" where
  "get_run i rp = map_of rp i"

text \<open>\<^verbatim>\<open>insert_one\<close> refuses an id that is taken.\<close>

definition create_run :: "time \<Rightarrow> graph_run \<Rightarrow> runs \<Rightarrow> runs option" where
  "create_run now r rp =
     (if get_run (gr_id r) rp = None then Some (rp @ [(gr_id r, touch now r)]) else None)"

definition update_run :: "time \<Rightarrow> graph_run \<Rightarrow> runs \<Rightarrow> runs" where
  "update_run now r rp = AList.update (gr_id r) (touch now r) rp"

text \<open>\<^verbatim>\<open>find_one_and_update\<close> with a condition: the document after the update, if one matched.\<close>

definition find_and_update ::
    "(graph_run \<Rightarrow> bool) \<Rightarrow> (graph_run \<Rightarrow> graph_run) \<Rightarrow> string \<Rightarrow> runs \<Rightarrow> graph_run option \<times> runs" where
  "find_and_update ok f i rp =
     (case get_run i rp of
        None \<Rightarrow> (None, rp)
      | Some r \<Rightarrow> if ok r then (Some (f r), AList.update i (f r) rp) else (None, rp))"

definition claim_for_resume :: "time \<Rightarrow> string \<Rightarrow> runs \<Rightarrow> graph_run option \<times> runs" where
  "claim_for_resume now =
     find_and_update (\<lambda>r. gr_status r = R_Waiting_Approval)
       (\<lambda>r. r\<lparr>gr_status := R_Running, gr_updated := now\<rparr>)"

definition find_by_ask_context_ts :: "json \<Rightarrow> runs \<Rightarrow> graph_run option" where
  "find_by_ask_context_ts thread_ts rp =
     find (\<lambda>r. gr_status r = R_Waiting_Approval \<and> map_of (gr_state r) ''_slack_ask_context_ts'' = Some thread_ts)
       (map snd rp)"

definition list_incomplete :: "runs \<Rightarrow> graph_run list" where
  "list_incomplete rp = filter (\<lambda>r. run_incomplete (gr_status r)) (map snd rp)"

record candidate =
  cd_id :: string
  cd_graph :: string
  cd_status :: graph_status
  cd_job :: bool
  cd_attempts :: nat

definition candidate_of :: "graph_run \<Rightarrow> candidate" where
  "candidate_of r = \<lparr>cd_id = gr_id r, cd_graph = gr_graph r, cd_status = gr_status r, cd_job = gr_job r,
     cd_attempts = gr_recovery r\<rparr>"

definition list_recovery_candidates :: "runs \<Rightarrow> candidate list" where
  "list_recovery_candidates rp = map candidate_of (sort_key gr_created (list_incomplete rp))"

definition begin_recovery :: "time \<Rightarrow> string \<Rightarrow> runs \<Rightarrow> graph_run option \<times> runs" where
  "begin_recovery now =
     find_and_update (\<lambda>r. run_incomplete (gr_status r))
       (\<lambda>r. r\<lparr>gr_recovery := gr_recovery r + 1, gr_recovered_at := Some now\<rparr>)"

text \<open>\<^verbatim>\<open>update_one\<close> of one document, whatever it holds.\<close>

definition on_run :: "string \<Rightarrow> (graph_run \<Rightarrow> graph_run) \<Rightarrow> runs \<Rightarrow> runs" where
  "on_run i f rp = (case get_run i rp of None \<Rightarrow> rp | Some r \<Rightarrow> AList.update i (f r) rp)"

definition reset_recovery_attempts :: "string \<Rightarrow> runs \<Rightarrow> runs" where
  "reset_recovery_attempts i = on_run i (\<lambda>r. r\<lparr>gr_recovery := 0\<rparr>)"

definition fail_incomplete :: "time \<Rightarrow> string \<Rightarrow> string \<Rightarrow> runs \<Rightarrow> bool \<times> runs" where
  "fail_incomplete now i msg rp =
     (case find_and_update (\<lambda>r. run_incomplete (gr_status r))
             (\<lambda>r. r\<lparr>gr_status := R_Failed, gr_state := AList.update ''error'' (JStr msg) (gr_state r),
                    gr_agent_url := None, gr_updated := now\<rparr>) i rp of
        (found, rp') \<Rightarrow> (found \<noteq> None, rp'))"

text \<open>A query of the run list; \<open>like s r\<close> is MongoDB's case-insensitive \<^verbatim>\<open>$regex\<close>.\<close>

record run_query =
  rq_workflow :: "string option"
  rq_status :: "graph_status option"
  rq_search :: "string option"
  rq_exclude :: "string list"

definition run_matches :: "(string \<Rightarrow> string \<Rightarrow> bool) \<Rightarrow> run_query \<Rightarrow> graph_run \<Rightarrow> bool" where
  "run_matches like q r \<longleftrightarrow>
     \<not> gr_job r \<and>
     (truthy (rq_workflow q) \<longrightarrow> gr_graph r = the (rq_workflow q)) \<and>
     (rq_exclude q \<noteq> [] \<longrightarrow> gr_graph r \<notin> set (rq_exclude q)) \<and>
     (rq_status q \<noteq> None \<longrightarrow> gr_status r = the (rq_status q)) \<and>
     (truthy (rq_search q) \<longrightarrow> like (the (rq_search q)) (gr_request r))"

definition summary_of :: "graph_run \<Rightarrow> graph_run" where
  "summary_of r = r\<lparr>gr_state := [], gr_inputs := [], gr_outputs := [], gr_routing := [], gr_dynamic := []\<rparr>"

text \<open>Runs created at the same instant come in an order MongoDB does not promise; here, as stored.\<close>

definition list_recent ::
    "(string \<Rightarrow> string \<Rightarrow> bool) \<Rightarrow> nat \<Rightarrow> nat \<Rightarrow> run_query \<Rightarrow> bool \<Rightarrow> runs \<Rightarrow> graph_run list" where
  "list_recent like limit offset q summary rp =
     map (if summary then summary_of else id)
       ((if limit = 0 then id else take limit)
         (drop offset (sort_key (\<lambda>r. - gr_created r) (filter (run_matches like q) (map snd rp)))))"

definition count_recent :: "(string \<Rightarrow> string \<Rightarrow> bool) \<Rightarrow> run_query \<Rightarrow> runs \<Rightarrow> nat" where
  "count_recent like q rp = length (filter (run_matches like q) (map snd rp))"

definition delete_run :: "string \<Rightarrow> runs \<Rightarrow> runs" where
  "delete_run i rp = AList.delete i rp"

definition set_dynamic :: "string \<Rightarrow> string \<Rightarrow> run_state \<Rightarrow> runs \<Rightarrow> runs" where
  "set_dynamic i step s = on_run i (\<lambda>r. r\<lparr>gr_dynamic := AList.update step s (gr_dynamic r)\<rparr>)"

definition list_children :: "string \<Rightarrow> runs \<Rightarrow> graph_run list" where
  "list_children parent rp =
     map (\<lambda>r. r\<lparr>gr_inputs := [], gr_routing := []\<rparr>)
       (filter (\<lambda>r. gr_parent r = Some parent \<and> gr_job r) (map snd rp))"

section \<open>What the repository keeps\<close>

text \<open>Every document is stored under its own id, once.\<close>

definition runs_ok :: "runs \<Rightarrow> bool" where
  "runs_ok rp \<longleftrightarrow> dict_ok rp \<and> (\<forall>i r. get_run i rp = Some r \<longrightarrow> gr_id r = i)"

lemma touch_simps [simp]:
  "gr_id (touch now r) = gr_id r" "gr_status (touch now r) = gr_status r" "gr_statuses (touch now r) = gr_statuses r"
  "gr_state (touch now r) = gr_state r" "gr_graph (touch now r) = gr_graph r" "gr_step (touch now r) = gr_step r"
  "gr_outputs (touch now r) = gr_outputs r" "gr_inputs (touch now r) = gr_inputs r" "gr_job (touch now r) = gr_job r"
  "gr_dynamic (touch now r) = gr_dynamic r" "gr_recovery (touch now r) = gr_recovery r"
  "gr_parent (touch now r) = gr_parent r" "gr_agent_url (touch now r) = gr_agent_url r"
  "gr_definition (touch now r) = gr_definition r" "gr_request (touch now r) = gr_request r"
  by (simp_all add: touch_def)

lemma get_update [simp]: "get_run i (AList.update j r rp) = (if i = j then Some r else get_run i rp)"
  by (simp add: get_run_def)

lemma get_update_run [simp]:
  "get_run i (update_run now r rp) = (if i = gr_id r then Some (touch now r) else get_run i rp)"
  by (simp add: update_run_def)

lemma get_on_run [simp]:
  "get_run i (on_run j f rp) = (if i = j then map_option f (get_run i rp) else get_run i rp)"
  by (simp add: on_run_def split: option.split)

lemma get_find_and_update:
  "get_run j (snd (find_and_update ok f i rp)) =
     (if j = i \<and> fst (find_and_update ok f i rp) \<noteq> None then fst (find_and_update ok f i rp) else get_run j rp)"
  by (simp add: find_and_update_def split: option.split)

lemma find_and_update_Some:
  "fst (find_and_update ok f i rp) = Some r' \<longleftrightarrow> (\<exists>r. get_run i rp = Some r \<and> ok r \<and> r' = f r)"
  by (auto simp: find_and_update_def split: option.split)

lemma runs_ok_update: "runs_ok rp \<Longrightarrow> gr_id r = i \<Longrightarrow> runs_ok (AList.update i r rp)"
  by (simp add: runs_ok_def)

lemma runs_okI_update [simp, intro]: "runs_ok rp \<Longrightarrow> runs_ok (update_run now r rp)"
  unfolding update_run_def by (rule runs_ok_update) simp_all

lemma runs_ok_create:
  assumes "runs_ok rp" and "create_run now r rp = Some rp'"
  shows "runs_ok rp'"
proof -
  from assms(2) have new: "map_of rp (gr_id r) = None" and rp': "rp' = rp @ [(gr_id r, touch now r)]"
    by (auto simp: create_run_def get_run_def split: if_splits)
  have "dict_ok rp'"
    using assms(1) new by (auto simp: rp' runs_ok_def dict_ok_def map_of_eq_None_iff)
  moreover have "gr_id x = i" if "get_run i rp' = Some x" for i x
    using that assms(1) new by (auto simp: rp' get_run_def runs_ok_def map_add_def split: option.splits if_splits)
  ultimately show ?thesis by (simp add: runs_ok_def)
qed

lemma runs_ok_find_and_update [intro]:
  "runs_ok rp \<Longrightarrow> (\<And>r. gr_id (f r) = gr_id r) \<Longrightarrow> runs_ok (snd (find_and_update ok f i rp))"
  by (auto simp: find_and_update_def runs_ok_def split: option.split)

lemma runs_ok_on_run [intro]: "runs_ok rp \<Longrightarrow> (\<And>r. gr_id (f r) = gr_id r) \<Longrightarrow> runs_ok (on_run i f rp)"
  by (auto simp: on_run_def runs_ok_def split: option.split)

lemma runs_ok_delete [intro]: "runs_ok rp \<Longrightarrow> runs_ok (delete_run i rp)"
  by (auto simp: delete_run_def runs_ok_def get_run_def split: if_splits)

lemma runs_ok_mem: "runs_ok rp \<Longrightarrow> r \<in> snd ` set rp \<longleftrightarrow> get_run (gr_id r) rp = Some r"
  unfolding runs_ok_def get_run_def by (rule dict_values_iff) simp_all

text \<open>The atomic claim: of any number of approvals and rejections of a paused run, one wins.\<close>

interpretation resumes: claim_once
  "\<lambda>rp i. \<exists>r. get_run i rp = Some r \<and> gr_status r = R_Waiting_Approval"
  "claim_for_resume now"
  by unfold_locales (auto simp: claim_for_resume_def find_and_update_Some get_find_and_update
    split: option.split if_splits)

lemma claim_for_resume_Some:
  assumes "claim_for_resume now i rp = (Some r', rp')"
  obtains r where "get_run i rp = Some r" "gr_status r = R_Waiting_Approval"
    "r' = r\<lparr>gr_status := R_Running, gr_updated := now\<rparr>" "rp' = AList.update i r' rp"
  using assms by (auto simp: claim_for_resume_def find_and_update_def split: option.splits if_splits)

lemma claim_for_resume_None:
  "claim_for_resume now i rp = (None, rp') \<Longrightarrow> rp' = rp"
  by (auto simp: claim_for_resume_def find_and_update_def split: option.splits if_splits)

section \<open>Pages of the run list\<close>

lemma pages_cover:
  assumes "0 < limit"
  shows "concat (map (\<lambda>p. list_recent like limit (p * limit) q False rp) [0..<n]) =
    take (n * limit) (list_recent like 0 0 q False rp)"
proof (induction n)
  case (Suc n)
  show ?case using assms Suc.IH
    by (simp add: list_recent_def take_add [symmetric] add.commute)
qed simp

text \<open>
  The pages of the run list, one after the other, are every run that matches, newest first: nothing is
  skipped or shown twice, and the total says how many there are.
\<close>

theorem run_pages_complete:
  assumes "0 < limit" and "count_recent like q rp \<le> n * limit"
  shows "concat (map (\<lambda>p. list_recent like limit (p * limit) q False rp) [0..<n]) =
      list_recent like 0 0 q False rp \<and>
    mset (list_recent like 0 0 q False rp) = mset (filter (run_matches like q) (map snd rp)) \<and>
    sorted (rev (map gr_created (list_recent like 0 0 q False rp)))"
proof (intro conjI)
  show "concat (map (\<lambda>p. list_recent like limit (p * limit) q False rp) [0..<n]) = list_recent like 0 0 q False rp"
    using assms(2) by (simp add: pages_cover [OF assms(1)]) (simp add: list_recent_def count_recent_def)
  show "mset (list_recent like 0 0 q False rp) = mset (filter (run_matches like q) (map snd rp))"
    by (simp add: list_recent_def)
  let ?xs = "sort_key (\<lambda>r. - gr_created r) (filter (run_matches like q) (map snd rp))"
  have "sorted (map (\<lambda>r. - gr_created r) ?xs)" by simp
  then have "sorted (rev (map gr_created ?xs))"
    by (simp add: sorted_wrt_rev sorted_map sorted_wrt_map)
  then show "sorted (rev (map gr_created (list_recent like 0 0 q False rp)))" by (simp add: list_recent_def)
qed

definition example_run :: "string \<Rightarrow> graph_status \<Rightarrow> time \<Rightarrow> graph_run" where
  "example_run i status created = \<lparr>gr_id = i, gr_graph = ''triage'', gr_request = ''a request'', gr_status = status,
     gr_parent = None, gr_job = False, gr_agent_url = None, gr_definition = None, gr_state = [], gr_step = None,
     gr_statuses = [], gr_inputs = [], gr_outputs = [], gr_routing = [], gr_dynamic = [], gr_recovery = 0,
     gr_recovered_at = None, gr_created = created, gr_updated = created\<rparr>"

definition example_runs :: runs where
  "example_runs = [(''a'', example_run ''a'' R_Running 1), (''b'', example_run ''b'' R_Completed 2),
     (''c'', example_run ''c'' R_Waiting_Approval 3)]"

definition any_query :: run_query where
  "any_query = \<lparr>rq_workflow = None, rq_status = None, rq_search = None, rq_exclude = []\<rparr>"

theorem run_pages_complete_witness:
  "concat (map (\<lambda>p. list_recent (\<lambda>_ _. True) 2 (p * 2) any_query False example_runs) [0..<2]) =
     list_recent (\<lambda>_ _. True) 0 0 any_query False example_runs"
proof -
  have "count_recent (\<lambda>_ _. True) any_query example_runs \<le> 2 * 2" by code_simp
  then show ?thesis by (rule run_pages_complete [THEN conjunct1, rotated]) simp
qed

end
