(* ===== verification/StepOutputs.thy ===== *)
theory StepOutputs
  imports JsonText
begin

text \<open>
  Step outputs in object storage: \<^verbatim>\<open>app/infrastructure/orchestration/step_outputs.py\<close>.  The object
  store is a dictionary from keys to texts; the UTF-8 bytes of a text are not kept apart from it, only
  their number (\<open>utf8_len\<close>).  Arguments: \<open>handle\<close>, the fields of a data handle as \<^verbatim>\<open>DataRef.model_validate\<close>
  gives them, the SHA-256 digest and the time a file is written.
\<close>

section \<open>References\<close>

definition is_output_ref :: "json \<Rightarrow> bool" where
  "is_output_ref v =
     (case v of
        JObj r \<Rightarrow> jget r ''__ref__'' = JBool True \<and>
          (case jget r ''key'' of JStr _ \<Rightarrow> True | _ \<Rightarrow> False) \<and>
          (case jget r ''field'' of JStr _ \<Rightarrow> True | _ \<Rightarrow> False)
      | _ \<Rightarrow> False)"

definition find_output_refs :: "json \<Rightarrow> jobj" where
  "find_output_refs state = (case state of JObj s \<Rightarrow> filter (\<lambda>(k, v). is_output_ref v) s | _ \<Rightarrow> [])"

definition is_data_ref :: "json \<Rightarrow> bool" where
  "is_data_ref v = (case v of JObj r \<Rightarrow> jtrue (jget r ''__stream__'') \<and> ''id'' \<in> dict_keys r | _ \<Rightarrow> False)"

definition as_data_ref :: "(jobj \<Rightarrow> jobj option) \<Rightarrow> json \<Rightarrow> jobj option" where
  "as_data_ref handle v = (if is_data_ref v then (case v of JObj r \<Rightarrow> handle r | _ \<Rightarrow> None) else None)"

definition never_offload :: "string list" where
  "never_offload = [''error'', ''request'']"

definition offloadable :: "(jobj \<Rightarrow> jobj option) \<Rightarrow> string \<Rightarrow> json \<Rightarrow> bool" where
  "offloadable handle k v \<longleftrightarrow>
     \<not> (starts_with ''_'' k \<or> k \<in> set never_offload) \<and> \<not> (is_output_ref v \<or> as_data_ref handle v \<noteq> None)"

definition strip_dots :: "string \<Rightarrow> string" where
  "strip_dots s = rev (dropWhile (\<lambda>c. c = CHR ''.'') (rev (dropWhile (\<lambda>c. c = CHR ''.'') s)))"

definition segment_char :: "char \<Rightarrow> bool" where
  "segment_char c \<longleftrightarrow> is_lower c \<or> is_upper c \<or> is_digit c \<or> c \<in> set ''._-''"

definition segment :: "string \<Rightarrow> string" where
  "segment t =
     (let cleaned = strip_dots (map (\<lambda>c. if segment_char c then c else CHR ''_'') t)
      in take 120 (if cleaned = [] then ''x'' else cleaned))"

definition object_key :: "string \<Rightarrow> string \<Rightarrow> nat \<Rightarrow> string" where
  "object_key run step iteration =
     ''runs/'' @ segment run @ ''/'' @ segment step
     @ (if 1 < iteration then ''-'' @ nat_digits iteration else []) @ ''.md''"

definition run_prefix :: "string \<Rightarrow> string" where
  "run_prefix run = ''runs/'' @ segment run @ ''/''"

fun kind_name :: "json \<Rightarrow> string" where
  "kind_name JNull = ''null''"
| "kind_name (JBool b) = ''bool''"
| "kind_name (JInt i) = ''number''"
| "kind_name (JFloat r) = ''number''"
| "kind_name (JStr s) = ''str''"
| "kind_name (JList xs) = ''list''"
| "kind_name (JObj kvs) = ''dict''"

definition utf8_len :: "string \<Rightarrow> nat" where
  "utf8_len s = sum_list (map (\<lambda>c. if of_char c < (128 :: nat) then 1 else 2) s)"

definition make_ref :: "(string \<Rightarrow> string) \<Rightarrow> string \<Rightarrow> string \<Rightarrow> string \<Rightarrow> json \<Rightarrow> json" where
  "make_ref digest uri key field v =
     (let t = dumps v
      in JObj ([(''__ref__'', JBool True), (''uri'', JStr uri), (''key'', JStr key), (''field'', JStr field),
          (''bytes'', JInt (int (utf8_len t))), (''sha256'', JStr (digest t)), (''kind'', JStr (kind_name v)),
          (''preview'', JStr (take 200 t))]
        @ (case v of
             JList xs \<Rightarrow> [(''items'', JInt (int (length xs)))]
           | JObj kvs \<Rightarrow> [(''items'', JInt (int (length kvs)))]
           | _ \<Rightarrow> [])))"

section \<open>The file\<close>

definition fence_open :: string where
  "fence_open = [CHR 0x60, CHR 0x60, CHR 0x60] @ ''json'' @ [CHR 0x0A]"

definition fence_close :: string where
  "fence_close = [CHR 0x0A, CHR 0x60, CHR 0x60, CHR 0x60]"

definition quoted :: "string \<Rightarrow> string" where
  "quoted s = [CHR 0x60] @ s @ [CHR 0x60]"

definition header_lines :: "string \<Rightarrow> string \<Rightarrow> string \<Rightarrow> nat \<Rightarrow> string \<Rightarrow> string list \<Rightarrow> string list" where
  "header_lines run step type iteration ts ks =
     [''# Step output: '' @ step, [], ''- step: '' @ quoted step, ''- type: '' @ quoted type,
      ''- run: '' @ quoted run, ''- iteration: '' @ nat_digits iteration, ''- written_at: '' @ ts,
      ''- keys: '' @ join '', '' (map quoted ks), []]"

definition render_markdown :: "string \<Rightarrow> string \<Rightarrow> string \<Rightarrow> nat \<Rightarrow> string \<Rightarrow> jobj \<Rightarrow> string" where
  "render_markdown run step type iteration ts values =
     join [CHR 0x0A] (header_lines run step type iteration ts (map fst values)
       @ [fence_open @ dumps_indent 0 (JObj values) @ fence_close, []])"

text \<open>\<^verbatim>\<open>text.find\<close> and \<^verbatim>\<open>text.rfind\<close>.\<close>

fun py_find :: "string \<Rightarrow> string \<Rightarrow> nat option" where
  "py_find p s =
     (if starts_with p s then Some 0
      else case s of [] \<Rightarrow> None | c # cs \<Rightarrow> map_option Suc (py_find p cs))"

fun py_rfind :: "string \<Rightarrow> string \<Rightarrow> nat option" where
  "py_rfind p [] = (if p = [] then Some 0 else None)"
| "py_rfind p (c # cs) =
     (case py_rfind p cs of
        Some i \<Rightarrow> Some (Suc i)
      | None \<Rightarrow> if starts_with p (c # cs) then Some 0 else None)"

declare py_find.simps [simp del]

datatype output_error = No_Json_Block | Not_A_Mapping | Bad_Json | Read_Failed string
  | No_Field string string | Too_Large int nat "string list"

definition parse_markdown :: "string \<Rightarrow> output_error + jobj" where
  "parse_markdown t =
     (case (py_find fence_open t, py_rfind fence_close t) of
        (Some start, Some stop) \<Rightarrow>
          if stop \<le> start then Inl No_Json_Block
          else (case loads (drop (start + length fence_open) (take stop t)) of
                  None \<Rightarrow> Inl Bad_Json
                | Some (JObj kvs) \<Rightarrow> Inr kvs
                | Some _ \<Rightarrow> Inl Not_A_Mapping)
      | _ \<Rightarrow> Inl No_Json_Block)"

section \<open>What a step needs\<close>

definition structural_fields :: "string list" where
  "structural_fields = [''id'', ''type'', ''name'', ''description'', ''next'', ''targets'', ''output_key'',
     ''position'', ''ui'', ''layout'', ''sandbox'', ''sandbox_runtime'', ''sandbox_image'',
     ''timeout_seconds'', ''max_loops'', ''result_mode'', ''limit'']"

definition all_state_types :: "string list" where
  "all_state_types = [''python'', ''langgraph-agent'', ''claude-agent'', ''dynamic'', ''dynamic_gate'']"

fun strings_in :: "bool \<Rightarrow> json \<Rightarrow> string list" where
  "strings_in outer (JStr s) = [s]"
| "strings_in outer (JObj kvs) =
     concat (map (\<lambda>(k, v). if outer \<and> k \<in> set structural_fields \<or> k = ''next'' \<or> k = ''targets'' then []
       else strings_in False v) kvs)"
| "strings_in outer (JList xs) = concat (map (strings_in False) xs)"
| "strings_in outer _ = []"

text \<open>A value of \<^verbatim>\<open>parts\<close> that cannot be iterated raises there; here it has no part.\<close>

fun has_python_part :: "json \<Rightarrow> bool" where
  "has_python_part (JList xs) =
     list_ex (\<lambda>p. case p of
         JObj kvs \<Rightarrow> jget kvs ''type'' = JStr ''python'' \<or>
           (jget kvs ''type'' = JStr ''combined_datasource'' \<and>
            list_ex (\<lambda>(k, v). k = ''parts'' \<and> has_python_part v) kvs)
       | _ \<Rightarrow> False) xs"
| "has_python_part _ = False"

definition word_start :: "char \<Rightarrow> bool" where
  "word_start c \<longleftrightarrow> is_lower c \<or> is_upper c \<or> c = CHR ''_''"

text \<open>\<^verbatim>\<open>_TOKEN_RE.findall\<close>.\<close>

function tokens :: "string \<Rightarrow> string list" where
  "tokens s =
     (case dropWhile (\<lambda>c. \<not> word_start c) s of
        [] \<Rightarrow> []
      | c # r \<Rightarrow> (c # takeWhile is_word r) # tokens (dropWhile is_word r))"
  by pat_completeness auto
termination
proof (relation "measure length")
  fix s :: string and c r assume "dropWhile (\<lambda>c. \<not> word_start c) s = c # r"
  then have "length (c # r) \<le> length s" by (metis length_dropWhile_le)
  then show "(dropWhile is_word r, s) \<in> measure length"
    using length_dropWhile_le [of is_word r] by simp
qed simp

declare tokens.simps [simp del]

definition config_tokens :: "jobj \<Rightarrow> string list" where
  "config_tokens step = List.maps tokens (strings_in True (JObj step))"

text \<open>\<open>None\<close>: any key.\<close>

definition referenced_keys :: "jobj \<Rightarrow> string list option" where
  "referenced_keys step =
     (if jget step ''type'' \<in> JStr ` set all_state_types then None
      else if jget step ''type'' = JStr ''combined_datasource'' \<and> has_python_part (jget step ''parts'') then None
      else Some (config_tokens step))"

definition condition_keys :: "json list \<Rightarrow> string list" where
  "condition_keys conditions = List.maps (\<lambda>c. if c = JNull then [] else tokens (py_str c)) conditions"

section \<open>What the run document records\<close>

definition step_input_max_keys :: nat where "step_input_max_keys = 30"
definition step_input_value_max_bytes :: nat where "step_input_value_max_bytes = 1024"

definition compact_value :: "(jobj \<Rightarrow> jobj option) \<Rightarrow> json \<Rightarrow> json" where
  "compact_value handle v =
     (if is_output_ref v then v
      else case as_data_ref handle v of
        Some h \<Rightarrow> JObj ((''__stream__'', JInt 1) # map (\<lambda>f. (f, jget h f))
          [''id'', ''shape'', ''items'', ''bytes'', ''truncated'', ''source_id'', ''operation''])
      | None \<Rightarrow>
          if utf8_len (dumps v) \<le> step_input_value_max_bytes then v
          else JObj [(''__truncated__'', JBool True), (''kind'', JStr (kind_name v)),
                 (''bytes'', JInt (int (utf8_len (dumps v)))), (''preview'', JStr (take 200 (dumps v)))])"

definition step_output_record :: "json \<Rightarrow> json" where
  "step_output_record v = (case v of JObj kvs \<Rightarrow> JObj (filter (\<lambda>(k, x). k \<noteq> ''_visit_counts'') kvs) | _ \<Rightarrow> v)"

definition step_input_snapshot :: "(jobj \<Rightarrow> jobj option) \<Rightarrow> jobj option \<Rightarrow> jobj \<Rightarrow> jobj" where
  "step_input_snapshot handle step state =
     (let toks = config_tokens (case step of None \<Rightarrow> [] | Some s \<Rightarrow> s);
          keys = filter (\<lambda>k. k \<in> set toks \<and> \<not> starts_with ''__'' k) (map fst state);
          shown = take step_input_max_keys keys;
          snapshot = map (\<lambda>k. (k, compact_value handle (jget state k))) shown
      in if length shown < length keys
         then AList.update ''__more_keys__'' (JList (map JStr (drop (length shown) keys))) snapshot
         else snapshot)"

section \<open>The store\<close>

text \<open>
  \<open>os_objects\<close> is the object store, \<open>os_reach k\<close> whether it answers for the key, \<open>os_uri\<close> what it calls an
  object; the cache holds the least recently used file first.
\<close>

record output_store =
  os_objects :: "string dict"
  os_reach :: "string \<Rightarrow> bool"
  os_uri :: "string \<Rightarrow> string"
  os_inline :: nat
  os_hydrate :: nat
  os_cache_max :: nat
  os_cache :: "string dict"
  os_cache_bytes :: int

fun shrink_cache :: "int \<Rightarrow> string dict \<Rightarrow> int \<Rightarrow> string dict \<times> int" where
  "shrink_cache limit [] n = ([], n)"
| "shrink_cache limit ((k, d) # c) n =
     (if limit < n then shrink_cache limit c (n - int (utf8_len d)) else ((k, d) # c, n))"

definition cache_put :: "string \<Rightarrow> string \<Rightarrow> output_store \<Rightarrow> output_store" where
  "cache_put key data st =
     (if os_cache_max st = 0 \<or> os_cache_max st < utf8_len data then st
      else let n = os_cache_bytes st
                 - (case map_of (os_cache st) key of None \<Rightarrow> 0 | Some old \<Rightarrow> int (utf8_len old));
               (c, n') = shrink_cache (int (os_cache_max st)) (AList.delete key (os_cache st) @ [(key, data)])
                 (n + int (utf8_len data))
           in st\<lparr>os_cache := c, os_cache_bytes := n'\<rparr>)"

definition read_file :: "string \<Rightarrow> output_store \<Rightarrow> (output_error + string) \<times> output_store" where
  "read_file key st =
     (case map_of (os_cache st) key of
        Some data \<Rightarrow> (Inr data, st\<lparr>os_cache := AList.delete key (os_cache st) @ [(key, data)]\<rparr>)
      | None \<Rightarrow>
          (case map_of (os_objects st) key of
             Some data \<Rightarrow> if os_reach st key then (Inr data, cache_put key data st) else (Inl (Read_Failed key), st)
           | None \<Rightarrow> (Inl (Read_Failed key), st)))"

text \<open>The references put in place of the values that are too big to stay.\<close>

definition with_refs :: "(string \<Rightarrow> string) \<Rightarrow> nat \<Rightarrow> string \<Rightarrow> string \<Rightarrow> jobj \<Rightarrow> jobj \<Rightarrow> jobj" where
  "with_refs digest inline uri key values upd =
     fold (\<lambda>(f, v) u. if inline < utf8_len (dumps v) then AList.update f (make_ref digest uri key f v) u else u)
       values upd"

text \<open>\<open>None\<close>: the write to the object store raises.\<close>

definition offload ::
    "(jobj \<Rightarrow> jobj option) \<Rightarrow> (string \<Rightarrow> string) \<Rightarrow> string \<Rightarrow> string \<Rightarrow> string \<Rightarrow> nat \<Rightarrow> string \<Rightarrow> json \<Rightarrow>
     output_store \<Rightarrow> json option \<times> output_store" where
  "offload handle digest run step type iteration ts upd st =
     (case upd of
        JObj u \<Rightarrow>
          if u = [] \<or> run = [] then (Some upd, st)
          else let values = filter (\<lambda>(k, v). offloadable handle k v) u
               in if values = [] then (Some upd, st)
                  else let key = object_key run step iteration;
                           data = render_markdown run step type iteration ts values
                       in if \<not> os_reach st key then (None, st)
                          else (Some (JObj (with_refs digest (os_inline st) (os_uri st key) key values u)),
                                cache_put key data (st\<lparr>os_objects := AList.update key data (os_objects st)\<rparr>))
      | _ \<Rightarrow> (Some upd, st))"

definition ref_str :: "string \<Rightarrow> json \<Rightarrow> string" where
  "ref_str f v = (case v of JObj r \<Rightarrow> (case jget r f of JStr s \<Rightarrow> s | _ \<Rightarrow> []) | _ \<Rightarrow> [])"

definition ref_bytes :: "json \<Rightarrow> int" where
  "ref_bytes v = (case v of JObj r \<Rightarrow> (case jget r ''bytes'' of JInt i \<Rightarrow> i | _ \<Rightarrow> 0) | _ \<Rightarrow> 0)"

definition load_values :: "string \<Rightarrow> output_store \<Rightarrow> (output_error + jobj) \<times> output_store" where
  "load_values key st =
     (case read_file key st of
        (Inl e, st') \<Rightarrow> (Inl e, st')
      | (Inr data, st') \<Rightarrow> (parse_markdown data, st'))"

definition resolve_ref :: "json \<Rightarrow> output_store \<Rightarrow> (output_error + json) \<times> output_store" where
  "resolve_ref ref st =
     (case load_values (ref_str ''key'' ref) st of
        (Inl e, st') \<Rightarrow> (Inl e, st')
      | (Inr values, st') \<Rightarrow>
          (case map_of values (ref_str ''field'' ref) of
             None \<Rightarrow> (Inl (No_Field (ref_str ''key'' ref) (ref_str ''field'' ref)), st')
           | Some v \<Rightarrow> (Inr v, st')))"

definition hydrate_targets :: "string list option \<Rightarrow> jobj \<Rightarrow> jobj" where
  "hydrate_targets keys state =
     filter (\<lambda>(k, v). is_output_ref v \<and> (case keys of None \<Rightarrow> True | Some ks \<Rightarrow> k \<in> set ks)) state"

text \<open>\<open>files\<close>: the files read so far.\<close>

fun resolve_targets ::
    "(string \<times> jobj) list \<Rightarrow> jobj \<Rightarrow> jobj \<Rightarrow> output_store \<Rightarrow> (output_error + jobj) \<times> output_store" where
  "resolve_targets files [] out st = (Inr out, st)"
| "resolve_targets files ((k, ref) # ts) out st =
     (let key = ref_str ''key'' ref; field = ref_str ''field'' ref
      in case (case map_of files key of Some vs \<Rightarrow> (Inr vs, st) | None \<Rightarrow> load_values key st) of
           (Inl e, st') \<Rightarrow> (Inl e, st')
         | (Inr values, st') \<Rightarrow>
             (case map_of values field of
                None \<Rightarrow> (Inl (No_Field key field), st')
              | Some v \<Rightarrow> resolve_targets (AList.update key values files) ts (AList.update k v out) st'))"

definition biggest :: "jobj \<Rightarrow> string list" where
  "biggest targets = map fst (take 5 (sort_key (\<lambda>(k, v). - ref_bytes v) targets))"

definition hydrate ::
    "json \<Rightarrow> string list option \<Rightarrow> nat option \<Rightarrow> output_store \<Rightarrow> (output_error + json) \<times> output_store" where
  "hydrate state keys max_bytes st =
     (case state of
        JObj s \<Rightarrow>
          (let targets = hydrate_targets keys s;
               cap = (case max_bytes of None \<Rightarrow> os_hydrate st | Some n \<Rightarrow> n);
               total = sum_list (map (ref_bytes \<circ> snd) targets)
           in if targets = [] then (Inr state, st)
              else if cap \<noteq> 0 \<and> int cap < total then (Inl (Too_Large total cap (biggest targets)), st)
              else (case resolve_targets [] targets s st of
                      (Inl e, st') \<Rightarrow> (Inl e, st')
                    | (Inr out, st') \<Rightarrow> (Inr (JObj out), st')))
      | _ \<Rightarrow> (Inr state, st))"

definition delete_run_outputs :: "string \<Rightarrow> output_store \<Rightarrow> nat \<times> output_store" where
  "delete_run_outputs run st =
     (let gone = filter (\<lambda>(k, d). starts_with (run_prefix run) k) (os_objects st);
          kept = filter (\<lambda>(k, d). \<not> starts_with (run_prefix run) k) (os_objects st)
      in (length gone, st\<lparr>os_objects := kept\<rparr>))"

text \<open>\<^verbatim>\<open>resolve_for_display\<close> for one value and for a mapping: the budget and the store are threaded.\<close>

definition display_value ::
    "(json \<Rightarrow> string) option \<Rightarrow> json \<Rightarrow> int \<Rightarrow> output_store \<Rightarrow> json \<times> int \<times> output_store" where
  "display_value url v budget st =
     (let kept = (case (v, url) of
          (JObj r, Some f) \<Rightarrow> JObj (AList.update ''download_url'' (JStr (f v)) r) | _ \<Rightarrow> v)
      in if \<not> is_output_ref v then (v, budget, st)
         else if ref_bytes v \<le> budget then
           (case resolve_ref v st of
              (Inr x, st') \<Rightarrow> (x, budget - ref_bytes v, st')
            | (Inl e, st') \<Rightarrow> (kept, budget, st'))
         else (kept, budget, st))"

fun resolve_for_display ::
    "(json \<Rightarrow> string) option \<Rightarrow> jobj \<Rightarrow> int \<Rightarrow> output_store \<Rightarrow> jobj \<times> int \<times> output_store" where
  "resolve_for_display url [] budget st = ([], budget, st)"
| "resolve_for_display url ((k, v) # kvs) budget st =
     (let (x, budget1, st1) = display_value url v budget st;
          (rest, budget2, st2) = resolve_for_display url kvs budget1 st1
      in ((k, x) # rest, budget2, st2))"

section \<open>The file is read back\<close>

lemma starts_with_line:
  assumes "CHR 0x0A \<notin> set q" and "CHR 0x0A \<notin> set l" and "l \<noteq> q"
  shows "\<not> starts_with (q @ [CHR 0x0A]) (l @ CHR 0x0A # t)"
  using assms
proof (induction q arbitrary: l)
  case Nil
  then show ?case by (cases l) auto
next
  case (Cons x q)
  then show ?case by (cases l) auto
qed

lemma py_find_skip_line:
  assumes "CHR 0x0A \<notin> set l" and "\<not> ends_with q l" and "CHR 0x0A \<notin> set q" and "q \<noteq> []"
  shows "py_find (q @ [CHR 0x0A]) (l @ CHR 0x0A # t) =
    map_option (\<lambda>i. i + Suc (length l)) (py_find (q @ [CHR 0x0A]) t)"
  using assms(1,2)
proof (induction l)
  case Nil
  have "\<not> starts_with (q @ [CHR 0x0A]) (CHR 0x0A # t)"
    using starts_with_line [of q "[]" t] assms(3,4) by auto
  then show ?case by (subst py_find.simps) (simp cong: option.map_cong)
next
  case (Cons c l)
  have ne: "c # l \<noteq> q" using Cons.prems(2) by (auto simp: ends_with_def)
  have "\<not> ends_with q l"
    using Cons.prems(2) by (auto simp: ends_with_def Suc_diff_le)
  then have "py_find (q @ [CHR 0x0A]) (l @ CHR 0x0A # t) =
      map_option (\<lambda>i. i + Suc (length l)) (py_find (q @ [CHR 0x0A]) t)"
    using Cons by simp
  moreover have "\<not> starts_with (q @ [CHR 0x0A]) ((c # l) @ CHR 0x0A # t)"
    using starts_with_line [of q "c # l" t] assms(3) Cons.prems(1) ne by blast
  ultimately show ?case by (subst py_find.simps) (simp add: option.map_comp comp_def)
qed

lemma py_find_here: "py_find p (p @ t) = Some 0"
  by (subst py_find.simps) simp

lemma py_find_after_lines:
  assumes "\<And>l. l \<in> set ls \<Longrightarrow> CHR 0x0A \<notin> set l \<and> \<not> ends_with q l" and "CHR 0x0A \<notin> set q" and "q \<noteq> []"
  shows "py_find (q @ [CHR 0x0A]) (concat (map (\<lambda>l. l @ [CHR 0x0A]) ls) @ (q @ [CHR 0x0A]) @ t) =
    Some (length (concat (map (\<lambda>l. l @ [CHR 0x0A]) ls)))"
  using assms(1)
proof (induction ls)
  case Nil
  show ?case using py_find_here [of "q @ [CHR 0x0A]" t] by simp
next
  case (Cons l ls)
  then show ?case using py_find_skip_line [OF _ _ assms(2,3), of l] by simp
qed

lemma py_rfind_append: "py_rfind p t = Some i \<Longrightarrow> py_rfind p (s @ t) = Some (length s + i)"
  by (induction s) simp_all

lemma join_lines: "join [CHR 0x0A] (xs @ [y, []]) = concat (map (\<lambda>l. l @ [CHR 0x0A]) xs) @ y @ [CHR 0x0A]"
proof (induction xs)
  case (Cons x xs)
  then show ?case by (cases xs) simp_all
qed simp

text \<open>
  No line of the header is broken, and none ends like an opening fence: then the file is read back,
  whatever the values hold.
\<close>

definition header_ok :: "string list \<Rightarrow> bool" where
  "header_ok ls \<longleftrightarrow>
     list_all (\<lambda>l. CHR 0x0A \<notin> set l \<and> \<not> ends_with ([CHR 0x60, CHR 0x60, CHR 0x60] @ ''json'') l) ls"

lemma parse_between:
  assumes "py_find fence_open (h @ fence_open @ b @ t) = Some (length h)"
    and "py_rfind fence_close (h @ fence_open @ b @ t) = Some (length (h @ fence_open @ b))"
    and "loads b = Some (JObj kvs)"
  shows "parse_markdown (h @ fence_open @ b @ t) = Inr kvs"
proof -
  have "fence_open \<noteq> []" by (simp add: fence_open_def)
  then show ?thesis unfolding parse_markdown_def by (simp add: assms)
qed

lemma parse_render:
  assumes "header_ok (header_lines run step type iteration ts (map fst values))" and "json_ok (JObj values)"
  shows "parse_markdown (render_markdown run step type iteration ts values) = Inr values"
proof -
  let ?q = "[CHR 0x60, CHR 0x60, CHR 0x60] @ ''json''"
  let ?h = "concat (map (\<lambda>l. l @ [CHR 0x0A]) (header_lines run step type iteration ts (map fst values)))"
  let ?b = "dumps_indent 0 (JObj values)"
  have q: "CHR 0x0A \<notin> set ?q" "?q \<noteq> []" by simp_all
  have fence: "fence_open = ?q @ [CHR 0x0A]" by (simp add: fence_open_def)
  have whole: "render_markdown run step type iteration ts values = ?h @ fence_open @ ?b @ fence_close @ [CHR 0x0A]"
    unfolding render_markdown_def join_lines by simp
  have "py_find fence_open (?h @ fence_open @ ?b @ fence_close @ [CHR 0x0A]) = Some (length ?h)"
    unfolding fence by (rule py_find_after_lines [OF _ q]) (use assms(1) in \<open>auto simp: header_ok_def list_all_iff\<close>)
  moreover have last: "py_rfind fence_close ((?h @ fence_open @ ?b) @ (fence_close @ [CHR 0x0A])) =
      Some (length (?h @ fence_open @ ?b) + 0)"
    by (rule py_rfind_append) code_simp
  moreover have "loads ?b = Some (JObj values)"
    using json_text_roundtrip [OF assms(2), of "[]" "[]" 0] by simp
  ultimately show ?thesis
    unfolding whole by (intro parse_between) (simp_all only: append_assoc add_0_right)
qed

section \<open>The cache\<close>

lemma dict_eqI:
  assumes "map fst d = map fst d'" and "dict_ok d" and "\<And>k. k \<in> dict_keys d \<Longrightarrow> map_of d k = map_of d' k"
  shows "d = d'"
  using assms
proof (induction d arbitrary: d')
  case (Cons kv d)
  obtain k v where kv: "kv = (k, v)" by force
  obtain v' e where d': "d' = (k, v') # e" using Cons.prems(1) kv by (cases d') auto
  have "v = v'" using Cons.prems(3) [of k] kv d' by simp
  moreover have "d = e"
  proof (rule Cons.IH)
    fix j assume j: "j \<in> dict_keys d"
    then have "j \<noteq> k" using Cons.prems(2) kv by (auto simp: dict_ok_def)
    then show "map_of d j = map_of e j" using Cons.prems(3) [of j] j kv d' by simp
  qed (use Cons.prems kv d' in \<open>auto simp: dict_ok_def\<close>)
  ultimately show ?case using kv d' by simp
qed simp

lemma update_keys: "k \<in> dict_keys d \<Longrightarrow> map fst (AList.update k v d) = map fst d"
  by (induction d) auto

lemma fold_update_map:
  assumes "dict_ok s"
  shows "fold (\<lambda>(k, v) out. AList.update k (f k v) out) (filter Q s) s =
    map (\<lambda>(k, v). (k, if Q (k, v) then f k v else v)) s"
proof -
  have keys: "map fst (fold (\<lambda>(k, v) out. AList.update k (f k v) out) xs d) = map fst d"
    if "dict_keys xs \<subseteq> dict_keys d" for xs d
    using that
  proof (induction xs arbitrary: d)
    case (Cons x xs)
    obtain k v where x: "x = (k, v)" by force
    have same: "map fst (AList.update k (f k v) d) = map fst d" by (rule update_keys) (use Cons.prems x in auto)
    then have "dict_keys (AList.update k (f k v) d) = dict_keys d" by (metis set_map)
    then show ?case using Cons x same by simp
  qed simp
  have get: "map_of (fold (\<lambda>(k, v) out. AList.update k (f k v) out) xs d) j =
      (case map_of xs j of None \<Rightarrow> map_of d j | Some v \<Rightarrow> Some (f j v))" if "dict_ok xs" for xs d j
    using that
  proof (induction xs arbitrary: d)
    case (Cons x xs)
    obtain k v where x: "x = (k, v)" by force
    have "map_of xs k = None" using Cons.prems x by (auto simp: dict_ok_def map_of_eq_None_iff)
    then show ?case using Cons x by (auto simp: dict_ok_def split: option.splits)
  qed simp
  have sub: "dict_ok (filter Q s)" using assms by (simp add: dict_ok_def distinct_map_filter)
  have "map_of (filter Q s) j = (case map_of s j of None \<Rightarrow> None | Some v \<Rightarrow> if Q (j, v) then Some v else None)" for j
    using assms
  proof (induction s)
    case (Cons x s)
    then show ?case by (auto simp: dict_ok_def map_of_eq_None_iff split: option.splits)
  qed simp
  then have "map_of (fold (\<lambda>(k, v) out. AList.update k (f k v) out) (filter Q s) s) j =
      map_of (map (\<lambda>(k, v). (k, if Q (k, v) then f k v else v)) s) j" for j
    by (simp add: get [OF sub] map_of_map_values [where f = "\<lambda>k v. if Q (k, v) then f k v else v"] split: option.split)
  moreover have same: "map fst (fold (\<lambda>(k, v) out. AList.update k (f k v) out) (filter Q s) s) = map fst s"
    by (rule keys) auto
  ultimately show ?thesis
    using assms by (intro dict_eqI) (auto simp: dict_ok_def case_prod_beta' comp_def)
qed

definition cache_size :: "string dict \<Rightarrow> int" where
  "cache_size c = sum_list (map (\<lambda>(k, d). int (utf8_len d)) c)"

text \<open>
  The count of bytes is that of the files kept, which are under the limit; a file that is kept is the
  one in the object store.
\<close>

definition cache_ok :: "output_store \<Rightarrow> bool" where
  "cache_ok st \<longleftrightarrow>
     dict_ok (os_cache st) \<and> os_cache_bytes st = cache_size (os_cache st) \<and>
     os_cache_bytes st \<le> int (os_cache_max st) \<and>
     (\<forall>k d f. map_of (os_cache st) k = Some d \<longrightarrow> map_of (os_objects st) k = Some f \<longrightarrow> d = f)"

lemma cache_size_simps [simp]:
  "cache_size [] = 0" "cache_size ((k, d) # c) = int (utf8_len d) + cache_size c"
  "cache_size (c @ c') = cache_size c + cache_size c'"
  by (simp_all add: cache_size_def)

lemma cache_size_delete:
  "dict_ok c \<Longrightarrow> cache_size (AList.delete k c) =
     cache_size c - (case map_of c k of None \<Rightarrow> 0 | Some d \<Rightarrow> int (utf8_len d))"
proof (induction c)
  case (Cons x c)
  obtain j d where x: "x = (j, d)" by force
  have "k = j \<Longrightarrow> map_of c k = None" using Cons.prems x by (auto simp: dict_ok_def map_of_eq_None_iff)
  then show ?case using Cons x by (auto simp: dict_ok_def split: option.splits)
qed simp

lemma shrink_cache_spec:
  assumes "shrink_cache limit c n = (c', n')" and "n = cache_size c" and "0 \<le> limit"
  shows "n' = cache_size c' \<and> n' \<le> limit \<and> (\<exists>p. c = p @ c')"
  using assms
proof (induction limit c n rule: shrink_cache.induct)
  case (2 limit k d c n)
  show ?case
  proof (cases "limit < n")
    case True
    then have "n' = cache_size c' \<and> n' \<le> limit \<and> (\<exists>p. c = p @ c')" using 2 by simp
    then show ?thesis by (metis append_Cons)
  next
    case False
    then show ?thesis using 2 by (intro conjI exI [of _ "[]"]) auto
  qed
qed simp

lemma dict_ok_suffix: "dict_ok (p @ c) \<Longrightarrow> dict_ok c \<and> (map_of c k = Some d \<longrightarrow> map_of (p @ c) k = Some d)"
  by (auto simp: dict_ok_def map_add_def dest: map_of_SomeD split: option.splits) (metis IntI empty_iff fst_conv image_eqI map_of_SomeD)

lemma move_to_end:
  assumes "dict_ok c"
  shows "dict_ok (AList.delete k c @ [(k, d)])"
    and "map_of (AList.delete k c @ [(k, d)]) j = (if j = k then Some d else map_of c j)"
  using assms by (auto simp: dict_ok_def delete_keys distinct_removeAll map_add_def delete_conv' split: option.splits)

lemma cache_put_fields [simp]:
  "os_objects (cache_put k d st) = os_objects st" "os_reach (cache_put k d st) = os_reach st"
  "os_inline (cache_put k d st) = os_inline st" "os_hydrate (cache_put k d st) = os_hydrate st"
  "os_cache_max (cache_put k d st) = os_cache_max st" "os_uri (cache_put k d st) = os_uri st"
  by (simp_all add: cache_put_def Let_def split: prod.split)

text \<open>A file goes into the cache, if it fits or is not there yet.\<close>

lemma cache_ok_put:
  assumes ok: "cache_ok st" and obj: "map_of objs k = Some d"
    and rest: "\<And>j. j \<noteq> k \<Longrightarrow> map_of objs j = map_of (os_objects st) j"
    and fits: "utf8_len d \<le> os_cache_max st \<and> os_cache_max st \<noteq> 0 \<or> map_of (os_cache st) k = None"
  shows "cache_ok (cache_put k d (st\<lparr>os_objects := objs\<rparr>))"
proof (cases "os_cache_max st = 0 \<or> os_cache_max st < utf8_len d")
  case True
  then have "map_of (os_cache st) k = None" using fits by auto
  then show ?thesis using True ok rest unfolding cache_ok_def cache_put_def by simp (metis option.distinct(1))
next
  case False
  define c where "c = AList.delete k (os_cache st) @ [(k, d)]"
  define n where "n = os_cache_bytes st - (case map_of (os_cache st) k of None \<Rightarrow> 0 | Some old \<Rightarrow> int (utf8_len old))
    + int (utf8_len d)"
  obtain c' n' where s: "shrink_cache (int (os_cache_max st)) c n = (c', n')" by force
  have dict: "dict_ok (os_cache st)" using ok by (simp add: cache_ok_def)
  have "n = cache_size c" using ok by (simp add: n_def c_def cache_ok_def cache_size_delete [OF dict])
  from shrink_cache_spec [OF s this] obtain p where p: "n' = cache_size c'" "n' \<le> int (os_cache_max st)" "c = p @ c'"
    by auto
  have "dict_ok (p @ c')" using move_to_end(1) [OF dict, of k d] p(3) unfolding c_def by metis
  then have c': "dict_ok c'" "\<And>j x. map_of c' j = Some x \<Longrightarrow> map_of c j = Some x"
    using dict_ok_suffix p(3) by metis+
  have put: "cache_put k d (st\<lparr>os_objects := objs\<rparr>) = st\<lparr>os_objects := objs, os_cache := c', os_cache_bytes := n'\<rparr>"
    using False s by (simp add: cache_put_def Let_def c_def n_def)
  have "x = f" if "map_of c' j = Some x" "map_of objs j = Some f" for j x f
  proof -
    from c'(2) [OF that(1)] have "(if j = k then Some d else map_of (os_cache st) j) = Some x"
      unfolding c_def move_to_end(2) [OF dict] .
    then show ?thesis using ok obj rest [of j] that(2) unfolding cache_ok_def by (cases "j = k") auto
  qed
  then show ?thesis using p c' by (simp add: put cache_ok_def)
qed

lemma cache_ok_touch:
  assumes ok: "cache_ok st" and hit: "map_of (os_cache st) k = Some d"
  shows "cache_ok (st\<lparr>os_cache := AList.delete k (os_cache st) @ [(k, d)]\<rparr>)"
proof -
  have dict: "dict_ok (os_cache st)" using ok by (simp add: cache_ok_def)
  have get: "map_of (AList.delete k (os_cache st) @ [(k, d)]) j = map_of (os_cache st) j" for j
    unfolding move_to_end(2) [OF dict] using hit by simp
  show ?thesis
    using ok hit move_to_end(1) [OF dict, of k d] cache_size_delete [OF dict, of k]
    unfolding cache_ok_def by (simp only: output_store.simps get) (auto split: if_splits)
qed

section \<open>A cached store of files\<close>

text \<open>
  What a store of files promises, whatever it keeps in memory: \<open>at s k\<close> is the file it holds.
\<close>

locale file_store =
  fixes invar :: "'s \<Rightarrow> bool"
    and at :: "'s \<Rightarrow> string \<Rightarrow> string option"
    and fits :: "string \<Rightarrow> string \<Rightarrow> 's \<Rightarrow> bool"
    and put :: "string \<Rightarrow> string \<Rightarrow> 's \<Rightarrow> 's"
    and get :: "string \<Rightarrow> 's \<Rightarrow> ('e + string) \<times> 's"
  assumes put_invar: "invar s \<Longrightarrow> fits k d s \<Longrightarrow> invar (put k d s)"
    and put_at: "fits k d s \<Longrightarrow> at (put k d s) j = (if j = k then Some d else at s j)"
    and get_at: "invar s \<Longrightarrow> at s k = Some d \<Longrightarrow> fst (get k s) = Inr d"
    and get_invar: "invar s \<Longrightarrow> invar (snd (get k s))"
    and get_keeps: "at (snd (get k s)) = at s"
begin

lemma gets_keep: "invar s \<Longrightarrow> invar (fold (\<lambda>k s. snd (get k s)) ks s) \<and> at (fold (\<lambda>k s. snd (get k s)) ks s) = at s"
  by (induction ks arbitrary: s) (simp_all add: get_invar get_keeps)

text \<open>A file that was stored is read back, whatever was read in between.\<close>

lemma put_gets_get:
  assumes "invar s" and "fits k d s"
  shows "fst (get k (fold (\<lambda>j s. snd (get j s)) ks (put k d s))) = Inr d"
proof -
  have "at (put k d s) k = Some d" using put_at assms(2) by simp
  with gets_keep [OF put_invar [OF assms], of ks] show ?thesis using get_at by metis
qed

end

definition file_at :: "output_store \<Rightarrow> string \<Rightarrow> string option" where
  "file_at st k = (if os_reach st k then map_of (os_objects st) k else None)"

definition put_file :: "string \<Rightarrow> string \<Rightarrow> output_store \<Rightarrow> output_store" where
  "put_file k d st = cache_put k d (st\<lparr>os_objects := AList.update k d (os_objects st)\<rparr>)"

definition file_fits :: "string \<Rightarrow> string \<Rightarrow> output_store \<Rightarrow> bool" where
  "file_fits k d st \<longleftrightarrow>
     os_reach st k \<and> (utf8_len d \<le> os_cache_max st \<and> os_cache_max st \<noteq> 0 \<or> map_of (os_cache st) k = None)"

lemma read_file_keeps:
  "os_objects (snd (read_file k st)) = os_objects st \<and> os_reach (snd (read_file k st)) = os_reach st \<and>
   os_hydrate (snd (read_file k st)) = os_hydrate st"
  by (auto simp: read_file_def split: option.split)

lemma cache_ok_read:
  assumes ok: "cache_ok st"
  shows "cache_ok (snd (read_file k st))"
proof (cases "map_of (os_cache st) k")
  case (Some d)
  then show ?thesis using cache_ok_touch [OF ok Some] by (simp add: read_file_def)
next
  case None
  show ?thesis
  proof (cases "map_of (os_objects st) k")
    case (Some d)
    have "cache_ok (cache_put k d (st\<lparr>os_objects := os_objects st\<rparr>))"
      by (rule cache_ok_put [OF ok Some refl]) (use None in simp)
    then show ?thesis using None Some ok by (simp add: read_file_def)
  qed (use None ok in \<open>simp add: read_file_def\<close>)
qed

interpretation outputs: file_store cache_ok file_at file_fits put_file read_file
proof unfold_locales
  fix s k d assume "cache_ok s" "file_fits k d s"
  then show "cache_ok (put_file k d s)"
    unfolding put_file_def by (intro cache_ok_put) (auto simp: file_fits_def)
next
  fix s k d j assume "file_fits k d s"
  then show "file_at (put_file k d s) j = (if j = k then Some d else file_at s j)"
    by (simp add: file_at_def put_file_def file_fits_def)
next
  fix s k d assume "cache_ok s" "file_at s k = Some d"
  then show "fst (read_file k s) = Inr d"
    by (auto simp: file_at_def read_file_def cache_ok_def split: option.split if_splits)
next
  fix s k assume "cache_ok s"
  then show "cache_ok (snd (read_file k s))" by (rule cache_ok_read)
next
  fix s k show "file_at (snd (read_file k s)) = file_at s"
    using read_file_keeps [of k s] by (auto simp: file_at_def)
qed


definition example_store :: output_store where
  "example_store = \<lparr>os_objects = [], os_reach = (\<lambda>_. True), os_uri = (\<lambda>k. ''gs://bucket/'' @ k), os_inline = 8,
     os_hydrate = 1000, os_cache_max = 10, os_cache = [], os_cache_bytes = 0\<rparr>"

lemma example_store_ok: "cache_ok example_store"
  by (simp add: cache_ok_def example_store_def)


text \<open>
  A file too big for the cache leaves the copy of the file it replaces there: the next read gives the
  old one.
\<close>

lemma oversized_write_stays_stale:
  "fst (read_file ''a'' (put_file ''a'' ''a longer text'' (put_file ''a'' ''text'' example_store))) = Inr ''text''"
  by code_simp

text \<open>Step \<^verbatim>\<open>a\<close> in its second iteration and step \<^verbatim>\<open>a-2\<close> in its first write the same file.\<close>

lemma second_iteration_collides: "object_key run ''a'' 2 = object_key run ''a-2'' 1"
proof -
  have "segment ''a'' @ ''-'' @ nat_digits 2 = segment ''a-2''" by code_simp
  then show ?thesis by (simp add: object_key_def)
qed

section \<open>Offload and hydrate\<close>

text \<open>\<open>stored st v x\<close>: the file the reference \<open>v\<close> names holds \<open>x\<close> for its field.\<close>

definition stored :: "output_store \<Rightarrow> json \<Rightarrow> json \<Rightarrow> bool" where
  "stored st v x \<longleftrightarrow>
     (\<exists>d kvs. file_at st (ref_str ''key'' v) = Some d \<and> parse_markdown d = Inr kvs \<and>
        map_of kvs (ref_str ''field'' v) = Some x)"

lemma load_stored:
  assumes "cache_ok st" and "stored st v x"
  shows "\<exists>kvs st'. load_values (ref_str ''key'' v) st = (Inr kvs, st') \<and> map_of kvs (ref_str ''field'' v) = Some x \<and>
    cache_ok st' \<and> file_at st' = file_at st \<and> (\<forall>d. file_at st (ref_str ''key'' v) = Some d \<longrightarrow> parse_markdown d = Inr kvs)"
proof -
  obtain d kvs where d: "file_at st (ref_str ''key'' v) = Some d" "parse_markdown d = Inr kvs"
      "map_of kvs (ref_str ''field'' v) = Some x" using assms(2) by (auto simp: stored_def)
  obtain r st' where r: "read_file (ref_str ''key'' v) st = (r, st')" by force
  have "r = Inr d" using outputs.get_at [OF assms(1) d(1)] r by simp
  moreover have "cache_ok st'" "file_at st' = file_at st"
    using outputs.get_invar [OF assms(1)] outputs.get_keeps r by (metis snd_conv)+
  ultimately show ?thesis using d r by (simp add: load_values_def)
qed

lemma resolve_targets_spec:
  assumes "cache_ok st" and "\<And>k v. (k, v) \<in> set ts \<Longrightarrow> stored st v (val k)"
    and "\<And>k kvs d. map_of files k = Some kvs \<Longrightarrow> file_at st k = Some d \<Longrightarrow> parse_markdown d = Inr kvs"
  shows "\<exists>st'. resolve_targets files ts out st = (Inr (fold (\<lambda>(k, v) out. AList.update k (val k) out) ts out), st') \<and>
    cache_ok st' \<and> file_at st' = file_at st"
  using assms
proof (induction ts arbitrary: files out st)
  case (Cons t ts)
  obtain k v where t: "t = (k, v)" by force
  have v: "stored st v (val k)" using Cons.prems(2) t by simp
  let ?key = "ref_str ''key'' v"
  obtain kvs st1 where step: "(case map_of files ?key of Some vs \<Rightarrow> (Inr vs, st) | None \<Rightarrow> load_values ?key st) = (Inr kvs, st1)"
      "map_of kvs (ref_str ''field'' v) = Some (val k)" "cache_ok st1" "file_at st1 = file_at st"
      "\<And>d. file_at st ?key = Some d \<Longrightarrow> parse_markdown d = Inr kvs"
  proof (cases "map_of files ?key")
    case None
    with load_stored [OF Cons.prems(1) v] that show ?thesis by auto
  next
    case (Some vs)
    obtain d w where "file_at st ?key = Some d" "parse_markdown d = Inr w" "map_of w (ref_str ''field'' v) = Some (val k)"
      using v by (auto simp: stored_def)
    then show ?thesis using that [of vs st] Cons.prems(1) Cons.prems(3) [OF Some] Some by fastforce
  qed
  have "\<exists>st'. resolve_targets (AList.update ?key kvs files) ts (AList.update k (val k) out) st1 =
      (Inr (fold (\<lambda>(k, v) out. AList.update k (val k) out) ts (AList.update k (val k) out)), st') \<and>
      cache_ok st' \<and> file_at st' = file_at st1"
  proof (rule Cons.IH [OF step(3)])
    fix j w assume "(j, w) \<in> set ts"
    then show "stored st1 w (val j)" using Cons.prems(2) step(4) t by (simp add: stored_def)
  next
    fix j vs d assume "map_of (AList.update ?key kvs files) j = Some vs" "file_at st1 j = Some d"
    then show "parse_markdown d = Inr vs" using Cons.prems(3) step(4,5) by (auto split: if_splits)
  qed
  then show ?case using step t by (simp add: Let_def)
qed auto

lemma hydrate_spec:
  assumes ok: "cache_ok st" and s: "dict_ok s"
    and st: "\<And>k v. (k, v) \<in> set (hydrate_targets keys s) \<Longrightarrow> stored st v (val k)"
    and cap: "os_hydrate st = 0 \<or> sum_list (map (ref_bytes \<circ> snd) (hydrate_targets keys s)) \<le> int (os_hydrate st)"
  shows "fst (hydrate (JObj s) keys None st) =
    Inr (JObj (map (\<lambda>(k, v). (k, if is_output_ref v \<and> (case keys of None \<Rightarrow> True | Some ks \<Rightarrow> k \<in> set ks)
      then val k else v)) s))"
proof -
  let ?Q = "\<lambda>(k, v). is_output_ref v \<and> (case keys of None \<Rightarrow> True | Some ks \<Rightarrow> k \<in> set ks)"
  have targets: "hydrate_targets keys s = filter ?Q s" by (simp add: hydrate_targets_def)
  have all: "fold (\<lambda>(k, v) out. AList.update k (val k) out) (hydrate_targets keys s) s =
      map (\<lambda>(k, v). (k, if ?Q (k, v) then val k else v)) s"
    unfolding targets by (rule fold_update_map [OF s, where f = "\<lambda>k v. val k"])
  obtain st' where r: "resolve_targets [] (hydrate_targets keys s) s st =
      (Inr (fold (\<lambda>(k, v) out. AList.update k (val k) out) (hydrate_targets keys s) s), st')"
    using resolve_targets_spec [OF ok, where ts = "hydrate_targets keys s" and files = "[]" and out = s and val = val] st
    by auto
  show ?thesis
  proof (cases "hydrate_targets keys s = []")
    case True
    then have "map (\<lambda>(k, v). (k, if ?Q (k, v) then val k else v)) s = s" using all by simp
    then show ?thesis using True by (simp add: hydrate_def)
  next
    case False
    then show ?thesis using cap by (auto simp: hydrate_def Let_def r all)
  qed
qed

lemma make_ref_facts:
  "is_output_ref (make_ref digest uri key f v)" "ref_str ''key'' (make_ref digest uri key f v) = key"
  "ref_str ''field'' (make_ref digest uri key f v) = f"
  "ref_bytes (make_ref digest uri key f v) = int (utf8_len (dumps v))"
  by (simp_all add: make_ref_def is_output_ref_def ref_str_def ref_bytes_def Let_def)

lemma with_refs_map:
  assumes "dict_ok u"
  shows "with_refs digest inline uri key (filter P u) u =
    map (\<lambda>(k, v). (k, if P (k, v) \<and> inline < utf8_len (dumps v) then make_ref digest uri key k v else v)) u"
proof -
  have skip: "fold (\<lambda>(f, v) u. if B v then AList.update f (g f v) u else u) xs u =
      fold (\<lambda>(f, v) u. AList.update f (g f v) u) (filter (\<lambda>(f, v). B v) xs) u" for B g xs and u :: jobj
    by (induction xs arbitrary: u) auto
  have "filter (\<lambda>(f, v). inline < utf8_len (dumps v)) (filter P u) =
      filter (\<lambda>(k, v). P (k, v) \<and> inline < utf8_len (dumps v)) u"
    by (induction u) auto
  then show ?thesis
    using fold_update_map [OF assms, where f = "make_ref digest uri key"
        and Q = "\<lambda>(k, v). P (k, v) \<and> inline < utf8_len (dumps v)"]
    by (simp add: with_refs_def skip)
qed

lemma offload_cases:
  assumes "offload handle digest run step type iteration ts (JObj u) st = (Some out, st')" and "dict_ok u"
  obtains "out = JObj u" "st' = st"
  | "out = JObj (map (\<lambda>(k, v). (k, if offloadable handle k v \<and> os_inline st < utf8_len (dumps v)
        then make_ref digest (os_uri st (object_key run step iteration)) (object_key run step iteration) k v else v)) u)"
    "st' = put_file (object_key run step iteration)
        (render_markdown run step type iteration ts (filter (\<lambda>(k, v). offloadable handle k v) u)) st"
proof (cases "u = [] \<or> run = [] \<or> filter (\<lambda>(k, v). offloadable handle k v) u = []")
  case True
  then show thesis using assms(1) that(1) by (auto simp: offload_def Let_def split: if_splits)
next
  case False
  then have "out = JObj (with_refs digest (os_inline st) (os_uri st (object_key run step iteration))
        (object_key run step iteration) (filter (\<lambda>(k, v). offloadable handle k v) u) u)"
    "st' = put_file (object_key run step iteration)
        (render_markdown run step type iteration ts (filter (\<lambda>(k, v). offloadable handle k v) u)) st"
    using assms(1) by (auto simp: offload_def put_file_def Let_def split: if_splits)
  then show thesis using that(2) with_refs_map [OF assms(2)] by auto
qed

lemma bytes_filter_le:
  "sum_list (map (ref_bytes \<circ> snd) (filter (\<lambda>(k, v). is_output_ref v) (map (\<lambda>(k, v). (k, if P k v then make_ref digest uri key k v else v)) u)))
     \<le> sum_list (map (\<lambda>(k, v). int (utf8_len (dumps v))) u)"
  if "\<And>k v. (k, v) \<in> set u \<Longrightarrow> \<not> is_output_ref v"
  using that
proof (induction u)
  case (Cons x u)
  obtain k v where x: "x = (k, v)" by force
  have "\<not> is_output_ref v" using Cons.prems [of k v] x by simp
  moreover have "\<not> is_output_ref w" if "(j, w) \<in> set u" for j w using Cons.prems [of j w] that by simp
  ultimately show ?case using Cons.IH x by (auto simp: make_ref_facts)
qed simp


definition example_update :: jobj where
  "example_update = [(''plan'', JStr ''a plan of some length''), (''ok'', JBool True), (''_internal'', JStr ''stays as it is''),
     (''items'', JList [JInt 1, JInt 2, JInt 3])]"

definition example_offloaded :: "json option \<times> output_store" where
  "example_offloaded = offload (\<lambda>_. None) (\<lambda>t. t) ''run'' ''plan'' ''llm'' 1 ''2026-01-01'' (JObj example_update) example_store"


text \<open>
  The state stays small: of what a step wrote, only what its file was given for and takes at most
  the inline limit stays in the state as it is; everything else that may be stored is a reference with
  a preview of at most 200 characters.
\<close>

theorem state_values_bounded:
  assumes "offload handle digest run step type iteration ts (JObj u) st = (Some (JObj out), st')"
    and "dict_ok u" and "run \<noteq> []" and "(k, v) \<in> set out" and "offloadable handle k v"
  shows "utf8_len (dumps v) \<le> os_inline st \<and> map_of u k = Some v"
proof -
  let ?key = "object_key run step iteration"
  let ?vals = "filter (\<lambda>(k, v). offloadable handle k v) u"
  let ?out = "map (\<lambda>(k, v). (k, if offloadable handle k v \<and> os_inline st < utf8_len (dumps v)
      then make_ref digest (os_uri st ?key) ?key k v else v)) u"
  have "out = ?out"
    using assms(1,2)
  proof (cases rule: offload_cases)
    case 1
    then have "(k, v) \<in> set u" using assms(4) by simp
    then have "?vals \<noteq> []" "u \<noteq> []" using assms(5) by (auto simp: filter_empty_conv)
    then have "JObj out = JObj (with_refs digest (os_inline st) (os_uri st ?key) ?key ?vals u)"
      using assms(1,3) by (auto simp: offload_def Let_def split: if_splits)
    then show ?thesis using with_refs_map [OF assms(2), where P = "\<lambda>(k, v). offloadable handle k v"] by simp
  qed simp
  then obtain x where x: "(k, x) \<in> set u"
    "v = (if offloadable handle k x \<and> os_inline st < utf8_len (dumps x)
      then make_ref digest (os_uri st ?key) ?key k x else x)"
    using assms(4) by auto
  have plain: "\<not> is_output_ref v" using assms(5) by (simp add: offloadable_def)
  then have "v = x" using x(2) make_ref_facts(1) by metis
  moreover have "\<not> os_inline st < utf8_len (dumps x)"
    using x(2) plain assms(5) make_ref_facts(1) \<open>v = x\<close> by metis
  then have "utf8_len (dumps x) \<le> os_inline st" by simp
  ultimately show ?thesis using x(1) assms(2) by (simp add: dict_ok_mem_iff)
qed

section \<open>Runs do not share files\<close>

lemma strip_dots_set: "set (strip_dots s) \<subseteq> set s"
  unfolding strip_dots_def by (auto dest!: set_dropWhileD)

lemma segment_no_slash: "CHR 0x2F \<notin> set (segment t)"
proof -
  have bar: "\<not> segment_char (CHR 0x2F)" by code_simp
  let ?c = "map (\<lambda>c. if segment_char c then c else CHR ''_'') t"
  have "CHR 0x2F \<notin> set ?c" using bar by auto
  then have "CHR 0x2F \<notin> set (if strip_dots ?c = [] then ''x'' else strip_dots ?c)"
    using strip_dots_set [of ?c] by auto
  then show ?thesis unfolding segment_def Let_def by (meson in_set_takeD)
qed

lemma slash_split:
  assumes "CHR 0x2F \<notin> set a" and "CHR 0x2F \<notin> set b" and "a @ CHR 0x2F # s = b @ CHR 0x2F # t"
  shows "a = b"
  using assms
proof (induction a arbitrary: b)
  case Nil
  then show ?case by (cases b) auto
next
  case (Cons x a)
  then show ?case by (cases b) auto
qed

lemma key_of_run: "starts_with (run_prefix run) (object_key run' step iteration) \<longleftrightarrow> segment run = segment run'"
proof
  assume "starts_with (run_prefix run) (object_key run' step iteration)"
  then obtain r where "segment run @ CHR 0x2F # r = segment run' @ CHR 0x2F # segment step
      @ (if 1 < iteration then ''-'' @ nat_digits iteration else []) @ ''.md''"
    by (auto simp: starts_with_iff run_prefix_def object_key_def)
  then show "segment run = segment run'" using slash_split [OF segment_no_slash segment_no_slash] by blast
qed (simp add: starts_with_iff run_prefix_def object_key_def)

text \<open>
  Deleting the outputs of a run deletes exactly its own files: a file of another run is there as before,
  and none of its own is left.
\<close>

theorem delete_run_exact:
  "map_of (os_objects (snd (delete_run_outputs run st))) (object_key run' step iteration) =
     (if segment run = segment run' then None else map_of (os_objects st) (object_key run' step iteration))"
proof -
  have "map_of (filter (\<lambda>(k, d). \<not> starts_with p k) objs) j = (if starts_with p j then None else map_of objs j)"
    for p j and objs :: "string dict"
    by (induction objs) auto
  then show ?thesis by (simp add: delete_run_outputs_def Let_def key_of_run)
qed

end
