(* ===== verification/RunNodes.thy ===== *)
theory RunNodes
  imports RunModel StepOutputs
begin

text \<open>
  The nodes of a workflow graph: \<^verbatim>\<open>app/infrastructure/orchestration/yaml_graph.py\<close>.  The state of
  a run and how a node's update is merged into it, the wrappers \<^verbatim>\<open>YamlGraphRunner._make_node\<close> puts
  around the body of a step, the bodies that only look at the state, and the routers between
  nodes.  A step is its YAML dictionary.  LangGraph runs the nodes; of it the model uses what the
  comments of \<^verbatim>\<open>_build_state_schema\<close> say: an update is merged key by key, by the reducer of the key
  where it has one, and a key the schema does not know is dropped.
\<close>

section \<open>Reducers\<close>

text \<open>\<^verbatim>\<open>{**a, **b}\<close>.\<close>

definition overlay :: "'v dict \<Rightarrow> 'v dict \<Rightarrow> 'v dict" where
  "overlay a b = fold (\<lambda>(k, v). AList.update k v) b a"

definition merge_dicts :: "json \<Rightarrow> json \<Rightarrow> json" where
  "merge_dicts a b =
     (case (a, b) of
        (JObj x, JObj y) \<Rightarrow> JObj (overlay x y)
      | _ \<Rightarrow> if b \<noteq> JNull then b else a)"

definition last_wins :: "json \<Rightarrow> json \<Rightarrow> json" where
  "last_wins a b = (if b \<noteq> JNull then b else a)"

text \<open>
  A float is identified by its \<^verbatim>\<open>repr\<close>; \<open>to_float v\<close> is what \<^verbatim>\<open>float(v)\<close> returns, if it does, and
  \<open>fplus a b\<close> the sum of two numbers one of which is a float.
\<close>

definition coerce_usage_num :: "(json \<Rightarrow> json option) \<Rightarrow> json \<Rightarrow> json" where
  "coerce_usage_num to_float v =
     (case v of
        JNull \<Rightarrow> JInt 0
      | JInt n \<Rightarrow> JInt n
      | JBool b \<Rightarrow> JInt (of_bool b)
      | _ \<Rightarrow> (case to_float v of Some x \<Rightarrow> x | None \<Rightarrow> JInt 0))"

definition add_usage :: "(json \<Rightarrow> json option) \<Rightarrow> (json \<Rightarrow> json \<Rightarrow> json) \<Rightarrow> json \<Rightarrow> json \<Rightarrow> json" where
  "add_usage to_float fplus a b =
     (case (coerce_usage_num to_float a, coerce_usage_num to_float b) of
        (JInt m, JInt n) \<Rightarrow> JInt (m + n)
      | (x, y) \<Rightarrow> fplus x y)"

definition sum_usage :: "(json \<Rightarrow> json option) \<Rightarrow> (json \<Rightarrow> json \<Rightarrow> json) \<Rightarrow> json \<Rightarrow> json \<Rightarrow> json" where
  "sum_usage to_float fplus a b =
     (if \<not> jtrue b then a else if \<not> jtrue a then b
      else (case (a, b) of
              (JObj x, JObj y) \<Rightarrow>
                JObj (map (\<lambda>k. (k, add_usage to_float fplus (jget x k) (jget y k)))
                  (remdups (map fst x @ map fst y)))
            | (_, JObj _) \<Rightarrow> b
            | (JObj _, _) \<Rightarrow> a
            | _ \<Rightarrow> JObj []))"

section \<open>The schema of the state\<close>

datatype reducer = Plain | Merge_Dicts | Last_Wins | Sum_Usage

text \<open>A field name that is not a string names no key of the state.\<close>

definition field_of :: "jobj \<Rightarrow> string \<Rightarrow> (string \<times> reducer) list" where
  "field_of step f = (case jget step f of JStr k \<Rightarrow> [(k, Plain)] | _ \<Rightarrow> [])"

definition step_id :: "jobj \<Rightarrow> string" where
  "step_id step = (case jget step ''id'' of JStr i \<Rightarrow> i | v \<Rightarrow> py_str v)"

definition agent_types :: "json list" where
  "agent_types = [JStr ''langgraph-agent'', JStr ''claude-agent'']"

definition base_fields :: "(string \<times> reducer) list" where
  "base_fields =
     [(''request'', Plain), (''approved'', Plain), (''reject_reason'', Plain), (''approval_history'', Plain),
      (''_conv_map'', Merge_Dicts), (''_visit_counts'', Merge_Dicts),
      (''_slack_thread_ts'', Last_Wins), (''_slack_channel'', Last_Wins), (''_slack_approver_id'', Last_Wins),
      (''_slack_ask_context_ts'', Last_Wins), (''_slack_ask_context_channel'', Last_Wins),
      (''__failed_step__'', Last_Wins), (''_meta_llm_rejection'', Last_Wins), (''_meta_llm_result'', Last_Wins),
      (''_approval_case_id'', Last_Wins), (''error'', Last_Wins), (''_judge_token_usage'', Sum_Usage)]"

definition agent_fields :: "jobj \<Rightarrow> (string \<times> reducer) list" where
  "agent_fields step =
     (let i = step_id step in
      (case jget step ''output_mapping'' of
         JObj m \<Rightarrow> List.maps (\<lambda>(_, v). case v of JStr k \<Rightarrow> [(k, Plain)] | _ \<Rightarrow> []) m
       | _ \<Rightarrow> []) @
      (if jtrue (jget step ''slack_input_key'') then field_of step ''slack_input_key'' else []) @
      [(''_agent_token_usage_'' @ i, Sum_Usage), (''_meta_token_usage_'' @ i, Sum_Usage),
       (''_agent_progress_'' @ i, Plain), (''_live_token_usage_'' @ i, Plain)])"

text \<open>The fields of one step, in the order they are assigned; a later one replaces an earlier.\<close>

definition step_fields :: "jobj \<Rightarrow> (string \<times> reducer) list" where
  "step_fields step =
     (let t = jget step ''type''; i = step_id step in
      (if t = JStr ''dynamic''
       then if jtrue (jget step ''output_key'') then field_of step ''output_key'' else [(i, Plain)] else []) @
      (if t = JStr ''proceed_or'' then [(''_proceed_or_'' @ i, Merge_Dicts)] else []) @
      (if t = JStr ''combined_datasource'' then [(''_combined_'' @ i, Plain)] else []) @
      field_of step ''output_key'' @
      (if t \<in> set [JStr ''http'', JStr ''pubsub''] then [(''trigger_payload'', Plain)] else []) @
      (if t \<in> set [JStr ''cron'', JStr ''pubsub''] then [(''trigger_info'', Plain)] else []) @
      (if t = JStr ''mcp'' then [(''_mcp_output_'' @ i, Plain)] else []) @
      (if t = JStr ''execute'' then [(''_openhands_conv_'' @ i, Plain)] else []) @
      (if t \<in> set agent_types then agent_fields step else []))"

definition state_schema :: "jobj list \<Rightarrow> (string \<times> reducer) list" where
  "state_schema steps =
     overlay base_fields (List.maps step_fields steps @ [(''_agent_url'', Plain), (''_clarification_answers'', Plain)])"

text \<open>How an update reaches the state.\<close>

record arith =
  ar_float :: "json \<Rightarrow> json option"
  ar_plus :: "json \<Rightarrow> json \<Rightarrow> json"

definition reduce :: "arith \<Rightarrow> reducer \<Rightarrow> json \<Rightarrow> json \<Rightarrow> json" where
  "reduce A r a b =
     (case r of Plain \<Rightarrow> b | Merge_Dicts \<Rightarrow> merge_dicts a b | Last_Wins \<Rightarrow> last_wins a b
      | Sum_Usage \<Rightarrow> sum_usage (ar_float A) (ar_plus A) a b)"

definition write_key :: "arith \<Rightarrow> (string \<times> reducer) list \<Rightarrow> string \<times> json \<Rightarrow> jobj \<Rightarrow> jobj" where
  "write_key A schema = (\<lambda>(k, v) s.
     (case map_of schema k of
        None \<Rightarrow> s
      | Some r \<Rightarrow> AList.update k (case map_of s k of None \<Rightarrow> v | Some old \<Rightarrow> reduce A r old v) s))"

definition apply_update :: "arith \<Rightarrow> (string \<times> reducer) list \<Rightarrow> jobj \<Rightarrow> jobj \<Rightarrow> jobj" where
  "apply_update A schema s upd = fold (write_key A schema) upd s"

section \<open>Nodes and their wrappers\<close>

text \<open>The key under which a step records that it failed, and the one of the counts of the loop guard.\<close>

definition failed_key :: string where "failed_key = ''__failed_step__''"
definition counts_key :: string where "counts_key = ''_visit_counts''"

lemma reserved_keys [simp]:
  "failed_key \<noteq> counts_key" "counts_key \<noteq> failed_key" "starts_with ''_'' failed_key" "starts_with ''_'' counts_key"
  by code_simp+


text \<open>
  What a node raises: the refusals of the wrappers, an exception of the body, or the interrupt that
  pauses the graph with a payload.
\<close>

datatype node_error =
    Upstream_Failed string json
  | Exceeded string int int
  | Bad_Max_Loops
  | Inputs_Unavailable output_error
  | Outputs_Unavailable
  | No_Route
  | Raised string string
  | Interrupted json

text \<open>
  What a node reaches beside the state: the run the runner is bound to, the repository, and the store of
  step outputs where there is one.  Every body returns a dictionary, as it is annotated, so the tests
  of the wrappers for something else never fire.
\<close>

record live =
  lv_run :: "graph_run option"
  lv_runs :: runs
  lv_files :: "output_store option"

type_synonym node_body = "jobj \<Rightarrow> live \<Rightarrow> (node_error + jobj) \<times> live"

text \<open>A step's count among the visits; the counts are written by the loop guard.\<close>

definition visits :: "jobj \<Rightarrow> jobj" where
  "visits s = (case jget s counts_key of JObj c \<Rightarrow> c | _ \<Rightarrow> [])"

definition visit_count :: "string \<Rightarrow> jobj \<Rightarrow> int" where
  "visit_count i s = (case jget (visits s) i of JInt n \<Rightarrow> n | _ \<Rightarrow> 0)"

definition when_guard :: "jobj \<Rightarrow> node_body \<Rightarrow> node_body" where
  "when_guard step body s L =
     (if \<not> jtrue (jget step ''when'') then body s L
      else case jget step ''when'' of
             JStr key \<Rightarrow> if jtrue (jget s key) then body s L else (Inr [], L)
           | _ \<Rightarrow> (Inr [], L))"

definition publish_running :: "time \<Rightarrow> jobj \<Rightarrow> jobj \<Rightarrow> live \<Rightarrow> live" where
  "publish_running now step s L =
     (case lv_run L of
        None \<Rightarrow> L
      | Some r \<Rightarrow>
          let i = step_id step;
              event = \<lparr>re_at = now, re_event = Node_Start, re_node = i, re_target = [], re_condition = [],
                re_iteration = nat (visit_count i s)\<rparr>;
              r' = touch now (r\<lparr>gr_statuses := AList.update i Mark_Running (gr_statuses r), gr_step := Some i,
                gr_routing := gr_routing r @ [event]\<rparr>)
          in L\<lparr>lv_run := Some r', lv_runs := update_run now r' (lv_runs L)\<rparr>)"

definition status_running :: "time \<Rightarrow> jobj \<Rightarrow> node_body \<Rightarrow> node_body" where
  "status_running now step body s L = body s (publish_running now step s L)"

definition no_loop_guard_types :: "json list" where
  "no_loop_guard_types = map JStr [''ask_context'', ''human_approval'', ''cron'', ''http'', ''pubsub'', ''parallel'',
     ''join'', ''proceed_or'', ''switch'', ''langgraph-agent'', ''claude-agent'', ''dynamic'']"

definition no_fail_guard_types :: "json list" where
  "no_fail_guard_types = map JStr [''join'', ''proceed_or'']"

definition max_loops :: "json \<Rightarrow> jobj \<Rightarrow> json" where
  "max_loops fallback step = (case map_of step ''max_loops'' of None \<Rightarrow> fallback | Some v \<Rightarrow> v)"

definition loop_guard :: "json \<Rightarrow> jobj \<Rightarrow> node_body \<Rightarrow> node_body" where
  "loop_guard fallback step body s L =
     (if jget step ''type'' \<in> set no_loop_guard_types then body s L
      else case body s L of
             (Inl e, L') \<Rightarrow> (Inl e, L')
           | (Inr [], L') \<Rightarrow> (Inr [], L')
           | (Inr out, L') \<Rightarrow>
               let i = step_id step; n = visit_count i s + 1
               in (case max_loops fallback step of
                     JInt m \<Rightarrow>
                       if m < n then (Inl (Exceeded i m n), L')
                       else (Inr (AList.update counts_key (JObj (AList.update i (JInt n) (visits s))) out), L')
                   | _ \<Rightarrow> (Inl Bad_Max_Loops, L')))"

definition fail_guard :: "jobj \<Rightarrow> node_body \<Rightarrow> node_body" where
  "fail_guard step body s L =
     (if jget step ''type'' \<in> set no_fail_guard_types then body s L
      else let failed = jget s failed_key in
           if jtrue failed \<and> failed \<noteq> JStr (step_id step) then (Inl (Upstream_Failed (step_id step) failed), L)
           else case body s L of
                  (Inr out, L') \<Rightarrow>
                    (Inr (if jtrue failed \<and> failed_key \<notin> dict_keys out
                          then AList.update failed_key JNull out else out), L')
                | (Inl e, L') \<Rightarrow> (Inl e, L'))"

text \<open>How often a step has started in the run: the journal of the run driven, or the visits.\<close>

definition output_iteration :: "string \<Rightarrow> string \<Rightarrow> jobj \<Rightarrow> live \<Rightarrow> nat" where
  "output_iteration i run s L =
     (let starts = (case lv_run L of
            Some r \<Rightarrow> if gr_id r = run
              then length (filter (\<lambda>e. re_event e = Node_Start \<and> re_node e = i) (gr_routing r)) else 0
          | None \<Rightarrow> 0)
      in if starts \<noteq> 0 then starts else nat (visit_count i s) + 1)"

text \<open>
  \<open>sc_run\<close> is the thread the graph runs under, the id of the run; the other arguments are those of
  \<open>offload\<close>.
\<close>

record step_context =
  sc_run :: string
  sc_now :: time
  sc_stamp :: string
  sc_handle :: "jobj \<Rightarrow> jobj option"
  sc_digest :: "string \<Rightarrow> string"

definition with_files :: "live \<Rightarrow> output_store \<Rightarrow> live" where
  "with_files L f = L\<lparr>lv_files := Some f\<rparr>"

definition mark_running :: "string \<Rightarrow> string \<Rightarrow> live \<Rightarrow> live" where
  "mark_running run i L =
     (case lv_run L of
        Some r \<Rightarrow> if gr_id r = run
          then L\<lparr>lv_run := Some (r\<lparr>gr_statuses := AList.update i Mark_Running (gr_statuses r)\<rparr>)\<rparr> else L
      | None \<Rightarrow> L)"

definition step_io :: "step_context \<Rightarrow> jobj \<Rightarrow> node_body \<Rightarrow> node_body" where
  "step_io C step body s L =
     (case lv_files L of
        None \<Rightarrow> body s L
      | Some f \<Rightarrow>
          (case hydrate (JObj s) (referenced_keys step) None f of
             (Inl e, f') \<Rightarrow> (Inl (Inputs_Unavailable e), mark_running (sc_run C) (step_id step) (with_files L f'))
           | (Inr (JObj s'), f') \<Rightarrow>
               (case body s' (with_files L f') of
                  (Inl e, L') \<Rightarrow> (Inl e, L')
                | (Inr [], L') \<Rightarrow> (Inr [], L')
                | (Inr out, L') \<Rightarrow>
                    (case (sc_run C, lv_files L') of
                       (c # run, Some f2) \<Rightarrow>
                         (case offload (sc_handle C) (sc_digest C) (sc_run C) (step_id step)
                             (case jget step ''type'' of JStr t \<Rightarrow> t | _ \<Rightarrow> [])
                             (output_iteration (step_id step) (sc_run C) s L') (sc_stamp C) (JObj out) f2 of
                            (Some (JObj out'), f3) \<Rightarrow> (Inr out', with_files L' f3)
                          | (_, f3) \<Rightarrow> (Inl Outputs_Unavailable, with_files L' f3))
                     | _ \<Rightarrow> (Inr out, L')))
           | (_, f') \<Rightarrow> body s (with_files L f')))"

text \<open>The node of a step, from its body.\<close>

definition make_node :: "step_context \<Rightarrow> json \<Rightarrow> jobj \<Rightarrow> node_body \<Rightarrow> node_body" where
  "make_node C fallback step body =
     step_io C step (fail_guard step (when_guard step
       (status_running (sc_now C) step (loop_guard fallback step body))))"

section \<open>Bodies that only look at the state\<close>

text \<open>\<^verbatim>\<open>str.splitlines\<close>, for characters below 256; \<^verbatim>\<open>"\r\n"\<close> ends one line.\<close>

definition line_end :: "char \<Rightarrow> bool" where
  "line_end c \<longleftrightarrow> (of_char c :: nat) \<in> set [10, 11, 12, 13, 28, 29, 30, 133]"

fun split_lines :: "string \<Rightarrow> string \<Rightarrow> string list" where
  "split_lines line [] = (if line = [] then [] else [line])"
| "split_lines line [c] = (if line_end c then [line] else [line @ [c]])"
| "split_lines line (c # d # cs) =
     (if c = CHR 0x0D \<and> d = CHR 0x0A then line # split_lines [] cs
      else if line_end c then line # split_lines [] (d # cs)
      else split_lines (line @ [c]) (d # cs))"

definition numbered_line :: "string \<Rightarrow> string option" where
  "numbered_line line =
     (case dropWhile is_digit line of
        c # d # rest \<Rightarrow>
          if takeWhile is_digit line \<noteq> [] \<and> c \<in> set [CHR ''.'', CHR '')''] \<and> is_space d
          then Some (py_strip rest) else None
      | _ \<Rightarrow> None)"

definition parse_questions_string :: "string \<Rightarrow> string list" where
  "parse_questions_string raw =
     (let lines = filter (\<lambda>l. l \<noteq> []) (map py_strip (split_lines [] raw));
          numbered = List.map_filter numbered_line lines
      in if 2 \<le> length numbered then numbered else lines)"

text \<open>
  \<^verbatim>\<open>interrupt(payload)\<close> raises the first time and returns what the run is resumed with when the node is
  entered again; \<open>render\<close> fills a template from the state.
\<close>

definition ask_interrupt :: "json \<Rightarrow> jobj option \<Rightarrow> node_error + jobj" where
  "ask_interrupt payload resumed = (case resumed of None \<Rightarrow> Inl (Interrupted payload) | Some d \<Rightarrow> Inr d)"

definition ask_context_node :: "(json \<Rightarrow> jobj \<Rightarrow> json) \<Rightarrow> jobj option \<Rightarrow> jobj \<Rightarrow> node_body" where
  "ask_context_node render resumed step s L =
     (let key = (case map_of step ''output_key'' of Some (JStr k) \<Rightarrow> k | _ \<Rightarrow> step_id step @ ''_answers'');
          questions =
            (case jget step ''questions_key'' of
               JStr (c # k) \<Rightarrow>
                 (case jor (jget s (c # k)) (JList []) of
                    JStr raw \<Rightarrow> Some (map JStr (parse_questions_string raw))
                  | v \<Rightarrow> jiter v)
             | _ \<Rightarrow> map_option (map (\<lambda>q. render q s)) (jiter (jor (jget step ''questions'') (JList []))))
      in case questions of
           None \<Rightarrow> (Inl (Raised ''TypeError'' ''object is not iterable''), L)
         | Some qs \<Rightarrow>
             (case ask_interrupt (JObj [(''type'', JStr ''ask_context''), (''questions'', JList qs)]) resumed of
                Inl e \<Rightarrow> (Inl e, L)
              | Inr answers \<Rightarrow> (Inr [(key, JObj answers)], L)))"

definition approved_key :: "jobj \<Rightarrow> string" where
  "approved_key step = (case map_of step ''output_key'' of Some (JStr k) \<Rightarrow> k | _ \<Rightarrow> ''approved'')"

definition corrections_of :: "jobj \<Rightarrow> jobj" where
  "corrections_of decision = (case jget decision ''corrections'' of JObj c \<Rightarrow> c | _ \<Rightarrow> [])"

definition decision_record :: "jobj \<Rightarrow> jobj \<Rightarrow> jobj" where
  "decision_record step decision =
     [(''step_id'', JStr (step_id step)),
      (''approved'', case map_of decision ''approved'' of Some v \<Rightarrow> v | None \<Rightarrow> JBool False),
      (''reason'', jget decision ''reason''),
      (''corrections'', if corrections_of decision = [] then JNull else JObj (corrections_of decision)),
      (''approver_name'', jget decision ''approver_name''), (''approver_id'', jget decision ''approver_id''),
      (''approver_source'', jget decision ''approver_source''), (''decided_at'', jget decision ''decided_at'')]"

definition history_of :: "jobj \<Rightarrow> json list" where
  "history_of s = (case jget s ''approval_history'' of JList h \<Rightarrow> h | _ \<Rightarrow> [])"

definition approval_node :: "(json \<Rightarrow> jobj \<Rightarrow> json) \<Rightarrow> jobj option \<Rightarrow> jobj \<Rightarrow> node_body" where
  "approval_node render resumed step s L =
     (let template = (case jget step ''interrupt_payload'' of
            JObj (f # fs) \<Rightarrow> f # fs | _ \<Rightarrow> [(''plan'', JStr ''{plan}'')]);
          payload = map (\<lambda>(k, v). (k, render v s)) template
      in case ask_interrupt (JObj payload) resumed of
           Inl e \<Rightarrow> (Inl e, L)
         | Inr decision \<Rightarrow>
             let record = decision_record step decision;
                 result = AList.update ''approval_history'' (JList (history_of s @ [JObj record]))
                   (AList.update ''reject_reason'' (jget decision ''reason'')
                     [(approved_key step, jget record ''approved'')])
             in (Inr (overlay result (corrections_of decision)), L))"

definition trigger_payload :: "jobj \<Rightarrow> string \<Rightarrow> json" where
  "trigger_payload s k = (case map_of s k of None \<Rightarrow> JObj [] | Some v \<Rightarrow> v)"

definition output_field :: "jobj \<Rightarrow> string \<Rightarrow> string" where
  "output_field step fallback = (case map_of step ''output_key'' of Some (JStr k) \<Rightarrow> k | _ \<Rightarrow> fallback)"

definition cron_trigger_node :: "jobj \<Rightarrow> node_body" where
  "cron_trigger_node step s L = (Inr [(output_field step ''trigger_info'', trigger_payload s ''trigger_info'')], L)"

definition payload_text :: "json \<Rightarrow> string" where
  "payload_text v = (case v of JObj _ \<Rightarrow> dumps v | _ \<Rightarrow> py_str v)"

definition http_trigger_node :: "jobj \<Rightarrow> node_body" where
  "http_trigger_node step s L =
     (let payload = trigger_payload s ''trigger_payload'';
          updates = [(output_field step ''trigger_payload'', payload)]
      in (Inr (if jtrue payload \<and> \<not> jtrue (jget s ''request'')
               then AList.update ''request'' (JStr (payload_text payload)) updates else updates), L))"

definition pubsub_trigger_node :: "jobj \<Rightarrow> node_body" where
  "pubsub_trigger_node step s L =
     (let info = trigger_payload s ''trigger_info''
      in if jtrue info \<and> \<not> is_obj info then (Inl (Raised ''AttributeError'' ''get''), L)
         else http_trigger_node step s L)"

definition parallel_node :: "jobj \<Rightarrow> node_body" where
  "parallel_node step s L =
     (Inr (if jtrue (jget step ''max_parallel'')
           then [(''_parallel_limit_'' @ step_id step, jget step ''max_parallel'')] else []), L)"

definition switch_node :: node_body where
  "switch_node s L = (Inr [], L)"

text \<open>\<open>late t\<close>: more than the step's \<^verbatim>\<open>max_timeout\<close> has passed since the time \<open>t\<close>.\<close>

definition join_node :: "(json \<Rightarrow> bool) \<Rightarrow> jobj \<Rightarrow> node_body" where
  "join_node late step s L =
     (let i = step_id step; started = jget s (''_parallel_started_'' @ i); failed = jget s failed_key;
          policy = (case map_of step ''failure_policy'' of None \<Rightarrow> JStr ''and'' | Some p \<Rightarrow> p)
      in if jtrue (jget step ''max_timeout'') \<and> jtrue started \<and> late started
         then (Inl (Raised ''TimeoutError'' i), L)
         else if jtrue failed \<and> policy = JStr ''and''
         then (Inr [(failed_key, JStr i),
                (''error'', JStr (''branch failed (AND policy): '' @ py_str failed))], L)
         else (Inr [], L))"

definition latch_key :: "jobj \<Rightarrow> string" where
  "latch_key step = ''_proceed_or_'' @ step_id step"

definition latch :: "jobj \<Rightarrow> jobj \<Rightarrow> jobj" where
  "latch step s = (case jget s (latch_key step) of JObj l \<Rightarrow> l | _ \<Rightarrow> [])"

definition latched :: "jobj \<Rightarrow> int \<Rightarrow> bool \<Rightarrow> bool \<Rightarrow> jobj" where
  "latched step arrivals won last_won =
     [(latch_key step, JObj [(''arrivals'', JInt arrivals), (''won'', JBool won), (''last_won'', JBool last_won)])]"

definition proceed_or_node :: "jobj \<Rightarrow> node_body" where
  "proceed_or_node step s L =
     (let l = latch step s;
          arrivals = (case jget l ''arrivals'' of JInt n \<Rightarrow> n | _ \<Rightarrow> 0) + 1;
          already_won = jtrue (jget l ''won'');
          failed = jget s failed_key
      in if jtrue failed \<and> failed \<noteq> JStr (step_id step)
         then if already_won
              then (Inr (latched step arrivals True False @ [(failed_key, JNull)]), L)
              else (Inr (latched step arrivals False False), L)
         else if already_won then (Inr (latched step arrivals True False), L)
         else (Inr (latched step arrivals True True), L))"

section \<open>Routers\<close>

function py_replace :: "string \<Rightarrow> string \<Rightarrow> string \<Rightarrow> string" where
  "py_replace old new [] = []"
| "py_replace old new (c # cs) =
     (if old \<noteq> [] \<and> starts_with old (c # cs)
      then new @ py_replace old new (drop (length old) (c # cs))
      else c # py_replace old new cs)"
  by pat_completeness auto
termination
  by (relation "measure (\<lambda>(_, _, s). length s)") (auto simp: neq_Nil_conv)

text \<open>
  A condition is a Python expression over the state; \<open>evaluate\<close> gives its truth, or \<open>None\<close> when it does
  not parse, is not allowed or raises.
\<close>

definition eval_condition :: "(string \<Rightarrow> jobj \<Rightarrow> bool option) \<Rightarrow> string \<Rightarrow> jobj \<Rightarrow> bool" where
  "eval_condition evaluate when s =
     (let e = py_replace ''==='' '' == '' (py_replace ''!=='' '' != ''
                (py_replace ''||'' '' or '' (py_replace ''&&'' '' and '' when)))
      in case evaluate e s of
           Some b \<Rightarrow> b
         | None \<Rightarrow>
             let t = py_strip e; negate = starts_with ''!'' t;
                 val = jtrue (jget s (if negate then py_strip (drop 1 t) else t))
             in if negate then \<not> val else val)"

definition select_route :: "(string \<Rightarrow> jobj \<Rightarrow> bool option) \<Rightarrow> jobj list \<Rightarrow> jobj \<Rightarrow> jobj option" where
  "select_route evaluate routes s =
     find (\<lambda>r. jget r ''when'' = JNull \<or> eval_condition evaluate (py_str (jget r ''when'')) s) routes"

definition log_route :: "time \<Rightarrow> string \<Rightarrow> string \<Rightarrow> jobj \<Rightarrow> jobj \<Rightarrow> live \<Rightarrow> live" where
  "log_route now source target route s L =
     (case lv_run L of
        None \<Rightarrow> L
      | Some r \<Rightarrow>
          let event = \<lparr>re_at = now, re_event = Route, re_node = source, re_target = target,
                re_condition = (case map_of route ''when'' of None \<Rightarrow> [] | Some w \<Rightarrow> py_str w),
                re_iteration = nat (visit_count source s)\<rparr>;
              r' = touch now (r\<lparr>gr_routing := gr_routing r @ [event]\<rparr>)
          in L\<lparr>lv_run := Some r', lv_runs := update_run now r' (lv_runs L)\<rparr>)"

text \<open>The wait a route may ask for delays the return and shows on the run while it lasts; it is left out.\<close>

definition router ::
    "time \<Rightarrow> (string \<Rightarrow> jobj \<Rightarrow> bool option) \<Rightarrow> string \<Rightarrow> jobj list \<Rightarrow> jobj \<Rightarrow> live \<Rightarrow> (node_error + string) \<times> live" where
  "router now evaluate source routes s L =
     (let keys = condition_keys (map (\<lambda>r. jget r ''when'') routes);
          (res, L1) = (case lv_files L of
             Some f \<Rightarrow> if keys = [] then (Inr (JObj s), L)
               else (case hydrate (JObj s) (Some keys) None f of (v, f') \<Rightarrow> (v, with_files L f'))
           | None \<Rightarrow> (Inr (JObj s), L))
      in case res of
           Inl e \<Rightarrow> (Inl (Inputs_Unavailable e), L1)
         | Inr v \<Rightarrow>
             let s' = (case v of JObj kvs \<Rightarrow> kvs | _ \<Rightarrow> s)
             in (case select_route evaluate routes s' of
                   None \<Rightarrow> (Inl No_Route, L1)
                 | Some r \<Rightarrow>
                     (case jget r ''next'' of
                        JStr target \<Rightarrow> (Inr target, log_route now source target r s' L1)
                      | _ \<Rightarrow> (Inl (Raised ''KeyError'' ''next''), L1))))"

definition proceed_or_router :: "jobj \<Rightarrow> string \<Rightarrow> jobj \<Rightarrow> string option" where
  "proceed_or_router step dest s = (if jtrue (jget (latch step s) ''last_won'') then Some dest else None)"

section \<open>Running nodes\<close>

text \<open>
  The nodes of one superstep read the same state; if one raises, the superstep raises, else their
  updates are merged one after the other.  A run is a list of supersteps; it leaves the updates of the
  nodes that returned, each under the id of its step.
\<close>

type_synonym step_node = "jobj \<times> node_body"

fun superstep :: "step_context \<Rightarrow> json \<Rightarrow> step_node list \<Rightarrow> jobj \<Rightarrow> live \<Rightarrow> (node_error + jobj list) \<times> live" where
  "superstep C fallback [] s L = (Inr [], L)"
| "superstep C fallback ((step, body) # nodes) s L =
     (case make_node C fallback step body s L of
        (Inl e, L') \<Rightarrow> (Inl e, L')
      | (Inr upd, L') \<Rightarrow>
          (case superstep C fallback nodes s L' of
             (Inl e, L2) \<Rightarrow> (Inl e, L2)
           | (Inr upds, L2) \<Rightarrow> (Inr (upd # upds), L2)))"

fun run_nodes ::
    "step_context \<Rightarrow> arith \<Rightarrow> (string \<times> reducer) list \<Rightarrow> json \<Rightarrow> step_node list list \<Rightarrow> jobj \<Rightarrow> live \<Rightarrow>
     (node_error + jobj) \<times> (string \<times> jobj) list \<times> live" where
  "run_nodes C A schema fallback [] s L = (Inr s, [], L)"
| "run_nodes C A schema fallback (nodes # rest) s L =
     (case superstep C fallback nodes s L of
        (Inl e, L') \<Rightarrow> (Inl e, [], L')
      | (Inr upds, L') \<Rightarrow>
          (case run_nodes C A schema fallback rest (fold (\<lambda>u s. apply_update A schema s u) upds s) L' of
             (res, trace, L2) \<Rightarrow> (res, zip (map (step_id \<circ> fst) nodes) upds @ trace, L2)))"

section \<open>Merging updates\<close>

lemma overlay_Nil [simp]: "overlay a [] = a"
  by (simp add: overlay_def)

lemma overlay_Cons [simp]: "overlay a ((k, v) # b) = overlay (AList.update k v a) b"
  by (simp add: overlay_def)

lemma dict_ok_overlay [simp]: "dict_ok a \<Longrightarrow> dict_ok (overlay a b)"
  by (induction b arbitrary: a) auto

lemma map_of_overlay_other: "k \<notin> dict_keys b \<Longrightarrow> map_of (overlay a b) k = map_of a k"
  by (induction b arbitrary: a) auto

lemma map_of_overlay:
  "dict_ok b \<Longrightarrow> map_of (overlay a b) k = (case map_of b k of None \<Rightarrow> map_of a k | Some v \<Rightarrow> Some v)"
proof (induction b arbitrary: a)
  case (Cons x b)
  obtain k' v where x: "x = (k', v)" by (cases x)
  with Cons.prems have b: "dict_ok b" "k' \<notin> dict_keys b" by (simp_all add: dict_ok_def)
  show ?case
  proof (cases "k = k'")
    case True
    then show ?thesis using b by (simp add: x map_of_overlay_other)
  next
    case False
    then show ?thesis using Cons.IH [OF b(1)] by (simp add: x split: option.split)
  qed
qed simp

lemma apply_update_Nil [simp]: "apply_update A schema s [] = s"
  by (simp add: apply_update_def)

lemma apply_update_Cons: "apply_update A schema s (x # upd) = apply_update A schema (write_key A schema x s) upd"
  by (simp add: apply_update_def)

lemma write_key_other [simp]: "k' \<noteq> k \<Longrightarrow> map_of (write_key A schema (k, v) s) k' = map_of s k'"
  by (simp add: write_key_def split: option.split)

lemma dict_ok_write_key [simp]: "dict_ok s \<Longrightarrow> dict_ok (write_key A schema x s)"
  by (cases x) (simp add: write_key_def split: option.split)

lemma dict_ok_apply_update [simp]: "dict_ok s \<Longrightarrow> dict_ok (apply_update A schema s upd)"
  by (induction upd arbitrary: s) (simp_all add: apply_update_Cons)

lemma apply_update_other: "k \<notin> dict_keys upd \<Longrightarrow> map_of (apply_update A schema s upd) k = map_of s k"
  by (induction upd arbitrary: s) (auto simp: apply_update_Cons)

lemma apply_update_get:
  assumes "dict_ok upd"
  shows "map_of (apply_update A schema s upd) k =
    (case map_of upd k of
       None \<Rightarrow> map_of s k
     | Some v \<Rightarrow> (case map_of schema k of
           None \<Rightarrow> map_of s k
         | Some r \<Rightarrow> Some (case map_of s k of None \<Rightarrow> v | Some old \<Rightarrow> reduce A r old v)))"
  using assms
proof (induction upd arbitrary: s)
  case (Cons x upd)
  obtain k' v where x: "x = (k', v)" by (cases x)
  show ?case
  proof (cases "k = k'")
    case True
    then have "k \<notin> dict_keys upd" "map_of upd k = None"
      using Cons.prems by (auto simp: x dict_ok_def map_of_eq_None_iff)
    then show ?thesis using True
      by (simp add: apply_update_Cons apply_update_other x) (simp add: write_key_def split: option.split)
  next
    case False
    then have "map_of (write_key A schema x s) k = map_of s k" by (simp add: x)
    then show ?thesis using False Cons by (simp add: apply_update_Cons x dict_ok_def split: option.split)
  qed
qed simp

section \<open>What a node sees and leaves\<close>

lemma resolve_targets_keeps:
  "resolve_targets files ts out st = (Inr out', st') \<Longrightarrow> k \<notin> dict_keys ts \<Longrightarrow> map_of out' k = map_of out k"
proof (induction files ts out st rule: resolve_targets.induct)
  case (2 files j ref ts out st)
  then show ?case
    by (auto simp: Let_def split: sum.splits prod.splits option.splits)
qed simp

lemma hydrate_keeps:
  assumes "hydrate (JObj s) keys cap f = (Inr (JObj s'), f')" and "dict_ok s" and "\<not> is_output_ref (jget s k)"
  shows "map_of s' k = map_of s k"
proof -
  have "k \<notin> dict_keys (hydrate_targets keys s)"
    using assms(2,3) by (auto simp: hydrate_targets_def dict_ok_mem_iff jget_def)
  then show ?thesis
    using assms(1) resolve_targets_keeps [of "[]" "hydrate_targets keys s" s f _ _ k]
    by (auto simp: hydrate_def Let_def split: if_splits sum.splits prod.splits)
qed

lemma hydrate_dict: "hydrate (JObj s) keys cap f = (Inr v, f') \<Longrightarrow> \<exists>s'. v = JObj s'"
  by (auto simp: hydrate_def Let_def split: if_splits sum.splits prod.splits)

lemma with_refs_keeps:
  assumes "\<And>j v. (j, v) \<in> set vals \<Longrightarrow> j \<noteq> k"
  shows "map_of (with_refs digest inline uri key vals upd) k = map_of upd k"
  using assms unfolding with_refs_def
proof (induction vals arbitrary: upd)
  case (Cons x vals)
  then have "fst x \<noteq> k" "\<And>j v. (j, v) \<in> set vals \<Longrightarrow> j \<noteq> k" by (cases x, auto)+
  then show ?case using Cons.IH by (simp add: case_prod_beta')
qed simp

lemma with_refs_dict [simp]: "dict_ok upd \<Longrightarrow> dict_ok (with_refs digest inline uri key vals upd)"
  unfolding with_refs_def by (induction vals arbitrary: upd) auto

lemma offload_keeps:
  assumes "offload handle digest run i type n ts (JObj u) f = (Some (JObj u'), f')" and "starts_with ''_'' k"
  shows "map_of u' k = map_of u k"
proof -
  have "j \<noteq> k" if "(j, v) \<in> set (filter (\<lambda>(k, v). offloadable handle k v) u)" for j v
    using that assms(2) by (auto simp: offloadable_def)
  then show ?thesis
    using assms(1) with_refs_keeps [of "filter (\<lambda>(k, v). offloadable handle k v) u" k]
    by (auto simp: offload_def Let_def split: if_splits)
qed

lemma offload_dict:
  "offload handle digest run i type n ts (JObj u) f = (Some (JObj u'), f') \<Longrightarrow> dict_ok u \<Longrightarrow> dict_ok u'"
  by (auto simp: offload_def Let_def split: if_splits)

text \<open>
  A node that returned ran its guarded body on a state with the same plain values, and left its
  internal keys as the body wrote them.
\<close>

lemma step_io_returns:
  assumes "step_io C step body s L = (Inr upd, L')" and "dict_ok s"
  obtains s1 L1 out L2 where "body s1 L1 = (Inr out, L2)"
    "\<And>k. \<not> is_output_ref (jget s k) \<Longrightarrow> map_of s1 k = map_of s k"
    "\<And>k. starts_with ''_'' k \<Longrightarrow> map_of upd k = map_of out k" "dict_ok out \<Longrightarrow> dict_ok upd"
proof (cases "lv_files L")
  case None
  then show thesis using assms that [of s L upd L'] by (simp add: step_io_def)
next
  case (Some f)
  obtain v f' where h: "hydrate (JObj s) (referenced_keys step) None f = (Inr v, f')"
    using assms(1) Some by (auto simp: step_io_def split: sum.splits prod.splits)
  obtain s1 where v: "v = JObj s1" using hydrate_dict [OF h] by blast
  obtain out L2 where b: "body s1 (with_files L f') = (Inr out, L2)"
    using assms(1) Some h v by (auto simp: step_io_def split: sum.splits prod.splits list.splits)
  have kept: "map_of s1 k = map_of s k" if "\<not> is_output_ref (jget s k)" for k
    using hydrate_keeps [OF h [unfolded v] assms(2) that] .
  have "(\<forall>k. starts_with ''_'' k \<longrightarrow> map_of upd k = map_of out k) \<and> (dict_ok out \<longrightarrow> dict_ok upd)"
    using assms(1) Some h v b
    by (auto simp: step_io_def offload_keeps offload_dict split: sum.splits prod.splits list.splits option.splits json.splits)
  then show thesis using that [OF b kept] by blast
qed

lemma when_guard_returns:
  assumes "when_guard step body s L = (Inr out, L')"
  shows "out = [] \<or> body s L = (Inr out, L')"
  using assms by (auto simp: when_guard_def split: if_splits json.splits)

lemma loop_guard_returns:
  assumes "loop_guard fallback step body s L = (Inr out, L')"
  obtains out' where "body s L = (Inr out', L')"
    "out = out' \<and> (jget step ''type'' \<in> set no_loop_guard_types \<or> out' = []) \<or>
     jget step ''type'' \<notin> set no_loop_guard_types \<and> out' \<noteq> [] \<and>
     (\<exists>m. max_loops fallback step = JInt m \<and> visit_count (step_id step) s + 1 \<le> m) \<and>
     out = AList.update counts_key
       (JObj (AList.update (step_id step) (JInt (visit_count (step_id step) s + 1)) (visits s))) out'"
  using assms that
  by (auto simp: loop_guard_def Let_def split: if_splits sum.splits prod.splits list.splits json.splits)

lemma fail_guard_returns:
  assumes "fail_guard step body s L = (Inr out, L')" and "jget step ''type'' \<notin> set no_fail_guard_types"
  obtains out' where "body s L = (Inr out', L')"
    "jtrue (jget s failed_key) \<Longrightarrow> jget s failed_key = JStr (step_id step)"
    "out = out' \<or> failed_key \<notin> dict_keys out' \<and> out = AList.update failed_key JNull out'"
  using assms that
  by (auto simp: fail_guard_def Let_def split: if_splits sum.splits prod.splits)

text \<open>
  A body behaves when what it returns is a dictionary, it leaves the counts of visits to the loop guard,
  and records a failure under its own id only.
\<close>

definition behaves :: "step_node \<Rightarrow> bool" where
  "behaves nd \<longleftrightarrow>
     (\<forall>s L out L'. snd nd s L = (Inr out, L') \<longrightarrow>
        dict_ok out \<and> counts_key \<notin> dict_keys out \<and>
        (\<forall>v. map_of out failed_key = Some v \<longrightarrow> v = JNull \<or> v = JStr (step_id (fst nd))))"

lemma behavesD:
  "behaves (step, body) \<Longrightarrow> body s L = (Inr out, L') \<Longrightarrow>
     dict_ok out \<and> counts_key \<notin> dict_keys out \<and>
     (\<forall>v. map_of out failed_key = Some v \<longrightarrow> v = JNull \<or> v = JStr (step_id step))"
  unfolding behaves_def by (metis fst_conv snd_conv)

definition plain_node :: "step_node \<Rightarrow> bool" where
  "plain_node nd \<longleftrightarrow> behaves nd \<and> jget (fst nd) ''type'' \<notin> set no_fail_guard_types"

definition int_counts :: "jobj \<Rightarrow> bool" where
  "int_counts c \<longleftrightarrow> dict_ok c \<and> (\<forall>k v. map_of c k = Some v \<longrightarrow> (\<exists>n. v = JInt n))"

definition counts_plain :: "jobj \<Rightarrow> bool" where
  "counts_plain s \<longleftrightarrow> map_of s counts_key = None \<or> (\<exists>c. map_of s counts_key = Some (JObj c) \<and> int_counts c)"

lemma counts_plain_no_ref: "counts_plain s \<Longrightarrow> \<not> is_output_ref (jget s counts_key)"
  by (fastforce simp: counts_plain_def int_counts_def is_output_ref_def jget_def split: option.splits)

lemma int_counts_visits: "counts_plain s \<Longrightarrow> int_counts (visits s)"
  by (auto simp: counts_plain_def int_counts_def visits_def jget_def)

lemma int_counts_update [simp]: "int_counts c \<Longrightarrow> int_counts (AList.update k (JInt n) c)"
  by (simp add: int_counts_def)

lemma int_counts_overlay: "int_counts a \<Longrightarrow> int_counts b \<Longrightarrow> int_counts (overlay a b)"
  by (auto simp: int_counts_def map_of_overlay split: option.splits)

text \<open>
  Of the update of a plain node: the sentinel is only written as nothing or its own id, and not at all
  beside another one's; the counts are left alone, or raised by one for the step within its bound.
\<close>

lemma make_node_returns:
  assumes "make_node C fallback step body s L = (Inr upd, L')" and "plain_node (step, body)"
    and "dict_ok s" and "counts_plain s" and "\<not> is_output_ref (jget s failed_key)"
  shows "dict_ok upd"
    and "\<And>v. map_of upd failed_key = Some v \<Longrightarrow> v = JNull \<or> v = JStr (step_id step)"
    and "jtrue (jget s failed_key) \<Longrightarrow> jget s failed_key = JStr (step_id step)"
    and "map_of upd counts_key = None \<or>
      jget step ''type'' \<notin> set no_loop_guard_types \<and>
      (\<exists>m. max_loops fallback step = JInt m \<and> visit_count (step_id step) s + 1 \<le> m) \<and>
      map_of upd counts_key = Some (JObj (AList.update (step_id step)
        (JInt (visit_count (step_id step) s + 1)) (visits s)))"
proof -
  have ty: "jget step ''type'' \<notin> set no_fail_guard_types" using assms(2) by (simp add: plain_node_def)
  obtain s1 L1 out L2 where g: "fail_guard step (when_guard step
       (status_running (sc_now C) step (loop_guard fallback step body))) s1 L1 = (Inr out, L2)"
    and kept: "\<And>k. \<not> is_output_ref (jget s k) \<Longrightarrow> map_of s1 k = map_of s k"
    and upd: "\<And>k. starts_with ''_'' k \<Longrightarrow> map_of upd k = map_of out k" and dict: "dict_ok out \<Longrightarrow> dict_ok upd"
    using step_io_returns [OF assms(1) [unfolded make_node_def] assms(3)] by metis
  have failed: "jget s1 failed_key = jget s failed_key"
    using kept [OF assms(5)] by (simp add: jget_def)
  have "map_of s1 counts_key = map_of s counts_key"
    using kept [OF counts_plain_no_ref [OF assms(4)]] .
  then have seen: "visits s1 = visits s" by (simp add: visits_def jget_def)
  obtain o1 where w: "when_guard step (status_running (sc_now C) step (loop_guard fallback step body)) s1 L1 = (Inr o1, L2)"
    and own: "jtrue (jget s1 failed_key) \<Longrightarrow> jget s1 failed_key = JStr (step_id step)"
    and o1: "out = o1 \<or> failed_key \<notin> dict_keys o1 \<and> out = AList.update failed_key JNull o1"
    using fail_guard_returns [OF g ty] by metis
  show "jtrue (jget s failed_key) \<Longrightarrow> jget s failed_key = JStr (step_id step)"
    using own failed by simp
  have "dict_ok o1 \<and> (\<forall>v. map_of o1 failed_key = Some v \<longrightarrow> v = JNull \<or> v = JStr (step_id step)) \<and>
    (map_of o1 counts_key = None \<or>
      jget step ''type'' \<notin> set no_loop_guard_types \<and>
      (\<exists>m. max_loops fallback step = JInt m \<and> visit_count (step_id step) s + 1 \<le> m) \<and>
      map_of o1 counts_key = Some (JObj (AList.update (step_id step)
        (JInt (visit_count (step_id step) s + 1)) (visits s))))" (is "?ok o1")
  proof (cases "o1 = []")
    case False
    then have "loop_guard fallback step body s1 (publish_running (sc_now C) step s1 L1) = (Inr o1, L2)"
      using when_guard_returns [OF w] by (simp add: status_running_def)
    then obtain o2 where b: "body s1 (publish_running (sc_now C) step s1 L1) = (Inr o2, L2)"
      and o2: "o1 = o2 \<or>
        jget step ''type'' \<notin> set no_loop_guard_types \<and> (\<exists>m. max_loops fallback step = JInt m \<and> visit_count (step_id step) s + 1 \<le> m) \<and>
        o1 = AList.update counts_key (JObj (AList.update (step_id step)
          (JInt (visit_count (step_id step) s + 1)) (visits s))) o2"
      using loop_guard_returns [of fallback step body s1 "publish_running (sc_now C) step s1 L1" o1 L2]
      by (metis seen visit_count_def)
    have "dict_ok o2 \<and> counts_key \<notin> dict_keys o2 \<and>
        (\<forall>v. map_of o2 failed_key = Some v \<longrightarrow> v = JNull \<or> v = JStr (step_id step))"
      using behavesD [of step body s1 "publish_running (sc_now C) step s1 L1" o2 L2] assms(2) b by (simp add: plain_node_def)
    then show ?thesis using o2 by (auto simp: map_of_eq_None_iff)
  qed simp
  then have ok: "?ok out" using o1 by auto
  show "dict_ok upd" using dict ok by blast
  show "\<And>v. map_of upd failed_key = Some v \<Longrightarrow> v = JNull \<or> v = JStr (step_id step)"
    using upd [OF reserved_keys(3)] ok by simp
  show "map_of upd counts_key = None \<or>
      jget step ''type'' \<notin> set no_loop_guard_types \<and>
      (\<exists>m. max_loops fallback step = JInt m \<and> visit_count (step_id step) s + 1 \<le> m) \<and>
      map_of upd counts_key = Some (JObj (AList.update (step_id step)
        (JInt (visit_count (step_id step) s + 1)) (visits s)))"
    using upd [OF reserved_keys(4)] ok by simp
qed

text \<open>The reserved keys have their reducers: no step of the workflow takes them as its own output.\<close>

definition reserved :: "(string \<times> reducer) list \<Rightarrow> bool" where
  "reserved schema \<longleftrightarrow> map_of schema failed_key = Some Last_Wins \<and> map_of schema counts_key = Some Merge_Dicts"

definition counts_in_order :: "jobj \<Rightarrow> bool" where
  "counts_in_order upd \<longleftrightarrow> dict_ok upd \<and>
     (map_of upd counts_key = None \<or> (\<exists>c. map_of upd counts_key = Some (JObj c) \<and> int_counts c))"

lemma counts_plain_apply:
  assumes "reserved schema" and "counts_in_order upd" and "counts_plain s"
  shows "counts_plain (apply_update A schema s upd)"
proof -
  have "dict_ok upd" using assms(2) by (simp add: counts_in_order_def)
  note get = apply_update_get [OF this, of A schema s counts_key]
  show ?thesis
  proof (cases "map_of upd counts_key")
    case None
    then show ?thesis using get assms(3) by (simp add: counts_plain_def)
  next
    case (Some v)
    then obtain c where "v = JObj c" "int_counts c" using assms(2) by (auto simp: counts_in_order_def)
    then show ?thesis using get assms(1,3) Some
      by (auto simp: counts_plain_def reserved_def reduce_def merge_dicts_def int_counts_overlay)
  qed
qed

lemma make_node_counts:
  assumes "make_node C fallback step body s L = (Inr upd, L')" and "plain_node (step, body)"
    and "dict_ok s" and "counts_plain s" and "\<not> is_output_ref (jget s failed_key)"
  shows "counts_in_order upd"
  using make_node_returns(1,4) [OF assms] int_counts_visits [OF assms(4)]
  by (auto simp: counts_in_order_def)

definition returned :: "step_context \<Rightarrow> json \<Rightarrow> jobj \<Rightarrow> step_node \<Rightarrow> jobj \<Rightarrow> bool" where
  "returned C fallback s nd upd \<longleftrightarrow> (\<exists>L L'. make_node C fallback (fst nd) (snd nd) s L = (Inr upd, L'))"

lemma superstep_returned:
  "superstep C fallback nodes s L = (Inr upds, L') \<Longrightarrow> list_all2 (returned C fallback s) nodes upds"
proof (induction nodes arbitrary: L upds)
  case (Cons nd nodes)
  obtain step body where nd: "nd = (step, body)" by (cases nd)
  from Cons.prems obtain upd L1 rest where "make_node C fallback step body s L = (Inr upd, L1)"
    "superstep C fallback nodes s L1 = (Inr rest, L')" "upds = upd # rest"
    by (auto simp: nd split: sum.splits prod.splits)
  then show ?case using Cons.IH by (auto simp: nd returned_def)
qed simp

section \<open>Failing fast\<close>

text \<open>\<open>marked x s\<close>: step \<open>x\<close> has recorded its failure in the state.\<close>

definition marked :: "string \<Rightarrow> jobj \<Rightarrow> bool" where
  "marked x s \<longleftrightarrow> dict_ok s \<and> counts_plain s \<and> x \<noteq> [] \<and> map_of s failed_key = Some (JStr x)"

lemma marked_returned:
  assumes "marked x s" and "returned C fallback s nd upd" and "plain_node nd"
  shows "step_id (fst nd) = x \<and> counts_in_order upd \<and> map_of upd failed_key \<in> set [None, Some JNull, Some (JStr x)]"
proof -
  have s: "dict_ok s" "counts_plain s" "jget s failed_key = JStr x" "jtrue (jget s failed_key)"
    using assms(1) by (simp_all add: marked_def jget_def)
  then have plain: "\<not> is_output_ref (jget s failed_key)" by (simp add: is_output_ref_def)
  obtain L L' where m: "make_node C fallback (fst nd) (snd nd) s L = (Inr upd, L')"
    using assms(2) by (auto simp: returned_def)
  have nd: "plain_node (fst nd, snd nd)" using assms(3) by simp
  have "step_id (fst nd) = x" using make_node_returns(3) [OF m nd s(1,2) plain s(4)] s(3) by simp
  moreover have "v = JNull \<or> v = JStr x" if "map_of upd failed_key = Some v" for v
    using make_node_returns(2) [OF m nd s(1,2) plain that] calculation by simp
  ultimately show ?thesis using make_node_counts [OF m nd s(1,2) plain]
    by (cases "map_of upd failed_key") auto
qed

lemma marked_apply:
  assumes "marked x s" and "reserved schema" and "counts_in_order upd"
    and "map_of upd failed_key \<in> set [None, Some JNull, Some (JStr x)]"
  shows "marked x (apply_update A schema s upd)"
proof -
  have "dict_ok upd" using assms(3) by (simp add: counts_in_order_def)
  from apply_update_get [OF this, of A schema s failed_key]
  have "map_of (apply_update A schema s upd) failed_key = Some (JStr x)"
    using assms(1,2,4) by (auto simp: marked_def reserved_def reduce_def last_wins_def)
  then show ?thesis using assms counts_plain_apply by (simp add: marked_def)
qed

lemma marked_fold:
  assumes "reserved schema"
    and "\<And>upd. upd \<in> set upds \<Longrightarrow> counts_in_order upd \<and> map_of upd failed_key \<in> set [None, Some JNull, Some (JStr x)]"
    and "marked x s"
  shows "marked x (fold (\<lambda>u s. apply_update A schema s u) upds s)"
  using assms(2,3)
proof (induction upds arbitrary: s)
  case (Cons u upds)
  then have "marked x (apply_update A schema s u)" using marked_apply [OF _ assms(1)] by simp
  then show ?case using Cons by simp
qed simp


section \<open>Loops\<close>

definition counted :: "string \<Rightarrow> (string \<times> jobj) list \<Rightarrow> nat" where
  "counted i trace = length (filter (\<lambda>(j, u). j = i \<and> counts_key \<in> dict_keys u) trace)"

lemma counted_simps [simp]:
  "counted i [] = 0" "counted i (xs @ ys) = counted i xs + counted i ys"
  by (simp_all add: counted_def)

lemma visits_apply:
  assumes "reserved schema" and "counts_in_order upd" and "counts_plain s"
  shows "jget (visits (apply_update A schema s upd)) i =
    (case map_of upd counts_key of
       Some (JObj c) \<Rightarrow> (case map_of c i of Some v \<Rightarrow> v | None \<Rightarrow> jget (visits s) i)
     | _ \<Rightarrow> jget (visits s) i)"
proof -
  have "dict_ok upd" using assms(2) by (simp add: counts_in_order_def)
  note get = apply_update_get [OF this, of A schema s counts_key]
  show ?thesis
  proof (cases "map_of upd counts_key")
    case None
    then show ?thesis using get by (simp add: visits_def jget_def)
  next
    case (Some v)
    then obtain c where c: "v = JObj c" "dict_ok c" using assms(2) by (auto simp: counts_in_order_def int_counts_def)
    show ?thesis
    proof (cases "map_of s counts_key")
      case None
      then have "visits s = []" by (simp add: visits_def jget_def)
      moreover have "visits (apply_update A schema s upd) = c"
        using get assms(1) Some c None by (simp add: reserved_def visits_def jget_def)
      ultimately show ?thesis using Some c by (simp add: jget_def split: option.split)
    next
      case (Some old)
      then obtain d where d: "old = JObj d" using assms(3) by (auto simp: counts_plain_def)
      then have "visits s = d" using Some by (simp add: visits_def jget_def)
      moreover have "visits (apply_update A schema s upd) = overlay d c"
        using get assms(1) Some c d \<open>map_of upd counts_key = Some v\<close>
        by (simp add: reserved_def reduce_def merge_dicts_def visits_def jget_def)
      ultimately show ?thesis using \<open>map_of upd counts_key = Some v\<close> c
        by (simp add: jget_def map_of_overlay split: option.split)
    qed
  qed
qed

lemma get_or [simp]: "(case map_of d i of None \<Rightarrow> jget d i | Some v \<Rightarrow> v) = jget d i"
  by (simp add: jget_def split: option.split)

definition in_order :: "jobj \<Rightarrow> bool" where
  "in_order s \<longleftrightarrow> dict_ok s \<and> counts_plain s \<and> \<not> is_obj (jget s failed_key)"

lemma not_obj_no_ref: "\<not> is_obj v \<Longrightarrow> \<not> is_output_ref v"
  by (cases v) (simp_all add: is_obj_def is_output_ref_def)

lemma failed_apply:
  assumes "reserved schema" and "dict_ok upd" and "\<not> is_obj (jget s failed_key)"
    and "\<And>v. map_of upd failed_key = Some v \<Longrightarrow> \<not> is_obj v"
  shows "\<not> is_obj (jget (apply_update A schema s upd) failed_key)"
  using apply_update_get [OF assms(2), of A schema s failed_key] assms(1,3,4)
  by (auto simp: jget_def reserved_def reduce_def last_wins_def split: option.splits)

text \<open>One node: its count is raised if it did something and is watched, and no other.\<close>

lemma one_node:
  assumes "make_node C fallback step body s L = (Inr upd, L')" and "plain_node (step, body)"
    and "in_order s" and "reserved schema"
  shows "in_order (apply_update A schema s upd)"
    and "visit_count i (apply_update A schema s upd) =
      visit_count i s + (if step_id step = i \<and> counts_key \<in> dict_keys upd then 1 else 0)"
    and "counts_key \<in> dict_keys upd \<Longrightarrow> \<exists>m. max_loops fallback step = JInt m \<and> visit_count (step_id step) s + 1 \<le> m"
proof -
  have s: "dict_ok s" "counts_plain s" "\<not> is_output_ref (jget s failed_key)"
    using assms(3) not_obj_no_ref by (simp_all add: in_order_def)
  note facts = make_node_returns [OF assms(1,2) s]
  note counts = make_node_counts [OF assms(1,2) s]
  have "\<not> is_obj v" if "map_of upd failed_key = Some v" for v
    using facts(2) [OF that] by (auto simp: is_obj_def)
  then have "\<not> is_obj (jget (apply_update A schema s upd) failed_key)"
    using failed_apply [OF assms(4) facts(1)] assms(3) by (simp add: in_order_def)
  then show "in_order (apply_update A schema s upd)"
    using counts_plain_apply [OF assms(4) counts s(2)] s(1) by (simp add: in_order_def)
  have key: "counts_key \<in> dict_keys upd \<longleftrightarrow> map_of upd counts_key \<noteq> None"
    by (simp add: map_of_eq_None_iff)
  then show "\<exists>m. max_loops fallback step = JInt m \<and> visit_count (step_id step) s + 1 \<le> m"
    if "counts_key \<in> dict_keys upd"
    using facts(4) that by auto
  show "visit_count i (apply_update A schema s upd) =
      visit_count i s + (if step_id step = i \<and> counts_key \<in> dict_keys upd then 1 else 0)"
    using facts(4) key visits_apply [OF assms(4) counts s(2), of A i]
    by (auto simp: visit_count_def get_or split: if_splits)
qed



section \<open>The fan-in that proceeds once\<close>

text \<open>
  What happens to the state of a fan-in: a branch arrives (\<open>None\<close>), or another node's update is merged.
  The arrivals the router lets through to \<open>dest\<close> are counted.
\<close>

fun proceeds :: "arith \<Rightarrow> (string \<times> reducer) list \<Rightarrow> jobj \<Rightarrow> string \<Rightarrow> jobj option list \<Rightarrow> jobj \<Rightarrow> nat" where
  "proceeds A schema step dest [] s = 0"
| "proceeds A schema step dest (Some upd # moves) s = proceeds A schema step dest moves (apply_update A schema s upd)"
| "proceeds A schema step dest (None # moves) s =
     (case fst (proceed_or_node step s \<lparr>lv_run = None, lv_runs = [], lv_files = None\<rparr>) of
        Inl e \<Rightarrow> 0
      | Inr upd \<Rightarrow>
          let s' = apply_update A schema s upd
          in (if proceed_or_router step dest s' = Some dest then 1 else 0) + proceeds A schema step dest moves s')"

definition has_won :: "jobj \<Rightarrow> jobj \<Rightarrow> bool" where
  "has_won step s \<longleftrightarrow> jtrue (jget (latch step s) ''won'')"

definition latch_schema :: "jobj \<Rightarrow> (string \<times> reducer) list \<Rightarrow> bool" where
  "latch_schema step schema \<longleftrightarrow> map_of schema (latch_key step) = Some Merge_Dicts \<and> map_of schema failed_key = Some Last_Wins"

definition latch_plain :: "jobj \<Rightarrow> jobj \<Rightarrow> bool" where
  "latch_plain step s \<longleftrightarrow> map_of s (latch_key step) = None \<or> (\<exists>l. map_of s (latch_key step) = Some (JObj l))"

lemma latch_key_not_failed [simp]: "latch_key step \<noteq> failed_key" "failed_key \<noteq> latch_key step"
  by (simp_all add: latch_key_def failed_key_def)

definition latch_dict :: "int \<Rightarrow> bool \<Rightarrow> bool \<Rightarrow> jobj" where
  "latch_dict n won last_won = [(''arrivals'', JInt n), (''won'', JBool won), (''last_won'', JBool last_won)]"

lemma latch_dict_get [simp]:
  "jget (overlay l (latch_dict n won last_won)) ''won'' = JBool won"
  "jget (overlay l (latch_dict n won last_won)) ''last_won'' = JBool last_won"
  "jget (latch_dict n won last_won) ''won'' = JBool won"
  "jget (latch_dict n won last_won) ''last_won'' = JBool last_won"
  by (simp_all add: latch_dict_def)

lemma latched_apply:
  assumes "latch_schema step schema" and "latch_plain step s" and "dict_ok upd"
    and "map_of upd (latch_key step) = Some (JObj (latch_dict n won last_won))"
  shows "latch_plain step (apply_update A schema s upd) \<and> has_won step (apply_update A schema s upd) = won \<and>
    (proceed_or_router step dest (apply_update A schema s upd) = Some dest) = last_won"
proof -
  have "latch step (apply_update A schema s upd) = latch_dict n won last_won \<or>
      latch step (apply_update A schema s upd) = overlay (latch step s) (latch_dict n won last_won)"
    and "\<exists>l. map_of (apply_update A schema s upd) (latch_key step) = Some (JObj l)"
    using apply_update_get [OF assms(3), of A schema s "latch_key step"] assms(1,2,4)
    by (auto simp: latch_schema_def latch_plain_def latch_def jget_def reduce_def merge_dicts_def)
  then show ?thesis by (auto simp: latch_plain_def has_won_def proceed_or_router_def)
qed

lemma latch_other:
  assumes "latch_key step \<notin> dict_keys upd"
  shows "latch_plain step (apply_update A schema s upd) = latch_plain step s"
    and "has_won step (apply_update A schema s upd) = has_won step s"
  using apply_update_other [OF assms, of A schema s]
  by (simp_all add: latch_plain_def has_won_def latch_def jget_def)

lemma arrival:
  obtains upd n won where "fst (proceed_or_node step s L) = Inr upd" "dict_ok upd"
    "map_of upd (latch_key step) = Some (JObj (latch_dict n won (won \<and> \<not> has_won step s)))"
    "won = (has_won step s \<or> \<not> jtrue (jget s failed_key) \<or> jget s failed_key = JStr (step_id step))"
proof (cases "jtrue (jget s failed_key) \<and> jget s failed_key \<noteq> JStr (step_id step)")
  case True
  then show thesis
    using that [of "latched step n (has_won step s) False @ (if has_won step s then [(failed_key, JNull)] else [])" n "has_won step s" for n]
    by (cases "has_won step s")
      (auto simp: proceed_or_node_def Let_def has_won_def latched_def latch_dict_def dict_ok_def)
next
  case False
  then show thesis
    using that [of "latched step n True (\<not> has_won step s)" n True for n]
    by (auto simp: proceed_or_node_def Let_def has_won_def latched_def latch_dict_def dict_ok_def)
qed

lemma proceeds_none_after_win:
  assumes "latch_schema step schema" and "\<forall>upd. Some upd \<in> set moves \<longrightarrow> latch_key step \<notin> dict_keys upd"
    and "latch_plain step s" and "has_won step s"
  shows "proceeds A schema step dest moves s = 0"
  using assms(2-)
proof (induction moves arbitrary: s)
  case (Cons m moves)
  show ?case
  proof (cases m)
    case (Some upd)
    then show ?thesis using Cons latch_other [of step upd] by simp
  next
    case None
    obtain upd n won where "fst (proceed_or_node step s \<lparr>lv_run = None, lv_runs = [], lv_files = None\<rparr>) = Inr upd" "dict_ok upd"
      "map_of upd (latch_key step) = Some (JObj (latch_dict n won (won \<and> \<not> has_won step s)))" "won = True"
      using arrival [of step s "\<lparr>lv_run = None, lv_runs = [], lv_files = None\<rparr>"] Cons.prems(3) by metis
    then show ?thesis using latched_apply [OF assms(1) Cons.prems(2), of upd n True False A dest] Cons None
      by (simp add: Let_def)
  qed
qed simp

text \<open>
  C18: However the branches of a fan-in arrive, and whatever happens in between, at most one arrival carries
  the run onward; and one does if any arrives while no failure is recorded.
\<close>

theorem proceeds_once:
  assumes "latch_schema step schema" and "\<forall>upd. Some upd \<in> set moves \<longrightarrow> latch_key step \<notin> dict_keys upd"
    and "latch_plain step s" and "\<not> has_won step s"
  shows "proceeds A schema step dest moves s \<le> 1 \<and>
    (None \<in> set moves \<longrightarrow> \<not> jtrue (jget s failed_key) \<longrightarrow>
      (\<forall>upd. Some upd \<in> set moves \<longrightarrow> failed_key \<notin> dict_keys upd) \<longrightarrow> proceeds A schema step dest moves s = 1)"
  using assms(2-)
proof (induction moves arbitrary: s)
  case (Cons m moves)
  show ?case
  proof (cases m)
    case (Some upd)
    have "jget (apply_update A schema s upd) failed_key = jget s failed_key" if "failed_key \<notin> dict_keys upd"
      using apply_update_other [OF that, of A schema s] by (simp add: jget_def)
    then show ?thesis using Cons Some latch_other [of step upd A schema s] by auto
  next
    case None
    obtain upd n won where a: "fst (proceed_or_node step s \<lparr>lv_run = None, lv_runs = [], lv_files = None\<rparr>) = Inr upd" "dict_ok upd"
      "map_of upd (latch_key step) = Some (JObj (latch_dict n won (won \<and> \<not> has_won step s)))"
      and won: "won = (has_won step s \<or> \<not> jtrue (jget s failed_key) \<or> jget s failed_key = JStr (step_id step))"
      by (rule arrival)
    note after = latched_apply [OF assms(1) Cons.prems(2) a(2), of n won won A dest]
    show ?thesis
    proof (cases won)
      case True
      then have "proceeds A schema step dest moves (apply_update A schema s upd) = 0"
        using proceeds_none_after_win [OF assms(1)] after a(3) Cons.prems(1,3) by simp
      then show ?thesis using after a True None Cons.prems(3) by (simp add: Let_def)
    next
      case False
      then have "proceeds A schema step dest moves (apply_update A schema s upd) \<le> 1"
        using Cons.IH after a(3) Cons.prems(1,3) by simp
      then show ?thesis using after a False None Cons.prems(3) won by (simp add: Let_def)
    qed
  qed
qed simp

section \<open>The audit trail of approvals\<close>

text \<open>
  A decision is added to the history in the state and changes none of the entries before it, unless
  the corrections of the approver name the history itself.
\<close>

theorem approval_recorded:
  assumes "fst (approval_node render (Some decision) step s L) = Inr upd"
    and "approved_key step \<noteq> ''approval_history''" and "dict_ok (corrections_of decision)"
    and "''approval_history'' \<notin> dict_keys (corrections_of decision)"
    and "map_of schema ''approval_history'' = Some Plain"
  shows "history_of (apply_update A schema s upd) = history_of s @ [JObj (decision_record step decision)]"
proof -
  let ?base = "AList.update ''approval_history'' (JList (history_of s @ [JObj (decision_record step decision)]))
      (AList.update ''reject_reason'' (jget decision ''reason'')
        [(approved_key step, jget (decision_record step decision) ''approved'')])"
  have upd: "upd = overlay ?base (corrections_of decision)"
    using assms(1) by (simp add: approval_node_def ask_interrupt_def Let_def)
  have "dict_ok ?base" by (intro dict_ok_update) (simp add: dict_ok_def)
  then have "dict_ok upd" by (simp only: upd dict_ok_overlay)
  moreover have "map_of upd ''approval_history'' = Some (JList (history_of s @ [JObj (decision_record step decision)]))"
    using assms(4) by (simp add: upd map_of_overlay_other)
  ultimately have "map_of (apply_update A schema s upd) ''approval_history'' =
      Some (JList (history_of s @ [JObj (decision_record step decision)]))"
    using assms(5) by (simp add: apply_update_get reduce_def split: option.split)
  then show ?thesis by (simp add: history_of_def jget_def)
qed

section \<open>Examples\<close>

definition example_step :: "string \<Rightarrow> string \<Rightarrow> jobj" where
  "example_step i t = [(''id'', JStr i), (''type'', JStr t), (''output_key'', JStr ''out'')]"

definition example_body :: node_body where
  "example_body s L = (Inr [(''out'', JInt 1)], L)"

definition example_arith :: arith where
  "example_arith = \<lparr>ar_float = (\<lambda>_. None), ar_plus = (\<lambda>a b. a)\<rparr>"

definition example_context :: step_context where
  "example_context = \<lparr>sc_run = ''run'', sc_now = 0, sc_stamp = [], sc_handle = (\<lambda>_. None), sc_digest = (\<lambda>t. t)\<rparr>"

definition example_live :: live where
  "example_live = \<lparr>lv_run = Some (example_run ''run'' R_Running 0), lv_runs = [], lv_files = None\<rparr>"

definition example_failed :: jobj where
  "example_failed = [(''__failed_step__'', JStr ''x'')]"

definition example_path :: "step_node list list \<Rightarrow> jobj \<Rightarrow> (node_error + jobj) \<times> (string \<times> jobj) list" where
  "example_path path s =
     (case run_nodes example_context example_arith (state_schema [example_step ''x'' ''python'']) (JInt 3) path s example_live of
        (res, trace, L) \<Rightarrow> (res, trace))"

abbreviation example_node :: "string \<Rightarrow> step_node" where
  "example_node i \<equiv> (example_step i ''python'', example_body)"

text \<open>
  The step that failed runs again and succeeds, its update clears the record, and still the next
  step is refused.
\<close>

lemma success_does_not_clear:
  "fst (example_path [[example_node ''x''], [example_node ''y'']] example_failed) = Inl (Upstream_Failed ''y'' (JStr ''x''))"
  by code_simp

text \<open>A branch that fails after the fan-in has proceeded fails the run all the same.\<close>

lemma late_failure_stops_the_run:
  "fst (run_nodes example_context example_arith (state_schema [example_step ''f'' ''proceed_or'']) (JInt 3)
     [[(example_step ''f'' ''proceed_or'', proceed_or_node (example_step ''f'' ''proceed_or''))], [example_node ''y'']]
     [(''_proceed_or_f'', JObj (latch_dict 1 True True)), (''__failed_step__'', JStr ''x'')] example_live) =
   Inl (Upstream_Failed ''y'' (JStr ''x''))"
  by code_simp

text \<open>A join that is to go on when one branch succeeded lets the next step be refused.\<close>

lemma or_join_stops_the_run:
  "fst (example_path
     [[(example_step ''j'' ''join'', join_node (\<lambda>_. False) [(''id'', JStr ''j''), (''failure_policy'', JStr ''or'')])],
      [example_node ''y'']] example_failed) =
   Inl (Upstream_Failed ''y'' (JStr ''x''))"
  by code_simp

text \<open>
  Two branches of one superstep each write all the counts as they saw them: the later one takes the
  other's visit back, so the loop guard does not see the first branch run.
\<close>

lemma parallel_visit_lost:
  "(case fst (example_path [[example_node ''a'', example_node ''b'']]
       [(''_visit_counts'', JObj [(''a'', JInt 1), (''b'', JInt 1)])]) of
      Inr s \<Rightarrow> (visit_count ''a'' s, visit_count ''b'' s) | Inl e \<Rightarrow> (0, 0)) = (1, 2)"
  by code_simp

text \<open>Corrections are written over the result, so an approver may replace the history and the verdict.\<close>

lemma corrections_replace_the_history:
  "fst (approval_node (\<lambda>t s. t) (Some [(''approved'', JBool False),
       (''corrections'', JObj [(''approval_history'', JList []), (''approved'', JBool True)])])
     (example_step ''gate'' ''human_approval'') [(''approval_history'', JList [JStr ''an earlier decision''])] example_live) =
   Inr [(''out'', JBool False), (''reject_reason'', JNull), (''approval_history'', JList []), (''approved'', JBool True)]"
  by code_simp

lemma example_behaves: "behaves (example_node i)"
  by (simp add: behaves_def example_body_def dict_ok_def counts_key_def failed_key_def)

lemma example_plain: "plain_node (example_node i)"
proof -
  have "JStr ''python'' \<notin> set no_fail_guard_types" by code_simp
  then show ?thesis by (simp add: plain_node_def example_behaves) (simp add: example_step_def)
qed

lemma example_reserved: "reserved (state_schema [example_step ''x'' ''python''])"
  by code_simp


definition example_loop :: "(node_error + jobj) \<times> (string \<times> jobj) list" where
  "example_loop = example_path (map (\<lambda>nd. [nd]) [example_node ''x'', example_node ''x'', example_node ''x'']) []"



theorem proceeds_once_witness:
  "proceeds example_arith (state_schema [example_step ''f'' ''proceed_or'']) (example_step ''f'' ''proceed_or'') ''y''
     [None, Some [(''out'', JInt 1)], None, None] [] = 1"
proof -
  have "latch_schema (example_step ''f'' ''proceed_or'') (state_schema [example_step ''f'' ''proceed_or''])" by code_simp
  moreover have "\<not> has_won (example_step ''f'' ''proceed_or'') []" by code_simp
  moreover have "latch_key (example_step ''f'' ''proceed_or'') \<noteq> ''out''" "failed_key \<noteq> ''out''" by code_simp+
  ultimately show ?thesis
    using proceeds_once [of "example_step ''f'' ''proceed_or''" "state_schema [example_step ''f'' ''proceed_or'']"
      "[None, Some [(''out'', JInt 1)], None, None]" "[]" example_arith "''y''"]
    by (simp add: latch_plain_def del: proceeds.simps)
qed

theorem approval_recorded_witness:
  "\<exists>upd. fst (approval_node (\<lambda>t s. t) (Some [(''approved'', JBool True)]) (example_step ''gate'' ''human_approval'') [] example_live) = Inr upd \<and>
     history_of (apply_update example_arith (state_schema [example_step ''x'' ''python'']) [] upd) =
       [JObj (decision_record (example_step ''gate'' ''human_approval'') [(''approved'', JBool True)])]"
proof -
  obtain upd where upd: "fst (approval_node (\<lambda>t s. t) (Some [(''approved'', JBool True)]) (example_step ''gate'' ''human_approval'') [] example_live) = Inr upd"
    by (simp add: approval_node_def ask_interrupt_def Let_def)
  have "approved_key (example_step ''gate'' ''human_approval'') \<noteq> ''approval_history''"
    "corrections_of [(''approved'', JBool True)] = []"
    "map_of (state_schema [example_step ''x'' ''python'']) ''approval_history'' = Some Plain" "history_of [] = []" by code_simp+
  then show ?thesis using approval_recorded [OF upd] upd by simp
qed

end
