(* ===== verification/RunStream.thy ===== *)
theory RunStream
  imports RunNodes
begin

text \<open>
  Driving a run: \<^verbatim>\<open>stream_graph_to_pause\<close> of \<^verbatim>\<open>app/infrastructure/orchestration/yaml_graph.py\<close>,
  which recovery, triggers and callbacks use, and \<^verbatim>\<open>_stream_graph\<close> of
  \<^verbatim>\<open>app/api/routes/workflows.py\<close>, which the API uses.  LangGraph's stream is an argument: the chunks it
  yields, with the starts the nodes publish between them, how it ends, and the snapshot of the graph
  read afterwards.  Notifications, traces and the freeing of pods are left out.
\<close>

section \<open>The input\<close>

text \<open>What the graph is started with: a new state, the answer to an interrupt, or nothing (go on).\<close>

datatype graph_input = Fresh jobj | Resume jobj | Go_On

definition last_route :: "routing_event list \<Rightarrow> routing_event option" where
  "last_route evs = find (\<lambda>e. re_event e = Route) (rev evs)"

definition stale_sentinel :: "graph_run \<Rightarrow> jobj \<Rightarrow> bool" where
  "stale_sentinel r s \<longleftrightarrow>
     jtrue (jget s failed_key) \<and>
     (case last_route (gr_routing r) of
        None \<Rightarrow> False
      | Some e \<Rightarrow> JStr (re_target e) = jget s failed_key)"

text \<open>\<open>checkpoint\<close>: the values of the graph's snapshot, empty when it cannot be read.\<close>

definition initial_state :: "graph_input \<Rightarrow> jobj \<Rightarrow> jobj" where
  "initial_state input checkpoint = (case input of Fresh s \<Rightarrow> s | _ \<Rightarrow> checkpoint)"

definition clear_stale :: "graph_run \<Rightarrow> graph_input \<Rightarrow> jobj \<Rightarrow> graph_input \<times> jobj" where
  "clear_stale r input checkpoint =
     (let s = initial_state input checkpoint
      in if stale_sentinel r s
         then ((case input of Fresh s \<Rightarrow> Fresh s | _ \<Rightarrow> Fresh [(failed_key, JNull)]),
               AList.update failed_key JNull s)
         else (input, s))"

section \<open>Chunks\<close>

definition empty_is_finished :: "json list" where
  "empty_is_finished = [JStr ''data'']"

definition step_status_from_output :: "string \<Rightarrow> json \<Rightarrow> json \<Rightarrow> bool \<Rightarrow> step_mark" where
  "step_status_from_output node out type executed =
     (if \<not> jtrue out
      then if executed \<and> type \<in> set empty_is_finished then Mark_Finished else Mark_Skipped
      else case out of
             JObj u \<Rightarrow> if jget u failed_key = JStr node then Mark_Failed else Mark_Finished
           | _ \<Rightarrow> Mark_Finished)"

definition step_by_id :: "jobj list \<Rightarrow> string \<Rightarrow> jobj option" where
  "step_by_id steps i = find (\<lambda>s. jget s ''id'' = JStr i) steps"

definition type_of :: "jobj list \<Rightarrow> string \<Rightarrow> json" where
  "type_of steps i = (case step_by_id steps i of None \<Rightarrow> JNull | Some s \<Rightarrow> jget s ''type'')"

text \<open>
  What happens to the run during the stream: a node publishes that it starts, on the state it was given, a
  router logs its choice, another writer puts a value into the stored state (the progress of an agent),
  and a chunk brings the output of a node.
\<close>

datatype stream_event =
    Starts jobj jobj
  | Routes string string jobj jobj
  | Posts string json
  | Chunk string json

record streaming =
  sm_run :: graph_run
  sm_runs :: runs
  sm_state :: jobj
  sm_interrupt :: json

definition persist :: "time \<Rightarrow> graph_run \<Rightarrow> streaming \<Rightarrow> streaming" where
  "persist now r S = (let r' = touch now r in S\<lparr>sm_run := r', sm_runs := update_run now r' (sm_runs S)\<rparr>)"

definition by_live :: "(live \<Rightarrow> live) \<Rightarrow> streaming \<Rightarrow> streaming" where
  "by_live f S =
     (let L = f \<lparr>lv_run = Some (sm_run S), lv_runs = sm_runs S, lv_files = None\<rparr>
      in S\<lparr>sm_run := (case lv_run L of None \<Rightarrow> sm_run S | Some r \<Rightarrow> r), sm_runs := lv_runs L\<rparr>)"

definition by_other :: "string \<Rightarrow> json \<Rightarrow> streaming \<Rightarrow> streaming" where
  "by_other k v S =
     S\<lparr>sm_runs := on_run (gr_id (sm_run S)) (\<lambda>r. r\<lparr>gr_state := AList.update k v (gr_state r)\<rparr>) (sm_runs S)\<rparr>"

definition finished_step :: "(jobj \<Rightarrow> jobj option) \<Rightarrow> jobj list \<Rightarrow> string \<Rightarrow> json \<Rightarrow> jobj \<Rightarrow> graph_run \<Rightarrow> graph_run" where
  "finished_step handle steps node out s r =
     (let mark = step_status_from_output node out (type_of steps node)
            (map_of (gr_statuses r) node = Some Mark_Running)
      in r\<lparr>gr_inputs := AList.update node (JObj (step_input_snapshot handle (step_by_id steps node) s)) (gr_inputs r),
           gr_statuses := AList.update node mark (gr_statuses r), gr_step := Some node,
           gr_outputs := (if jtrue out then AList.update node (step_output_record out) (gr_outputs r) else gr_outputs r)\<rparr>)"

definition after_output :: "json \<Rightarrow> jobj \<Rightarrow> jobj" where
  "after_output out s = (case out of JObj u \<Rightarrow> overlay s u | _ \<Rightarrow> s)"

definition graph_ends :: "string list" where
  "graph_ends = [''__start__'', ''__end__'']"

definition pause_event ::
    "time \<Rightarrow> (jobj \<Rightarrow> jobj option) \<Rightarrow> jobj list \<Rightarrow> stream_event \<Rightarrow> streaming \<Rightarrow> streaming" where
  "pause_event now handle steps ev S =
     (case ev of
        Starts step s \<Rightarrow> by_live (publish_running now step s) S
      | Routes source target route s \<Rightarrow> by_live (log_route now source target route s) S
      | Posts k v \<Rightarrow> by_other k v S
      | Chunk node out \<Rightarrow>
          if node \<in> set graph_ends then S
          else if node = ''__interrupt__'' then
            let r = (sm_run S)\<lparr>gr_inputs := AList.update node (JObj []) (gr_inputs (sm_run S)),
                  gr_outputs := (if jtrue out then AList.update node out (gr_outputs (sm_run S)) else gr_outputs (sm_run S))\<rparr>
            in persist now r (S\<lparr>sm_interrupt := out\<rparr>)
          else
            persist now ((finished_step handle steps node out (sm_state S) (sm_run S))\<lparr>gr_recovery := 0\<rparr>)
              (S\<lparr>sm_state := after_output out (sm_state S)\<rparr>))"

section \<open>Failure\<close>

definition out_of_band_prefixes :: "string list" where
  "out_of_band_prefixes = [''_agent_progress_'']"

definition merge_out_of_band :: "runs \<Rightarrow> string \<Rightarrow> jobj \<Rightarrow> jobj" where
  "merge_out_of_band rp i merged =
     (case get_run i rp of
        None \<Rightarrow> merged
      | Some fresh \<Rightarrow>
          overlay merged (filter (\<lambda>(k, v). jtrue v \<and> (\<exists>p \<in> set out_of_band_prefixes. starts_with p k)) (gr_state fresh)))"

definition first_running :: "graph_run \<Rightarrow> string option" where
  "first_running r = map_option fst (find (\<lambda>(i, m). m = Mark_Running) (gr_statuses r))"

text \<open>The step an exception is charged to, if any.\<close>

definition blamed :: "graph_run \<Rightarrow> jobj \<Rightarrow> string option" where
  "blamed r s =
     (case first_running r of
        Some i \<Rightarrow> Some i
      | None \<Rightarrow> (case jget s failed_key of
          JStr i \<Rightarrow> if i \<in> dict_keys (gr_statuses r) then Some i else None
        | _ \<Rightarrow> None))"

definition blame ::
    "(jobj \<Rightarrow> jobj option) \<Rightarrow> jobj list \<Rightarrow> jobj \<Rightarrow> graph_run \<Rightarrow> graph_run" where
  "blame handle steps s r =
     (case blamed r s of
        None \<Rightarrow> r
      | Some i \<Rightarrow> r\<lparr>gr_inputs := AList.update i (JObj (step_input_snapshot handle (step_by_id steps i) s)) (gr_inputs r),
          gr_statuses := AList.update i Mark_Failed (gr_statuses r)\<rparr>)"

text \<open>Only the pausing stream leaves the error as the output of the step it blames.\<close>

definition note_error :: "json \<Rightarrow> jobj \<Rightarrow> graph_run \<Rightarrow> graph_run" where
  "note_error error s r =
     (case blamed r s of
        None \<Rightarrow> r
      | Some i \<Rightarrow>
          if first_running r \<noteq> None \<or> \<not> (case map_of (gr_outputs r) i of None \<Rightarrow> False | Some v \<Rightarrow> jtrue v)
          then r\<lparr>gr_outputs := AList.update i (JObj [(''error'', error)]) (gr_outputs r)\<rparr> else r)"

definition pause_failed ::
    "time \<Rightarrow> (jobj \<Rightarrow> jobj option) \<Rightarrow> jobj list \<Rightarrow> json \<Rightarrow> jobj \<Rightarrow> streaming \<Rightarrow> streaming" where
  "pause_failed now handle steps error checkpoint S =
     (let s = sm_state S;
          r = blame handle steps s (note_error error s (sm_run S));
          mid_run = filter (\<lambda>(k, v). starts_with ''_'' k) (gr_state r);
          state = AList.update ''error'' error (overlay (overlay s mid_run) checkpoint)
      in persist now (r\<lparr>gr_status := R_Failed, gr_state := merge_out_of_band (sm_runs S) (gr_id r) state, gr_step := None\<rparr>) S)"

section \<open>The snapshot\<close>

text \<open>
  The interrupts of a snapshot are their payloads, those of each pending task and those at the top.
\<close>

record snapshot =
  sn_values :: jobj
  sn_next :: "string list"
  sn_tasks :: "json list list"
  sn_tops :: "json list"

definition payload_type :: "json list \<Rightarrow> json" where
  "payload_type ps = (case find is_obj ps of Some (JObj p) \<Rightarrow> jget p ''type'' | _ \<Rightarrow> JNull)"

definition chunk_payloads :: "json \<Rightarrow> json list" where
  "chunk_payloads out =
     (case out of
        JList xs \<Rightarrow> List.maps (\<lambda>x. case x of JObj i \<Rightarrow> if is_obj (jget i ''value'') then [jget i ''value''] else [] | _ \<Rightarrow> []) xs
      | _ \<Rightarrow> [])"

definition interrupt_type :: "snapshot \<Rightarrow> json \<Rightarrow> json" where
  "interrupt_type sn seen =
     (let t = (case find (\<lambda>ps. jtrue (payload_type ps)) (sn_tasks sn) of Some ps \<Rightarrow> payload_type ps | None \<Rightarrow> JNull);
          t = jor t (payload_type (sn_tops sn))
      in if jtrue t then t else payload_type (chunk_payloads seen))"

definition paused_at :: "snapshot \<Rightarrow> json \<Rightarrow> graph_run \<Rightarrow> string option" where
  "paused_at sn seen r =
     (case sn_next sn of
        i # _ \<Rightarrow> Some i
      | [] \<Rightarrow> if jtrue (interrupt_type sn seen) then first_running r else None)"

definition settle_pause :: "jobj list \<Rightarrow> snapshot \<Rightarrow> json \<Rightarrow> graph_run \<Rightarrow> graph_run" where
  "settle_pause steps sn seen r =
     (let kind = interrupt_type sn seen;
          mark = (\<lambda>i m. if i \<in> dict_keys (gr_statuses r) then AList.update i m (gr_statuses r) else gr_statuses r)
      in case paused_at sn seen r of
           None \<Rightarrow> r\<lparr>gr_status := R_Completed, gr_step := None\<rparr>
         | Some i \<Rightarrow>
             if type_of steps i \<in> set agent_types
             then if kind \<in> set [JStr ''ask_context'', JStr ''ask_approval'']
                  then r\<lparr>gr_status := R_Waiting_Approval, gr_step := Some i,
                    gr_statuses := mark i (if kind = JStr ''ask_context'' then Mark_Waiting_Clarification else Mark_Waiting_Approval)\<rparr>
                  else r\<lparr>gr_status := R_Waiting_Agent, gr_step := Some i\<rparr>
             else r\<lparr>gr_status := R_Waiting_Approval, gr_step := Some i,
               gr_statuses := (if type_of steps i = JStr ''data_source'' then mark i Mark_Waiting_Approval else gr_statuses r)\<rparr>)"

definition agent_url_of :: "snapshot \<Rightarrow> json" where
  "agent_url_of sn =
     (let url = (\<lambda>ps. case find (\<lambda>p. case p of JObj o' \<Rightarrow> jget o' ''type'' = JStr ''waiting_agent'' | _ \<Rightarrow> False) ps of
            Some (JObj p) \<Rightarrow> jget p ''agent_url'' | _ \<Rightarrow> JNull)
      in jor (case find (\<lambda>ps. jtrue (url ps)) (sn_tasks sn) of Some ps \<Rightarrow> url ps | None \<Rightarrow> JNull) (url (sn_tops sn)))"

definition note_agent :: "time \<Rightarrow> snapshot \<Rightarrow> streaming \<Rightarrow> streaming" where
  "note_agent now sn S =
     (case (gr_status (sm_run S), agent_url_of sn) of
        (R_Waiting_Agent, JStr (c # url)) \<Rightarrow> persist now ((sm_run S)\<lparr>gr_agent_url := Some (c # url)\<rparr>) S
      | _ \<Rightarrow> S)"

text \<open>
  The verdict of an approval step is taken back when the approval is asked for again, in the graph
  (the result is what it is patched with) and on the run.
\<close>

definition take_back :: "time \<Rightarrow> jobj list \<Rightarrow> snapshot \<Rightarrow> streaming \<Rightarrow> streaming \<times> jobj" where
  "take_back now steps sn S =
     (case (gr_status (sm_run S), gr_step (sm_run S)) of
        (R_Waiting_Approval, Some i) \<Rightarrow>
          (case step_by_id steps i of
             Some step \<Rightarrow>
               if jget step ''type'' = JStr ''human_approval'' \<and> jget (sn_values sn) (approved_key step) \<noteq> JBool False
               then (persist now ((sm_run S)\<lparr>gr_state := AList.update (approved_key step) (JBool False) (gr_state (sm_run S))\<rparr>) S,
                     [(approved_key step, JBool False)])
               else (S, [])
           | None \<Rightarrow> (S, []))
      | _ \<Rightarrow> (S, []))"

definition pause_done :: "time \<Rightarrow> jobj list \<Rightarrow> snapshot \<Rightarrow> streaming \<Rightarrow> streaming \<times> jobj" where
  "pause_done now steps sn S =
     (let r = settle_pause steps sn (sm_interrupt S) (sm_run S);
          r = r\<lparr>gr_state := merge_out_of_band (sm_runs S) (gr_id r) (sn_values sn)\<rparr>
      in take_back now steps sn (note_agent now sn (persist now r S)))"

section \<open>Both streams\<close>

text \<open>How the stream ends: with an exception and what can be read of the graph then, or with a snapshot.\<close>

datatype stream_end = Broke json jobj | Settled snapshot

definition begin_stream :: "graph_run \<Rightarrow> runs \<Rightarrow> jobj \<Rightarrow> streaming" where
  "begin_stream r rp s = \<lparr>sm_run = r, sm_runs = rp, sm_state = s, sm_interrupt = JNull\<rparr>"

definition stream_graph_to_pause ::
    "time \<Rightarrow> (jobj \<Rightarrow> jobj option) \<Rightarrow> jobj list \<Rightarrow> graph_input \<Rightarrow> jobj \<Rightarrow> stream_event list \<Rightarrow> stream_end \<Rightarrow>
     graph_run \<Rightarrow> runs \<Rightarrow> streaming \<times> jobj" where
  "stream_graph_to_pause now handle steps input checkpoint evs ending r rp =
     (let S = fold (pause_event now handle steps) evs (begin_stream r rp (snd (clear_stale r input checkpoint)))
      in case ending of
           Broke error cp \<Rightarrow> (pause_failed now handle steps error cp S, [])
         | Settled sn \<Rightarrow> pause_done now steps sn S)"

text \<open>The stream of the API: every chunk is a step's, and the stored state is read again each time.\<close>

definition fresh_state :: "streaming \<Rightarrow> jobj" where
  "fresh_state S = (case get_run (gr_id (sm_run S)) (sm_runs S) of Some r \<Rightarrow> gr_state r | None \<Rightarrow> gr_state (sm_run S))"

definition api_event ::
    "time \<Rightarrow> (jobj \<Rightarrow> jobj option) \<Rightarrow> jobj list \<Rightarrow> stream_event \<Rightarrow> streaming \<Rightarrow> streaming" where
  "api_event now handle steps ev S =
     (case ev of
        Starts step s \<Rightarrow> by_live (publish_running now step s) S
      | Routes source target route s \<Rightarrow> by_live (log_route now source target route s) S
      | Posts k v \<Rightarrow> by_other k v S
      | Chunk node out \<Rightarrow>
          if node \<in> set graph_ends then S
          else
            persist now ((finished_step handle steps node out (sm_state S) (sm_run S))\<lparr>gr_state := fresh_state S\<rparr>)
              (S\<lparr>sm_state := after_output out (sm_state S)\<rparr>))"

definition api_failed ::
    "time \<Rightarrow> (jobj \<Rightarrow> jobj option) \<Rightarrow> jobj list \<Rightarrow> json \<Rightarrow> jobj \<Rightarrow> streaming \<Rightarrow> streaming" where
  "api_failed now handle steps error checkpoint S =
     (let r = blame handle steps (sm_state S) (sm_run S);
          state = AList.update ''error'' error (overlay (overlay (fresh_state S) (sm_state S)) checkpoint)
      in persist now (r\<lparr>gr_status := R_Failed, gr_state := merge_out_of_band (sm_runs S) (gr_id r) state, gr_step := None\<rparr>) S)"

definition asks_context :: "json \<Rightarrow> bool" where
  "asks_context p \<longleftrightarrow> (case p of JObj q \<Rightarrow> jget q ''type'' = JStr ''ask_context'' | _ \<Rightarrow> False)"

definition langgraph_status :: "jobj list \<Rightarrow> snapshot \<Rightarrow> graph_status" where
  "langgraph_status steps sn =
     (case sn_next sn of
        [] \<Rightarrow> R_Completed
      | i # _ \<Rightarrow>
          if (\<exists>ps \<in> set (sn_tasks sn). \<exists>p \<in> set ps. asks_context p) \<or> (\<exists>p \<in> set (sn_tops sn). asks_context p)
          then R_Waiting_Approval
          else if type_of steps i \<in> set agent_types then R_Waiting_Agent else R_Waiting_Approval)"

definition api_done :: "time \<Rightarrow> jobj list \<Rightarrow> snapshot \<Rightarrow> streaming \<Rightarrow> streaming" where
  "api_done now steps sn S =
     (let r = sm_run S; st = langgraph_status steps sn;
          url = (case (st, agent_url_of sn) of (R_Waiting_Agent, JStr (c # u)) \<Rightarrow> Some (c # u) | _ \<Rightarrow> gr_agent_url r)
      in persist now (r\<lparr>gr_status := st, gr_step := (case sn_next sn of [] \<Rightarrow> None | i # _ \<Rightarrow> Some i),
           gr_state := merge_out_of_band (sm_runs S) (gr_id r) (overlay (fresh_state S) (sn_values sn)),
           gr_agent_url := url\<rparr>) S)"

definition stream_graph ::
    "time \<Rightarrow> (jobj \<Rightarrow> jobj option) \<Rightarrow> jobj list \<Rightarrow> graph_input \<Rightarrow> jobj \<Rightarrow> stream_event list \<Rightarrow> stream_end \<Rightarrow>
     graph_run \<Rightarrow> runs \<Rightarrow> streaming" where
  "stream_graph now handle steps input checkpoint evs ending r rp =
     (let S = fold (api_event now handle steps) evs (begin_stream r rp (initial_state input checkpoint))
      in case ending of
           Broke error cp \<Rightarrow> api_failed now handle steps error cp S
         | Settled sn \<Rightarrow> api_done now steps sn S)"

definition init_step_statuses :: "jobj list \<Rightarrow> step_mark dict" where
  "init_step_statuses steps = map (\<lambda>s. (step_id s, Mark_Pending)) steps"

section \<open>What a stream leaves\<close>

lemma touch_touch [simp]: "touch now (touch now r) = touch now r"
  by (simp add: touch_def)

lemma persist_simps [simp]:
  "sm_run (persist now r S) = touch now r" "sm_state (persist now r S) = sm_state S"
  "sm_interrupt (persist now r S) = sm_interrupt S"
  "get_run (gr_id r) (sm_runs (persist now r S)) = Some (touch now r)"
  by (simp_all add: persist_def Let_def)

lemma begin_stream_simps [simp]:
  "sm_run (begin_stream r rp s) = r" "sm_runs (begin_stream r rp s) = rp" "sm_state (begin_stream r rp s) = s"
  by (simp_all add: begin_stream_def)

lemma by_live_id [simp]:
  "gr_id (sm_run (by_live (publish_running now step s) S)) = gr_id (sm_run S)"
  "gr_id (sm_run (by_live (log_route now source target route s) S)) = gr_id (sm_run S)"
  by (simp_all add: by_live_def publish_running_def log_route_def Let_def)

lemma by_other_simps [simp]: "sm_run (by_other k v S) = sm_run S" "sm_state (by_other k v S) = sm_state S"
  by (simp_all add: by_other_def)

lemma finished_step_id [simp]: "gr_id (finished_step handle steps node out s r) = gr_id r"
  by (simp add: finished_step_def Let_def)

lemma pause_event_id [simp]: "gr_id (sm_run (pause_event now handle steps ev S)) = gr_id (sm_run S)"
  by (cases ev) (simp_all add: pause_event_def Let_def)

lemma api_event_id [simp]: "gr_id (sm_run (api_event now handle steps ev S)) = gr_id (sm_run S)"
  by (cases ev) (simp_all add: api_event_def Let_def)

lemma fold_id:
  assumes "\<And>ev S. gr_id (sm_run (f ev S)) = gr_id (sm_run S)"
  shows "gr_id (sm_run (fold f evs S)) = gr_id (sm_run S)"
  by (induction evs arbitrary: S) (simp_all add: assms)

lemma blame_keeps [simp]:
  "gr_id (blame handle steps s r) = gr_id r" "gr_status (blame handle steps s r) = gr_status r"
  "gr_state (blame handle steps s r) = gr_state r"
  by (simp_all add: blame_def split: option.split)

lemma note_error_keeps [simp]: "gr_id (note_error error s r) = gr_id r" "gr_state (note_error error s r) = gr_state r"
  by (simp_all add: note_error_def split: option.split)

lemma settle_pause_id [simp]: "gr_id (settle_pause steps sn seen r) = gr_id r"
  by (simp add: settle_pause_def Let_def split: option.split)

text \<open>A run is parked or over, and stored as it is: it waits at the step it names, or waits for nothing.\<close>

definition parked :: "graph_run \<Rightarrow> bool" where
  "parked r \<longleftrightarrow>
     (gr_status r \<in> set [R_Waiting_Approval, R_Waiting_Agent] \<and> gr_step r \<noteq> None) \<or>
     (gr_status r \<in> set [R_Completed, R_Failed] \<and> gr_step r = None)"

lemma parked_touch [simp]: "parked (touch now r) = parked r"
  by (simp add: parked_def)

lemma parked_settle: "parked (r\<lparr>gr_state := st\<rparr>)" if "parked r" for st
  using that by (simp add: parked_def)

lemma settle_pause_parked: "parked (settle_pause steps sn seen r)"
  by (auto simp: settle_pause_def parked_def Let_def split: option.split)

definition saved :: "streaming \<Rightarrow> bool" where
  "saved S \<longleftrightarrow> get_run (gr_id (sm_run S)) (sm_runs S) = Some (sm_run S)"

lemma saved_persist [simp]: "saved (persist now r S)"
  using persist_simps(4) [of r now S] by (simp add: saved_def)

lemma parked_note_agent: "parked (sm_run S) \<Longrightarrow> parked (sm_run (note_agent now sn S))"
  by (auto simp: note_agent_def parked_def split: json.split list.split graph_status.split)

lemma saved_note_agent: "saved S \<Longrightarrow> saved (note_agent now sn S)"
  by (auto simp: note_agent_def split: json.split list.split graph_status.split)

lemma id_note_agent [simp]: "gr_id (sm_run (note_agent now sn S)) = gr_id (sm_run S)"
  by (auto simp: note_agent_def split: json.split list.split graph_status.split)

lemma take_back_cases:
  obtains "take_back now steps sn S = (S, [])"
  | key where "take_back now steps sn S =
      (persist now ((sm_run S)\<lparr>gr_state := AList.update key (JBool False) (gr_state (sm_run S))\<rparr>) S, [(key, JBool False)])"
proof -
  have "take_back now steps sn S = (S, []) \<or> (\<exists>key. take_back now steps sn S =
      (persist now ((sm_run S)\<lparr>gr_state := AList.update key (JBool False) (gr_state (sm_run S))\<rparr>) S, [(key, JBool False)]))"
    by (auto simp: take_back_def split: graph_status.split option.split)
  then show thesis using that by blast
qed


section \<open>Outputs and statuses\<close>

text \<open>What the chunks of a node leave: its last output that is not empty.\<close>

fun last_output :: "string \<Rightarrow> stream_event list \<Rightarrow> json option" where
  "last_output node [] = None"
| "last_output node (ev # evs) =
     (case last_output node evs of
        Some v \<Rightarrow> Some v
      | None \<Rightarrow> (case ev of Chunk n out \<Rightarrow> if n = node \<and> jtrue out then Some out else None | _ \<Rightarrow> None))"

fun final_state :: "stream_event list \<Rightarrow> jobj \<Rightarrow> jobj" where
  "final_state [] s = s"
| "final_state (ev # evs) s =
     final_state evs (case ev of
       Chunk node out \<Rightarrow> if node \<in> set graph_ends \<or> node = ''__interrupt__'' then s else after_output out s
     | _ \<Rightarrow> s)"

definition is_step :: "string \<Rightarrow> bool" where
  "is_step node \<longleftrightarrow> node \<notin> set graph_ends \<and> node \<noteq> ''__interrupt__''"

lemma live_outputs [simp]:
  "gr_outputs (sm_run (by_live (publish_running now step s) S)) = gr_outputs (sm_run S)"
  "gr_outputs (sm_run (by_live (log_route now source target route s) S)) = gr_outputs (sm_run S)"
  "sm_state (by_live f S) = sm_state S"
  by (simp_all add: by_live_def publish_running_def log_route_def Let_def)

lemma pause_event_outputs:
  assumes "is_step node"
  shows "map_of (gr_outputs (sm_run (pause_event now handle steps ev S))) node =
    (case last_output node [ev] of Some v \<Rightarrow> Some (step_output_record v) | None \<Rightarrow> map_of (gr_outputs (sm_run S)) node)"
  using assms by (cases ev) (auto simp: pause_event_def Let_def finished_step_def is_step_def)

lemma api_event_outputs:
  assumes "is_step node"
  shows "map_of (gr_outputs (sm_run (api_event now handle steps ev S))) node =
    (case last_output node [ev] of Some v \<Rightarrow> Some (step_output_record v) | None \<Rightarrow> map_of (gr_outputs (sm_run S)) node)"
  using assms by (cases ev) (auto simp: api_event_def Let_def finished_step_def is_step_def)

lemma last_output_Cons:
  "last_output node (ev # evs) = (case last_output node evs of Some v \<Rightarrow> Some v | None \<Rightarrow> last_output node [ev])"
  by (simp split: option.split)

lemma fold_outputs:
  assumes "\<And>ev S. map_of (gr_outputs (sm_run (f ev S))) node =
    (case last_output node [ev] of Some v \<Rightarrow> Some (step_output_record v) | None \<Rightarrow> map_of (gr_outputs (sm_run S)) node)"
  shows "map_of (gr_outputs (sm_run (fold f evs S))) node =
    (case last_output node evs of Some v \<Rightarrow> Some (step_output_record v) | None \<Rightarrow> map_of (gr_outputs (sm_run S)) node)"
proof (induction evs arbitrary: S)
  case (Cons ev evs)
  show ?case
    unfolding fold_simps Cons.IH assms last_output_Cons [of node ev evs] by (simp only: split: option.split) simp
qed simp

lemma settle_pause_outputs [simp]: "gr_outputs (settle_pause steps sn seen r) = gr_outputs r"
  by (simp add: settle_pause_def Let_def split: option.split)

lemma outputs_note_agent [simp]: "gr_outputs (sm_run (note_agent now sn S)) = gr_outputs (sm_run S)"
  by (auto simp: note_agent_def split: json.split list.split graph_status.split)

text \<open>
  Both streams record the same outputs, and for every step that ran the last one it gave: what a retry
  rebuilds the state from.
\<close>

theorem streams_record_outputs:
  assumes "is_step node"
  shows "map_of (gr_outputs (sm_run (fst (stream_graph_to_pause now handle steps input checkpoint evs (Settled sn) r rp)))) node =
      (case last_output node evs of Some v \<Rightarrow> Some (step_output_record v) | None \<Rightarrow> map_of (gr_outputs r) node) \<and>
    map_of (gr_outputs (sm_run (stream_graph now handle steps input checkpoint evs (Settled sn) r rp))) node =
      (case last_output node evs of Some v \<Rightarrow> Some (step_output_record v) | None \<Rightarrow> map_of (gr_outputs r) node)"
proof
  let ?S = "fold (pause_event now handle steps) evs (begin_stream r rp (snd (clear_stale r input checkpoint)))"
  let ?r = "(settle_pause steps sn (sm_interrupt ?S) (sm_run ?S))\<lparr>gr_state :=
      merge_out_of_band (sm_runs ?S) (gr_id (sm_run ?S)) (sn_values sn)\<rparr>"
  let ?T = "note_agent now sn (persist now ?r ?S)"
  have "gr_outputs (sm_run (fst (take_back now steps sn ?T))) = gr_outputs (sm_run ?S)"
    by (cases rule: take_back_cases [of now steps sn ?T]) (simp_all add: touch_def)
  then show "map_of (gr_outputs (sm_run (fst (stream_graph_to_pause now handle steps input checkpoint evs (Settled sn) r rp)))) node =
      (case last_output node evs of Some v \<Rightarrow> Some (step_output_record v) | None \<Rightarrow> map_of (gr_outputs r) node)"
    using fold_outputs [of "pause_event now handle steps" node evs "begin_stream r rp (snd (clear_stale r input checkpoint))", unfolded begin_stream_simps]
      pause_event_outputs [OF assms]
    by (simp add: stream_graph_to_pause_def pause_done_def Let_def)
  show "map_of (gr_outputs (sm_run (stream_graph now handle steps input checkpoint evs (Settled sn) r rp))) node =
      (case last_output node evs of Some v \<Rightarrow> Some (step_output_record v) | None \<Rightarrow> map_of (gr_outputs r) node)"
    using fold_outputs [of "api_event now handle steps" node evs "begin_stream r rp (initial_state input checkpoint)", unfolded begin_stream_simps]
      api_event_outputs [OF assms]
    by (simp add: stream_graph_def api_done_def Let_def)
qed

text \<open>
  The two streams agree on what a paused run waits for, as long as the interrupt is not an agent's
  request for an approval and the first interrupt tells whether any asks for context.
\<close>

theorem streams_agree:
  assumes "sn_next sn \<noteq> []"
    and "interrupt_type sn seen = JStr ''ask_context'' \<longleftrightarrow>
      (\<exists>ps \<in> set (sn_tasks sn). \<exists>p \<in> set ps. asks_context p) \<or> (\<exists>p \<in> set (sn_tops sn). asks_context p)"
    and "interrupt_type sn seen \<noteq> JStr ''ask_approval''"
  shows "gr_status (settle_pause steps sn seen r) = langgraph_status steps sn"
proof -
  obtain i rest where "sn_next sn = i # rest" using assms(1) by (cases "sn_next sn") auto
  then show ?thesis using assms(2,3)
    by (auto simp: settle_pause_def langgraph_status_def paused_at_def Let_def)
qed

section \<open>Examples\<close>

definition example_steps :: "jobj list" where
  "example_steps = [example_step ''a'' ''python'', example_step ''b'' ''claude-agent'', example_step ''c'' ''human_approval'']"

definition example_snapshot :: "string \<Rightarrow> string \<Rightarrow> snapshot" where
  "example_snapshot i kind = \<lparr>sn_values = [], sn_next = [i], sn_tasks = [[JObj [(''type'', JStr kind)]]], sn_tops = []\<rparr>"

text \<open>An agent asks for an approval: one stream waits for it, the other waits for the agent.\<close>

lemma agent_approval_unseen:
  "gr_status (settle_pause example_steps (example_snapshot ''b'' ''ask_approval'') JNull (example_run ''run'' R_Running 0)) =
     R_Waiting_Approval \<and>
   langgraph_status example_steps (example_snapshot ''b'' ''ask_approval'') = R_Waiting_Agent"
  by code_simp

text \<open>
  When the last route led back to the failed step, the answer the run is resumed with is replaced by a
  state that clears the sentinel: the answer is lost, and the graph starts anew.
\<close>

lemma answer_replaced:
  assumes "stale_sentinel r checkpoint"
  shows "fst (clear_stale r (Resume answer) checkpoint) = Fresh [(failed_key, JNull)]"
  using assms by (simp add: clear_stale_def initial_state_def Let_def)

lemma stale_example:
  "stale_sentinel ((example_run ''run'' R_Running 0)\<lparr>gr_routing :=
     [\<lparr>re_at = 0, re_event = Route, re_node = ''c'', re_target = ''x'', re_condition = [], re_iteration = 0\<rparr>]\<rparr>) example_failed"
  by code_simp

definition example_streaming :: streaming where
  "example_streaming =
     (let r = (example_run ''run'' R_Running 0)\<lparr>gr_statuses := [(''a'', Mark_Running), (''b'', Mark_Running)]\<rparr>
      in begin_stream r [(''run'', r)] [])"

text \<open>Of two branches that run, the first is charged with the exception, and the other stays running.\<close>

lemma first_branch_blamed:
  "gr_statuses (sm_run (pause_failed 0 (\<lambda>_. None) example_steps (JStr ''b broke'') [] example_streaming)) =
     [(''a'', Mark_Failed), (''b'', Mark_Running)]"
  by code_simp

text \<open>In the stream of the API an interrupt shows as a finished step.\<close>

lemma interrupt_shown_as_step:
  "map_of (gr_statuses (sm_run (api_event 0 (\<lambda>_. None) example_steps (Chunk ''__interrupt__'' (JList [JNull])) example_streaming)))
     ''__interrupt__'' = Some Mark_Finished"
  by code_simp

text \<open>
  Progress an agent posts while its step runs is written over by the next chunk of the pausing stream,
  before the final merge looks for it; the stream of the API reads it back first.
\<close>

definition progress_events :: "stream_event list" where
  "progress_events = [Starts (example_step ''b'' ''claude-agent'') [], Posts ''_agent_progress_b'' (JList [JStr ''half done'']),
     Chunk ''b'' (JObj [(''out'', JInt 1)])]"

definition progress_snapshot :: snapshot where
  "progress_snapshot = \<lparr>sn_values = [(''out'', JInt 1)], sn_next = [], sn_tasks = [], sn_tops = []\<rparr>"

lemma progress_lost:
  "map_of (gr_state (sm_run (fst (stream_graph_to_pause 0 (\<lambda>_. None) example_steps (Fresh []) [] progress_events
     (Settled progress_snapshot) (example_run ''run'' R_Running 0) [(''run'', example_run ''run'' R_Running 0)])))) ''_agent_progress_b'' = None"
  by code_simp

lemma progress_kept_by_api:
  "map_of (gr_state (sm_run (stream_graph 0 (\<lambda>_. None) example_steps (Fresh []) [] progress_events
     (Settled progress_snapshot) (example_run ''run'' R_Running 0) [(''run'', example_run ''run'' R_Running 0)]))) ''_agent_progress_b'' =
   Some (JList [JStr ''half done''])"
  by code_simp


theorem streams_record_outputs_witness:
  "map_of (gr_outputs (sm_run (stream_graph 0 (\<lambda>_. None) example_steps (Fresh []) [] progress_events
     (Settled progress_snapshot) (example_run ''run'' R_Running 0) []))) ''b'' = Some (JObj [(''out'', JInt 1)])"
proof -
  have "is_step ''b''" "last_output ''b'' progress_events = Some (JObj [(''out'', JInt 1)])"
    "step_output_record (JObj [(''out'', JInt 1)]) = JObj [(''out'', JInt 1)]" by code_simp+
  then show ?thesis using streams_record_outputs [of "''b''" 0 "\<lambda>_. None" example_steps "Fresh []" "[]" progress_events
      progress_snapshot "example_run ''run'' R_Running 0" "[]"] by simp
qed

theorem streams_agree_witness:
  "gr_status (settle_pause example_steps (example_snapshot ''b'' ''waiting_agent'') JNull (example_run ''run'' R_Running 0)) =
     langgraph_status example_steps (example_snapshot ''b'' ''waiting_agent'')"
  by (rule streams_agree; code_simp)

end
