(* ===== verification/RunControl.thy ===== *)
theory RunControl
  imports RunStream ScopedBackend ApprovalGuarantees JobProperties
begin

text \<open>
  Controlling a run: \<^verbatim>\<open>app/application/run_control.py\<close> (terminate, approve, reject, retry, restart from
  a step, and the guard of disabled workflows) with the runner lookups of
  \<^verbatim>\<open>app/api/routes/workflows.py\<close> and \<^verbatim>\<open>app/core/container.py\<close>.  An operation maps the container to a
  refusal or a result, and the container after it.  Agent pods are not modelled; LangGraph's
  \<^verbatim>\<open>aupdate_state\<close> is a parameter that may refuse.
\<close>

section \<open>The container\<close>

text \<open>A runner of a workflow: its steps and the copy of the flag it was built with.\<close>

record wf_runner =
  wr_id :: string
  wr_enabled :: bool
  wr_steps :: "jobj list"

record container =
  ct_runs :: runs
  ct_live :: "wf_runner dict"
  ct_registry :: "wf_runner dict"
  ct_world :: world
  ct_approvals :: approvals

text \<open>\<open>ca_build\<close> makes a runner from a snapshot of a definition, if it can.\<close>

record caller =
  ca_principal :: principal
  ca_subject :: "subject option"
  ca_now :: time
  ca_build :: "jobj \<Rightarrow> wf_runner option"
  ca_env :: env

datatype control_error =
    Needs_Write
  | Run_Not_Found
  | Not_Active graph_status
  | Not_Awaiting graph_status
  | No_Runner string
  | Not_Failed graph_status
  | Workflow_Disabled string
  | No_Definition
  | Cannot_Restart graph_status
  | Unknown_Step string
  | Seed_Failed

definition control_status :: "control_error \<Rightarrow> nat" where
  "control_status e =
     (case e of Needs_Write \<Rightarrow> 403 | Run_Not_Found \<Rightarrow> 404 | No_Runner _ \<Rightarrow> 404 | Seed_Failed \<Rightarrow> 500 | _ \<Rightarrow> 409)"

type_synonym 'a control = "(control_error + 'a) \<times> container"

section \<open>Guards\<close>

definition require_write :: "caller \<Rightarrow> control_error + unit" where
  "require_write ca = guardE (missing_permission (ca_principal ca) WRITE = None) Needs_Write"

definition require_run_visible :: "caller \<Rightarrow> container \<Rightarrow> graph_run \<Rightarrow> control_error + unit" where
  "require_run_visible ca ct r =
     guardE (workflow_visible (ca_subject ca) (ct_world ct) (Some (gr_graph r))) Run_Not_Found"

text \<open>A workflow without the flag is enabled.\<close>

definition workflow_enabled :: "resource \<Rightarrow> bool" where
  "workflow_enabled w =
     (case r_body w of
        JObj d \<Rightarrow> (case map_of d ''enabled'' of None \<Rightarrow> True | Some v \<Rightarrow> jtrue v)
      | _ \<Rightarrow> True)"

definition stored_workflow :: "caller \<Rightarrow> container \<Rightarrow> string \<Rightarrow> resource option" where
  "stored_workflow ca ct i =
     (case w_stores (ct_world ct) Workflow of
        None \<Rightarrow> None
      | Some _ \<Rightarrow> scoped_get (ca_subject ca) (ct_world ct) Workflow i)"

definition ensure_workflow_id_enabled :: "caller \<Rightarrow> container \<Rightarrow> string \<Rightarrow> control_error + unit" where
  "ensure_workflow_id_enabled ca ct i =
     (case stored_workflow ca ct i of
        Some w \<Rightarrow> guardE (workflow_enabled w) (Workflow_Disabled i)
      | None \<Rightarrow>
          (case map_of (ct_registry ct) i of
             None \<Rightarrow> Inr ()
           | Some rn \<Rightarrow> guardE (wr_enabled rn) (Workflow_Disabled i)))"

definition runner_for_run :: "container \<Rightarrow> graph_run \<Rightarrow> wf_runner option" where
  "runner_for_run ct r =
     (case map_of (ct_live ct) (gr_id r) of
        Some rn \<Rightarrow> Some rn
      | None \<Rightarrow> if gr_definition r = None then map_of (ct_registry ct) (gr_graph r) else None)"

definition build_runner_for_recovery :: "caller \<Rightarrow> container \<Rightarrow> graph_run \<Rightarrow> wf_runner option" where
  "build_runner_for_recovery ca ct r =
     (case Option.bind (gr_definition r) (ca_build ca) of
        Some rn \<Rightarrow> Some rn
      | None \<Rightarrow> map_of (ct_registry ct) (gr_graph r))"

definition save_run :: "caller \<Rightarrow> graph_run \<Rightarrow> container \<Rightarrow> container" where
  "save_run ca r ct = ct\<lparr>ct_runs := update_run (ca_now ca) (touch (ca_now ca) r) (ct_runs ct)\<rparr>"

section \<open>Terminate\<close>

definition cancel_child :: "time \<Rightarrow> graph_run \<Rightarrow> runs \<Rightarrow> runs" where
  "cancel_child now child rp =
     (if run_incomplete (gr_status child)
      then case get_run (gr_id child) rp of
             None \<Rightarrow> rp
           | Some full \<Rightarrow> update_run now (touch now (full\<lparr>gr_status := R_Cancelled\<rparr>)) rp
      else rp)"

definition user_stop_reason :: string where
  "user_stop_reason = ''Run terminated by user before the decision''"

definition terminate_run :: "caller \<Rightarrow> string \<Rightarrow> container \<Rightarrow> graph_run control" where
  "terminate_run ca i ct =
     (case require_write ca of
        Inl e \<Rightarrow> (Inl e, ct)
      | Inr _ \<Rightarrow>
          (case get_run i (ct_runs ct) of
             None \<Rightarrow> (Inl Run_Not_Found, ct)
           | Some r \<Rightarrow>
               (case require_run_visible ca ct r of
                  Inl e \<Rightarrow> (Inl e, ct)
                | Inr _ \<Rightarrow>
                    if gr_status r \<notin> set [R_Running, R_Waiting_Agent] then (Inl (Not_Active (gr_status r)), ct)
                    else
                      let rp = fold (cancel_child (ca_now ca)) (list_children i (ct_runs ct)) (ct_runs ct);
                          r' = touch (ca_now ca) (r\<lparr>gr_status := R_Failed,
                            gr_state := AList.update ''error'' (JStr ''Terminated by user'') (gr_state r)\<rparr>);
                          ct' = save_run ca r' (ct\<lparr>ct_runs := rp\<rparr>)
                      in (Inr r', ct'\<lparr>ct_live := AList.delete i (ct_live ct'),
                            ct_approvals := snd (cancel_open_for_run (ca_now ca) i user_stop_reason (ct_approvals ct'))\<rparr>))))"

section \<open>Approve and reject\<close>

definition claim_run :: "caller \<Rightarrow> string \<Rightarrow> container \<Rightarrow> graph_run control" where
  "claim_run ca i ct =
     (case (case get_run i (ct_runs ct) of None \<Rightarrow> Inr () | Some r \<Rightarrow> require_run_visible ca ct r) of
        Inl e \<Rightarrow> (Inl e, ct)
      | Inr _ \<Rightarrow>
          (case claim_for_resume (ca_now ca) i (ct_runs ct) of
             (Some r, rp) \<Rightarrow> (Inr r, ct\<lparr>ct_runs := rp\<rparr>)
           | (None, rp) \<Rightarrow>
               (case get_run i rp of
                  None \<Rightarrow> (Inl Run_Not_Found, ct\<lparr>ct_runs := rp\<rparr>)
                | Some r \<Rightarrow> (Inl (Not_Awaiting (gr_status r)), ct\<lparr>ct_runs := rp\<rparr>))))"

definition finish_gate :: "caller \<Rightarrow> graph_run \<Rightarrow> container \<Rightarrow> graph_run \<times> container" where
  "finish_gate ca r ct =
     (case gr_step r of
        Some (c # i) \<Rightarrow>
          let r' = touch (ca_now ca) (r\<lparr>gr_statuses := AList.update (c # i) Mark_Finished (gr_statuses r)\<rparr>)
          in (r', save_run ca r' ct)
      | _ \<Rightarrow> (r, ct))"

definition approve_run :: "caller \<Rightarrow> string \<Rightarrow> container \<Rightarrow> (graph_run \<times> wf_runner) control" where
  "approve_run ca i ct =
     (case require_write ca of
        Inl e \<Rightarrow> (Inl e, ct)
      | Inr _ \<Rightarrow>
          (case claim_run ca i ct of
             (Inl e, ct') \<Rightarrow> (Inl e, ct')
           | (Inr r, ct') \<Rightarrow>
               (case runner_for_run ct' r of
                  None \<Rightarrow> (Inl (No_Runner (gr_graph r)), ct')
                | Some rn \<Rightarrow> (case finish_gate ca r ct' of (r', ct'') \<Rightarrow> (Inr (r', rn), ct'')))))"

definition reject_run :: "caller \<Rightarrow> string \<Rightarrow> container \<Rightarrow> (graph_run \<times> wf_runner) control" where
  "reject_run = approve_run"

text \<open>What a decision resumes the graph with, and the end of the resumed stream.\<close>

record decision_by =
  db_name :: json
  db_id :: json
  db_source :: json
  db_at :: json

definition approval_answer :: "json \<Rightarrow> decision_by \<Rightarrow> jobj" where
  "approval_answer corrections who =
     [(''approved'', JBool True), (''corrections'', corrections), (''approver_name'', db_name who),
      (''approver_id'', db_id who), (''approver_source'', db_source who), (''decided_at'', db_at who)]"

definition rejection_answer :: "json \<Rightarrow> decision_by \<Rightarrow> jobj" where
  "rejection_answer reason who =
     [(''approved'', JBool False), (''reason'', reason), (''approver_name'', db_name who),
      (''approver_id'', db_id who), (''approver_source'', db_source who), (''decided_at'', db_at who)]"

record stream_of =
  so_handle :: "jobj \<Rightarrow> jobj option"
  so_checkpoint :: jobj
  so_events :: "stream_event list"
  so_end :: stream_end

definition drive :: "caller \<Rightarrow> wf_runner \<Rightarrow> graph_input \<Rightarrow> stream_of \<Rightarrow> graph_run \<Rightarrow> container \<Rightarrow> graph_run \<times> container" where
  "drive ca rn input st r ct =
     (let S = stream_graph (ca_now ca) (so_handle st) (wr_steps rn) input (so_checkpoint st) (so_events st) (so_end st) r (ct_runs ct)
      in (sm_run S, ct\<lparr>ct_runs := sm_runs S\<rparr>))"

definition drop_live :: "graph_run \<Rightarrow> container \<Rightarrow> container" where
  "drop_live r ct = (if run_over (gr_status r) then ct\<lparr>ct_live := AList.delete (gr_id r) (ct_live ct)\<rparr> else ct)"

definition resume_approved ::
    "caller \<Rightarrow> wf_runner \<Rightarrow> json \<Rightarrow> decision_by \<Rightarrow> stream_of \<Rightarrow> graph_run \<Rightarrow> container \<Rightarrow> graph_run \<times> container" where
  "resume_approved ca rn corrections who st r ct =
     (case drive ca rn (Resume (approval_answer corrections who)) st r ct of
        (r', ct') \<Rightarrow> (r', drop_live r' ct'))"

definition rejection_continues :: "wf_runner \<Rightarrow> graph_run \<Rightarrow> bool" where
  "rejection_continues rn r \<longleftrightarrow>
     (case gr_step r of None \<Rightarrow> False | Some i \<Rightarrow> type_of (wr_steps rn) i = JStr ''dynamic'')"

definition resume_rejected ::
    "caller \<Rightarrow> wf_runner \<Rightarrow> json \<Rightarrow> decision_by \<Rightarrow> stream_of \<Rightarrow> graph_run \<Rightarrow> container \<Rightarrow> graph_run \<times> container" where
  "resume_rejected ca rn reason who st r ct =
     (case drive ca rn (Resume (rejection_answer reason who)) st r ct of
        (r1, ct1) \<Rightarrow>
          let (r2, ct2) =
            (if gr_status r1 = R_Completed \<and> \<not> rejection_continues rn r
             then let r2 = touch (ca_now ca) (r1\<lparr>gr_status := R_Rejected\<rparr>) in (r2, save_run ca r2 ct1)
             else (r1, ct1))
          in (r2, drop_live r2 ct2))"

section \<open>Retry and restart\<close>

definition step_done :: "graph_run \<Rightarrow> string \<Rightarrow> bool" where
  "step_done r i \<longleftrightarrow> map_of (gr_statuses r) i \<in> set [Some Mark_Finished, Some Mark_Skipped]"

definition output_dict :: "graph_run \<Rightarrow> string \<Rightarrow> jobj" where
  "output_dict r i = (case map_of (gr_outputs r) i of Some (JObj u) \<Rightarrow> u | _ \<Rightarrow> [])"

text \<open>The state of the steps that are done, a later step over an earlier, and the last of them.\<close>

definition gather_done :: "graph_run \<Rightarrow> jobj list \<Rightarrow> jobj" where
  "gather_done r steps =
     fold (\<lambda>step s. if step_done r (step_id step) then overlay s (output_dict r (step_id step)) else s) steps
       [(''request'', JStr (gr_request r))]"

definition last_done :: "graph_run \<Rightarrow> jobj list \<Rightarrow> string option" where
  "last_done r steps = map_option step_id (find (\<lambda>step. step_done r (step_id step)) (rev steps))"

text \<open>\<^verbatim>\<open>setdefault\<close>.\<close>

definition set_default :: "string \<times> json \<Rightarrow> jobj \<Rightarrow> jobj" where
  "set_default = (\<lambda>(k, v) s. if k \<in> dict_keys s then s else s @ [(k, v)])"

definition seed_internal :: "(string \<times> json \<Rightarrow> bool) \<Rightarrow> jobj \<Rightarrow> jobj \<Rightarrow> jobj" where
  "seed_internal ok state s = fold set_default (filter (\<lambda>(k, v). starts_with ''_'' k \<and> ok (k, v)) state) s"

definition retry_state :: "graph_run \<Rightarrow> jobj list \<Rightarrow> jobj" where
  "retry_state r steps =
     seed_internal (\<lambda>(k, v). k \<noteq> counts_key \<and> v \<noteq> JNull) (gr_state r) (gather_done r steps)"

definition reset_step :: "env \<Rightarrow> jobj \<Rightarrow> graph_run \<Rightarrow> graph_run" where
  "reset_step E step r =
     (let i = step_id step
      in r\<lparr>gr_statuses := AList.update i Mark_Pending (gr_statuses r),
           gr_dynamic := (case (jget step ''type'' = JStr ''dynamic'', map_of (gr_dynamic r) i) of
               (True, Some d) \<Rightarrow> AList.update i (reset_for_retry E d) (gr_dynamic r)
             | _ \<Rightarrow> gr_dynamic r)\<rparr>)"

definition from_failed :: "graph_run \<Rightarrow> jobj list \<Rightarrow> jobj list" where
  "from_failed r steps = dropWhile (\<lambda>step. map_of (gr_statuses r) (step_id step) \<noteq> Some Mark_Failed) steps"

definition resume_input :: "string option \<Rightarrow> jobj \<Rightarrow> graph_input" where
  "resume_input done s = (case done of None \<Rightarrow> Fresh s | Some _ \<Rightarrow> Go_On)"

text \<open>\<open>seeds\<close>: whether the graph takes the state as the output of the step that was done last.\<close>

definition retry_run ::
    "caller \<Rightarrow> (jobj \<Rightarrow> string \<Rightarrow> bool) \<Rightarrow> string \<Rightarrow> container \<Rightarrow> (graph_run \<times> wf_runner \<times> graph_input) control" where
  "retry_run ca seeds i ct =
     (case require_write ca of
        Inl e \<Rightarrow> (Inl e, ct)
      | Inr _ \<Rightarrow>
          (case get_run i (ct_runs ct) of
             None \<Rightarrow> (Inl Run_Not_Found, ct)
           | Some r \<Rightarrow>
               (case require_run_visible ca ct r of
                  Inl e \<Rightarrow> (Inl e, ct)
                | Inr _ \<Rightarrow>
                    if gr_status r \<noteq> R_Failed then (Inl (Not_Failed (gr_status r)), ct)
                    else
                      (case ensure_workflow_id_enabled ca ct (gr_graph r) of
                         Inl e \<Rightarrow> (Inl e, ct)
                       | Inr _ \<Rightarrow>
                           (case build_runner_for_recovery ca ct r of
                              None \<Rightarrow> (Inl No_Definition, ct)
                            | Some rn \<Rightarrow>
                                let s = retry_state r (wr_steps rn); ld = last_done r (wr_steps rn);
                                    r' = touch (ca_now ca) ((fold (reset_step (ca_env ca)) (from_failed r (wr_steps rn)) r)
                                      \<lparr>gr_status := R_Running, gr_step := None, gr_state := s\<rparr>)
                                in if (case ld of None \<Rightarrow> False | Some d \<Rightarrow> \<not> seeds s d) then (Inl Seed_Failed, ct)
                                   else (Inr (r', rn, resume_input ld s),
                                     (save_run ca r' ct)\<lparr>ct_live := AList.update i rn (ct_live ct)\<rparr>))))))"

definition restart_gather :: "graph_run \<Rightarrow> jobj list \<Rightarrow> jobj \<Rightarrow> jobj" where
  "restart_gather r before s =
     fold (\<lambda>step s. if step_done r (step_id step)
       then fold set_default (filter (\<lambda>(k, v). k \<noteq> counts_key) (output_dict r (step_id step))) s else s) before s"

definition transient_keys :: "string list" where
  "transient_keys = [''_slack_ask_context_ts'', ''_slack_ask_context_channel'', ''_pending_question'']"

definition restart_state :: "graph_run \<Rightarrow> jobj list \<Rightarrow> jobj" where
  "restart_state r before =
     fold AList.delete transient_keys
       (restart_gather r before
         (seed_internal (\<lambda>(k, v). k \<noteq> counts_key) (gr_state r) [(''request'', JStr (gr_request r))]))"

definition forget_step :: "jobj \<Rightarrow> graph_run \<Rightarrow> graph_run" where
  "forget_step step r =
     (let i = step_id step
      in r\<lparr>gr_statuses := AList.update i Mark_Pending (gr_statuses r), gr_inputs := AList.delete i (gr_inputs r),
           gr_outputs := AList.delete i (gr_outputs r),
           gr_dynamic := (if jget step ''type'' = JStr ''dynamic'' then AList.delete i (gr_dynamic r) else gr_dynamic r)\<rparr>)"

definition restart_from_step ::
    "caller \<Rightarrow> (jobj \<Rightarrow> string \<Rightarrow> bool) \<Rightarrow> string \<Rightarrow> string \<Rightarrow> container \<Rightarrow>
     (graph_run \<times> wf_runner \<times> graph_input) control" where
  "restart_from_step ca seeds i from_step ct =
     (case require_write ca of
        Inl e \<Rightarrow> (Inl e, ct)
      | Inr _ \<Rightarrow>
          (case get_run i (ct_runs ct) of
             None \<Rightarrow> (Inl Run_Not_Found, ct)
           | Some r \<Rightarrow>
               (case require_run_visible ca ct r of
                  Inl e \<Rightarrow> (Inl e, ct)
                | Inr _ \<Rightarrow>
                    if gr_status r \<in> set [R_Cancelled, R_Rejected, R_Running] then (Inl (Cannot_Restart (gr_status r)), ct)
                    else
                      (case ensure_workflow_id_enabled ca ct (gr_graph r) of
                         Inl e \<Rightarrow> (Inl e, ct)
                       | Inr _ \<Rightarrow>
                           (case build_runner_for_recovery ca ct r of
                              None \<Rightarrow> (Inl No_Definition, ct)
                            | Some rn \<Rightarrow>
                                if from_step \<notin> set (map step_id (wr_steps rn)) then (Inl (Unknown_Step from_step), ct)
                                else
                                  let before = takeWhile (\<lambda>step. step_id step \<noteq> from_step) (wr_steps rn);
                                      rest = dropWhile (\<lambda>step. step_id step \<noteq> from_step) (wr_steps rn);
                                      s = restart_state r before; ld = last_done r before;
                                      r' = touch (ca_now ca) ((fold forget_step rest r)\<lparr>gr_step := None, gr_agent_url := None,
                                        gr_status := R_Running, gr_state := s\<rparr>);
                                      ct' = save_run ca r' (ct\<lparr>ct_live := AList.delete i (ct_live ct)\<rparr>)
                                  in if (case ld of None \<Rightarrow> False | Some d \<Rightarrow> \<not> seeds s d) then (Inl Seed_Failed, ct')
                                     else (Inr (r', rn, resume_input ld s), ct'\<lparr>ct_live := AList.update i rn (ct_live ct')\<rparr>))))))"

definition retry_graph ::
    "caller \<Rightarrow> wf_runner \<Rightarrow> graph_input \<Rightarrow> stream_of \<Rightarrow> graph_run \<Rightarrow> container \<Rightarrow> graph_run \<times> container" where
  "retry_graph ca rn input st r ct = (case drive ca rn input st r ct of (r', ct') \<Rightarrow> (r', drop_live r' ct'))"

section \<open>Refusals\<close>

datatype control_op = Terminate | Approve | Reject | Retry | Restart string

definition refusal :: "'a control \<Rightarrow> control_error option \<times> container" where
  "refusal x = (case x of (Inl e, ct) \<Rightarrow> (Some e, ct) | (Inr _, ct) \<Rightarrow> (None, ct))"

definition control :: "caller \<Rightarrow> (jobj \<Rightarrow> string \<Rightarrow> bool) \<Rightarrow> control_op \<Rightarrow> string \<Rightarrow> container \<Rightarrow> control_error option \<times> container" where
  "control ca seeds op i ct =
     (case op of
        Terminate \<Rightarrow> refusal (terminate_run ca i ct)
      | Approve \<Rightarrow> refusal (approve_run ca i ct)
      | Reject \<Rightarrow> refusal (reject_run ca i ct)
      | Retry \<Rightarrow> refusal (retry_run ca seeds i ct)
      | Restart from_step \<Rightarrow> refusal (restart_from_step ca seeds i from_step ct))"

lemma refusal_simps [simp]: "refusal (Inl e, ct) = (Some e, ct)" "refusal (Inr x, ct) = (None, ct)"
  by (simp_all add: refusal_def)

lemma guard_cases [simp]:
  "require_write ca = Inr u \<longleftrightarrow> missing_permission (ca_principal ca) WRITE = None"
  "require_run_visible ca ct r = Inr u \<longleftrightarrow> workflow_visible (ca_subject ca) (ct_world ct) (Some (gr_graph r))"
  by (simp_all add: require_write_def require_run_visible_def guardE_def)

lemma require_write_Inl: "require_write ca = Inl e \<Longrightarrow> e = Needs_Write"
  by (simp add: require_write_def guardE_def split: if_splits)

lemma require_visible_Inl: "require_run_visible ca ct r = Inl e \<Longrightarrow> e = Run_Not_Found"
  by (simp add: require_run_visible_def guardE_def split: if_splits)

text \<open>The call passes the guards every operation shares, for the run \<open>r\<close>.\<close>

definition admitted :: "caller \<Rightarrow> string \<Rightarrow> container \<Rightarrow> graph_run \<Rightarrow> bool" where
  "admitted ca i ct r \<longleftrightarrow>
     missing_permission (ca_principal ca) WRITE = None \<and> get_run i (ct_runs ct) = Some r \<and>
     workflow_visible (ca_subject ca) (ct_world ct) (Some (gr_graph r))"

definition half_way :: "control_error \<Rightarrow> bool" where
  "half_way e \<longleftrightarrow> (case e of No_Runner _ \<Rightarrow> True | Seed_Failed \<Rightarrow> True | _ \<Rightarrow> False)"

lemma terminate_refused:
  assumes "terminate_run ca i ct = (res, ct')"
  shows "(\<forall>e. res = Inl e \<longrightarrow> ct' = ct) \<and> (\<forall>r. res = Inr r \<longrightarrow> (\<exists>r0. admitted ca i ct r0))"
  using assms by (auto simp: terminate_run_def admitted_def Let_def split: sum.splits option.splits if_splits)

lemma claim_cases:
  assumes "claim_run ca i ct = (res, ct')"
  obtains e where "res = Inl e" "ct' = ct"
  | r where "res = Inr (r\<lparr>gr_status := R_Running, gr_updated := ca_now ca\<rparr>)" "get_run i (ct_runs ct) = Some r"
      "gr_status r = R_Waiting_Approval" "workflow_visible (ca_subject ca) (ct_world ct) (Some (gr_graph r))"
      "ct' = ct\<lparr>ct_runs := AList.update i (r\<lparr>gr_status := R_Running, gr_updated := ca_now ca\<rparr>) (ct_runs ct)\<rparr>"
proof (cases "\<exists>e. res = Inl e")
  case True
  then have "ct' = ct"
    using assms claim_for_resume_None [of "ca_now ca" i "ct_runs ct"]
    by (auto simp: claim_run_def split: option.splits sum.splits prod.splits)
  then show thesis using True that(1) by blast
next
  case False
  then obtain x where x: "res = Inr x" by (cases res) auto
  then obtain rp where c: "claim_for_resume (ca_now ca) i (ct_runs ct) = (Some x, rp)" "ct' = ct\<lparr>ct_runs := rp\<rparr>"
      "case get_run i (ct_runs ct) of None \<Rightarrow> True | Some r \<Rightarrow> require_run_visible ca ct r = Inr ()"
    using assms by (auto simp: claim_run_def split: option.splits sum.splits prod.splits)
  from c(1) obtain r where r: "get_run i (ct_runs ct) = Some r" "gr_status r = R_Waiting_Approval"
      "x = r\<lparr>gr_status := R_Running, gr_updated := ca_now ca\<rparr>" "rp = AList.update i x (ct_runs ct)"
    by (rule claim_for_resume_Some)
  show thesis by (rule that(2) [of r]) (use x c r in simp_all)
qed

lemma approve_refused:
  assumes "approve_run ca i ct = (res, ct')"
  shows "(\<forall>e. res = Inl e \<longrightarrow> \<not> half_way e \<longrightarrow> ct' = ct) \<and> (\<forall>x. res = Inr x \<longrightarrow> (\<exists>r. admitted ca i ct r))"
proof (cases "require_write ca")
  case (Inl e)
  then show ?thesis using assms by (auto simp: approve_run_def)
next
  case (Inr u)
  obtain res' ct1 where c: "claim_run ca i ct = (res', ct1)" by (rule prod.exhaust)
  from c show ?thesis
  proof (cases rule: claim_cases)
    case (1 e)
    then show ?thesis using assms Inr c by (auto simp: approve_run_def)
  next
    case (2 r)
    then have "admitted ca i ct r" using Inr by (simp add: admitted_def)
    then show ?thesis using assms Inr c 2
      by (auto simp: approve_run_def half_way_def split: option.splits prod.splits)
  qed
qed

lemma retry_refused:
  assumes "retry_run ca seeds i ct = (res, ct')"
  shows "(\<forall>e. res = Inl e \<longrightarrow> ct' = ct) \<and>
    (\<forall>x. res = Inr x \<longrightarrow> (\<exists>r. admitted ca i ct r \<and> ensure_workflow_id_enabled ca ct (gr_graph r) = Inr ()))"
  using assms by (auto simp: retry_run_def admitted_def Let_def split: sum.splits option.splits if_splits)

lemma restart_refused:
  assumes "restart_from_step ca seeds i from_step ct = (res, ct')"
  shows "(\<forall>e. res = Inl e \<longrightarrow> \<not> half_way e \<longrightarrow> ct' = ct) \<and>
    (\<forall>x. res = Inr x \<longrightarrow> (\<exists>r. admitted ca i ct r \<and> ensure_workflow_id_enabled ca ct (gr_graph r) = Inr ()))"
  using assms
  by (auto simp: restart_from_step_def admitted_def half_way_def Let_def split: sum.splits option.splits if_splits)

lemma refusal_cases:
  "refusal x = (None, ct') \<longleftrightarrow> (\<exists>v. x = (Inr v, ct'))" "refusal x = (Some e, ct') \<longleftrightarrow> x = (Inl e, ct')"
  by (auto simp: refusal_def split: prod.split sum.split)

text \<open>
  C15: A refused operation changes nothing, unless it had claimed the run before it found no runner, or
  persisted the restart before the graph refused the state; and an operation that goes through was called
  with the permission to write, on a run of a workflow the caller sees.
\<close>

theorem control_guarded:
  assumes "control ca seeds op i ct = (refused, ct')"
  shows "case refused of
      Some e \<Rightarrow> half_way e \<or> ct' = ct
    | None \<Rightarrow> \<exists>r. admitted ca i ct r \<and>
        (op = Retry \<or> (\<exists>s. op = Restart s) \<longrightarrow> ensure_workflow_id_enabled ca ct (gr_graph r) = Inr ())"
proof (cases op)
  case Terminate
  then show ?thesis using assms terminate_refused [of ca i ct]
    by (auto simp: control_def refusal_cases split: option.split)
next
  case Approve
  then show ?thesis using assms approve_refused [of ca i ct]
    by (auto simp: control_def refusal_cases split: option.split)
next
  case Reject
  then show ?thesis using assms approve_refused [of ca i ct]
    by (auto simp: control_def reject_run_def refusal_cases split: option.split)
next
  case Retry
  then show ?thesis using assms retry_refused [of ca seeds i ct]
    by (auto simp: control_def refusal_cases split: option.split)
next
  case (Restart s)
  then show ?thesis using assms restart_refused [of ca seeds i s ct]
    by (auto simp: control_def refusal_cases split: option.split)
qed

section \<open>One decision\<close>

text \<open>How many of a row of approvals and rejections of one run go through.\<close>

fun decisions_made :: "(caller \<times> bool) list \<Rightarrow> string \<Rightarrow> container \<Rightarrow> nat" where
  "decisions_made [] i ct = 0"
| "decisions_made ((ca, approves) # rest) i ct =
     (case control ca (\<lambda>_ _. True) (if approves then Approve else Reject) i ct of
        (None, ct') \<Rightarrow> Suc (decisions_made rest i ct')
      | (Some e, ct') \<Rightarrow> decisions_made rest i ct')"

definition awaits_decision :: "string \<Rightarrow> container \<Rightarrow> bool" where
  "awaits_decision i ct \<longleftrightarrow> (\<exists>r. get_run i (ct_runs ct) = Some r \<and> gr_status r = R_Waiting_Approval)"

lemma approve_effect:
  assumes "approve_run ca i ct = (res, ct')" and "runs_ok (ct_runs ct)"
  shows "ct' = ct \<and> (\<exists>e. res = Inl e) \<or> awaits_decision i ct \<and> \<not> awaits_decision i ct' \<and> runs_ok (ct_runs ct')"
proof (cases "require_write ca")
  case (Inl e)
  then show ?thesis using assms by (auto simp: approve_run_def)
next
  case (Inr u)
  obtain res' ct1 where c: "claim_run ca i ct = (res', ct1)" by (rule prod.exhaust)
  from c show ?thesis
  proof (cases rule: claim_cases)
    case (1 e)
    then show ?thesis using assms Inr c by (auto simp: approve_run_def)
  next
    case (2 r)
    let ?r = "r\<lparr>gr_status := R_Running, gr_updated := ca_now ca\<rparr>"
    have i: "gr_id r = i" using assms(2) 2(2) by (simp add: runs_ok_def)
    have ct1: "get_run i (ct_runs ct1) = Some ?r" "runs_ok (ct_runs ct1)"
      using assms(2) 2 i by (auto simp: runs_ok_def)
    have "awaits_decision i ct" using 2 by (auto simp: awaits_decision_def)
    moreover have "\<not> awaits_decision i ct1" using ct1 by (simp add: awaits_decision_def)
    moreover have "\<not> awaits_decision i (snd (finish_gate ca ?r ct1)) \<and> runs_ok (ct_runs (snd (finish_gate ca ?r ct1)))"
      using ct1 i by (auto simp: finish_gate_def save_run_def awaits_decision_def Let_def split: option.split list.split)
    ultimately show ?thesis using assms(1) Inr c 2 ct1
      by (auto simp: approve_run_def split: option.splits prod.splits)
  qed
qed

text \<open>
  C13: Of any number of approvals and rejections of a run that waits, however they come, at most one goes through.
\<close>

theorem decided_once:
  assumes "runs_ok (ct_runs ct)"
  shows "decisions_made calls i ct \<le> 1"
proof -
  have "decisions_made calls i ct \<le> (if awaits_decision i ct then 1 else 0)"
    using assms
  proof (induction calls arbitrary: ct)
    case (Cons call calls)
    obtain ca approves where call: "call = (ca, approves)" by (cases call)
    obtain res ct' where a: "approve_run ca i ct = (res, ct')" by (rule prod.exhaust)
    have "control ca (\<lambda>_ _. True) (if approves then Approve else Reject) i ct = refusal (res, ct')"
      by (simp add: control_def reject_run_def a)
    moreover have "ct' = ct \<and> (\<exists>e. res = Inl e) \<or> awaits_decision i ct \<and> \<not> awaits_decision i ct' \<and> runs_ok (ct_runs ct')"
      using approve_effect [OF a Cons.prems] .
    ultimately show ?case using Cons.IH [of ct] Cons.IH [of ct'] Cons.prems
      by (cases res) (auto simp: call split: if_splits)
  qed simp
  then show ?thesis by (simp split: if_splits)
qed

section \<open>A run that is terminated\<close>

lemma cancel_child_spec:
  assumes "runs_ok rp"
  shows "runs_ok (cancel_child now c rp)"
    and "get_run j (cancel_child now c rp) = Some r' \<Longrightarrow>
      gr_status r' = R_Cancelled \<or> get_run j rp = Some r' \<and> \<not> (gr_id c = j \<and> run_incomplete (gr_status c))"
proof -
  show "runs_ok (cancel_child now c rp)" using assms by (simp add: cancel_child_def split: option.split)
  have "gr_id full = gr_id c" if "get_run (gr_id c) rp = Some full" for full
    using that assms by (simp add: runs_ok_def)
  then show "gr_status r' = R_Cancelled \<or> get_run j rp = Some r' \<and> \<not> (gr_id c = j \<and> run_incomplete (gr_status c))"
    if "get_run j (cancel_child now c rp) = Some r'"
    using that by (auto simp: cancel_child_def split: option.splits if_splits)
qed

lemma cancel_children:
  assumes "runs_ok rp"
  shows "runs_ok (fold (cancel_child now) cs rp) \<and>
    (\<forall>j r'. get_run j (fold (cancel_child now) cs rp) = Some r' \<longrightarrow>
      gr_status r' = R_Cancelled \<or>
      get_run j rp = Some r' \<and> (\<forall>c \<in> set cs. \<not> (gr_id c = j \<and> run_incomplete (gr_status c))))"
  using assms
proof (induction cs arbitrary: rp)
  case (Cons c cs)
  note one = cancel_child_spec [OF Cons.prems, where now = now and c = c]
  have ih: "runs_ok (fold (cancel_child now) cs (cancel_child now c rp)) \<and>
    (\<forall>j r'. get_run j (fold (cancel_child now) cs (cancel_child now c rp)) = Some r' \<longrightarrow>
      gr_status r' = R_Cancelled \<or>
      get_run j (cancel_child now c rp) = Some r' \<and> (\<forall>c \<in> set cs. \<not> (gr_id c = j \<and> run_incomplete (gr_status c))))"
    by (rule Cons.IH [OF one(1)])
  then show ?case using one(2) by fastforce
qed simp

lemma listed_child:
  assumes "runs_ok rp" and "get_run j rp = Some r" and "gr_parent r = Some i" and "gr_job r" and "run_incomplete (gr_status r)"
  shows "\<exists>c \<in> set (list_children i rp). gr_id c = j \<and> run_incomplete (gr_status c)"
proof -
  have "r \<in> snd ` set rp" using assms(2) by (force simp: get_run_def dest: map_of_SomeD)
  moreover have "gr_id r = j" using assms(1,2) by (simp add: runs_ok_def)
  ultimately show ?thesis using assms(3-5) by (force simp: list_children_def)
qed

text \<open>
  C14: A terminated run is over with all that belongs to it: it has failed, none of its job runs goes on, no
  runner is kept for it, and none of its approval cases is open.
\<close>

theorem terminated_run_is_dead:
  assumes "terminate_run ca i ct = (Inr r, ct')" and "runs_ok (ct_runs ct)" and "i \<noteq> []"
    and "approval_run no_approvals claimed (ct_approvals ct)"
  shows "get_run i (ct_runs ct') = Some r \<and> gr_status r = R_Failed \<and> map_of (ct_live ct') i = None \<and>
    (\<forall>j c. get_run j (ct_runs ct') = Some c \<longrightarrow> gr_parent c = Some i \<longrightarrow> gr_job c \<longrightarrow> \<not> run_incomplete (gr_status c)) \<and>
    (\<forall>k c. ap_get (ct_approvals ct') k = Some c \<longrightarrow> ac_run c = i \<longrightarrow> ac_status c \<noteq> Open_Case)"
proof -
  let ?rp = "fold (cancel_child (ca_now ca)) (list_children i (ct_runs ct)) (ct_runs ct)"
  obtain r0 where r0: "get_run i (ct_runs ct) = Some r0"
    and r: "r = touch (ca_now ca) (r0\<lparr>gr_status := R_Failed,
        gr_state := AList.update ''error'' (JStr ''Terminated by user'') (gr_state r0)\<rparr>)"
    and runs: "ct_runs ct' = update_run (ca_now ca) (touch (ca_now ca) r) ?rp"
    and live: "ct_live ct' = AList.delete i (ct_live ct)"
    and appr: "ct_approvals ct' = snd (cancel_open_for_run (ca_now ca) i user_stop_reason (ct_approvals ct))"
    using assms(1)
    by (auto simp: terminate_run_def save_run_def Let_def split: sum.splits option.splits if_splits)
  have id: "gr_id r = i" using assms(2) r0 r by (simp add: runs_ok_def)
  then have stored: "get_run i (ct_runs ct') = Some r" using runs r by simp
  have "\<not> run_incomplete (gr_status c)"
    if c: "get_run j (ct_runs ct') = Some c" "gr_parent c = Some i" "gr_job c" for j c
  proof (cases "j = i")
    case True
    then have "gr_status c = R_Failed" using c(1) stored r by auto
    then show ?thesis by (simp add: run_incomplete_def)
  next
    case False
    then have "get_run j ?rp = Some c" using c(1) runs id by simp
    then consider "gr_status c = R_Cancelled"
      | "get_run j (ct_runs ct) = Some c"
        "\<forall>c \<in> set (list_children i (ct_runs ct)). \<not> (gr_id c = j \<and> run_incomplete (gr_status c))"
      using cancel_children [OF assms(2)] by blast
    then show ?thesis
    proof cases
      case 1
      then show ?thesis by (simp add: run_incomplete_def)
    next
      case 2
      then show ?thesis using listed_child [OF assms(2) 2(1) c(2,3)] by blast
    qed
  qed
  then have children: "\<forall>j c. get_run j (ct_runs ct') = Some c \<longrightarrow> gr_parent c = Some i \<longrightarrow> gr_job c \<longrightarrow> \<not> run_incomplete (gr_status c)"
    by blast
  obtain closed s' where closed: "cancel_open_for_run (ca_now ca) i user_stop_reason (ct_approvals ct) = (closed, s')"
    by (rule prod.exhaust)
  with drain_run_spec [of "ca_now ca" i user_stop_reason "ct_approvals ct" closed s']
    history_gate_ok [OF assms(4)] assms(3)
  have "gate_ok s'" "find_pending_for_run s' i None = None" by (simp_all add: cancel_open_for_run_def)
  then have "\<forall>k c. ap_get s' k = Some c \<longrightarrow> ac_run c = i \<longrightarrow> ac_status c \<noteq> Open_Case"
    using find_pending_None [of s' i] by (auto simp: gate_ok_def)
  moreover have "ct_approvals ct' = s'" using appr closed by simp
  moreover have "gr_status r = R_Failed" by (simp add: r)
  ultimately show ?thesis using stored live children by simp
qed

section \<open>What a retry starts from\<close>

lemma set_default_other: "k' \<noteq> k \<Longrightarrow> map_of (set_default (k', v) s) k = map_of s k"
  by (auto simp: set_default_def map_add_def split: option.split)

lemma set_default_keeps: "map_of s k = Some v \<Longrightarrow> map_of (set_default x s) k = Some v"
  by (cases x) (auto simp: set_default_def map_add_def split: option.split)

lemma fold_set_default_other:
  "(\<And>k' v. (k', v) \<in> set xs \<Longrightarrow> k' \<noteq> k) \<Longrightarrow> map_of (fold set_default xs s) k = map_of s k"
proof (induction xs arbitrary: s)
  case (Cons x xs)
  obtain k' v where x: "x = (k', v)" by (cases x)
  then have "k' \<noteq> k" using Cons.prems [of k' v] by simp
  then have "map_of (set_default x s) k = map_of s k" by (simp add: x set_default_other)
  moreover have "map_of (fold set_default xs (set_default x s)) k = map_of (set_default x s) k"
    by (rule Cons.IH) (use Cons.prems in auto)
  ultimately show ?case by simp
qed simp

lemma fold_set_default_keeps: "map_of s k = Some v \<Longrightarrow> map_of (fold set_default xs s) k = Some v"
  by (induction xs arbitrary: s) (simp_all add: set_default_keeps)

lemma seed_internal_public: "\<not> starts_with ''_'' k \<Longrightarrow> map_of (seed_internal ok state s) k = map_of s k"
  unfolding seed_internal_def by (rule fold_set_default_other) auto

lemma overlay_record:
  "k \<noteq> counts_key \<Longrightarrow> map_of (overlay s (output_dict r i)) k =
     map_of (overlay s u) k" if "map_of (gr_outputs r) i = Some (step_output_record (JObj u))" "dict_ok u"
proof -
  assume k: "k \<noteq> counts_key"
  have "output_dict r i = filter (\<lambda>(k, x). k \<noteq> counts_key) u"
    using that(1) by (simp add: output_dict_def step_output_record_def counts_key_def)
  moreover have "dict_ok (filter (\<lambda>(k, x). k \<noteq> counts_key) u)"
    using that(2) by (simp add: dict_ok_def distinct_map_filter)
  moreover have "map_of (filter (\<lambda>(k, x). k \<noteq> counts_key) u) k = map_of u k"
    using k by (induction u) auto
  ultimately show ?thesis using that(2) by (simp add: map_of_overlay)
qed

lemma overlay_cong:
  "dict_ok u \<Longrightarrow> map_of s k = map_of t k \<Longrightarrow> map_of (overlay s u) k = map_of (overlay t u) k"
  by (simp add: map_of_overlay split: option.split)

text \<open>The chunks of steps that ran once each, in the order of the workflow.\<close>

definition chunks :: "(jobj \<times> jobj) list \<Rightarrow> stream_event list" where
  "chunks steps_run = map (\<lambda>(step, u). Chunk (step_id step) (JObj u)) steps_run"

lemma gather_straight:
  assumes "\<And>step u. (step, u) \<in> set steps_run \<Longrightarrow> is_step (step_id step) \<and> dict_ok u \<and> step_done r (step_id step) \<and>
      map_of (gr_outputs r) (step_id step) = Some (step_output_record (JObj u))"
    and "k \<noteq> counts_key" and "map_of s k = map_of t k"
  shows "map_of (fold (\<lambda>step s. if step_done r (step_id step) then overlay s (output_dict r (step_id step)) else s)
      (map fst steps_run) s) k = map_of (final_state (chunks steps_run) t) k"
  using assms(1,3)
proof (induction steps_run arbitrary: s t)
  case (Cons x xs)
  obtain step u where x: "x = (step, u)" by (cases x)
  have d: "is_step (step_id step)" "dict_ok u" "step_done r (step_id step)"
    "map_of (gr_outputs r) (step_id step) = Some (step_output_record (JObj u))" using Cons.prems(1) [of step u] by (simp_all add: x)
  have "map_of (overlay s (output_dict r (step_id step))) k = map_of (overlay s u) k"
    by (rule overlay_record [OF d(4,2) assms(2)])
  also have "\<dots> = map_of (overlay t u) k" by (rule overlay_cong [OF d(2) Cons.prems(2)])
  finally have "map_of (fold (\<lambda>step s. if step_done r (step_id step) then overlay s (output_dict r (step_id step)) else s)
      (map fst xs) (overlay s (output_dict r (step_id step)))) k = map_of (final_state (chunks xs) (overlay t u)) k"
    by (rule Cons.IH [rotated]) (use Cons.prems(1) in auto)
  then show ?case using d(1,3) by (simp add: x chunks_def after_output_def is_step_def)
qed (simp add: chunks_def)

lemma gather_skips:
  "(\<And>step. step \<in> set steps \<Longrightarrow> \<not> step_done r (step_id step)) \<Longrightarrow>
     fold (\<lambda>step s. if step_done r (step_id step) then overlay s (output_dict r (step_id step)) else s) steps s = s"
  by (induction steps arbitrary: s) simp_all


section \<open>What goes wrong\<close>

lemma delete_other [simp]: "k \<notin> set ks \<Longrightarrow> map_of (fold AList.delete ks s) k = map_of s k"
  by (induction ks arbitrary: s) auto

lemma set_default_fold_first:
  "k \<notin> dict_keys s \<Longrightarrow> map_of (fold set_default xs s) k = map_of xs k"
proof (induction xs arbitrary: s)
  case Nil
  then show ?case by (simp add: map_of_eq_None_iff)
next
  case (Cons x xs)
  obtain k' v where x: "x = (k', v)" by (cases x)
  show ?case
  proof (cases "k' = k")
    case True
    then have "map_of (set_default x s) k = Some v" using Cons.prems
      by (auto simp: x set_default_def map_add_def map_of_eq_None_iff [symmetric] split: option.split)
    then show ?thesis using fold_set_default_keeps True by (simp add: x)
  next
    case False
    then have "k \<notin> dict_keys (set_default x s)" using Cons.prems by (auto simp: x set_default_def)
    then show ?thesis using Cons.IH False by (simp add: x)
  qed
qed

text \<open>
  A run that failed through a step that recorded it keeps the record when it is restarted from another
  step: the state it is restarted with still has it, and the step is refused at once.
\<close>

lemma map_of_filter_key: "P k \<Longrightarrow> map_of (filter (\<lambda>(k, v). P k) xs) k = map_of xs k"
  by (induction xs) auto

lemma restart_keeps_sentinel:
  assumes "map_of (gr_state r) failed_key = Some (JStr x)"
  shows "map_of (restart_state r before) failed_key = Some (JStr x)"
proof -
  have f: "failed_key \<notin> set transient_keys" by code_simp
  have fresh: "failed_key \<notin> dict_keys [(''request'', JStr (gr_request r))]" by (simp add: failed_key_def)
  then have "map_of (seed_internal (\<lambda>(k, v). k \<noteq> counts_key) (gr_state r) [(''request'', JStr (gr_request r))]) failed_key =
      Some (JStr x)"
    unfolding seed_internal_def set_default_fold_first [OF fresh]
    using map_of_filter_key [of "\<lambda>k. starts_with ''_'' k \<and> k \<noteq> counts_key" failed_key "gr_state r"] assms
    by (simp add: case_prod_beta')
  then have "map_of (restart_gather r before
      (seed_internal (\<lambda>(k, v). k \<noteq> counts_key) (gr_state r) [(''request'', JStr (gr_request r))])) failed_key = Some (JStr x)"
    unfolding restart_gather_def
    by (induction before rule: rev_induct) (simp_all add: fold_set_default_keeps)
  then show ?thesis using f by (simp add: restart_state_def)
qed

lemma restart_refused_at_once:
  assumes "map_of (gr_state r) failed_key = Some (JStr x)" and "x \<noteq> []" and "x \<noteq> step_id step"
    and "jget step ''type'' \<notin> set no_fail_guard_types" and "lv_files L = None"
  shows "make_node C fallback step body (restart_state r before) L = (Inl (Upstream_Failed (step_id step) (JStr x)), L)"
  using restart_keeps_sentinel [OF assms(1), of before] assms(2-)
  by (simp add: make_node_def step_io_def fail_guard_def jget_def)

definition example_caller :: caller where
  "example_caller = \<lparr>ca_principal = None, ca_subject = None, ca_now = 5, ca_build = (\<lambda>_. None),
     ca_env = example_env Auto None\<rparr>"

definition no_world :: world where
  "no_world = \<lparr>w_stores = (\<lambda>_. None), w_dir = None\<rparr>"

definition example_container :: "graph_run list \<Rightarrow> wf_runner dict \<Rightarrow> container" where
  "example_container rs registry = \<lparr>ct_runs = map (\<lambda>r. (gr_id r, r)) rs, ct_live = [], ct_registry = registry,
     ct_world = no_world, ct_approvals = no_approvals\<rparr>"

definition example_runner :: wf_runner where
  "example_runner = \<lparr>wr_id = ''triage'', wr_enabled = True, wr_steps = example_steps\<rparr>"

text \<open>
  An approval claims the run before it looks for the runner: when there is none it is refused, and the
  run is left running with nothing that runs it.
\<close>

lemma approval_strands_the_run:
  "(case control example_caller (\<lambda>_ _. True) Approve ''w'' (example_container [example_run ''w'' R_Waiting_Approval 0] []) of
      (refused, ct) \<Rightarrow> (refused, map_option gr_status (get_run ''w'' (ct_runs ct)), ct_live ct)) =
   (Some (No_Runner ''triage''), Some R_Running, [])"
  by code_simp

text \<open>A restart is stored as running before the graph has taken its state.\<close>

lemma restart_strands_the_run:
  "(case control example_caller (\<lambda>_ _. False) (Restart ''b'') ''w''
       (example_container [(example_run ''w'' R_Failed 0)\<lparr>gr_statuses := [(''a'', Mark_Finished)]\<rparr>] [(''triage'', example_runner)]) of
      (refused, ct) \<Rightarrow> (refused, map_option gr_status (get_run ''w'' (ct_runs ct)), ct_live ct)) =
   (Some Seed_Failed, Some R_Running, [])"
  by code_simp

text \<open>A run that waits for an approval cannot be terminated, so its case is not taken down with it.\<close>

lemma waiting_run_not_terminated:
  "fst (control example_caller (\<lambda>_ _. True) Terminate ''w'' (example_container [example_run ''w'' R_Waiting_Approval 0] [])) =
     Some (Not_Active R_Waiting_Approval)"
  by code_simp

text \<open>Of two values of one key a retry takes the later step's, a restart the earlier step's.\<close>

lemma retry_and_restart_disagree:
  "(let r = (example_run ''w'' R_Failed 0)\<lparr>gr_statuses := [(''a'', Mark_Finished), (''b'', Mark_Finished)],
       gr_outputs := [(''a'', JObj [(''out'', JInt 1)]), (''b'', JObj [(''out'', JInt 2)])]\<rparr>
    in (jget (retry_state r example_steps) ''out'', jget (restart_state r example_steps) ''out'')) = (JInt 2, JInt 1)"
  by code_simp

section \<open>Witnesses\<close>

theorem decided_once_witness:
  "decisions_made [(example_caller, True), (example_caller, False), (example_caller, True)] ''w''
     (example_container [example_run ''w'' R_Waiting_Approval 0] [(''triage'', example_runner)]) \<le> 1"
proof -
  have "runs_ok (ct_runs (example_container [example_run ''w'' R_Waiting_Approval 0] [(''triage'', example_runner)]))"
    by (auto simp: runs_ok_def example_container_def get_run_def dict_ok_def)
  then show ?thesis by (rule decided_once)
qed

theorem control_guarded_witness:
  "\<exists>r. admitted example_caller ''w'' (example_container [example_run ''w'' R_Failed 0] [(''triage'', example_runner)]) r"
proof -
  let ?ct = "example_container [example_run ''w'' R_Failed 0] [(''triage'', example_runner)]"
  obtain refused ct' where c: "control example_caller (\<lambda>_ _. True) Retry ''w'' ?ct = (refused, ct')" by (rule prod.exhaust)
  have "fst (control example_caller (\<lambda>_ _. True) Retry ''w'' ?ct) = None" by code_simp
  then have "refused = None" using c by simp
  then show ?thesis using control_guarded [OF c] by auto
qed

theorem terminated_run_is_dead_witness:
  "\<exists>r ct'. terminate_run example_caller ''w'' (example_container [example_run ''w'' R_Running 0] []) = (Inr r, ct') \<and>
     gr_status r = R_Failed"
proof -
  let ?ct = "example_container [example_run ''w'' R_Running 0] []"
  have "fst (refusal (terminate_run example_caller ''w'' ?ct)) = None" by code_simp
  then obtain r ct' where t: "terminate_run example_caller ''w'' ?ct = (Inr r, ct')"
    by (auto simp: refusal_def split: prod.splits sum.splits)
  have "runs_ok (ct_runs ?ct)" by (auto simp: runs_ok_def example_container_def get_run_def dict_ok_def)
  moreover have "approval_run no_approvals [] (ct_approvals ?ct)"
    by (simp add: example_container_def approval_run.start)
  ultimately show ?thesis using terminated_run_is_dead [OF t] t by blast
qed

definition example_failed_run :: graph_run where
  "example_failed_run = (example_run ''w'' R_Failed 0)\<lparr>gr_statuses := [(''a'', Mark_Finished), (''b'', Mark_Failed)],
     gr_outputs := [(''a'', JObj [(''out'', JInt 1)])]\<rparr>"


end
