(* ===== verification/Recovery.thy ===== *)
theory Recovery
  imports RunControl
begin

text \<open>
  What a restart of the server does to the runs it finds unfinished: \<^verbatim>\<open>_recover_incomplete_runs\<close>,
  \<^verbatim>\<open>_quarantine_crash_looping_run\<close>, \<^verbatim>\<open>_disable_workflow\<close> and \<^verbatim>\<open>_recover_run\<close> of
  \<^verbatim>\<open>app/core/container.py\<close>, and the sweep that looks for lost agents.
\<close>

section \<open>Recovering one run\<close>

text \<open>
  What the recovery asks of the world around it: whether the agent at a URL is alive, whether the
  graph of a run still holds an interrupt, whether it takes a state and raises the interrupt anew, whether
  the workflow store can be written, and what the registry makes of a stored definition.
\<close>

record recovery =
  rc_max :: nat
  rc_alive :: "string \<Rightarrow> bool"
  rc_parked :: "string \<Rightarrow> bool"
  rc_seeds :: "jobj \<Rightarrow> string \<Rightarrow> bool"
  rc_refires :: "string \<Rightarrow> bool"
  rc_writable :: bool
  rc_rebuild :: "resource \<Rightarrow> wf_runner option"

definition recovered_state :: "graph_run \<Rightarrow> jobj list \<Rightarrow> jobj" where
  "recovered_state r steps = seed_internal (\<lambda>(k, v). v \<noteq> JNull) (gr_state r) (gather_done r steps)"

definition error_state :: "string \<Rightarrow> jobj" where
  "error_state msg = [(''error'', JStr msg)]"

definition close_failed :: "caller \<Rightarrow> jobj \<Rightarrow> graph_run \<Rightarrow> container \<Rightarrow> graph_run \<times> container" where
  "close_failed ca state r ct =
     (let r' = touch (ca_now ca) (r\<lparr>gr_status := R_Failed, gr_state := state\<rparr>) in (r', save_run ca r' ct))"

text \<open>What is set going in the background: the run, its runner and the input of its graph.\<close>

type_synonym resumed = "string \<times> wf_runner \<times> graph_input"

definition seeded :: "recovery \<Rightarrow> jobj \<Rightarrow> string option \<Rightarrow> bool" where
  "seeded rc s ld = (case ld of None \<Rightarrow> True | Some d \<Rightarrow> rc_seeds rc s d)"

definition keep_runner :: "graph_run \<Rightarrow> wf_runner \<Rightarrow> container \<Rightarrow> container" where
  "keep_runner r rn ct = ct\<lparr>ct_live := AList.update (gr_id r) rn (ct_live ct)\<rparr>"

definition agent_alive :: "recovery \<Rightarrow> graph_run \<Rightarrow> bool" where
  "agent_alive rc r = (case gr_agent_url r of Some (c # url) \<Rightarrow> rc_alive rc (c # url) | _ \<Rightarrow> False)"

definition recover_run :: "caller \<Rightarrow> recovery \<Rightarrow> graph_run \<Rightarrow> container \<Rightarrow> graph_run \<times> container \<times> resumed list" where
  "recover_run ca rc r ct =
     (let quiet = (\<lambda>(r', ct'). (r', ct', [])) in
      if gr_job r then
        let r' = touch (ca_now ca) (r\<lparr>gr_status := R_Cancelled,
              gr_state := AList.update ''error'' (JStr ''Backend restarted; the parent run retries this job'') (gr_state r)\<rparr>)
        in (r', save_run ca r' ct, [])
      else case build_runner_for_recovery ca ct r of
        None \<Rightarrow> quiet (close_failed ca (error_state ''Workflow definition not available after server restart'') r ct)
      | Some rn \<Rightarrow>
          let s = recovered_state r (wr_steps rn); ld = last_done r (wr_steps rn) in
          if gr_status r = R_Waiting_Agent then
            if agent_alive rc r then (r, keep_runner r rn ct, [])
            else quiet (close_failed ca (AList.update ''error'' (JStr ''Agent container lost due to server restart'') (gr_state r))
              (r\<lparr>gr_agent_url := None\<rparr>) ct)
          else if gr_status r = R_Waiting_Approval then
            if rc_parked rc (gr_id r) then (r, keep_runner r rn ct, [])
            else if \<not> seeded rc s ld then quiet (close_failed ca (error_state ''State recovery failed after server restart'') r ct)
            else if \<not> rc_refires rc (gr_id r)
            then quiet (close_failed ca (error_state ''Approval state recovery failed after server restart'') r ct)
            else (r, keep_runner r rn ct, [])
          else
            if \<not> seeded rc s ld then quiet (close_failed ca (error_state ''State recovery failed after server restart'') r ct)
            else (r, keep_runner r rn ct, [(gr_id r, rn, resume_input ld s)]))"

section \<open>Crash loops\<close>

definition disable_stored :: "resource \<Rightarrow> resource" where
  "disable_stored w = w\<lparr>r_body := (case r_body w of
     JObj d \<Rightarrow> JObj (AList.update ''enabled'' (JBool False) d) | v \<Rightarrow> JObj [(''enabled'', JBool False)])\<rparr>"

definition set_store :: "store \<Rightarrow> container \<Rightarrow> container" where
  "set_store st ct = ct\<lparr>ct_world := (ct_world ct)\<lparr>w_stores := (w_stores (ct_world ct))(Workflow := Some st)\<rparr>\<rparr>"

definition refresh_runner :: "recovery \<Rightarrow> string \<Rightarrow> container \<Rightarrow> container" where
  "refresh_runner rc i ct =
     (case w_stores (ct_world ct) Workflow of
        None \<Rightarrow> ct
      | Some st \<Rightarrow>
          (case raw_get st i of
             Some w \<Rightarrow>
               (case rc_rebuild rc w of
                  Some rn \<Rightarrow> ct\<lparr>ct_registry := AList.update i (rn\<lparr>wr_enabled := workflow_enabled w\<rparr>) (ct_registry ct)\<rparr>
                | None \<Rightarrow> ct)
           | None \<Rightarrow> ct\<lparr>ct_registry := AList.delete i (ct_registry ct)\<rparr>))"

definition disable_in_memory :: "string \<Rightarrow> container \<Rightarrow> container" where
  "disable_in_memory i ct =
     (case map_of (ct_registry ct) i of
        None \<Rightarrow> ct
      | Some rn \<Rightarrow> ct\<lparr>ct_registry := AList.update i (rn\<lparr>wr_enabled := False\<rparr>) (ct_registry ct)\<rparr>)"

definition disable_workflow :: "recovery \<Rightarrow> string \<Rightarrow> container \<Rightarrow> container" where
  "disable_workflow rc i ct =
     (let ct1 = disable_in_memory i ct in
      case w_stores (ct_world ct1) Workflow of
        None \<Rightarrow> ct1
      | Some st \<Rightarrow>
          (case raw_get st i of
             None \<Rightarrow> ct1
           | Some w \<Rightarrow>
               if \<not> workflow_enabled w then refresh_runner rc i ct1
               else if rc_writable rc then refresh_runner rc i (set_store (raw_update i (disable_stored w) st) ct1)
               else ct1))"

text \<open>\<open>crash_text\<close> renders the message from the attempts and the workflow.\<close>

definition quarantine_run ::
    "caller \<Rightarrow> recovery \<Rightarrow> (nat \<Rightarrow> string \<Rightarrow> string) \<Rightarrow> candidate \<Rightarrow> container \<Rightarrow> container" where
  "quarantine_run ca rc crash_text c ct =
     disable_workflow rc (cd_graph c)
       (ct\<lparr>ct_runs := snd (fail_incomplete (ca_now ca) (cd_id c) (crash_text (cd_attempts c) (cd_graph c)) (ct_runs ct))\<rparr>)"

definition recover_candidate ::
    "caller \<Rightarrow> recovery \<Rightarrow> (nat \<Rightarrow> string \<Rightarrow> string) \<Rightarrow> candidate \<Rightarrow> container \<times> resumed list \<Rightarrow> container \<times> resumed list" where
  "recover_candidate ca rc crash_text c = (\<lambda>(ct, going).
     (if cd_job c
      then (case get_run (cd_id c) (ct_runs ct) of
              None \<Rightarrow> (ct, going)
            | Some r \<Rightarrow> (case recover_run ca rc r ct of (r', ct', extra) \<Rightarrow> (ct', going @ extra)))
      else if 0 < rc_max rc \<and> rc_max rc \<le> cd_attempts c then (quarantine_run ca rc crash_text c ct, going)
      else (case begin_recovery (ca_now ca) (cd_id c) (ct_runs ct) of
              (None, rp) \<Rightarrow> (ct\<lparr>ct_runs := rp\<rparr>, going)
            | (Some r, rp) \<Rightarrow>
                (case recover_run ca rc r (ct\<lparr>ct_runs := rp\<rparr>) of
                   (r', ct', extra) \<Rightarrow>
                     ((if gr_status r' \<in> set [R_Waiting_Approval, R_Waiting_Agent]
                       then ct'\<lparr>ct_runs := reset_recovery_attempts (gr_id r') (ct_runs ct')\<rparr> else ct'),
                      going @ extra)))))"

definition recover_incomplete_runs ::
    "caller \<Rightarrow> recovery \<Rightarrow> (nat \<Rightarrow> string \<Rightarrow> string) \<Rightarrow> container \<Rightarrow> container \<times> resumed list" where
  "recover_incomplete_runs ca rc crash_text ct =
     fold (recover_candidate ca rc crash_text) (list_recovery_candidates (ct_runs ct)) (ct, [])"

text \<open>A resumed run is streamed, and its runner dropped when it is over.\<close>

definition resume_run ::
    "caller \<Rightarrow> (jobj \<Rightarrow> jobj option) \<Rightarrow> wf_runner \<Rightarrow> graph_input \<Rightarrow> stream_of \<Rightarrow> graph_run \<Rightarrow> container \<Rightarrow> graph_run \<times> container" where
  "resume_run ca handle rn input st r ct =
     (let S = fst (stream_graph_to_pause (ca_now ca) handle (wr_steps rn) input (so_checkpoint st) (so_events st) (so_end st) r (ct_runs ct));
          r' = sm_run S
      in (r', drop_live r' (ct\<lparr>ct_runs := sm_runs S\<rparr>)))"

section \<open>Lost agents\<close>

definition fail_lost_agent :: "caller \<Rightarrow> string \<Rightarrow> graph_run \<Rightarrow> container \<Rightarrow> container" where
  "fail_lost_agent ca reason r ct =
     (let i = (case gr_step r of Some (c # s) \<Rightarrow> Some (c # s) | _ \<Rightarrow> None);
          r' = r\<lparr>gr_status := R_Failed, gr_agent_url := None,
            gr_state := AList.update ''error'' (JStr reason) (gr_state r),
            gr_statuses := (case i of None \<Rightarrow> gr_statuses r | Some s \<Rightarrow> AList.update s Mark_Failed (gr_statuses r)),
            gr_outputs := (case i of None \<Rightarrow> gr_outputs r
              | Some s \<Rightarrow> AList.update s (JObj [(''error'', JStr reason)]) (gr_outputs r))\<rparr>
      in save_run ca (touch (ca_now ca) r') ct)"

text \<open>\<open>healthy url\<close>: the agent answers; the run is read again before it is failed.\<close>

definition watch_waiting_agents :: "caller \<Rightarrow> (string \<Rightarrow> bool) \<Rightarrow> container \<Rightarrow> container" where
  "watch_waiting_agents ca healthy ct =
     fold (\<lambda>r ct.
       if healthy (the (gr_agent_url r)) then ct
       else (case get_run (gr_id r) (ct_runs ct) of
               Some fresh \<Rightarrow> if gr_status fresh = R_Waiting_Agent
                 then fail_lost_agent ca ''Agent pod health check failed'' fresh ct else ct
             | None \<Rightarrow> ct))
       (filter (\<lambda>r. gr_status r = R_Waiting_Agent \<and> truthy (gr_agent_url r)) (list_incomplete (ct_runs ct))) ct"

section \<open>What the recovery of one candidate touches\<close>

lemma save_run_runs [simp]: "ct_runs (save_run ca r ct) = update_run (ca_now ca) (touch (ca_now ca) r) (ct_runs ct)"
  by (simp add: save_run_def)

lemma keep_runner_runs [simp]: "ct_runs (keep_runner r rn ct) = ct_runs ct"
  by (simp add: keep_runner_def)

lemma disable_runs [simp]: "ct_runs (disable_workflow rc i ct) = ct_runs ct"
  by (simp add: disable_workflow_def disable_in_memory_def refresh_runner_def set_store_def Let_def split: option.split)

definition only :: "string \<Rightarrow> runs \<Rightarrow> runs \<Rightarrow> bool" where
  "only i rp rp' \<longleftrightarrow> runs_ok rp' \<and> (\<forall>j. j \<noteq> i \<longrightarrow> get_run j rp' = get_run j rp)"

lemma recover_run_only:
  assumes "runs_ok (ct_runs ct)" and "recover_run ca rc r ct = (r', ct', extra)"
  shows "only (gr_id r) (ct_runs ct) (ct_runs ct') \<and> gr_id r' = gr_id r \<and> (\<forall>x \<in> set extra. fst x = gr_id r)"
  using assms
  by (auto simp: recover_run_def only_def close_failed_def Let_def split: if_splits option.splits)

lemma begin_recovery_cases:
  assumes "begin_recovery now i rp = (res, rp')"
  obtains "res = None" "rp' = rp"
  | r where "get_run i rp = Some r" "run_incomplete (gr_status r)"
      "res = Some (r\<lparr>gr_recovery := gr_recovery r + 1, gr_recovered_at := Some now\<rparr>)"
      "rp' = AList.update i (r\<lparr>gr_recovery := gr_recovery r + 1, gr_recovered_at := Some now\<rparr>) rp"
  using assms that by (auto simp: begin_recovery_def find_and_update_def split: option.splits if_splits)

lemma begin_recovery_only:
  assumes "runs_ok rp" and "begin_recovery now i rp = (res, rp')"
  shows "only i rp rp' \<and> (\<forall>r. res = Some r \<longrightarrow> gr_id r = i \<and> get_run i rp' = Some r)"
  using assms(2)
proof (cases rule: begin_recovery_cases)
  case 1
  then show ?thesis using assms(1) by (simp add: only_def)
next
  case (2 r)
  then have i: "gr_id r = i" using assms(1) by (simp add: runs_ok_def)
  have "runs_ok rp'" unfolding 2(4) by (rule runs_ok_update [OF assms(1)]) (simp add: i)
  then show ?thesis using 2 i by (simp add: only_def)
qed

lemma fail_incomplete_only:
  assumes "runs_ok rp" and "fail_incomplete now i msg rp = (res, rp')"
  shows "only i rp rp'"
proof -
  let ?f = "\<lambda>r. r\<lparr>gr_status := R_Failed, gr_state := AList.update ''error'' (JStr msg) (gr_state r),
                    gr_agent_url := None, gr_updated := now\<rparr>"
  have rp': "rp' = snd (find_and_update (\<lambda>r. run_incomplete (gr_status r)) ?f i rp)"
    using assms(2) by (simp add: fail_incomplete_def split: prod.splits)
  have "runs_ok rp'" unfolding rp' by (rule runs_ok_find_and_update [OF assms(1)]) simp
  then show ?thesis by (auto simp: only_def rp' find_and_update_def split: option.split)
qed

lemma only_trans: "only i a b \<Longrightarrow> only i b c \<Longrightarrow> only i a c"
  by (simp add: only_def)

lemma only_reset: "runs_ok rp \<Longrightarrow> only i rp (reset_recovery_attempts i rp)"
  by (auto simp: only_def reset_recovery_attempts_def)

text \<open>The two ways a run that is no job is treated.\<close>

definition recover_counted ::
    "caller \<Rightarrow> recovery \<Rightarrow> candidate \<Rightarrow> container \<Rightarrow> container \<times> resumed list" where
  "recover_counted ca rc c ct =
     (case begin_recovery (ca_now ca) (cd_id c) (ct_runs ct) of
        (None, rp) \<Rightarrow> (ct\<lparr>ct_runs := rp\<rparr>, [])
      | (Some r, rp) \<Rightarrow>
          (case recover_run ca rc r (ct\<lparr>ct_runs := rp\<rparr>) of
             (r', ct', extra) \<Rightarrow>
               ((if gr_status r' \<in> set [R_Waiting_Approval, R_Waiting_Agent]
                 then ct'\<lparr>ct_runs := reset_recovery_attempts (gr_id r') (ct_runs ct')\<rparr> else ct'), extra)))"

lemma recover_candidate_counted:
  "\<not> cd_job c \<Longrightarrow> \<not> (0 < rc_max rc \<and> rc_max rc \<le> cd_attempts c) \<Longrightarrow>
     recover_candidate ca rc crash_text c (ct, going) =
       (fst (recover_counted ca rc c ct), going @ snd (recover_counted ca rc c ct))"
  unfolding recover_candidate_def recover_counted_def by (simp only: split_conv if_False split: prod.split option.split) simp

lemma recover_counted_only:
  assumes "runs_ok (ct_runs ct)" and "recover_counted ca rc c ct = (ct', extra)"
  shows "only (cd_id c) (ct_runs ct) (ct_runs ct') \<and> (\<forall>x \<in> set extra. fst x = cd_id c)"
proof -
  obtain res rp where b: "begin_recovery (ca_now ca) (cd_id c) (ct_runs ct) = (res, rp)" by (rule prod.exhaust)
  note begin_ok = begin_recovery_only [OF assms(1) b]
  show ?thesis
  proof (cases res)
    case None
    then show ?thesis using assms(2) b begin_ok by (auto simp: recover_counted_def)
  next
    case (Some r)
    obtain r' ct1 extra1 where rec: "recover_run ca rc r (ct\<lparr>ct_runs := rp\<rparr>) = (r', ct1, extra1)" by (rule prod_cases3)
    have rp: "runs_ok rp" "gr_id r = cd_id c" using begin_ok Some by (simp_all add: only_def)
    then have one: "only (cd_id c) rp (ct_runs ct1)" "gr_id r' = cd_id c" "\<forall>x \<in> set extra1. fst x = cd_id c"
      using recover_run_only [OF _ rec] by simp_all
    have all: "only (cd_id c) (ct_runs ct) (ct_runs ct1)" by (rule only_trans [OF begin_ok [THEN conjunct1] one(1)])
    moreover have "only (cd_id c) (ct_runs ct) (reset_recovery_attempts (cd_id c) (ct_runs ct1))"
      by (rule only_trans [OF all only_reset]) (use one(1) in \<open>simp add: only_def\<close>)
    moreover have "ct_runs ct' = ct_runs ct1 \<or> ct_runs ct' = reset_recovery_attempts (cd_id c) (ct_runs ct1)" "extra = extra1"
      using assms(2) b Some rec one(2) by (auto simp: recover_counted_def split: if_splits)
    ultimately show ?thesis using one(3) by auto
  qed
qed

lemma recover_candidate_only:
  assumes "runs_ok (ct_runs ct)" and "recover_candidate ca rc crash_text c (ct, going) = (ct', going')"
  shows "only (cd_id c) (ct_runs ct) (ct_runs ct') \<and> (\<exists>extra. going' = going @ extra \<and> (\<forall>x \<in> set extra. fst x = cd_id c))"
proof -
  consider "cd_job c" | "\<not> cd_job c" "0 < rc_max rc \<and> rc_max rc \<le> cd_attempts c"
    | "\<not> cd_job c" "\<not> (0 < rc_max rc \<and> rc_max rc \<le> cd_attempts c)" by blast
  then show ?thesis
  proof cases
    case 1
    show ?thesis
    proof (cases "get_run (cd_id c) (ct_runs ct)")
      case None
      then show ?thesis using assms 1 by (simp add: recover_candidate_def only_def)
    next
      case (Some r)
      then have "gr_id r = cd_id c" using assms(1) by (simp add: runs_ok_def)
      moreover obtain r' ct1 extra where rec: "recover_run ca rc r ct = (r', ct1, extra)" by (rule prod_cases3)
      moreover have "ct' = ct1" "going' = going @ extra" using assms(2) 1 Some rec by (simp_all add: recover_candidate_def)
      ultimately show ?thesis using recover_run_only [OF assms(1) rec] by auto
    qed
  next
    case 2
    obtain res rp where f: "fail_incomplete (ca_now ca) (cd_id c) (crash_text (cd_attempts c) (cd_graph c)) (ct_runs ct) = (res, rp)"
      by (rule prod.exhaust)
    have "ct_runs ct' = rp" "going' = going" using assms(2) 2 f by (auto simp: recover_candidate_def quarantine_run_def)
    then show ?thesis using fail_incomplete_only [OF assms(1) f] by simp
  next
    case 3
    obtain ct1 extra where "recover_counted ca rc c ct = (ct1, extra)" by (rule prod.exhaust)
    then show ?thesis using assms recover_candidate_counted [OF 3] recover_counted_only [OF assms(1)] by auto
  qed
qed

lemma recover_all_other:
  assumes "runs_ok (ct_runs ct)" and "i \<notin> cd_id ` set cs"
    and "fold (recover_candidate ca rc crash_text) cs (ct, going) = (ct', going')"
  shows "runs_ok (ct_runs ct') \<and> get_run i (ct_runs ct') = get_run i (ct_runs ct) \<and>
    filter (\<lambda>x. fst x = i) going' = filter (\<lambda>x. fst x = i) going"
  using assms
proof (induction cs arbitrary: ct going)
  case (Cons c cs)
  obtain ct1 going1 where one: "recover_candidate ca rc crash_text c (ct, going) = (ct1, going1)" by (rule prod.exhaust)
  have o: "only (cd_id c) (ct_runs ct) (ct_runs ct1)" "\<exists>extra. going1 = going @ extra \<and> (\<forall>x \<in> set extra. fst x = cd_id c)"
    using recover_candidate_only [OF Cons.prems(1) one] by simp_all
  have "cd_id c \<noteq> i" using Cons.prems(2) by auto
  with o(2) have "filter (\<lambda>x. fst x = i) going1 = filter (\<lambda>x. fst x = i) going" by (auto simp: filter_empty_conv)
  moreover have "get_run i (ct_runs ct1) = get_run i (ct_runs ct)" "runs_ok (ct_runs ct1)"
    using o(1) \<open>cd_id c \<noteq> i\<close> by (simp_all add: only_def)
  moreover have "fold (recover_candidate ca rc crash_text) cs (ct1, going1) = (ct', going')" using Cons.prems(3) one by simp
  ultimately show ?case using Cons.IH [of ct1 going1] Cons.prems(2) by simp
qed simp

section \<open>Crash loops end\<close>

text \<open>What one startup does to a running run: it is resumed and counted, or failed.\<close>

lemma counted_running:
  assumes "runs_ok (ct_runs ct)" and "get_run (cd_id c) (ct_runs ct) = Some r" and "gr_status r = R_Running" and "\<not> gr_job r"
    and "recover_counted ca rc c ct = (ct', extra)"
  shows "length extra \<le> 1 \<and> (\<exists>r'. get_run (cd_id c) (ct_runs ct') = Some r' \<and> gr_job r' = gr_job r \<and>
    (if extra = [] then gr_status r' = R_Failed else gr_status r' = R_Running \<and> gr_recovery r' = Suc (gr_recovery r)))"
proof -
  let ?r = "r\<lparr>gr_recovery := Suc (gr_recovery r), gr_recovered_at := Some (ca_now ca)\<rparr>"
  have id: "gr_id r = cd_id c" using assms(1,2) by (simp add: runs_ok_def)
  have "begin_recovery (ca_now ca) (cd_id c) (ct_runs ct) = (Some ?r, AList.update (cd_id c) ?r (ct_runs ct))"
    using assms(2,3) by (simp add: begin_recovery_def find_and_update_def run_incomplete_def)
  then show ?thesis using assms(3-) id
    by (auto simp: recover_counted_def recover_run_def close_failed_def Let_def split: option.splits if_splits)
qed

lemma list_split:
  assumes "runs_ok rp" and "get_run i rp = Some r" and "run_incomplete (gr_status r)"
  obtains xs ys where "list_recovery_candidates rp = xs @ candidate_of r # ys"
    "i \<notin> cd_id ` set xs" "i \<notin> cd_id ` set ys"
proof -
  have vals: "gr_id x = k" if "(k, x) \<in> set rp" for k x
    using that assms(1) by (simp add: runs_ok_def get_run_def dict_ok_mem_iff)
  then have "map gr_id (map snd rp) = map fst rp" by auto
  moreover have "distinct (map fst rp)" using assms(1) by (simp add: runs_ok_def dict_ok_def)
  ultimately have "distinct (map gr_id (map snd rp))" by (simp only:)
  then have "distinct (map gr_id (filter (\<lambda>r. run_incomplete (gr_status r)) (map snd rp)))"
    by (rule distinct_map_filter)
  then have "distinct (map gr_id (list_incomplete rp))" by (simp add: list_incomplete_def)
  moreover have "distinct (map gr_id (sort_key gr_created (list_incomplete rp))) = distinct (map gr_id (list_incomplete rp))"
    by (rule mset_eq_imp_distinct_iff) simp
  ultimately have d: "distinct (map cd_id (list_recovery_candidates rp))"
    by (simp add: list_recovery_candidates_def candidate_of_def comp_def)
  have "r \<in> snd ` set rp" using assms(2) by (force simp: get_run_def dest: map_of_SomeD)
  then have "candidate_of r \<in> set (list_recovery_candidates rp)"
    using assms(3) by (simp add: list_recovery_candidates_def list_incomplete_def)
  then obtain xs ys where "list_recovery_candidates rp = xs @ candidate_of r # ys" by (meson split_list)
  moreover have "gr_id r = i" using assms(1,2) by (simp add: runs_ok_def)
  ultimately show thesis using d that by (auto simp: candidate_of_def)
qed

text \<open>One startup, for a run that was running and is no job.\<close>

lemma startup_running:
  assumes "runs_ok (ct_runs ct)" and "get_run i (ct_runs ct) = Some r" and "gr_status r = R_Running" and "\<not> gr_job r"
    and "recover_incomplete_runs ca rc crash_text ct = (ct', going)"
  shows "runs_ok (ct_runs ct') \<and> (\<exists>r'. get_run i (ct_runs ct') = Some r' \<and> gr_job r' = gr_job r \<and>
    (if filter (\<lambda>x. fst x = i) going = [] then gr_status r' = R_Failed
     else length (filter (\<lambda>x. fst x = i) going) = 1 \<and> gr_status r' = R_Running \<and> gr_recovery r' = Suc (gr_recovery r) \<and>
       \<not> (0 < rc_max rc \<and> rc_max rc \<le> gr_recovery r)))"
proof -
  have inc: "run_incomplete (gr_status r)" using assms(3) by (simp add: run_incomplete_def)
  have id: "gr_id r = i" using assms(1,2) by (simp add: runs_ok_def)
  from list_split [OF assms(1,2) inc] obtain xs ys where cs: "list_recovery_candidates (ct_runs ct) = xs @ candidate_of r # ys"
    and xs: "i \<notin> cd_id ` set xs" and ys: "i \<notin> cd_id ` set ys" .
  let ?rec = "recover_candidate ca rc crash_text"
  obtain ct1 g1 where one: "fold ?rec xs (ct, []) = (ct1, g1)" by (rule prod.exhaust)
  obtain ct2 g2 where two: "?rec (candidate_of r) (ct1, g1) = (ct2, g2)" by (rule prod.exhaust)
  have three: "fold ?rec ys (ct2, g2) = (ct', going)"
    using assms(5) one two by (simp add: recover_incomplete_runs_def cs)
  note before = recover_all_other [OF assms(1) xs one]
  then have run1: "get_run i (ct_runs ct1) = Some r" "runs_ok (ct_runs ct1)" using assms(2) by simp_all
  have c: "cd_id (candidate_of r) = i" "\<not> cd_job (candidate_of r)" "cd_attempts (candidate_of r) = gr_recovery r"
    using id assms(4) by (simp_all add: candidate_of_def)
  note mid = recover_candidate_only [OF run1(2) two]
  then have ok2: "runs_ok (ct_runs ct2)" by (simp add: only_def)
  note after = recover_all_other [OF ok2 ys three]
  have none: "filter (\<lambda>x. fst x = i) g1 = []" using before by simp
  have "\<exists>r'. get_run i (ct_runs ct2) = Some r' \<and> gr_job r' = gr_job r \<and>
    (if filter (\<lambda>x. fst x = i) g2 = [] then gr_status r' = R_Failed
     else length (filter (\<lambda>x. fst x = i) g2) = 1 \<and> gr_status r' = R_Running \<and> gr_recovery r' = Suc (gr_recovery r) \<and>
       \<not> (0 < rc_max rc \<and> rc_max rc \<le> gr_recovery r))"
  proof (cases "0 < rc_max rc \<and> rc_max rc \<le> gr_recovery r")
    case True
    then have "ct2 = quarantine_run ca rc crash_text (candidate_of r) ct1" "g2 = g1"
      using two c by (auto simp: recover_candidate_def)
    then show ?thesis using run1 inc none c
      by (auto simp: quarantine_run_def fail_incomplete_def find_and_update_def)
  next
    case False
    obtain ct3 extra where r3: "recover_counted ca rc (candidate_of r) ct1 = (ct3, extra)" by (rule prod.exhaust)
    have eqs: "ct2 = ct3" "g2 = g1 @ extra"
      using two recover_candidate_counted [of "candidate_of r" rc ca crash_text ct1 g1] False c r3 by simp_all
    have mine: "\<forall>x \<in> set extra. fst x = i" using recover_counted_only [OF run1(2) r3] c(1) by simp
    then have "filter (\<lambda>x. fst x = i) g2 = extra" using none by (simp add: eqs(2))
    moreover have "get_run (cd_id (candidate_of r)) (ct_runs ct1) = Some r" using run1(1) c(1) by simp
    from counted_running [OF run1(2) this assms(3,4) r3]
    have "length extra \<le> 1 \<and> (\<exists>r'. get_run i (ct_runs ct2) = Some r' \<and> gr_job r' = gr_job r \<and>
      (if extra = [] then gr_status r' = R_Failed else gr_status r' = R_Running \<and> gr_recovery r' = Suc (gr_recovery r)))"
      unfolding c(1) eqs(1) .
    moreover have "length extra \<le> 1 \<Longrightarrow> extra \<noteq> [] \<Longrightarrow> length extra = 1" by (cases extra) auto
    ultimately show ?thesis using False by (auto split: if_splits)
  qed
  then show ?thesis
    unfolding after [THEN conjunct2, THEN conjunct1] after [THEN conjunct2, THEN conjunct2]
    using after by blast
qed

text \<open>
  The server starts \<open>n\<close> times and goes down each time before a resumed run made a step: what was held in
  memory is lost (\<open>reload\<close> is the registry read anew), what is stored stays.  The result is the container
  after the last startup and how often run \<open>i\<close> was resumed.
\<close>

definition crash :: "(container \<Rightarrow> wf_runner dict) \<Rightarrow> container \<Rightarrow> container" where
  "crash reload ct = ct\<lparr>ct_live := [], ct_registry := reload ct\<rparr>"

fun startups ::
    "caller \<Rightarrow> recovery \<Rightarrow> (nat \<Rightarrow> string \<Rightarrow> string) \<Rightarrow> (container \<Rightarrow> wf_runner dict) \<Rightarrow> string \<Rightarrow> nat \<Rightarrow> container \<Rightarrow> container \<times> nat" where
  "startups ca rc crash_text reload i 0 ct = (ct, 0)"
| "startups ca rc crash_text reload i (Suc n) ct =
     (case recover_incomplete_runs ca rc crash_text (crash reload ct) of
        (ct1, going) \<Rightarrow>
          (case startups ca rc crash_text reload i n ct1 of
             (ct2, k) \<Rightarrow> (ct2, length (filter (\<lambda>x. fst x = i) going) + k)))"

lemma crash_runs [simp]: "ct_runs (crash reload ct) = ct_runs ct"
  by (simp add: crash_def)

lemma startups_over:
  assumes "runs_ok (ct_runs ct)" and "get_run i (ct_runs ct) = Some r" and "\<not> run_incomplete (gr_status r)"
    and "startups ca rc crash_text reload i n ct = (ct', k)"
  shows "k = 0 \<and> get_run i (ct_runs ct') = Some r"
  using assms
proof (induction n arbitrary: ct k)
  case (Suc n)
  obtain ct1 going where one: "recover_incomplete_runs ca rc crash_text (crash reload ct) = (ct1, going)" by (rule prod.exhaust)
  obtain ct2 k' where rest: "startups ca rc crash_text reload i n ct1 = (ct2, k')" by (rule prod.exhaust)
  have vals: "gr_id x = j" "get_run j (ct_runs ct) = Some x" if "(j, x) \<in> set (ct_runs ct)" for j x
    using that Suc.prems(1) by (simp_all add: runs_ok_def get_run_def dict_ok_mem_iff)
  have "i \<notin> cd_id ` set (list_recovery_candidates (ct_runs (crash reload ct)))"
    using vals Suc.prems(2,3) by (force simp: list_recovery_candidates_def list_incomplete_def candidate_of_def)
  have res: "ct2 = ct'" "k = length (filter (\<lambda>x. fst x = i) going) + k'" using Suc.prems(4) one rest by simp_all
  note rest = rest [unfolded res(1)]
  from recover_all_other [OF _ \<open>i \<notin> _\<close> one [unfolded recover_incomplete_runs_def]] Suc.prems(1,2)
  have "runs_ok (ct_runs ct1)" "get_run i (ct_runs ct1) = Some r" "filter (\<lambda>x. fst x = i) going = []" by simp_all
  moreover from this Suc.IH [OF _ _ Suc.prems(3) rest] have "k' = 0" "get_run i (ct_runs ct') = Some r" by simp_all
  ultimately show ?case using res by simp
qed simp

text \<open>
  C12: A run that takes the server down each time it is resumed is resumed no more often than the limit, and
  once the server has started more often than that, the run has failed and is never resumed again.
\<close>

theorem crash_loop_ends:
  assumes "runs_ok (ct_runs ct)" and "get_run i (ct_runs ct) = Some r" and "gr_status r = R_Running" and "\<not> gr_job r"
    and "0 < rc_max rc" and "gr_recovery r \<le> rc_max rc" and "startups ca rc crash_text reload i n ct = (ct', k)"
  shows "gr_recovery r + k \<le> rc_max rc \<and>
    (rc_max rc < gr_recovery r + n \<longrightarrow> (\<exists>r'. get_run i (ct_runs ct') = Some r' \<and> gr_status r' = R_Failed))"
  using assms
proof (induction n arbitrary: ct r k)
  case 0
  then show ?case by simp
next
  case (Suc n)
  obtain ct1 going where one: "recover_incomplete_runs ca rc crash_text (crash reload ct) = (ct1, going)" by (rule prod.exhaust)
  obtain ct2 k' where rest: "startups ca rc crash_text reload i n ct1 = (ct2, k')" by (rule prod.exhaust)
  have start: "runs_ok (ct_runs (crash reload ct))" "get_run i (ct_runs (crash reload ct)) = Some r"
    using Suc.prems(1,2) by simp_all
  from startup_running [OF start Suc.prems(3,4) one] obtain r1 where
    ok1: "runs_ok (ct_runs ct1)" and r1: "get_run i (ct_runs ct1) = Some r1" "gr_job r1 = gr_job r"
    and eff: "if filter (\<lambda>x. fst x = i) going = [] then gr_status r1 = R_Failed
      else length (filter (\<lambda>x. fst x = i) going) = 1 \<and> gr_status r1 = R_Running \<and> gr_recovery r1 = Suc (gr_recovery r) \<and>
        \<not> (0 < rc_max rc \<and> rc_max rc \<le> gr_recovery r)" by blast
  have res: "ct2 = ct'" "k = length (filter (\<lambda>x. fst x = i) going) + k'" using Suc.prems(7) one rest by simp_all
  note rest = rest [unfolded res(1)]
  show ?case
  proof (cases "filter (\<lambda>x. fst x = i) going = []")
    case True
    then have f: "gr_status r1 = R_Failed" using eff by simp
    then have "\<not> run_incomplete (gr_status r1)" by (simp add: run_incomplete_def)
    from startups_over [OF ok1 r1(1) this rest] show ?thesis using True res f Suc.prems(6) by auto
  next
    case False
    then have e: "length (filter (\<lambda>x. fst x = i) going) = 1" "gr_status r1 = R_Running" "gr_recovery r1 = Suc (gr_recovery r)"
        "gr_recovery r < rc_max rc" using eff Suc.prems(5) by auto
    have "gr_recovery r1 + k' \<le> rc_max rc \<and>
      (rc_max rc < gr_recovery r1 + n \<longrightarrow> (\<exists>r'. get_run i (ct_runs ct') = Some r' \<and> gr_status r' = R_Failed))"
      by (rule Suc.IH [OF ok1 r1(1) e(2) _ Suc.prems(5) _ rest]) (use r1(2) Suc.prems(4) e in simp_all)
    then show ?thesis using res e by simp
  qed
qed

text \<open>A quarantined workflow starts no more: neither its stored definition nor its runner is enabled.\<close>

lemma disable_in_memory_world [simp]: "ct_world (disable_in_memory i ct) = ct_world ct"
  by (simp add: disable_in_memory_def split: option.split)

lemma disabled_in_memory:
  "map_of (ct_registry (disable_in_memory i ct)) i = map_option (\<lambda>rn. rn\<lparr>wr_enabled := False\<rparr>) (map_of (ct_registry ct) i)"
  by (simp add: disable_in_memory_def split: option.split)

lemma disable_stored_disabled [simp]: "\<not> workflow_enabled (disable_stored w)" "r_id (disable_stored w) = r_id w"
  by (auto simp: workflow_enabled_def disable_stored_def split: json.split)

lemma refresh_world [simp]: "ct_world (refresh_runner rc i ct) = ct_world ct"
  by (simp add: refresh_runner_def split: option.split)

lemma disabled_workflow_refused:
  assumes "rc_writable rc" and "map_of (ct_registry ct) i \<noteq> None \<or> stored_workflow ca ct i \<noteq> None"
    and "ca_subject ca = None"
  shows "ensure_workflow_id_enabled ca (disable_workflow rc i ct) i = Inl (Workflow_Disabled i)"
proof (cases "w_stores (ct_world ct) Workflow")
  case None
  then have "stored_workflow ca ct i = None" by (simp add: stored_workflow_def)
  then show ?thesis using assms(2) None disabled_in_memory [of i ct]
    by (auto simp: ensure_workflow_id_enabled_def disable_workflow_def stored_workflow_def guardE_def Let_def)
next
  case (Some st)
  show ?thesis
  proof (cases "raw_get st i")
    case None
    then have "stored_workflow ca ct i = None" by (simp add: stored_workflow_def scoped_get_def inner_store_def Some)
    then show ?thesis using assms(2) Some None disabled_in_memory [of i ct]
      by (auto simp: ensure_workflow_id_enabled_def disable_workflow_def stored_workflow_def scoped_get_def
        inner_store_def guardE_def Let_def)
  next
    case (Some w)
    let ?ct = "disable_workflow rc i ct"
    have "\<exists>w'. \<not> workflow_enabled w' \<and> w_stores (ct_world ?ct) Workflow \<noteq> None \<and>
        raw_get (the (w_stores (ct_world ?ct) Workflow)) i = Some w'"
      using Some \<open>w_stores (ct_world ct) Workflow = Some st\<close> assms(1)
      by (auto simp: disable_workflow_def set_store_def raw_get_def raw_update_def Let_def workflow_enabled_def
        disable_stored_def split: json.splits)
    then obtain w' where w': "\<not> workflow_enabled w'" "w_stores (ct_world ?ct) Workflow \<noteq> None"
      "raw_get (the (w_stores (ct_world ?ct) Workflow)) i = Some w'" by blast
    have "can_see (ca_subject ca) w'" using assms(3) by (simp add: can_see_def)
    then have "stored_workflow ca ?ct i = Some w'"
      using w' by (auto simp: stored_workflow_def scoped_get_def inner_store_def)
    then show ?thesis using w'(1) by (simp add: ensure_workflow_id_enabled_def guardE_def)
  qed
qed

section \<open>Examples\<close>

definition example_recovery :: recovery where
  "example_recovery = \<lparr>rc_max = 2, rc_alive = (\<lambda>_. False), rc_parked = (\<lambda>_. True), rc_seeds = (\<lambda>_ _. True),
     rc_refires = (\<lambda>_. True), rc_writable = True, rc_rebuild = (\<lambda>_. None)\<rparr>"

definition example_startups :: "nat \<Rightarrow> graph_run option \<times> nat" where
  "example_startups n =
     (case startups example_caller example_recovery (\<lambda>_ _. ''crashed'') ct_registry ''w'' n
        (example_container [example_run ''w'' R_Running 0] [(''triage'', example_runner)]) of
        (ct, k) \<Rightarrow> (get_run ''w'' (ct_runs ct), k))"

text \<open>With a limit of two the third startup fails the run.\<close>

lemma third_startup_fails:
  "map (\<lambda>n. case example_startups n of (r, k) \<Rightarrow> (map_option gr_status r, k)) [1, 2, 3, 4] =
     [(Some R_Running, 1), (Some R_Running, 2), (Some R_Failed, 2), (Some R_Failed, 2)]"
  by code_simp

theorem crash_loop_ends_witness:
  "\<exists>r'. fst (example_startups 3) = Some r' \<and> gr_status r' = R_Failed \<and> snd (example_startups 3) \<le> 2"
proof -
  let ?ct = "example_container [example_run ''w'' R_Running 0] [(''triage'', example_runner)]"
  obtain ct' k where s: "startups example_caller example_recovery (\<lambda>_ _. ''crashed'') ct_registry ''w'' 3 ?ct = (ct', k)"
    by (rule prod.exhaust)
  have "runs_ok (ct_runs ?ct)" by (auto simp: runs_ok_def example_container_def get_run_def dict_ok_def example_run_def)
  moreover have "get_run ''w'' (ct_runs ?ct) = Some (example_run ''w'' R_Running 0)"
    by (simp add: example_container_def get_run_def example_run_def)
  ultimately show ?thesis
    using crash_loop_ends [OF _ _ _ _ _ _ s] s
    by (simp add: example_startups_def example_recovery_def example_run_def)
qed

end
