(* ===== verification/Spec2Isabelle.thy ===== *)
theory Spec2Isabelle
  imports Grants Middleware Enrollment Hub ApprovalGuarantees StepEdges JobMirror Recovery
begin

text \<open>
  A verification library for ai-agents-carrier, a service that runs workflows of agents and
  decides who may see, change and run what.  The parts, how they interact, and where each is
  modelled:

  \<^item> Requests.  \<open>Authorization\<close> is the role policy, the two permission evaluations (allow with deny,
    and strict), the API key and the login decision (\<^verbatim>\<open>infrastructure/auth/authorization.py\<close>,
    \<^verbatim>\<open>application/login.py\<close>).  \<open>Middleware\<close> is the dispatch of the OAuth middleware and the gate of
    the management endpoint (\<^verbatim>\<open>api/middleware/auth.py\<close>, \<^verbatim>\<open>api/app.py\<close>); it hands the handlers a subject
    with roles, permissions and teams.
  \<^item> Ownership.  \<open>Ownership\<close> (\<^verbatim>\<open>domain/models/ownership.py\<close>, the predicates of
    \<^verbatim>\<open>application/visibility.py\<close>), \<open>TeamDirectory\<close> and \<open>Teams\<close> (\<^verbatim>\<open>persistence/team_directory.py\<close>,
    \<^verbatim>\<open>application/teams.py\<close>), \<open>References\<close> and \<open>ReferenceGuard\<close> (what a resource uses, and which
    saves would break a reference), \<open>Backend\<close> (the contract of the definition stores),
    \<open>ScopedBackend\<close> (every operation of \<^verbatim>\<open>VisibilityScopedBackend\<close> and \<^verbatim>\<open>WorkflowSources\<close>) and
    \<open>Grants\<close> (\<^verbatim>\<open>application/grants.py\<close>).  A stored resource is a record; the stores of the four kinds
    are one world record, and an operation maps the world to a result and a new world.
  \<^item> Destructive operations.  \<open>Destructive\<close> tells which data-source operations destroy or write;
    \<open>ApprovalStore\<close>, \<open>Approvals\<close> and \<open>ApprovalGuarantees\<close> are the cases, the approval service that
    opens, decides, expires and vetoes them and consults the meta-LLM, and what holds along every
    history of those operations (\<^verbatim>\<open>domain/models/approval_case.py\<close>,
    \<^verbatim>\<open>application/approval_service.py\<close>).
  \<^item> Runners.  \<open>RunnerStore\<close>, \<open>Limiter\<close>, \<open>Enrollment\<close> and \<open>Hub\<close> are the enrollment of a machine by
    number matching, its rate limiter, its storage and the live sockets with the requests
    waiting on them (\<^verbatim>\<open>application/runners.py\<close>, \<^verbatim>\<open>persistence/runner_backend.py\<close>).
  \<^item> Workflows as written.  \<open>StepEdges\<close> is the normalisation of a step list, the edges drawn from it
    and the edges the graph runner builds (\<^verbatim>\<open>application/step_normalization.py\<close>,
    \<^verbatim>\<open>YamlGraphRunner._build\<close>).
  \<^item> Job workflows.  \<open>JobModel\<close> (\<^verbatim>\<open>domain/models/dynamic.py\<close>), \<open>JobRules\<close> (\<^verbatim>\<open>dynamic/dispatcher.py\<close>:
    validation and the cycle search), \<open>JobEngine\<close> (\<^verbatim>\<open>dynamic/engine.py\<close>: all of \<^verbatim>\<open>JobDag\<close>) and
    \<open>MetaAgent\<close> (\<^verbatim>\<open>dynamic/meta_agent.py\<close>) are the step that plans and runs a DAG of jobs.  The record
    of a run is \<open>run_state\<close>; a pass maps events, a human's resolution and the record to a step
    (attempts to launch and stop, answers to deliver) and a new record.  \<open>JobHub\<close> (\<^verbatim>\<open>dynamic/hub.py\<close>,
    \<^verbatim>\<open>dynamic/graph.py\<close>, \<^verbatim>\<open>services/agent_inbox.py\<close>) is what carries the steps out and collects the
    events, and \<open>JobMirror\<close> (\<^verbatim>\<open>dynamic/node.py\<close>) the mirror of the record on the run and the check of
    dynamic steps when a workflow is saved.
  \<^item> Runs.  \<open>RunModel\<close> is the document of a run and its repository
    (\<^verbatim>\<open>domain/models/graph_run.py\<close>, \<^verbatim>\<open>persistence/mongo.py\<close>).  \<open>JsonText\<close> is the JSON text of a value and
    the reader of it, and \<open>StepOutputs\<close> what a step leaves in object storage
    (\<^verbatim>\<open>orchestration/step_outputs.py\<close>): the file of an execution, the references the state keeps instead
    of big values, the cache of files, and what puts the values back.
  \<^item> Workflows as run.  \<open>RunNodes\<close> is the state of a run with its schema and reducers, the wrappers around
    the body of a step, the bodies that only look at the state and the routers
    (\<^verbatim>\<open>orchestration/yaml_graph.py\<close>); \<open>RunStream\<close> what drives the graph and writes the run as its
    chunks come (\<^verbatim>\<open>stream_graph_to_pause\<close>, \<^verbatim>\<open>_stream_graph\<close> of \<^verbatim>\<open>api/routes/workflows.py\<close>);
    \<open>RunControl\<close> the operations on a run (\<^verbatim>\<open>application/run_control.py\<close>) and \<open>Recovery\<close> what a restart of
    the server does to unfinished runs (\<^verbatim>\<open>core/container.py\<close>).  The record \<open>container\<close> holds the runs,
    the runners, the world of definitions and the approvals; control calls the scoped backend for
    visibility, the approval service to take cases down, \<open>JobEngine\<close> to reset dynamic steps, and the
    streams to go on.
\<close>

text \<open>
  What the lemmas show.  Each component has an invariant of its state and a lemma per operation that
  keeps it, and the properties rest on these:

  \<^item> \<open>ScopedBackend\<close>, \<open>Grants\<close>, \<open>Teams\<close>: relations of one operation, their reachable worlds, and
    by induction over them that references stay inside what their users may see, that grants are
    consistent, and that only the entitled change anything.
  \<^item> \<open>Approvals\<close>, \<open>ApprovalGuarantees\<close>: a case is closed once; autonomy is earned by human decisions;
    a dead run leaves no open case.
  \<^item> \<open>Enrollment\<close>, \<open>Hub\<close>: a credential is minted once; nobody waits on a dead socket.
  \<^item> \<open>JobInvariant\<close>, \<open>JobPasses\<close>, \<open>JobSchedule\<close>, \<open>JobGuarantees\<close>: the relation \<open>quiet\<close> bundles what every
    operation but launching keeps (the record in order, nothing rewritten, no job started), \<open>calm\<close>
    and \<open>pass_ok\<close> what a whole pass keeps; \<open>dag_history\<close> is every sequence of passes and manual
    retries.  \<open>JobDownstream\<close> is what lies downstream of a job and what a rewind does to it,
    \<open>JobStructure\<close> the meaning of a DAG without structure errors, \<open>JobProperties\<close> the properties,
    with concrete workflows as witnesses.
  \<^item> \<open>JobHub\<close>, \<open>JobMirror\<close>: no launched attempt is forgotten and the graph never waits for nothing; a
    result recorded on the run is given back after a restart.
  \<^item> \<open>JsonText\<close>: what is written is read back; \<open>StepOutputs\<close>: the store with its cache refines a plain
    store of files, and a value put into storage comes back as it was; \<open>RunModel\<close>: the pages of the run
    list are the runs that match, and a paused run is claimed once.
  \<^item> \<open>RunNodes\<close>: \<open>make_node_returns\<close> says what a guarded node may write, and from it that a failure stops
    the run, loops are bounded and a fan-in proceeds once; \<open>RunStream\<close>: a stream parks the run and
    records the outputs; \<open>RunControl\<close>: who may control a run, that it is decided once, that a terminated
    run is dead with all that belongs to it, and that a retry starts from the state the run had;
    \<open>Recovery\<close>: a run that takes the server down is given up after the limit.

  Interfaces are locales, interpreted on the model's own definitions: the contract of a definition
  store (\<open>Backend\<close>), of a store with a compare-and-set status (\<open>RunnerStore\<close>, \<open>ApprovalStore\<close>,
  \<open>RunModel\<close>), of a store of files (\<open>StepOutputs\<close>) and
  of a meta-agent (\<open>MetaAgent\<close>: what it decides has passed the check it was given).
\<close>

text \<open>
  Bounds and recursion.  Loops of the source are recursion on data, with a measure where it is not
  structural.  The depth of the cycle search is the number of jobs, which \<open>has_cycle_iff\<close> shows to
  be enough for every graph; the rounds of a pass are four, as in the source; the histories that
  an approval's evidence is drawn from hold the 25 latest decisions, as in the source.  Integers of
  the source are unbounded; times are integers, counters natural numbers.

  Arguments of the model: the clock, random ids and codes, the hash of a credential, the validation
  of a token, the answers of a language model and the parser of its JSON, the text of prompts, and
  agents, scripts and workflows as far as no code here looks into them; the events of LangGraph's stream
  and its snapshots, the evaluation of a route's condition, and the bodies of the steps that call out.  Strings are lists of
  characters below code point 256; where a definition renders JSON, below 128.

  Not modelled: HTTP routes and MCP tools that only call the services above; the LangGraph runtime,
  containers and sockets themselves; the MongoDB and file implementations of the definition stores
  (their in-memory siblings are modelled); the bodies of the steps that call agents, models, data
  sources or scripts; data-source HTTP execution, sheet bindings, the script sandbox, configuration and
  wiring, triggers and notifications.  Await points are modelled where the order of
  operations matters (\<open>Hub\<close>, \<open>Approvals\<close>): an operation is cut at its awaits and its parts are
  steps of a history.
\<close>

end
